(* ===== verification/Exceptions.thy ===== *)
theory Exceptions
  imports Prelude
begin

text \<open>
  The exception classes the package raises and catches (exceptions.py), together with the
  builtin and Django classes its handlers mention. Only the class of an exception matters
  to the control flow, so messages are left out; \<open>AppError\<close> stands for any exception raised
  by application code (handlers, observers, hooks, clients).
\<close>

datatype exn =
    ValueError | TypeError | KeyError string | AttributeError | RuntimeError | OverflowError
  | SerializationError | DeserializationError | HandlerNotFoundError | MessageTimeoutError
  | DuplicateMessageError string | TransportError | IndeterminateDeliveryError
  | WorkerAbortError | DeliveryObservationError | DurableJobsNotConfiguredError
  | DurableJobConflictError | JobSeriesNotSupportedError | JobSeriesNotFoundError
  | InvalidMessageDefinitionError | IntegrityError | DoesNotExist | ValidationError
  | AppError string

type_synonym 'a res = "exn + 'a"

text \<open>
  Subclass tests of the \<open>except\<close> clauses. \<open>InvalidMessageDefinitionError\<close> derives from
  \<open>ValueError\<close>, \<open>IndeterminateDeliveryError\<close> from \<open>TransportError\<close>, and
  \<open>DeliveryObservationError\<close> from \<open>WorkerAbortError\<close>.
\<close>

fun is_value_error :: "exn \<Rightarrow> bool" where
  "is_value_error ValueError = True"
| "is_value_error InvalidMessageDefinitionError = True"
| "is_value_error e = False"

definition is_transport_error :: "exn \<Rightarrow> bool" where
  "is_transport_error e \<longleftrightarrow> e = TransportError \<or> e = IndeterminateDeliveryError"

definition is_worker_abort :: "exn \<Rightarrow> bool" where
  "is_worker_abort e \<longleftrightarrow> e = WorkerAbortError \<or> e = DeliveryObservationError"

text \<open>The exceptions that stop a worker instead of being retried (worker.py, listener.py).\<close>

definition is_fatal :: "exn \<Rightarrow> bool" where
  "is_fatal e \<longleftrightarrow> e = IndeterminateDeliveryError \<or> is_worker_abort e"

end
