(* ===== verification/PyText.thy ===== *)
theory PyText
  imports Exceptions
begin

text \<open>
  The text operations of Python the sources rely on: \<open>str.strip\<close>, \<open>str(int)\<close>,
  \<open>int(str)\<close> and zero-padded decimal formatting. A Python \<open>str\<close> is a HOL \<open>string\<close>, one
  \<open>char\<close> per code point, so the model covers strings over the Latin-1 range (code points
  below 256).
\<close>

section \<open>Whitespace and control characters\<close>

definition is_space :: "char \<Rightarrow> bool" where
  "is_space c = (let n = (of_char c :: nat) in
     (9 \<le> n \<and> n \<le> 13) \<or> (28 \<le> n \<and> n \<le> 32) \<or> n = 133 \<or> n = 160)"

definition is_control :: "char \<Rightarrow> bool" where
  "is_control c = (let n = (of_char c :: nat) in n < 32 \<or> (127 \<le> n \<and> n \<le> 159))"

definition strip :: "string \<Rightarrow> string" where
  "strip s = rev (dropWhile is_space (rev (dropWhile is_space s)))"

lemma strip_id:
  "s \<noteq> [] \<Longrightarrow> \<not> is_space (hd s) \<Longrightarrow> \<not> is_space (last s) \<Longrightarrow> strip s = s"
proof -
  assume "s \<noteq> []" and "\<not> is_space (hd s)" and "\<not> is_space (last s)"
  moreover from this have "dropWhile is_space s = s"
    by (cases s) auto
  moreover have "dropWhile is_space (rev s) = rev s"
    using calculation(1,3) by (cases "rev s") (auto simp: last_rev [symmetric] hd_rev)
  ultimately show ?thesis
    by (simp add: strip_def)
qed

lemma strip_eq_Nil: "strip s = [] \<longleftrightarrow> (\<forall>c \<in> set s. is_space c)"
proof -
  have "strip s = [] \<longleftrightarrow> (\<forall>c \<in> set (dropWhile is_space s). is_space c)"
    by (simp add: strip_def)
  also have "\<dots> \<longleftrightarrow> (\<forall>c \<in> set s. is_space c)"
    by (induction s) auto
  finally show ?thesis .
qed

section \<open>Decimal digits\<close>

definition digit :: "nat \<Rightarrow> char" where
  "digit n = char_of (48 + n)"

definition is_digit :: "char \<Rightarrow> bool" where
  "is_digit c = (let n = (of_char c :: nat) in 48 \<le> n \<and> n \<le> 57)"

definition digit_val :: "char \<Rightarrow> nat" where
  "digit_val c = of_char c - 48"

lemma of_char_digit [simp]: "n < 10 \<Longrightarrow> (of_char (digit n) :: nat) = 48 + n"
  by (simp add: digit_def)

lemma is_digit_digit [simp]: "n < 10 \<Longrightarrow> is_digit (digit n)"
  by (simp add: is_digit_def Let_def)

lemma digit_val_digit [simp]: "n < 10 \<Longrightarrow> digit_val (digit n) = n"
  by (simp add: digit_val_def)

lemma digit_not_space: "is_digit c \<Longrightarrow> \<not> is_space c"
  by (auto simp: is_digit_def is_space_def Let_def)

lemma is_digit_neq:
  "is_digit c \<Longrightarrow> c \<noteq> CHR ''-''" "is_digit c \<Longrightarrow> c \<noteq> CHR ''+''" "is_digit c \<Longrightarrow> c \<noteq> CHR ''_''"
  "is_digit c \<Longrightarrow> c \<noteq> CHR '':''" "is_digit c \<Longrightarrow> c \<noteq> CHR ''.''" "is_digit c \<Longrightarrow> c \<noteq> CHR '',''"
  "is_digit c \<Longrightarrow> c \<noteq> CHR ''Z''" "is_digit c \<Longrightarrow> c \<noteq> CHR ''W''" "is_digit c \<Longrightarrow> c \<noteq> CHR ''e''"
  "is_digit c \<Longrightarrow> c \<noteq> CHR ''E''" "is_digit c \<Longrightarrow> c \<noteq> CHR ''T''"
  by (auto simp: is_digit_def)

section \<open>str(int) and int(str)\<close>

fun nat_str :: "nat \<Rightarrow> string" where
  "nat_str n = (if n < 10 then [digit n] else nat_str (n div 10) @ [digit (n mod 10)])"

declare nat_str.simps [simp del]

definition int_str :: "int \<Rightarrow> string" where
  "int_str i = (if i < 0 then CHR ''-'' # nat_str (nat (- i)) else nat_str (nat i))"

text \<open>
  \<open>int(s)\<close> strips whitespace, accepts one sign, and reads decimal digits in which single
  underscores may separate digits; anything else raises \<open>ValueError\<close> (here \<open>None\<close>).
\<close>

fun parse_digits :: "nat \<Rightarrow> string \<Rightarrow> nat option" where
  "parse_digits acc [] = Some acc"
| "parse_digits acc [c] =
     (if is_digit c then Some (10 * acc + digit_val c) else None)"
| "parse_digits acc (c # d # cs) =
     (if is_digit c then parse_digits (10 * acc + digit_val c) (d # cs)
      else if c = CHR ''_'' \<and> is_digit d then parse_digits (10 * acc + digit_val d) cs
      else None)"

definition parse_nat :: "string \<Rightarrow> nat option" where
  "parse_nat s = (case s of [] \<Rightarrow> None | c # cs \<Rightarrow>
     if is_digit c then parse_digits (digit_val c) cs else None)"

definition py_int :: "string \<Rightarrow> int option" where
  "py_int s = (case strip s of [] \<Rightarrow> None | c # cs \<Rightarrow>
     if c = CHR ''-'' then map_option (\<lambda>n. - int n) (parse_nat cs)
     else if c = CHR ''+'' then map_option int (parse_nat cs)
     else map_option int (parse_nat (c # cs)))"

lemma nat_str_nonempty [simp]: "nat_str n \<noteq> []"
  by (subst nat_str.simps) simp

lemma nat_str_digits: "c \<in> set (nat_str n) \<Longrightarrow> is_digit c"
proof (induction n rule: nat_str.induct)
  case (1 n)
  then show ?case
    by (subst (asm) nat_str.simps [of n]) (auto split: if_splits)
qed

text \<open>Reading plain digits from the left is the usual positional evaluation.\<close>

definition digits_val :: "nat \<Rightarrow> string \<Rightarrow> nat" where
  "digits_val acc s = fold (\<lambda>c a. 10 * a + digit_val c) s acc"

lemma parse_digits_plain:
  "(\<And>c. c \<in> set s \<Longrightarrow> is_digit c) \<Longrightarrow> parse_digits acc s = Some (digits_val acc s)"
  by (induction acc s rule: parse_digits.induct) (auto simp: digits_val_def)

lemma digits_val_append: "digits_val acc (s @ [c]) = 10 * digits_val acc s + digit_val c"
  by (simp add: digits_val_def)

lemma digits_val_nat_str: "digits_val 0 (nat_str n) = n"
proof (induction n rule: nat_str.induct)
  case (1 n)
  show ?case
  proof (cases "n < 10")
    case True
    then show ?thesis by (subst nat_str.simps) (simp add: digits_val_def)
  next
    case False
    then show ?thesis
      using "1.IH" by (subst nat_str.simps) (simp add: digits_val_append)
  qed
qed

lemma parse_nat_plain:
  assumes "s \<noteq> []" and "\<And>c. c \<in> set s \<Longrightarrow> is_digit c"
  shows "parse_nat s = Some (digits_val 0 s)"
proof -
  obtain c cs where s: "s = c # cs" using assms(1) by (cases s) auto
  have "parse_digits (digit_val c) cs = Some (digits_val (digit_val c) cs)"
    using assms(2) by (intro parse_digits_plain) (simp add: s)
  then show ?thesis
    using assms(2) by (simp add: parse_nat_def s digits_val_def)
qed

lemma parse_nat_nat_str [simp]: "parse_nat (nat_str n) = Some n"
  using parse_nat_plain [of "nat_str n"] by (simp add: nat_str_digits digits_val_nat_str)

lemma strip_digits:
  assumes "s \<noteq> []" and "\<And>c. c \<in> set s \<Longrightarrow> is_digit c"
  shows "strip s = s" "strip (CHR ''-'' # s) = CHR ''-'' # s"
proof -
  have ends: "\<not> is_space (hd s)" "\<not> is_space (last s)"
    using assms digit_not_space by (meson hd_in_set last_in_set)+
  have minus: "\<not> is_space CHR ''-''" by (simp add: is_space_def)
  show "strip s = s" using assms(1) ends by (rule strip_id)
  show "strip (CHR ''-'' # s) = CHR ''-'' # s"
    by (rule strip_id) (use assms(1) ends minus in auto)
qed

text \<open>Printing an integer and reading it back gives the same integer.\<close>

lemma py_int_int_str [simp]: "py_int (int_str i) = Some i"
proof (cases "i < 0")
  case True
  have "strip (CHR ''-'' # nat_str (nat (- i))) = CHR ''-'' # nat_str (nat (- i))"
    using strip_digits(2) [of "nat_str (nat (- i))"] by (auto dest: nat_str_digits)
  with True show ?thesis by (simp add: py_int_def int_str_def)
next
  case False
  obtain c cs where s: "nat_str (nat i) = c # cs"
    using nat_str_nonempty by (metis neq_Nil_conv)
  have "is_digit c" using s nat_str_digits [of c "nat i"] by simp
  moreover have "strip (nat_str (nat i)) = nat_str (nat i)"
    using strip_digits(1) [of "nat_str (nat i)"] by (auto dest: nat_str_digits)
  moreover have "parse_nat (c # cs) = Some (nat i)" using parse_nat_nat_str [of "nat i"] s by simp
  ultimately show ?thesis using False s is_digit_neq(1,2) [of c]
    by (simp add: py_int_def int_str_def)
qed

section \<open>Zero-padded fields\<close>

text \<open>\<open>f"{n:02d}"\<close>, \<open>04d\<close> and \<open>06d\<close> on the ranges where the width is exact.\<close>

fun pad :: "nat \<Rightarrow> nat \<Rightarrow> string" where
  "pad 0 n = []"
| "pad (Suc w) n = pad w (n div 10) @ [digit (n mod 10)]"

lemma length_pad [simp]: "length (pad w n) = w"
  by (induction w n rule: pad.induct) auto

lemma pad_digits: "c \<in> set (pad w n) \<Longrightarrow> is_digit c"
  by (induction w n rule: pad.induct) auto

lemma digits_val_pad: "n < 10 ^ w \<Longrightarrow> digits_val 0 (pad w n) = n"
proof (induction w n rule: pad.induct)
  case (1 n)
  then show ?case by (simp add: digits_val_def)
next
  case (2 w n)
  then have "n div 10 < 10 ^ w" by (simp add: less_mult_imp_div_less)
  with "2.IH" show ?case by (simp add: digits_val_append)
qed

end
