(* ===== verification/PyTime.thy ===== *)
theory PyTime
  imports PyText
begin

text \<open>
  Python's \<open>datetime\<close>: the proleptic Gregorian calendar, aware and naive datetimes,
  \<open>isoformat\<close> and \<open>fromisoformat\<close>. A datetime is its local wall-clock reading in
  microseconds since 0001-01-01T00:00 and, when aware, its offset from UTC in microseconds.
  Stored timestamps elsewhere are plain \<open>int\<close> instants: microseconds since the same epoch
  in UTC.
\<close>

type_synonym instant = int

section \<open>The calendar\<close>

definition is_leap :: "int \<Rightarrow> bool" where
  "is_leap y \<longleftrightarrow> y mod 4 = 0 \<and> (y mod 100 \<noteq> 0 \<or> y mod 400 = 0)"

definition days_in_month :: "int \<Rightarrow> int \<Rightarrow> int" where
  "days_in_month y m =
     (if m = 2 then (if is_leap y then 29 else 28)
      else if m = 4 \<or> m = 6 \<or> m = 9 \<or> m = 11 then 30 else 31)"

definition days_before_year :: "int \<Rightarrow> int" where
  "days_before_year y =
     (y - 1) * 365 + (y - 1) div 4 - (y - 1) div 100 + (y - 1) div 400"

definition days_before_month :: "int \<Rightarrow> int \<Rightarrow> int" where
  "days_before_month y m =
     (if m \<le> 1 then 0 else if m = 2 then 31
      else (if is_leap y then 1 else 0) +
        (if m = 3 then 59 else if m = 4 then 90 else if m = 5 then 120 else if m = 6 then 151
         else if m = 7 then 181 else if m = 8 then 212 else if m = 9 then 243
         else if m = 10 then 273 else if m = 11 then 304 else if m = 12 then 334 else 365))"

text \<open>Day numbers count from 0 at 0001-01-01 (Python's ordinal minus one).\<close>

definition ymd_days :: "int \<Rightarrow> int \<Rightarrow> int \<Rightarrow> int" where
  "ymd_days y m d = days_before_year y + days_before_month y m + (d - 1)"

definition year_of :: "int \<Rightarrow> int" where
  "year_of n = (let e = n * 400 div 146097 + 1 in
     if n < days_before_year e then e - 1
     else if days_before_year (e + 1) \<le> n then e + 1 else e)"

text \<open>The last month of the year that starts no later than day \<open>r\<close> of the year.\<close>

fun month_down :: "int \<Rightarrow> int \<Rightarrow> nat \<Rightarrow> int" where
  "month_down y r 0 = 1"
| "month_down y r (Suc k) =
     (if days_before_month y (int (Suc k)) \<le> r then int (Suc k) else month_down y r k)"

definition month_of :: "int \<Rightarrow> int \<Rightarrow> int" where
  "month_of y r = month_down y r 12"

definition days_ymd :: "int \<Rightarrow> int \<times> int \<times> int" where
  "days_ymd n = (let y = year_of n; r = n - days_before_year y; m = month_of y r
     in (y, m, r - days_before_month y m + 1))"

definition valid_ymd :: "int \<Rightarrow> int \<Rightarrow> int \<Rightarrow> bool" where
  "valid_ymd y m d \<longleftrightarrow> 1 \<le> m \<and> m \<le> 12 \<and> 1 \<le> d \<and> d \<le> days_in_month y m"

lemma year_length:
  "days_before_year (y + 1) = days_before_year y + (if is_leap y then 366 else 365)"
proof -
  have q: "y div k = (y - 1) div k + (if y mod k = 0 then 1 else 0)" if "0 < k" for k :: int
  proof (cases "y mod k = 0")
    case True
    then obtain c where y: "y = k * c" by (auto elim: dvdE)
    have "(y - 1) div k = c - 1"
      by (rule int_div_pos_eq [where r = "k - 1"]) (use that in \<open>auto simp: y algebra_simps\<close>)
    with True that show ?thesis by (simp add: y)
  next
    case False
    have "0 \<le> y mod k" "y mod k < k" using that by simp_all
    with False have "0 < y mod k" "y mod k < k" by simp_all
    then have "(y - 1) div k = y div k"
      by (intro int_div_pos_eq [where r = "y mod k - 1"]) (auto simp: algebra_simps)
    with False show ?thesis by simp
  qed
  have d: "4 dvd y" if "100 dvd y" using that by (rule dvd_trans [rotated]) simp
  have d': "100 dvd y" if "400 dvd y" using that by (rule dvd_trans [rotated]) simp
  have "days_before_year (y + 1) - days_before_year y =
      365 + (if 4 dvd y then 1 else 0) - (if 100 dvd y then 1 else 0) + (if 400 dvd y then 1 else 0)"
    using q [of 4] q [of 100] q [of 400]
    by (simp add: days_before_year_def mod_eq_0_iff_dvd algebra_simps)
  moreover have "is_leap y \<longleftrightarrow> 4 dvd y \<and> (\<not> 100 dvd y \<or> 400 dvd y)"
    by (simp add: is_leap_def mod_eq_0_iff_dvd)
  ultimately show ?thesis
    using d d' by (cases "4 dvd y"; cases "100 dvd y"; cases "400 dvd y") auto
qed

lemma days_before_year_step: "days_before_year y + 365 \<le> days_before_year (y + 1)"
  by (simp add: year_length)

lemma days_before_year_mono: "y \<le> z \<Longrightarrow> days_before_year y \<le> days_before_year z"
proof (induction z rule: int_ge_induct)
  case base
  show ?case by simp
next
  case (step z)
  then show ?case using days_before_year_step [of z] by simp
qed

lemma days_before_year_less: "y < z \<Longrightarrow> days_before_year y < days_before_year z"
  using days_before_year_step [of y] days_before_year_mono [of "y + 1" z] by simp


text \<open>The year estimated from the mean year length is off by at most one.\<close>

lemma days_before_year_bounds:
  "146097 * (y - 1) - 699 \<le> 400 * days_before_year y"
  "400 * days_before_year y \<le> 146097 * (y - 1) + 396"
proof -
  have b: "k * (x div k) \<le> x" "x - (k - 1) \<le> k * (x div k)" if "0 < k" for k x :: int
    using that pos_mod_bound [of k x] pos_mod_sign [of k x] mult_div_mod_eq [of k x] by linarith+
  show "146097 * (y - 1) - 699 \<le> 400 * days_before_year y"
    using b [of 4 "y - 1"] b [of 100 "y - 1"] b [of 400 "y - 1"]
    by (simp add: days_before_year_def algebra_simps)
  show "400 * days_before_year y \<le> 146097 * (y - 1) + 396"
    using b [of 4 "y - 1"] b [of 100 "y - 1"] b [of 400 "y - 1"]
    by (simp add: days_before_year_def algebra_simps)
qed

lemma year_estimate:
  fixes n :: int
  defines "e \<equiv> n * 400 div 146097 + 1"
  shows "days_before_year (e - 1) \<le> n" and "n < days_before_year (e + 2)"
proof -
  define Y where "Y = n * 400 div 146097"
  have Y: "146097 * Y \<le> n * 400" "n * 400 < 146097 * Y + 146097"
    using mult_div_mod_eq [of 146097 "n * 400"] pos_mod_bound [of 146097 "n * 400"]
      pos_mod_sign [of 146097 "n * 400"] unfolding Y_def by linarith+
  have e: "e = Y + 1" by (simp add: e_def Y_def)
  show "days_before_year (e - 1) \<le> n"
    using Y days_before_year_bounds(2) [of Y] by (simp add: e)
  show "n < days_before_year (e + 2)"
    using Y days_before_year_bounds(1) [of "Y + 3"] by (simp add: e add.commute)
qed

lemma year_of_bounds:
  "days_before_year (year_of n) \<le> n" "n < days_before_year (year_of n + 1)"
  using year_estimate [of n] by (auto simp: year_of_def Let_def algebra_simps)

lemma year_of_unique:
  assumes "days_before_year y \<le> n" and "n < days_before_year (y + 1)"
  shows "year_of n = y"
proof (rule ccontr)
  assume "year_of n \<noteq> y"
  then consider "year_of n + 1 \<le> y" | "y + 1 \<le> year_of n" by linarith
  then show False
    using assms year_of_bounds [of n] days_before_year_mono
    by cases (force dest: days_before_year_mono)+
qed

lemma days_before_month_next:
  assumes "1 \<le> m" and "m \<le> 12"
  shows "days_before_month y (m + 1) = days_before_month y m + days_in_month y m"
proof -
  have "m \<in> {1, 2, 3, 4, 5, 6, 7, 8, 9, 10, 11, 12}"
    using assms by simp presburger
  then show ?thesis by (auto simp: days_before_month_def days_in_month_def)
qed

lemma days_in_month_pos: "28 \<le> days_in_month y m"
  by (simp add: days_in_month_def)

lemma days_before_month_mono:
  assumes "m \<le> k" and "1 \<le> m" and "k \<le> 13"
  shows "days_before_month y m \<le> days_before_month y k"
  using assms
proof (induction k rule: int_ge_induct)
  case base
  show ?case by simp
next
  case (step k)
  then show ?case
    using days_before_month_next [of k y] days_in_month_pos [of y k] by simp
qed

lemma month_down_spec:
  assumes "0 \<le> r" and "r < days_before_month y (int (Suc k))" and "0 < k" and "k \<le> 12"
  shows "1 \<le> month_down y r k \<and> month_down y r k \<le> 12
    \<and> days_before_month y (month_down y r k) \<le> r
    \<and> r < days_before_month y (month_down y r k + 1)"
  using assms
proof (induction k)
  case 0
  then show ?case by simp
next
  case (Suc k)
  show ?case
  proof (cases "days_before_month y (int (Suc k)) \<le> r")
    case True
    with Suc.prems show ?thesis by (simp add: algebra_simps)
  next
    case False
    then have "0 < k" using Suc.prems(1) by (cases k) (simp_all add: days_before_month_def)
    with False Suc show ?thesis by simp
  qed
qed

lemma month_of_spec:
  assumes "0 \<le> r" and "r < (if is_leap y then 366 else 365)"
  shows "1 \<le> month_of y r" "month_of y r \<le> 12"
    "days_before_month y (month_of y r) \<le> r"
    "r < days_before_month y (month_of y r) + days_in_month y (month_of y r)"
proof -
  have "r < days_before_month y (int (Suc 12))"
    using assms(2) by (simp add: days_before_month_def split: if_splits)
  then have *: "1 \<le> month_of y r \<and> month_of y r \<le> 12 \<and> days_before_month y (month_of y r) \<le> r
      \<and> r < days_before_month y (month_of y r + 1)"
    unfolding month_of_def using assms(1) by (intro month_down_spec) simp_all
  then show "1 \<le> month_of y r" "month_of y r \<le> 12" "days_before_month y (month_of y r) \<le> r"
    "r < days_before_month y (month_of y r) + days_in_month y (month_of y r)"
    using days_before_month_next [of "month_of y r" y] by simp_all
qed

lemma days_before_month_bound:
  assumes "valid_ymd y m d"
  shows "0 \<le> days_before_month y m + (d - 1)"
    "days_before_month y m + (d - 1) < (if is_leap y then 366 else 365)"
proof -
  have m: "1 \<le> m" "m \<le> 12" "1 \<le> d" "d \<le> days_in_month y m" using assms by (auto simp: valid_ymd_def)
  have "days_before_month y 1 \<le> days_before_month y m"
    using m by (intro days_before_month_mono) auto
  then show "0 \<le> days_before_month y m + (d - 1)"
    using m by (simp add: days_before_month_def split: if_splits)
  have "days_before_month y (m + 1) \<le> days_before_month y 13"
    using m by (intro days_before_month_mono) auto
  also have "days_before_month y 13 = (if is_leap y then 366 else 365)"
    by (simp add: days_before_month_def)
  finally show "days_before_month y m + (d - 1) < (if is_leap y then 366 else 365)"
    using m days_before_month_next [of m y] by linarith
qed

lemma month_of_unique:
  assumes "valid_ymd y m d"
  shows "month_of y (days_before_month y m + (d - 1)) = m"
proof -
  let ?r = "days_before_month y m + (d - 1)"
  note r = month_of_spec [OF days_before_month_bound [OF assms]]
  have m: "1 \<le> m" "m \<le> 12" "1 \<le> d" "d \<le> days_in_month y m" using assms by (auto simp: valid_ymd_def)
  show ?thesis
  proof (rule linorder_cases)
    assume "month_of y ?r < m"
    then have "days_before_month y (month_of y ?r + 1) \<le> days_before_month y m"
      using m r by (intro days_before_month_mono) auto
    then show ?thesis using m r days_before_month_next [of "month_of y ?r" y] by linarith
  next
    assume "m < month_of y ?r"
    then have "days_before_month y (m + 1) \<le> days_before_month y (month_of y ?r)"
      using m r by (intro days_before_month_mono) auto
    then show ?thesis using m r days_before_month_next [of m y] by linarith
  qed
qed

lemma days_ymd_ymd_days:
  assumes "valid_ymd y m d"
  shows "days_ymd (ymd_days y m d) = (y, m, d)"
proof -
  have y: "year_of (ymd_days y m d) = y"
    using days_before_month_bound [OF assms]
    by (intro year_of_unique) (auto simp: ymd_days_def year_length)
  have "month_of y (ymd_days y m d - days_before_year y) = m"
    using month_of_unique [OF assms] by (simp add: ymd_days_def algebra_simps)
  then show ?thesis
    by (simp add: days_ymd_def y Let_def) (simp add: ymd_days_def)
qed

lemma ymd_days_days_ymd:
  assumes "days_ymd n = (y, m, d)"
  shows "ymd_days y m d = n" "valid_ymd y m d"
proof -
  have r: "0 \<le> n - days_before_year (year_of n)"
    "n - days_before_year (year_of n) < (if is_leap (year_of n) then 366 else 365)"
    using year_of_bounds [of n] year_length [of "year_of n"] by linarith+
  note m = month_of_spec [OF r]
  from assms have *: "y = year_of n" "m = month_of y (n - days_before_year y)"
    "d = n - days_before_year y - days_before_month y m + 1"
    by (auto simp: days_ymd_def Let_def)
  show "ymd_days y m d = n" using * by (simp add: ymd_days_def)
  show "valid_ymd y m d" using m unfolding valid_ymd_def * by auto
qed

section \<open>Datetimes\<close>

record datetime =
  dt_local :: int
  dt_offset :: "int option"

abbreviation us_second :: int where "us_second \<equiv> 1000000"
abbreviation us_day :: int where "us_day \<equiv> 86400000000"

text \<open>\<open>datetime.min\<close> to \<open>datetime.max\<close>, and offsets strictly between -24h and 24h.\<close>

definition in_range :: "int \<Rightarrow> bool" where
  "in_range l \<longleftrightarrow> 0 \<le> l \<and> l < 3652059 * us_day"

definition valid_datetime :: "datetime \<Rightarrow> bool" where
  "valid_datetime d \<longleftrightarrow> in_range (dt_local d) \<and>
     (case dt_offset d of None \<Rightarrow> True | Some off \<Rightarrow> - us_day < off \<and> off < us_day)"

definition is_aware :: "datetime \<Rightarrow> bool" where
  "is_aware d \<longleftrightarrow> dt_offset d \<noteq> None"

definition utc_of :: "datetime \<Rightarrow> instant" where
  "utc_of d = dt_local d - (case dt_offset d of None \<Rightarrow> 0 | Some off \<Rightarrow> off)"

definition at_utc :: "instant \<Rightarrow> datetime" where
  "at_utc t = \<lparr>dt_local = t, dt_offset = Some 0\<rparr>"

definition date_of :: "datetime \<Rightarrow> int" where
  "date_of d = dt_local d div us_day"

definition time_of_day :: "datetime \<Rightarrow> nat" where
  "time_of_day d = nat (dt_local d mod us_day)"

text \<open>Monday is 0; 0001-01-01 was a Monday.\<close>

definition weekday :: "datetime \<Rightarrow> int" where
  "weekday d = date_of d mod 7"

lemma utc_of_at_utc [simp]: "utc_of (at_utc t) = t"
  by (simp add: utc_of_def at_utc_def)

lemma is_aware_at_utc [simp]: "is_aware (at_utc t)"
  by (simp add: is_aware_def at_utc_def)

section \<open>isoformat\<close>

abbreviation colon :: char where "colon \<equiv> CHR '':''"
abbreviation dot :: char where "dot \<equiv> CHR ''.''"
abbreviation dash :: char where "dash \<equiv> CHR ''-''"

definition fmt_time :: "nat \<Rightarrow> string" where
  "fmt_time t =
     pad 2 (t div 3600000000) @ [colon] @ pad 2 (t div 60000000 mod 60) @ [colon] @
     pad 2 (t div 1000000 mod 60) @
     (if t mod 1000000 = 0 then [] else dot # pad 6 (t mod 1000000))"

definition fmt_offset :: "int \<Rightarrow> string" where
  "fmt_offset off = (let a = nat \<bar>off\<bar> in
     (if off < 0 then dash else CHR ''+'') #
     pad 2 (a div 3600000000) @ [colon] @ pad 2 (a div 60000000 mod 60) @
     (if a mod 60000000 = 0 then []
      else [colon] @ pad 2 (a div 1000000 mod 60) @
        (if a mod 1000000 = 0 then [] else dot # pad 6 (a mod 1000000))))"

definition fmt_date :: "int \<Rightarrow> string" where
  "fmt_date n = (case days_ymd n of (y, m, d) \<Rightarrow>
     pad 4 (nat y) @ [dash] @ pad 2 (nat m) @ [dash] @ pad 2 (nat d))"

definition isoformat :: "datetime \<Rightarrow> string" where
  "isoformat d = fmt_date (date_of d) @ CHR ''T'' # fmt_time (time_of_day d) @
     (case dt_offset d of None \<Rightarrow> [] | Some off \<Rightarrow> fmt_offset off)"

section \<open>fromisoformat\<close>

text \<open>
  The ISO 8601 forms: extended or compact calendar date, any separator character, a time of
  two to four components in extended or compact form with a fraction of any length
  (truncated to microseconds), and \<open>Z\<close> or a signed offset. Week dates are outside the
  model: the reader rejects them.
\<close>

definition take_digits :: "nat \<Rightarrow> string \<Rightarrow> (nat \<times> string) option" where
  "take_digits k s = (if k \<le> length s \<and> list_all is_digit (take k s)
     then Some (digits_val 0 (take k s), drop k s) else None)"

definition parse_fraction :: "string \<Rightarrow> nat option" where
  "parse_fraction s = (if s \<noteq> [] \<and> list_all is_digit s
     then Some (digits_val 0 (take 6 (s @ ''00000''))) else None)"

definition parse_seconds :: "nat \<Rightarrow> string \<Rightarrow> nat option" where
  "parse_seconds acc s = (case take_digits 2 s of None \<Rightarrow> None | Some (sec, r) \<Rightarrow>
     let t = acc + sec * 1000000 in
     (case r of [] \<Rightarrow> Some t | c # f \<Rightarrow>
        if c = dot \<or> c = CHR '','' then map_option (\<lambda>us. t + us) (parse_fraction f) else None))"

definition parse_time :: "string \<Rightarrow> nat option" where
  "parse_time s = (case take_digits 2 s of None \<Rightarrow> None | Some (h, r) \<Rightarrow>
     let sep = (case r of [] \<Rightarrow> False | c # _ \<Rightarrow> c = colon) in
     if r = [] then Some (h * 3600000000)
     else (case take_digits 2 (if sep then tl r else r) of None \<Rightarrow> None | Some (m, r2) \<Rightarrow>
       let t = h * 3600000000 + m * 60000000 in
       if r2 = [] then Some t
       else if sep then (if hd r2 = colon then parse_seconds t (tl r2) else None)
       else parse_seconds t r2))"

text \<open>Clock readings must be in range; an offset only has to be below 24 hours.\<close>

definition clock_ok :: "string \<Rightarrow> bool" where
  "clock_ok s = (case take_digits 2 s of None \<Rightarrow> False | Some (h, r) \<Rightarrow> h < 24 \<and>
     (let r' = (case r of [] \<Rightarrow> [] | c # cs \<Rightarrow> if c = colon then cs else r) in
      case take_digits 2 r' of None \<Rightarrow> True | Some (m, r2) \<Rightarrow> m < 60 \<and>
     (let r2' = (case r2 of [] \<Rightarrow> [] | c # cs \<Rightarrow> if c = colon then cs else r2) in
      case take_digits 2 r2' of None \<Rightarrow> True | Some (sec, _) \<Rightarrow> sec < 60)))"

definition parse_date :: "string \<Rightarrow> int option" where
  "parse_date s = (case take_digits 4 s of None \<Rightarrow> None | Some (y, r) \<Rightarrow>
     let sep = (r \<noteq> [] \<and> hd r = dash) in
     (case take_digits 2 (if sep then tl r else r) of None \<Rightarrow> None | Some (m, r2) \<Rightarrow>
       if sep \<and> (r2 = [] \<or> hd r2 \<noteq> dash) then None
       else (case take_digits 2 (if sep then tl r2 else r2) of None \<Rightarrow> None | Some (d, r3) \<Rightarrow>
         if r3 = [] \<and> 1 \<le> y \<and> valid_ymd (int y) (int m) (int d)
         then Some (ymd_days (int y) (int m) (int d)) else None)))"

definition is_zone_mark :: "char \<Rightarrow> bool" where
  "is_zone_mark c \<longleftrightarrow> c = CHR ''+'' \<or> c = dash \<or> c = CHR ''Z''"

definition parse_zone :: "string \<Rightarrow> int option option" where
  "parse_zone s = (case s of [] \<Rightarrow> Some None | c # r \<Rightarrow>
     if c = CHR ''Z'' then (if r = [] then Some (Some 0) else None)
     else (case parse_time r of None \<Rightarrow> None | Some a \<Rightarrow>
       if int a < us_day then Some (Some (if c = dash then - int a else int a)) else None))"

definition fromisoformat :: "string \<Rightarrow> datetime option" where
  "fromisoformat s =
     (let k = (if 4 < length s \<and> s ! 4 = dash then 10 else 8); rest = drop (k + 1) s;
          clock = takeWhile (\<lambda>c. \<not> is_zone_mark c) rest;
          zone = dropWhile (\<lambda>c. \<not> is_zone_mark c) rest in
      case parse_date (take k s) of None \<Rightarrow> None | Some n \<Rightarrow>
      if rest = [] then Some \<lparr>dt_local = n * us_day, dt_offset = None\<rparr>
      else if \<not> clock_ok clock then None
      else (case (parse_time clock, parse_zone zone) of
        (Some t, Some off) \<Rightarrow> Some \<lparr>dt_local = n * us_day + int t, dt_offset = off\<rparr>
      | _ \<Rightarrow> None))"

section \<open>Reading back what isoformat writes\<close>

lemma take_digits_pad [simp]: "n < 10 ^ k \<Longrightarrow> take_digits k (pad k n @ r) = Some (n, r)"
  by (auto simp: take_digits_def digits_val_pad list_all_iff dest: pad_digits)

lemma take_digits_pad_Nil [simp]: "n < 10 ^ k \<Longrightarrow> take_digits k (pad k n) = Some (n, [])"
  using take_digits_pad [of n k "[]"] by simp

lemma parse_fraction_pad [simp]:
  assumes "n < 1000000" shows "parse_fraction (pad 6 n) = Some n"
proof -
  have "pad 6 n \<noteq> []" using length_pad [of 6 n] by (metis list.size(3) zero_neq_numeral)
  moreover have "list_all is_digit (pad 6 n)" by (auto simp: list_all_iff dest: pad_digits)
  moreover have "digits_val 0 (pad 6 n) = n" using assms by (intro digits_val_pad) simp
  ultimately show ?thesis by (simp add: parse_fraction_def)
qed

lemma split_time:
  fixes t :: nat
  shows "t div 3600000000 * 3600000000 + t div 60000000 mod 60 * 60000000
     + t div 1000000 mod 60 * 1000000 + t mod 1000000 = t"
proof -
  have "t div 60000000 = t div 1000000 div 60" "t div 3600000000 = t div 60000000 div 60"
    by (simp_all add: div_mult2_eq [symmetric])
  then show ?thesis
    using div_mult_mod_eq [of t 1000000] div_mult_mod_eq [of "t div 1000000" 60]
      div_mult_mod_eq [of "t div 60000000" 60] by linarith
qed

lemma split_minutes:
  fixes t :: nat
  assumes "t mod 60000000 = 0"
  shows "t div 1000000 mod 60 = 0" "t mod 1000000 = 0"
proof -
  obtain q where q: "t = 60000000 * q" using assms by (auto elim: dvdE)
  have t: "t = 1000000 * (60 * q)" by (simp add: q)
  show "t mod 1000000 = 0" unfolding t by (rule mod_mult_self1_is_0)
  have "t div 1000000 = 60 * q" unfolding t by simp
  then show "t div 1000000 mod 60 = 0" by simp
qed

lemma parse_time_fmt_time:
  assumes "t < 86400000000" shows "parse_time (fmt_time t) = Some t"
proof -
  have h: "t div 3600000000 < 100" using assms by (simp add: less_mult_imp_div_less)
  have m: "t div 60000000 mod 60 < 100" "t div 1000000 mod 60 < 100"
    by (rule less_le_trans [OF mod_less_divisor], simp, simp)+
  show ?thesis
    using h m split_time [of t]
    by (simp add: parse_time_def parse_seconds_def fmt_time_def Let_def)
qed

lemma clock_ok_fmt_time:
  assumes "t < 86400000000" shows "clock_ok (fmt_time t)"
proof -
  have h: "t div 3600000000 < 24" using assms by (simp add: less_mult_imp_div_less)
  then have h': "t div 3600000000 < 10\<^sup>2" by simp
  have m: "t div 60000000 mod 60 < 60" "t div 1000000 mod 60 < 60" by simp_all
  then have m': "t div 60000000 mod 60 < 10\<^sup>2" "t div 1000000 mod 60 < 10\<^sup>2"
    by (auto intro: less_trans)
  show ?thesis
    using h h' m m'
    by (simp add: clock_ok_def fmt_time_def)
qed

lemma parse_zone_fmt_offset:
  assumes "- us_day < off" and "off < us_day"
  shows "parse_zone (fmt_offset off) = Some (Some off)"
proof -
  define a where "a = nat \<bar>off\<bar>"
  have a: "a < 86400000000" using assms by (simp add: a_def)
  have h: "a div 3600000000 < 100" using a by (simp add: less_mult_imp_div_less)
  have m: "a div 60000000 mod 60 < 100" "a div 1000000 mod 60 < 100"
    by (rule less_le_trans [OF mod_less_divisor], simp, simp)+
  have "parse_time (tl (fmt_offset off)) = Some a"
    using h m split_time [of a] split_minutes [of a]
    by (cases "a mod 60000000 = 0")
      (auto simp: parse_time_def parse_seconds_def fmt_offset_def Let_def a_def [symmetric])
  then obtain r where r: "fmt_offset off = (if off < 0 then dash else CHR ''+'') # r"
    "parse_time r = Some a"
    by (auto simp: fmt_offset_def Let_def)
  have "int a = (if off < 0 then - off else off)" by (simp add: a_def)
  then show ?thesis using a r by (auto simp: parse_zone_def)
qed

lemma fmt_time_no_mark: "c \<in> set (fmt_time t) \<Longrightarrow> \<not> is_zone_mark c"
  by (auto simp: fmt_time_def is_zone_mark_def dest!: pad_digits split: if_splits
      dest: is_digit_neq)

lemma fmt_offset_mark: "\<exists>c r. fmt_offset off = c # r \<and> is_zone_mark c"
  by (simp add: fmt_offset_def is_zone_mark_def Let_def)

lemma year_in_range:
  assumes "0 \<le> n" and "n < 3652059" shows "1 \<le> year_of n" "year_of n \<le> 9999"
proof -
  have "days_before_year 1 = 0" "days_before_year 10000 = 3652059"
    by (simp_all add: days_before_year_def)
  then show "1 \<le> year_of n" "year_of n \<le> 9999"
    using assms year_of_bounds [of n] days_before_year_mono [of "year_of n + 1" 1]
      days_before_year_mono [of 10000 "year_of n"] by linarith+
qed

lemma parse_date_fmt_date:
  assumes "0 \<le> n" and "n < 3652059"
  shows "parse_date (fmt_date n) = Some n" "length (fmt_date n) = 10" "fmt_date n ! 4 = dash"
proof -
  obtain y m d where ymd: "days_ymd n = (y, m, d)" by (cases "days_ymd n") auto
  have v: "ymd_days y m d = n" "valid_ymd y m d" using ymd_days_days_ymd [OF ymd] .
  have y: "1 \<le> y" "y \<le> 9999"
    using ymd year_in_range [OF assms] by (auto simp: days_ymd_def Let_def)
  have md: "1 \<le> m" "m \<le> 12" "1 \<le> d" "d \<le> 31"
    using v(2) by (auto simp: valid_ymd_def days_in_month_def split: if_splits)
  then have "nat y < 10 ^ 4" "nat m < 10 ^ 2" "nat d < 10 ^ 2" using y by auto
  then show "parse_date (fmt_date n) = Some n"
    using y md v by (simp add: parse_date_def fmt_date_def ymd Let_def)
  show "length (fmt_date n) = 10" by (simp add: fmt_date_def ymd)
  show "fmt_date n ! 4 = dash" by (simp add: fmt_date_def ymd nth_append)
qed

lemma split_day: "n = n div us_day * us_day + int (nat (n mod us_day))"
  by (simp add: pos_mod_sign)

lemma fromisoformat_isoformat [simp]:
  assumes "valid_datetime d" shows "fromisoformat (isoformat d) = Some d"
proof -
  define D where "D = fmt_date (date_of d)"
  define C where "C = fmt_time (time_of_day d)"
  define Z where "Z = (case dt_offset d of None \<Rightarrow> [] | Some off \<Rightarrow> fmt_offset off)"
  have range: "0 \<le> date_of d" "date_of d < 3652059"
    using assms by (auto simp: valid_datetime_def in_range_def date_of_def)
  have t: "time_of_day d < 86400000000" by (simp add: time_of_day_def)
  note D = parse_date_fmt_date [OF range, folded D_def]
  have iso: "isoformat d = D @ CHR ''T'' # C @ Z" by (simp add: isoformat_def D_def C_def Z_def)
  have k: "4 < length (isoformat d) \<and> isoformat d ! 4 = dash"
    using D by (simp add: iso nth_append)
  have rest: "drop 11 (isoformat d) = C @ Z" "take 10 (isoformat d) = D"
    using D(2) by (simp_all add: iso)
  have Zmark: "Z = [] \<or> (\<exists>c r. Z = c # r \<and> is_zone_mark c)"
    using fmt_offset_mark by (auto simp: Z_def split: option.splits)
  have marks: "takeWhile (\<lambda>c. \<not> is_zone_mark c) (C @ Z) = C"
    "dropWhile (\<lambda>c. \<not> is_zone_mark c) (C @ Z) = Z"
    using Zmark fmt_time_no_mark [of _ "time_of_day d"]
    by (auto simp: C_def takeWhile_append dropWhile_append)
  have zone: "parse_zone Z = Some (dt_offset d)"
    using assms parse_zone_fmt_offset
    by (auto simp: Z_def valid_datetime_def parse_zone_def [of "[]"] split: option.splits)
  have local: "date_of d * us_day + int (time_of_day d) = dt_local d"
    using split_day [of "dt_local d"] by (simp add: date_of_def time_of_day_def)
  have "C \<noteq> []" by (simp add: C_def fmt_time_def)
  then show ?thesis
    using k rest marks zone D(1) local parse_time_fmt_time [OF t] clock_ok_fmt_time [OF t]
    by (simp add: fromisoformat_def C_def)
qed

end
