(* ===== verification/PyValue.thy ===== *)
theory PyValue
  imports PyTime
begin

text \<open>
  Python values as they travel in message payloads and headers, and the JSON-safe tagging of
  \<^verbatim>\<open>_codec.py\<close>. Dictionary keys are strings, so the source's \<open>str(key)\<close> is the identity on
  them. A float is carried as its literal text; a \<open>Decimal\<close> as its text; a dataclass
  instance as the name of its type and its fields. Neither of the latter two is JSON.
\<close>

datatype pyval =
    PNone | PBool bool | PInt int | PFloat string | PStr string
  | PList "pyval list" | PTuple "pyval list" | PDict "(string \<times> pyval) list"
  | PDateTime datetime | PDate int | PTime nat "int option" | PUuid nat
  | PDecimal string | PData string "(string \<times> pyval) list"

section \<open>UUIDs as text\<close>

definition hex_digit :: "nat \<Rightarrow> char" where
  "hex_digit n = char_of (if n < 10 then 48 + n else 87 + n)"

definition hex_val :: "char \<Rightarrow> nat option" where
  "hex_val c = (let n = (of_char c :: nat) in
     if 48 \<le> n \<and> n \<le> 57 then Some (n - 48)
     else if 97 \<le> n \<and> n \<le> 102 then Some (n - 87)
     else if 65 \<le> n \<and> n \<le> 70 then Some (n - 55) else None)"

fun hex_pad :: "nat \<Rightarrow> nat \<Rightarrow> string" where
  "hex_pad 0 n = []"
| "hex_pad (Suc w) n = hex_pad w (n div 16) @ [hex_digit (n mod 16)]"

text \<open>\<open>str(uuid)\<close>: 32 hexadecimal digits in groups of 8, 4, 4, 4 and 12.\<close>

definition uuid_str :: "nat \<Rightarrow> string" where
  "uuid_str n = (let h = hex_pad 32 n in
     take 8 h @ [dash] @ take 4 (drop 8 h) @ [dash] @ take 4 (drop 12 h) @ [dash] @
     take 4 (drop 16 h) @ [dash] @ drop 20 h)"

text \<open>\<open>s.replace(p, "")\<close> for a non-empty \<open>p\<close>.\<close>

fun remove_all :: "string \<Rightarrow> string \<Rightarrow> string" where
  "remove_all p [] = []"
| "remove_all p (c # cs) =
     (if p \<noteq> [] \<and> take (length p) (c # cs) = p then remove_all p (drop (length p - 1) cs)
      else c # remove_all p cs)"

definition strip_chars :: "(char \<Rightarrow> bool) \<Rightarrow> string \<Rightarrow> string" where
  "strip_chars P s = rev (dropWhile P (rev (dropWhile P s)))"

fun hex_digits :: "nat \<Rightarrow> string \<Rightarrow> nat option" where
  "hex_digits acc [] = Some acc"
| "hex_digits acc (c # cs) = (case hex_val c of Some v \<Rightarrow> hex_digits (16 * acc + v) cs
     | None \<Rightarrow> if c = CHR ''_'' \<and> cs \<noteq> [] \<and> hex_val (hd cs) \<noteq> None
         then hex_digits acc cs else None)"

text \<open>
  \<open>int(hex, 16)\<close>: surrounding whitespace, a sign, a \<open>0x\<close> prefix and single underscores
  between digits are accepted.
\<close>

definition hex_int :: "string \<Rightarrow> int option" where
  "hex_int s =
     (let t = strip s; neg = (t \<noteq> [] \<and> hd t = dash);
          u = (if t \<noteq> [] \<and> (hd t = dash \<or> hd t = CHR ''+'') then tl t else t);
          v = (if take 2 u = ''0x'' \<or> take 2 u = ''0X''
               then (if take 1 (drop 2 u) = ''_'' then drop 3 u else drop 2 u) else u) in
      if v = [] \<or> hd v = CHR ''_'' then None
      else map_option (\<lambda>n. if neg then - int n else int n) (hex_digits 0 v))"

definition uuid_parse :: "string \<Rightarrow> nat option" where
  "uuid_parse s =
     (let h = filter (\<lambda>c. c \<noteq> dash)
                (strip_chars (\<lambda>c. c = CHR ''{'' \<or> c = CHR ''}'')
                  (remove_all ''uuid:'' (remove_all ''urn:'' s))) in
      if length h \<noteq> 32 then None
      else (case hex_int h of None \<Rightarrow> None
        | Some i \<Rightarrow> if 0 \<le> i \<and> i < 2 ^ 128 then Some (nat i) else None))"

section \<open>Encoding and decoding\<close>

definition TYPE_KEY :: string where "TYPE_KEY = ''__pybus_type__''"
definition VALUE_KEY :: string where "VALUE_KEY = ''value''"

definition tagged :: "string \<Rightarrow> string \<Rightarrow> pyval" where
  "tagged ty v = PDict [(TYPE_KEY, PStr ty), (VALUE_KEY, PStr v)]"

definition encode_datetime :: "datetime \<Rightarrow> pyval" where
  "encode_datetime d =
     tagged ''datetime'' (isoformat (if dt_offset d = None then d\<lparr>dt_offset := Some 0\<rparr> else d))"

definition encode_date :: "int \<Rightarrow> pyval" where
  "encode_date n = tagged ''date'' (fmt_date n)"

definition time_isoformat :: "nat \<Rightarrow> int option \<Rightarrow> string" where
  "time_isoformat t off = fmt_time t @ (case off of None \<Rightarrow> [] | Some z \<Rightarrow> fmt_offset z)"

definition encode_time :: "nat \<Rightarrow> int option \<Rightarrow> pyval" where
  "encode_time t off = tagged ''time'' (time_isoformat t off)"

definition encode_uuid :: "nat \<Rightarrow> pyval" where
  "encode_uuid n = tagged ''uuid'' (uuid_str n)"

fun encode_value :: "pyval \<Rightarrow> pyval" where
  "encode_value (PDateTime d) = encode_datetime d"
| "encode_value (PDate n) = encode_date n"
| "encode_value (PTime t off) = encode_time t off"
| "encode_value (PUuid n) = encode_uuid n"
| "encode_value (PDict d) = PDict (map (\<lambda>(k, v). (k, encode_value v)) d)"
| "encode_value (PList xs) = PList (map encode_value xs)"
| "encode_value (PTuple xs) = PList (map encode_value xs)"
| "encode_value v = v"

text \<open>\<open>time.fromisoformat\<close>: an optional leading \<open>T\<close>, then clock and zone.\<close>

definition time_fromisoformat :: "string \<Rightarrow> (nat \<times> int option) option" where
  "time_fromisoformat s =
     (let u = (if s \<noteq> [] \<and> hd s = CHR ''T'' then tl s else s);
          clock = takeWhile (\<lambda>c. \<not> is_zone_mark c) u;
          zone = dropWhile (\<lambda>c. \<not> is_zone_mark c) u in
      if \<not> clock_ok clock then None
      else (case (parse_time clock, parse_zone zone) of
        (Some t, Some off) \<Rightarrow> Some (t, off) | _ \<Rightarrow> None))"

text \<open>
  The \<open>from_text\<close> argument reads the tagged text. A missing \<open>value\<close> entry raises
  \<open>KeyError\<close>, which none of the \<open>except\<close> clauses catches; a value that is not a string
  makes \<open>fromisoformat\<close> raise \<open>TypeError\<close>, which becomes \<open>DeserializationError\<close>.
\<close>

definition decode_text :: "(string \<Rightarrow> pyval option) \<Rightarrow> pyval option \<Rightarrow> pyval res" where
  "decode_text from_text v = (case v of
     None \<Rightarrow> Inl (KeyError VALUE_KEY)
   | Some (PStr s) \<Rightarrow> of_option DeserializationError (from_text s)
   | Some _ \<Rightarrow> Inl DeserializationError)"

text \<open>
  \<open>UUID(x)\<close> calls \<open>x.replace\<close>: a value without that method raises \<open>AttributeError\<close>,
  which is not caught; \<open>None\<close> and the date and time types raise \<open>TypeError\<close>.
\<close>

definition decode_uuid :: "pyval option \<Rightarrow> pyval res" where
  "decode_uuid v = (case v of
     None \<Rightarrow> Inl (KeyError VALUE_KEY)
   | Some (PStr s) \<Rightarrow> of_option DeserializationError (map_option PUuid (uuid_parse s))
   | Some PNone \<Rightarrow> Inl DeserializationError
   | Some (PDateTime _) \<Rightarrow> Inl DeserializationError
   | Some (PDate _) \<Rightarrow> Inl DeserializationError
   | Some (PTime _ _) \<Rightarrow> Inl DeserializationError
   | Some _ \<Rightarrow> Inl AttributeError)"

fun decode_value :: "pyval \<Rightarrow> pyval res" where
  "decode_value (PList xs) = bind_res (map_res decode_value xs) (\<lambda>ys. Inr (PList ys))"
| "decode_value (PDict d) =
     (let ty = map_of d TYPE_KEY in
      if ty = Some (PStr ''datetime'') then
        decode_text (\<lambda>s. map_option PDateTime (fromisoformat s)) (map_of d VALUE_KEY)
      else if ty = Some (PStr ''date'') then
        decode_text (\<lambda>s. map_option PDate (parse_date s)) (map_of d VALUE_KEY)
      else if ty = Some (PStr ''time'') then
        decode_text (\<lambda>s. map_option (\<lambda>(t, off). PTime t off) (time_fromisoformat s))
          (map_of d VALUE_KEY)
      else if ty = Some (PStr ''uuid'') then decode_uuid (map_of d VALUE_KEY)
      else bind_res (map_res (\<lambda>(k, v). bind_res (decode_value v) (\<lambda>w. Inr (k, w))) d)
             (\<lambda>e. Inr (PDict e)))"
| "decode_value v = Inr v"

section \<open>UUID text round trip\<close>

definition is_hex :: "char \<Rightarrow> bool" where
  "is_hex c \<longleftrightarrow> hex_val c \<noteq> None"

lemma hex_val_hex_digit [simp]: "n < 16 \<Longrightarrow> hex_val (hex_digit n) = Some n"
  by (simp add: hex_val_def hex_digit_def Let_def)

lemma is_hex_hex_digit [simp]: "n < 16 \<Longrightarrow> is_hex (hex_digit n)"
  by (simp add: is_hex_def)

lemma is_hex_neq:
  "is_hex c \<Longrightarrow> c \<noteq> dash" "is_hex c \<Longrightarrow> c \<noteq> CHR ''+''" "is_hex c \<Longrightarrow> c \<noteq> CHR ''_''"
  "is_hex c \<Longrightarrow> c \<noteq> CHR ''x''" "is_hex c \<Longrightarrow> c \<noteq> CHR ''X''" "is_hex c \<Longrightarrow> c \<noteq> CHR ''u''"
  "is_hex c \<Longrightarrow> c \<noteq> CHR ''{''" "is_hex c \<Longrightarrow> c \<noteq> CHR ''}''" "is_hex c \<Longrightarrow> \<not> is_space c"
  by (auto simp: is_hex_def hex_val_def is_space_def Let_def split: if_splits)

lemma length_hex_pad [simp]: "length (hex_pad w n) = w"
  by (induction w n rule: hex_pad.induct) auto

lemma hex_pad_is_hex: "c \<in> set (hex_pad w n) \<Longrightarrow> is_hex c"
  by (induction w n rule: hex_pad.induct) auto

definition hex_value :: "nat \<Rightarrow> string \<Rightarrow> nat" where
  "hex_value acc s = fold (\<lambda>c a. 16 * a + the (hex_val c)) s acc"

lemma hex_digits_plain:
  "(\<And>c. c \<in> set s \<Longrightarrow> is_hex c) \<Longrightarrow> hex_digits acc s = Some (hex_value acc s)"
proof (induction s arbitrary: acc)
  case Nil
  show ?case by (simp add: hex_value_def)
next
  case (Cons c s)
  obtain v where "hex_val c = Some v" using Cons.prems [of c] by (auto simp: is_hex_def)
  moreover have "hex_digits (16 * acc + v) s = Some (hex_value (16 * acc + v) s)"
    using Cons.prems by (intro Cons.IH) simp
  ultimately show ?case by (simp add: hex_value_def)
qed

lemma hex_value_pad: "n < 16 ^ w \<Longrightarrow> hex_value 0 (hex_pad w n) = n"
proof (induction w n rule: hex_pad.induct)
  case (1 n)
  then show ?case by (simp add: hex_value_def)
next
  case (2 w n)
  then have "n div 16 < 16 ^ w" by (simp add: less_mult_imp_div_less)
  with "2.IH" show ?case by (simp add: hex_value_def)
qed

lemma hex_int_plain:
  assumes "s \<noteq> []" and hex: "\<And>c. c \<in> set s \<Longrightarrow> is_hex c"
  shows "hex_int s = Some (int (hex_value 0 s))"
proof -
  have hd: "is_hex (hd s)" using assms by simp
  have "strip s = s" using assms by (intro strip_id is_hex_neq(9)) auto
  moreover have "take 2 s \<noteq> ''0x''" "take 2 s \<noteq> ''0X''"
    using hex is_hex_neq(4,5) by (metis in_set_takeD list.set_intros(1,2))+
  moreover have "hex_digits 0 s = Some (hex_value 0 s)" using hex by (intro hex_digits_plain)
  ultimately show ?thesis
    using assms(1) is_hex_neq(1-3) [OF hd] by (simp add: hex_int_def Let_def)
qed

lemma remove_all_id:
  assumes "hd p \<notin> set s" shows "remove_all p s = s"
  using assms
proof (induction p s rule: remove_all.induct)
  case (1 p)
  show ?case by simp
next
  case (2 p c cs)
  then show ?case by (cases p) auto
qed

lemma strip_chars_id:
  assumes "s \<noteq> []" and "\<not> P (hd s)" and "\<not> P (last s)" shows "strip_chars P s = s"
proof -
  have "dropWhile P s = s" using assms by (cases s) auto
  moreover have "dropWhile P (rev s) = rev s"
    using assms by (cases "rev s") (auto simp: last_rev [symmetric] hd_rev)
  ultimately show ?thesis by (simp add: strip_chars_def)
qed

lemma uuid_str_chars: "c \<in> set (uuid_str n) \<Longrightarrow> is_hex c \<or> c = dash"
  by (auto simp: uuid_str_def Let_def dest!: in_set_takeD in_set_dropD hex_pad_is_hex)

lemma uuid_str_hex: "filter (\<lambda>c. c \<noteq> dash) (uuid_str n) = hex_pad 32 n"
proof -
  define h where "h = hex_pad 32 n"
  have keep: "filter (\<lambda>c. c \<noteq> dash) s = s" if "set s \<subseteq> set h" for s
    using that hex_pad_is_hex is_hex_neq(1) by (force simp: h_def filter_id_conv)
  have sub: "set (take i (drop j h)) \<subseteq> set h" "set (drop j h) \<subseteq> set h" "set (take i h) \<subseteq> set h"
    for i j by (auto dest: in_set_takeD in_set_dropD)
  have "take 8 h @ take 4 (drop 8 h) @ take 4 (drop 12 h) @ take 4 (drop 16 h) @ drop 20 h = h"
    using append_take_drop_id [of 8 h] append_take_drop_id [of 4 "drop 8 h"]
      append_take_drop_id [of 4 "drop 12 h"] append_take_drop_id [of 4 "drop 16 h"] by simp
  then show ?thesis
    by (simp add: uuid_str_def Let_def h_def [symmetric] keep sub)
qed

lemma uuid_parse_uuid_str [simp]:
  assumes "n < 2 ^ 128" shows "uuid_parse (uuid_str n) = Some n"
proof -
  let ?s = "uuid_str n"
  have u: "CHR ''u'' \<notin> set ?s" using uuid_str_chars is_hex_neq(6) by fastforce
  have ne: "?s \<noteq> []" by (simp add: uuid_str_def Let_def)
  have nb: "\<not> (c = CHR ''{'' \<or> c = CHR ''}'')" if "c \<in> set ?s" for c
    using uuid_str_chars [OF that] is_hex_neq(7,8) by auto
  have "strip_chars (\<lambda>c. c = CHR ''{'' \<or> c = CHR ''}'') ?s = ?s"
    using ne nb by (intro strip_chars_id) auto
  moreover have "hex_int (hex_pad 32 n) = Some (int n)"
  proof -
    have "hex_pad 32 n \<noteq> []" using length_hex_pad [of 32 n] by (metis list.size(3) zero_neq_numeral)
    then show ?thesis
      using hex_int_plain [of "hex_pad 32 n"] hex_pad_is_hex hex_value_pad [of n 32] assms by simp
  qed
  ultimately show ?thesis
    using u assms by (simp add: uuid_parse_def remove_all_id uuid_str_hex)
qed

section \<open>Tagging round trip\<close>

definition reserved_types :: "string set" where
  "reserved_types = {''datetime'', ''date'', ''time'', ''uuid''}"

definition offset_ok :: "int option \<Rightarrow> bool" where
  "offset_ok off = (case off of None \<Rightarrow> True | Some z \<Rightarrow> - us_day < z \<and> z < us_day)"

text \<open>
  The values that come back unchanged: datetimes are aware and in range, tuples (which
  become lists) do not occur, and no mapping carries a reserved type tag of its own.
\<close>

fun wf_value :: "pyval \<Rightarrow> bool" where
  "wf_value (PDateTime d) = (valid_datetime d \<and> is_aware d)"
| "wf_value (PDate n) = (0 \<le> n \<and> n < 3652059)"
| "wf_value (PTime t off) = (t < 86400000000 \<and> offset_ok off)"
| "wf_value (PUuid n) = (n < 2 ^ 128)"
| "wf_value (PDict d) = (dict_wf d \<and> (\<forall>(k, v) \<in> set d. wf_value v) \<and>
     (\<forall>ty \<in> reserved_types. map_of d TYPE_KEY \<noteq> Some (PStr ty)))"
| "wf_value (PList xs) = (\<forall>x \<in> set xs. wf_value x)"
| "wf_value (PTuple xs) = False"
| "wf_value v = True"

lemma keys_differ [simp]: "TYPE_KEY \<noteq> VALUE_KEY" "VALUE_KEY \<noteq> TYPE_KEY"
  by (simp_all add: TYPE_KEY_def VALUE_KEY_def)

lemma decode_tagged:
  "decode_value (tagged ''datetime'' s) =
     of_option DeserializationError (map_option PDateTime (fromisoformat s))"
  "decode_value (tagged ''date'' s) =
     of_option DeserializationError (map_option PDate (parse_date s))"
  "decode_value (tagged ''time'' s) = of_option DeserializationError
     (map_option (\<lambda>(t, off). PTime t off) (time_fromisoformat s))"
  "decode_value (tagged ''uuid'' s) =
     of_option DeserializationError (map_option PUuid (uuid_parse s))"
  by (simp_all add: tagged_def decode_text_def decode_uuid_def Let_def)

lemma decode_untagged:
  assumes "\<forall>ty \<in> reserved_types. map_of d TYPE_KEY \<noteq> Some (PStr ty)"
  shows "decode_value (PDict d) =
    bind_res (map_res (\<lambda>(k, v). bind_res (decode_value v) (\<lambda>w. Inr (k, w))) d) (\<lambda>e. Inr (PDict e))"
  using assms by (simp add: reserved_types_def Let_def)

lemma time_fromisoformat_isoformat:
  assumes "t < 86400000000" and "offset_ok off"
  shows "time_fromisoformat (time_isoformat t off) = Some (t, off)"
proof -
  define Z where "Z = (case off of None \<Rightarrow> [] | Some z \<Rightarrow> fmt_offset z)"
  have Zmark: "Z = [] \<or> (\<exists>c r. Z = c # r \<and> is_zone_mark c)"
    using fmt_offset_mark by (auto simp: Z_def split: option.splits)
  have marks: "takeWhile (\<lambda>c. \<not> is_zone_mark c) (fmt_time t @ Z) = fmt_time t"
    "dropWhile (\<lambda>c. \<not> is_zone_mark c) (fmt_time t @ Z) = Z"
    using Zmark fmt_time_no_mark [of _ t] by (auto simp: takeWhile_append dropWhile_append)
  have zone: "parse_zone Z = Some off"
    using assms(2) parse_zone_fmt_offset
    by (auto simp: Z_def offset_ok_def parse_zone_def [of "[]"] split: option.splits)
  have "is_digit (hd (fmt_time t))" "fmt_time t \<noteq> []"
  proof -
    have ne: "pad 2 (t div 3600000000) \<noteq> []"
      using length_pad [of 2 "t div 3600000000"] by (metis list.size(3) zero_neq_numeral)
    then show "fmt_time t \<noteq> []" by (simp add: fmt_time_def)
    show "is_digit (hd (fmt_time t))"
      using ne pad_digits [of "hd (pad 2 (t div 3600000000))" 2 "t div 3600000000"]
      by (simp add: fmt_time_def)
  qed
  then have "hd (fmt_time t @ Z) \<noteq> CHR ''T''" using is_digit_neq(11) by auto
  then show ?thesis
    using marks zone parse_time_fmt_time [OF assms(1)] clock_ok_fmt_time [OF assms(1)]
    by (simp add: time_fromisoformat_def time_isoformat_def Z_def [symmetric])
qed

lemma encode_value_eq_PStr: "encode_value v = PStr s \<longleftrightarrow> v = PStr s"
  by (cases v) (auto simp: encode_datetime_def encode_date_def encode_time_def encode_uuid_def
      tagged_def)

lemma map_of_encode:
  "map_of (map (\<lambda>(k, v). (k, encode_value v)) d) k = map_option encode_value (map_of d k)"
  by (induction d) auto

lemma decode_encode_value: "wf_value v \<Longrightarrow> decode_value (encode_value v) = Inr v"
proof (induction v)
  case (PList xs)
  then have "map_res decode_value (map encode_value xs) = Inr xs"
    by (induction xs) auto
  then show ?case by simp
next
  case (PDict d)
  have untagged: "map_of (map (\<lambda>(k, v). (k, encode_value v)) d) TYPE_KEY \<noteq> Some (PStr ty)"
    if "ty \<in> reserved_types" for ty
    using PDict.prems that by (auto simp: map_of_encode encode_value_eq_PStr)
  have "map_res (\<lambda>(k, v). bind_res (decode_value v) (\<lambda>w. Inr (k, w)))
      (map (\<lambda>(k, v). (k, encode_value v)) d) = Inr d"
    using PDict by (auto simp: map_res_all list_all2_map1 list_all2_same)
  then show ?case
    using untagged by (simp del: decode_value.simps add: decode_untagged)
next
  case (PDateTime d)
  then show ?case
    by (auto simp: encode_datetime_def decode_tagged is_aware_def)
next
  case (PDate n)
  then show ?case by (simp add: encode_date_def decode_tagged parse_date_fmt_date)
next
  case (PTime t off)
  then show ?case by (simp add: encode_time_def decode_tagged time_fromisoformat_isoformat)
next
  case (PUuid n)
  then show ?case by (simp add: encode_uuid_def decode_tagged)
qed simp_all

text \<open>
  Decoding twice is decoding once: the serializer decodes a whole envelope and
  \<open>MessageEnvelope.from_dict\<close> decodes its payload and headers again.
\<close>

lemma decode_value_eq_PStr: "decode_value v = Inr (PStr s) \<Longrightarrow> v = PStr s"
  by (cases v) (auto simp: res_simps decode_text_def decode_uuid_def of_option_def Let_def
      split: if_splits option.splits pyval.splits)

lemma decode_entries_TYPE:
  assumes "map_res (\<lambda>(k, v). bind_res (decode_value v) (\<lambda>w. Inr (k, w))) d = Inr e"
  shows "map_of e k = Some (PStr s) \<Longrightarrow> map_of d k = Some (PStr s)"
  using assms
  by (induction d arbitrary: e) (auto simp: res_simps split: if_splits dest: decode_value_eq_PStr)

lemma decode_leaf:
  "decode_text (\<lambda>s. map_option PDateTime (f s)) x = Inr w \<Longrightarrow> decode_value w = Inr w"
  "decode_text (\<lambda>s. map_option PDate (g s)) x = Inr w \<Longrightarrow> decode_value w = Inr w"
  "decode_text (\<lambda>s. map_option (\<lambda>(t, off). PTime t off) (h s)) x = Inr w \<Longrightarrow> decode_value w = Inr w"
  "decode_uuid x = Inr w \<Longrightarrow> decode_value w = Inr w"
  by (auto simp: decode_text_def decode_uuid_def of_option_def split: option.splits pyval.splits)

lemma decode_value_idem: "decode_value v = Inr w \<Longrightarrow> decode_value w = Inr w"
proof (induction v arbitrary: w rule: decode_value.induct)
  case (1 xs)
  then obtain ys where ys: "map_res decode_value xs = Inr ys" "w = PList ys"
    by (auto simp: res_simps)
  then have "\<forall>y \<in> set ys. decode_value y = Inr y"
    using "1.IH" map_res_in [OF ys(1)] by blast
  then have "map_res decode_value ys = Inr ys" by (simp add: map_res_all list_all2_same)
  then show ?case by (simp add: ys)
next
  case (2 d)
  show ?case
  proof (cases "\<forall>ty \<in> reserved_types. map_of d TYPE_KEY \<noteq> Some (PStr ty)")
    case False
    then show ?thesis using "2.prems" decode_leaf
      by (auto simp: reserved_types_def Let_def split: if_splits)
  next
    case True
    let ?f = "\<lambda>(k, v). bind_res (decode_value v) (\<lambda>w. Inr (k, w))"
    obtain e where e: "map_res ?f d = Inr e" "w = PDict e"
      using "2.prems" decode_untagged [OF True] by (auto simp: res_simps simp del: decode_value.simps)
    have IH: "decode_value v = Inr u \<Longrightarrow> decode_value u = Inr u" if "(k, v) \<in> set d" for k v u
      using "2.IH" [of "map_of d TYPE_KEY" "(k, v)" k v u] True that by (auto simp: reserved_types_def)
    have "decode_value u = Inr u" if "(k, u) \<in> set e" for k u
      using map_res_in [OF e(1) that] IH by (auto simp: res_simps)
    then have "map_res ?f e = Inr e" by (auto simp: map_res_all list_all2_same)
    moreover have "\<forall>ty \<in> reserved_types. map_of e TYPE_KEY \<noteq> Some (PStr ty)"
      using True decode_entries_TYPE [OF e(1)] by blast
    ultimately show ?thesis by (simp add: e decode_untagged del: decode_value.simps)
  qed
qed auto

end
