(* ===== verification/Json.thy ===== *)
theory Json
  imports PyValue
begin

text \<open>
  \<open>json.dumps(v, separators=(",", ":"), sort_keys=True)\<close> and \<open>json.loads\<close> at the level of
  text, UTF-8, and the \<open>JsonSerializer\<close> of serializer.py on top of them. Bytes are \<open>char\<close>s
  here as well. Code points from 256 on are outside the character model; the reader
  reports them as undecodable.
\<close>

type_synonym bytes = string

section \<open>Writing\<close>

abbreviation quote_char :: char where "quote_char \<equiv> CHR 0x22"
abbreviation backslash :: char where "backslash \<equiv> CHR 0x5C"

definition escape_char :: "char \<Rightarrow> string" where
  "escape_char c = (let n = (of_char c :: nat) in
     if c = quote_char then [backslash, quote_char]
     else if c = backslash then [backslash, backslash]
     else if n = 8 then [backslash, CHR ''b''] else if n = 9 then [backslash, CHR ''t'']
     else if n = 10 then [backslash, CHR ''n''] else if n = 12 then [backslash, CHR ''f'']
     else if n = 13 then [backslash, CHR ''r'']
     else if 32 \<le> n \<and> n \<le> 126 then [c]
     else backslash # CHR ''u'' # hex_pad 4 n)"

definition quote :: "string \<Rightarrow> string" where
  "quote s = quote_char # concat (map escape_char s) @ [quote_char]"

fun join_comma :: "string list \<Rightarrow> string" where
  "join_comma [] = []"
| "join_comma [x] = x"
| "join_comma (x # y # zs) = x @ CHR '','' # join_comma (y # zs)"

definition member_text :: "string \<times> string \<Rightarrow> string" where
  "member_text e = quote (fst e) @ colon # snd e"

fun json_text :: "pyval \<Rightarrow> string res" where
  "json_text PNone = Inr ''null''"
| "json_text (PBool b) = Inr (if b then ''true'' else ''false'')"
| "json_text (PInt i) = Inr (int_str i)"
| "json_text (PFloat t) = Inr t"
| "json_text (PStr s) = Inr (quote s)"
| "json_text (PList xs) =
     bind_res (map_res json_text xs) (\<lambda>ts. Inr (CHR ''['' # join_comma ts @ '']''))"
| "json_text (PTuple xs) =
     bind_res (map_res json_text xs) (\<lambda>ts. Inr (CHR ''['' # join_comma ts @ '']''))"
| "json_text (PDict d) =
     bind_res (map_res (\<lambda>(k, v). bind_res (json_text v) (\<lambda>t. Inr (k, t))) d)
       (\<lambda>es. Inr (CHR ''{'' # join_comma (map member_text (sort_key fst es)) @ ''}''))"
| "json_text v = Inl TypeError"

section \<open>Reading\<close>

definition is_ws :: "char \<Rightarrow> bool" where
  "is_ws c \<longleftrightarrow> (let n = (of_char c :: nat) in n = 32 \<or> n = 9 \<or> n = 10 \<or> n = 13)"

definition skip_ws :: "string \<Rightarrow> string" where
  "skip_ws = dropWhile is_ws"

definition unescape :: "char \<Rightarrow> char option" where
  "unescape e =
     (if e = quote_char \<or> e = backslash \<or> e = CHR ''/'' then Some e
      else if e = CHR ''b'' then Some (char_of (8::nat)) else if e = CHR ''f'' then Some (char_of (12::nat))
      else if e = CHR ''n'' then Some (char_of (10::nat)) else if e = CHR ''r'' then Some (char_of (13::nat))
      else if e = CHR ''t'' then Some (char_of (9::nat)) else None)"

definition hex4 :: "string \<Rightarrow> nat option" where
  "hex4 t = (if length t = 4 \<and> list_all is_hex t then Some (hex_value 0 t) else None)"

definition cons_fst :: "'a \<Rightarrow> ('a list \<times> 'b) option \<Rightarrow> ('a list \<times> 'b) option" where
  "cons_fst c = map_option (\<lambda>(cs, r). (c # cs, r))"

text \<open>The characters of a string literal, from after its opening quote.\<close>

fun parse_string :: "string \<Rightarrow> (string \<times> string) option" where
  "parse_string [] = None"
| "parse_string (c # cs) =
     (if c = quote_char then Some ([], cs)
      else if c = backslash then
        (case cs of [] \<Rightarrow> None | e # r \<Rightarrow>
           if e = CHR ''u'' then
             (case hex4 (take 4 r) of None \<Rightarrow> None | Some n \<Rightarrow>
                if n < 256 then cons_fst (char_of n) (parse_string (drop 4 r)) else None)
           else (case unescape e of None \<Rightarrow> None | Some d \<Rightarrow> cons_fst d (parse_string r)))
      else if (of_char c :: nat) < 32 then None
      else cons_fst c (parse_string cs))"

text \<open>
  \<^verbatim>\<open>(-?(?:0|[1-9][0-9]*))(\.[0-9]+)?([eE][-+]?[0-9]+)?\<close>: an integer unless a fraction or an
  exponent follows.
\<close>

definition int_part :: "string \<Rightarrow> string" where
  "int_part r = (if r \<noteq> [] \<and> hd r = CHR ''0'' then ''0'' else takeWhile is_digit r)"

definition frac_part :: "string \<Rightarrow> string" where
  "frac_part r = (if r \<noteq> [] \<and> hd r = dot \<and> takeWhile is_digit (tl r) \<noteq> []
     then dot # takeWhile is_digit (tl r) else [])"

definition exp_part :: "string \<Rightarrow> string" where
  "exp_part r = (if r \<noteq> [] \<and> (hd r = CHR ''e'' \<or> hd r = CHR ''E'')
     then (let x = tl r; sg = (if x \<noteq> [] \<and> (hd x = CHR ''+'' \<or> hd x = dash) then [hd x] else []);
             ed = takeWhile is_digit (drop (length sg) x)
           in if ed = [] then [] else hd r # sg @ ed)
     else [])"

definition parse_unsigned :: "bool \<Rightarrow> string \<Rightarrow> (pyval \<times> string) option" where
  "parse_unsigned neg r =
     (let ip = int_part r; r1 = drop (length ip) r; frac = frac_part r1;
          r2 = drop (length frac) r1; ex = exp_part r2 in
      if ip = [] then None
      else if frac = [] \<and> ex = [] then
        Some (PInt (if neg then - int (digits_val 0 ip) else int (digits_val 0 ip)), r1)
      else Some (PFloat ((if neg then [dash] else []) @ ip @ frac @ ex), drop (length ex) r2))"

definition parse_number :: "string \<Rightarrow> (pyval \<times> string) option" where
  "parse_number s =
     (if s \<noteq> [] \<and> hd s = dash then parse_unsigned True (tl s) else parse_unsigned False s)"

definition parse_word :: "string \<Rightarrow> pyval \<Rightarrow> string \<Rightarrow> (pyval \<times> string) option" where
  "parse_word w v s = (if take (length w) s = w then Some (v, drop (length w) s) else None)"

definition parse_atom :: "string \<Rightarrow> (pyval \<times> string) option" where
  "parse_atom s =
     (case parse_word ''null'' PNone s of Some x \<Rightarrow> Some x | None \<Rightarrow>
     (case parse_word ''true'' (PBool True) s of Some x \<Rightarrow> Some x | None \<Rightarrow>
     (case parse_word ''false'' (PBool False) s of Some x \<Rightarrow> Some x | None \<Rightarrow>
     (case parse_number s of Some x \<Rightarrow> Some x | None \<Rightarrow>
     (case parse_word ''NaN'' (PFloat ''NaN'') s of Some x \<Rightarrow> Some x | None \<Rightarrow>
     (case parse_word ''Infinity'' (PFloat ''Infinity'') s of Some x \<Rightarrow> Some x | None \<Rightarrow>
      parse_word ''-Infinity'' (PFloat ''-Infinity'') s))))))"

text \<open>
  One unit of fuel per nested call; a text of length \<open>n\<close> needs at most \<open>2 * n + 1\<close>. A later
  duplicate key overwrites an earlier one.
\<close>

fun parse_value :: "nat \<Rightarrow> string \<Rightarrow> (pyval \<times> string) option"
  and parse_elems :: "nat \<Rightarrow> string \<Rightarrow> (pyval list \<times> string) option"
  and parse_members :: "nat \<Rightarrow> (string \<times> pyval) list \<Rightarrow> string \<Rightarrow> ((string \<times> pyval) list \<times> string) option"
where
  "parse_value 0 s = None"
| "parse_value (Suc n) s = (case s of [] \<Rightarrow> None | c # r \<Rightarrow>
     if c = quote_char then map_option (\<lambda>(t, r'). (PStr t, r')) (parse_string r)
     else if c = CHR ''['' then
       (let r1 = skip_ws r in
        if r1 \<noteq> [] \<and> hd r1 = CHR '']'' then Some (PList [], tl r1)
        else map_option (\<lambda>(vs, r'). (PList vs, r')) (parse_elems n r1))
     else if c = CHR ''{'' then
       (let r1 = skip_ws r in
        if r1 \<noteq> [] \<and> hd r1 = CHR ''}'' then Some (PDict [], tl r1)
        else map_option (\<lambda>(d, r'). (PDict d, r')) (parse_members n [] r1))
     else parse_atom s)"
| "parse_elems 0 s = None"
| "parse_elems (Suc n) s = (case parse_value n s of None \<Rightarrow> None | Some (v, r) \<Rightarrow>
     (case skip_ws r of [] \<Rightarrow> None | c # r' \<Rightarrow>
        if c = CHR '']'' then Some ([v], r')
        else if c = CHR '','' then cons_fst v (parse_elems n (skip_ws r'))
        else None))"
| "parse_members 0 d s = None"
| "parse_members (Suc n) d s = (case s of [] \<Rightarrow> None | q # s' \<Rightarrow>
     if q \<noteq> quote_char then None
     else (case parse_string s' of None \<Rightarrow> None | Some (k, r) \<Rightarrow>
       (case skip_ws r of [] \<Rightarrow> None | c # r1 \<Rightarrow>
          if c \<noteq> colon then None
          else (case parse_value n (skip_ws r1) of None \<Rightarrow> None | Some (v, r2) \<Rightarrow>
            (case skip_ws r2 of [] \<Rightarrow> None | e # r3 \<Rightarrow>
               if e = CHR ''}'' then Some (AList.update k v d, r3)
               else if e = CHR '','' then parse_members n (AList.update k v d) (skip_ws r3)
               else None)))))"

definition json_parse :: "string \<Rightarrow> pyval option" where
  "json_parse s = (case parse_value (2 * length s + 1) (skip_ws s) of None \<Rightarrow> None
     | Some (v, r) \<Rightarrow> if skip_ws r = [] then Some v else None)"

section \<open>UTF-8 and the serializer\<close>

definition utf8_encode :: "string \<Rightarrow> bytes" where
  "utf8_encode s = concat (map (\<lambda>c. let n = (of_char c :: nat) in
     if n < 128 then [c] else [char_of (192 + n div 64), char_of (128 + n mod 64)]) s)"

fun utf8_decode :: "bytes \<Rightarrow> string option" where
  "utf8_decode [] = Some []"
| "utf8_decode [c] = (if (of_char c :: nat) < 128 then Some [c] else None)"
| "utf8_decode (c # d # cs) =
     (if (of_char c :: nat) < 128 then map_option ((#) c) (utf8_decode (d # cs))
      else if (of_char c = (194::nat) \<or> of_char c = (195::nat))
          \<and> 128 \<le> (of_char d :: nat) \<and> (of_char d :: nat) < 192
        then map_option ((#) (char_of ((of_char c - 192) * 64 + (of_char d - 128 :: nat)))) (utf8_decode cs)
      else None)"

definition dumps :: "pyval \<Rightarrow> string res" where
  "dumps v = (case json_text (encode_value v) of Inl e \<Rightarrow> Inl SerializationError | Inr t \<Rightarrow> Inr t)"

definition dump :: "pyval \<Rightarrow> bytes res" where
  "dump v = bind_res (dumps v) (\<lambda>t. Inr (utf8_encode t))"

definition loads_str :: "string \<Rightarrow> pyval res" where
  "loads_str s = bind_res (of_option DeserializationError (json_parse s)) decode_value"

definition loads :: "bytes \<Rightarrow> pyval res" where
  "loads b = bind_res (of_option DeserializationError (utf8_decode b)) loads_str"

section \<open>Reading back what is written\<close>

text \<open>
  JSON values proper, with floats left out (their text is not interpreted here), and the
  value a reader gets back: mappings sorted by key, tuples as lists.
\<close>

fun json_ok :: "pyval \<Rightarrow> bool" where
  "json_ok (PList xs) = (\<forall>x \<in> set xs. json_ok x)"
| "json_ok (PTuple xs) = (\<forall>x \<in> set xs. json_ok x)"
| "json_ok (PDict d) = (dict_wf d \<and> (\<forall>(k, v) \<in> set d. json_ok v))"
| "json_ok PNone = True"
| "json_ok (PBool b) = True"
| "json_ok (PInt i) = True"
| "json_ok (PStr s) = True"
| "json_ok v = False"

fun canon :: "pyval \<Rightarrow> pyval" where
  "canon (PList xs) = PList (map canon xs)"
| "canon (PTuple xs) = PList (map canon xs)"
| "canon (PDict d) = PDict (sort_key fst (map (\<lambda>(k, v). (k, canon v)) d))"
| "canon v = v"

definition delim :: "string \<Rightarrow> bool" where
  "delim r \<longleftrightarrow> r = [] \<or> hd r = CHR '','' \<or> hd r = CHR '']'' \<or> hd r = CHR ''}''"

definition start_ok :: "string \<Rightarrow> bool" where
  "start_ok t \<longleftrightarrow> t \<noteq> [] \<and> \<not> is_ws (hd t) \<and> hd t \<noteq> CHR '']''"

definition parses :: "string \<Rightarrow> pyval \<Rightarrow> bool" where
  "parses t v \<longleftrightarrow> start_ok t \<and>
     (\<forall>n rest. delim rest \<longrightarrow> 2 * length t \<le> n \<longrightarrow> parse_value n (t @ rest) = Some (v, rest))"

lemma delim_simps [simp]:
  "delim []" "delim (CHR '','' # r)" "delim (CHR '']'' # r)" "delim (CHR ''}'' # r)"
  by (simp_all add: delim_def)

lemma skip_ws_simps [simp]:
  "skip_ws (CHR '','' # r) = CHR '','' # r" "skip_ws (CHR '']'' # r) = CHR '']'' # r"
  "skip_ws (CHR ''}'' # r) = CHR ''}'' # r" "skip_ws (colon # r) = colon # r"
  "skip_ws (quote_char # r) = quote_char # r" "skip_ws [] = []"
  by (simp_all add: skip_ws_def is_ws_def)

lemma skip_ws_start [simp]: "start_ok t \<Longrightarrow> skip_ws (t @ r) = t @ r"
  by (cases t) (auto simp: start_ok_def skip_ws_def)

lemma of_char_less_256: "(of_char c :: nat) < 256"
  by simp

lemma hex4_hex_pad: "n < 65536 \<Longrightarrow> hex4 (hex_pad 4 n) = Some n"
  using hex_value_pad [of n 4] by (auto simp: hex4_def list_all_iff dest: hex_pad_is_hex)

lemma parse_string_escape:
  "parse_string (escape_char c @ r) = cons_fst c (parse_string r)"
proof -
  have h: "hex4 (hex_pad 4 (of_char c)) = Some (of_char c)"
    by (rule hex4_hex_pad) (rule less_trans [OF of_char_less_256], simp)
  have small: "(of_char c :: nat) < 256" by (rule of_char_less_256)
  have inv: "char_of (k::nat) = c" if "(of_char c :: nat) = k" for k using that by auto
  show ?thesis
    using h small inv [of 8] inv [of 9] inv [of 10] inv [of 12] inv [of 13]
    by (auto simp: escape_char_def Let_def unescape_def)
qed

lemma parse_string_quote:
  "parse_string (concat (map escape_char s) @ quote_char # r) = Some (s, r)"
  by (induction s) (simp_all add: parse_string_escape cons_fst_def del: parse_string.simps(2),
      simp_all)


lemma quote_start: "start_ok (quote s @ r)"
  by (simp add: start_ok_def quote_def is_ws_def)

lemma parses_quote: "parses (quote s) (PStr s)"
proof -
  have "parse_value n (quote s @ rest) = Some (PStr s, rest)" if "0 < n" for n rest
    using that parse_string_quote [of s rest]
    by (cases n) (auto simp: quote_def simp del: parse_string.simps)
  then show ?thesis
    using quote_start [of s "[]"] by (auto simp: parses_def quote_def)
qed

lemma digit_eq_0: "n < 10 \<Longrightarrow> digit n = CHR ''0'' \<longleftrightarrow> n = 0"
proof -
  assume n: "n < 10"
  have "digit n = CHR ''0'' \<longleftrightarrow> (of_char (digit n) :: nat) = of_char CHR ''0''"
    by (simp only: of_char_eq_iff)
  also have "\<dots> \<longleftrightarrow> n = 0" using n by simp
  finally show ?thesis .
qed

lemma nat_str_hd: "hd (nat_str n) = CHR ''0'' \<Longrightarrow> n = 0"
proof (induction n rule: nat_str.induct)
  case (1 n)
  show ?case
  proof (cases "n < 10")
    case True
    then show ?thesis
      using "1.prems" by (subst (asm) nat_str.simps) (simp add: digit_eq_0)
  next
    case False
    then have "nat_str n = nat_str (n div 10) @ [digit (n mod 10)]"
      using nat_str.simps [of n] by simp
    then have "hd (nat_str (n div 10)) = CHR ''0''" using "1.prems" by simp
    then have "n div 10 = 0" using "1.IH" False by simp
    with False show ?thesis by simp
  qed
qed

lemma nat_str_0: "nat_str 0 = ''0''"
  by (subst nat_str.simps) (simp add: digit_eq_0)

lemma int_part_nat_str:
  assumes "delim rest" shows "int_part (nat_str n @ rest) = nat_str n"
proof (cases "hd (nat_str n) = CHR ''0''")
  case True
  then show ?thesis using nat_str_hd [OF True] by (simp add: int_part_def nat_str_0)
next
  case False
  have "rest \<noteq> [] \<Longrightarrow> \<not> is_digit (hd rest)" using assms by (auto simp: delim_def is_digit_def)
  then have "takeWhile is_digit (nat_str n @ rest) = nat_str n"
    using nat_str_digits by (cases rest) (auto simp: takeWhile_append)
  with False show ?thesis by (simp add: int_part_def)
qed

lemma delim_no_suffix: "delim rest \<Longrightarrow> frac_part rest = []" "delim rest \<Longrightarrow> exp_part rest = []"
  by (auto simp: delim_def frac_part_def exp_part_def)

lemma parse_unsigned_nat_str:
  "delim rest \<Longrightarrow>
     parse_unsigned neg (nat_str n @ rest) = Some (PInt (if neg then - int n else int n), rest)"
  by (simp add: parse_unsigned_def int_part_nat_str delim_no_suffix digits_val_nat_str)

lemma parse_number_int:
  assumes "delim rest" shows "parse_number (int_str i @ rest) = Some (PInt i, rest)"
proof -
  have "is_digit (hd (nat_str (nat i)))" using nat_str_digits [of "hd (nat_str (nat i))" "nat i"] by simp
  then have "hd (nat_str (nat i)) \<noteq> dash" using is_digit_neq(1) by blast
  then show ?thesis
    using parse_unsigned_nat_str [OF assms] by (simp add: parse_number_def int_str_def)
qed

lemma int_str_start:
  assumes "int_str i = c # cs" shows "c = dash \<or> is_digit c"
proof (cases "i < 0")
  case True
  then show ?thesis using assms by (simp add: int_str_def)
next
  case False
  then show ?thesis using assms nat_str_digits [of c "nat i"] by (simp add: int_str_def)
qed

lemma parses_int: "parses (int_str i) (PInt i)"
proof -
  obtain c cs where t: "int_str i = c # cs" by (cases "int_str i") (auto simp: int_str_def split: if_splits)
  note c = int_str_start [OF t]
  have neq: "c \<noteq> quote_char" "c \<noteq> CHR ''[''" "c \<noteq> CHR ''{''" "c \<noteq> CHR ''n''" "c \<noteq> CHR ''t''"
    "c \<noteq> CHR ''f''" "c \<noteq> CHR '']''" "\<not> is_ws c"
    using c by (auto simp: is_digit_def is_ws_def Let_def)
  have "parse_value n (int_str i @ rest) = Some (PInt i, rest)" if "delim rest" "0 < n" for n rest
    using that neq parse_number_int [OF that(1), of i]
    by (cases n) (simp_all add: t parse_atom_def parse_word_def)
  then show ?thesis using neq by (auto simp: parses_def start_ok_def t)
qed

lemma parses_word:
  "parses ''null'' PNone" "parses ''true'' (PBool True)" "parses ''false'' (PBool False)"
proof -
  have "parse_value n (''null'' @ r) = Some (PNone, r)" "parse_value n (''true'' @ r) = Some (PBool True, r)"
    "parse_value n (''false'' @ r) = Some (PBool False, r)" if "0 < n" for n r
    using that by (cases n; simp add: parse_atom_def parse_word_def)+
  then show "parses ''null'' PNone" "parses ''true'' (PBool True)" "parses ''false'' (PBool False)"
    by (auto simp: parses_def start_ok_def is_ws_def)
qed

lemma parse_elems_join:
  "list_all2 parses ts vs \<Longrightarrow> ts \<noteq> [] \<Longrightarrow> 2 * length (join_comma ts) < n \<Longrightarrow>
     parse_elems n (join_comma ts @ CHR '']'' # rest) = Some (vs, rest)"
proof (induction ts arbitrary: vs n rest rule: join_comma.induct)
  case (2 t)
  then show ?case by (cases n) (auto simp: list_all2_Cons1 parses_def)
next
  case (3 t u us)
  then obtain v w ws where vs: "vs = v # w # ws" and p: "parses t v" "parses u w" "list_all2 parses us ws"
    by (auto simp: list_all2_Cons1)
  obtain m where n: "n = Suc m" using 3 by (cases n) auto
  have st: "start_ok u" using p(2) by (simp add: parses_def)
  have rec: "parse_elems m (join_comma (u # us) @ CHR '']'' # rest) = Some (w # ws, rest)"
    using 3 p n by (intro "3.IH") auto
  have hd: "parse_value m (t @ CHR '','' # join_comma (u # us) @ CHR '']'' # rest)
      = Some (v, CHR '','' # join_comma (u # us) @ CHR '']'' # rest)"
    using p(1) "3.prems" n by (auto simp: parses_def)
  have sk: "skip_ws (join_comma (u # us) @ CHR '']'' # rest) = join_comma (u # us) @ CHR '']'' # rest"
    using st by (cases us) simp_all
  show ?case using rec hd sk by (simp add: n vs del: join_comma.simps(3)) (simp add: cons_fst_def)
qed simp

lemma parse_string_quote_key:
  "parse_members (Suc m) d (member_text (k, t) @ r) =
     (case parse_value m (skip_ws (t @ r)) of None \<Rightarrow> None | Some (v, r2) \<Rightarrow>
        (case skip_ws r2 of [] \<Rightarrow> None | e # r3 \<Rightarrow>
           if e = CHR ''}'' then Some (AList.update k v d, r3)
           else if e = CHR '','' then parse_members m (AList.update k v d) (skip_ws r3)
           else None))"
  by (simp add: member_text_def quote_def parse_string_quote)

lemma parse_members_join:
  "list_all2 (\<lambda>(k, t) (k', v). k = k' \<and> parses t v) es kvs \<Longrightarrow> es \<noteq> [] \<Longrightarrow>
     2 * length (join_comma (map member_text es)) < n \<Longrightarrow>
     dict_wf (d @ kvs) \<Longrightarrow>
     parse_members n d (join_comma (map member_text es) @ CHR ''}'' # rest) = Some (d @ kvs, rest)"
proof (induction es arbitrary: kvs n d)
  case (Cons e es)
  obtain k t where e: "e = (k, t)" by (cases e)
  from Cons.prems obtain v kvs' where kvs: "kvs = (k, v) # kvs'" and p: "parses t v"
    and es: "list_all2 (\<lambda>(k, t) (k', v). k = k' \<and> parses t v) es kvs'"
    by (auto simp: list_all2_Cons1 e)
  obtain m where n: "n = Suc m" using Cons.prems by (cases n) auto
  have new: "AList.update k v d = d @ [(k, v)]"
    using Cons.prems(4) by (intro dict_update_fresh) (auto simp: kvs dict_wf_def has_key_def)
  have val: "parse_value m (skip_ws (t @ r)) = Some (v, r)" if "delim r" for r
    using p that Cons.prems(3) n e by (cases es) (auto simp: parses_def member_text_def)
  show ?case
  proof (cases es)
    case Nil
    then show ?thesis using val es by (simp add: e n kvs parse_string_quote_key new del: parse_members.simps)
  next
    case (Cons e' es')
    have "member_text e' = quote (fst e') @ colon # snd e'" by (simp add: member_text_def)
    then have sk: "skip_ws (join_comma (map member_text es) @ CHR ''}'' # rest)
        = join_comma (map member_text es) @ CHR ''}'' # rest"
      by (cases es') (simp_all add: Cons quote_def)
    have "parse_members m (d @ [(k, v)]) (join_comma (map member_text es) @ CHR ''}'' # rest)
        = Some ((d @ [(k, v)]) @ kvs', rest)"
      using Cons.prems es n Cons by (intro Cons.IH) (simp_all add: kvs)
    then show ?thesis
      using val sk Cons by (simp add: e n kvs parse_string_quote_key new del: parse_members.simps)
  qed
qed simp

lemma insort_key_map: "insort_key f (g x) (map g xs) = map g (insort_key (f \<circ> g) x xs)"
  by (induction xs) auto

lemma sort_key_map: "sort_key f (map g xs) = map g (sort_key (f \<circ> g) xs)"
  by (induction xs) (simp_all add: insort_key_map comp_def)

lemma sort_key_fst_map:
  "sort_key fst (map (\<lambda>(k, v). (k, g v)) d) = map (\<lambda>(k, v). (k, g v)) (sort_key fst d)"
  by (subst sort_key_map) (simp add: comp_def case_prod_beta)

lemma dict_wf_sort_key [simp]: "dict_wf (sort_key fst d) \<longleftrightarrow> dict_wf d"
  by (simp add: dict_wf_def distinct_map)

lemma dict_wf_map_snd [simp]: "dict_wf (map (\<lambda>(k, v). (k, g v)) d) \<longleftrightarrow> dict_wf d"
  by (simp add: dict_wf_def comp_def case_prod_beta)

lemma parses_list:
  assumes "list_all2 parses ts vs"
  shows "parses (CHR ''['' # join_comma ts @ '']'') (PList vs)"
proof (cases ts)
  case Nil
  have "parse_value n (''[]'' @ rest) = Some (PList [], rest)" if "0 < n" for n rest
    using that by (cases n) simp_all
  then show ?thesis using assms Nil by (auto simp: parses_def start_ok_def is_ws_def)
next
  case (Cons t ts')
  have st: "start_ok t" using assms Cons by (auto simp: list_all2_Cons1 parses_def)
  have hd: "skip_ws (join_comma ts @ r) = join_comma ts @ r"
    "join_comma ts @ r \<noteq> []" "hd (join_comma ts @ r) \<noteq> CHR '']''" for r
    using st by (cases ts'; simp add: Cons; simp add: start_ok_def)+
  have "parse_value n (CHR ''['' # join_comma ts @ '']'' @ rest) = Some (PList vs, rest)"
    if "2 * (length (join_comma ts) + 2) \<le> n" for n rest
    using that parse_elems_join [OF assms, of "n - 1" rest] hd [of "CHR '']'' # rest"] Cons
    by (cases n) (simp_all add: Let_def)
  then show ?thesis by (auto simp: parses_def start_ok_def is_ws_def)
qed

lemma parses_dict:
  assumes "list_all2 (\<lambda>(k, t) (k', v). k = k' \<and> parses t v) es kvs" "dict_wf kvs"
  shows "parses (CHR ''{'' # join_comma (map member_text es) @ ''}'') (PDict kvs)"
proof (cases es)
  case Nil
  have "parse_value n (''{}'' @ rest) = Some (PDict [], rest)" if "0 < n" for n rest
    using that by (cases n) simp_all
  then show ?thesis using assms Nil by (auto simp: parses_def start_ok_def is_ws_def)
next
  case (Cons e es')
  have q: "\<exists>u. join_comma (map member_text es) @ r = quote_char # u" for r
    by (cases es') (auto simp: Cons member_text_def quote_def)
  have hd: "skip_ws (join_comma (map member_text es) @ r) = join_comma (map member_text es) @ r"
    "join_comma (map member_text es) @ r \<noteq> []" "hd (join_comma (map member_text es) @ r) \<noteq> CHR ''}''" for r
    using q [of r] by auto
  have "parse_value n (CHR ''{'' # join_comma (map member_text es) @ ''}'' @ rest) = Some (PDict kvs, rest)"
    if "2 * (length (join_comma (map member_text es)) + 2) \<le> n" for n rest
    using that parse_members_join [OF assms(1), of "n - 1" "[]" rest] hd [of "CHR ''}'' # rest"] Cons assms(2)
    by (cases n) (simp_all add: Let_def)
  then show ?thesis by (auto simp: parses_def start_ok_def is_ws_def)
qed

definition text_of :: "pyval \<Rightarrow> string" where
  "text_of v = projr (json_text v)"

lemma json_text_map:
  assumes "\<forall>x \<in> set xs. json_text x = Inr (text_of x) \<and> parses (text_of x) (canon x)"
  shows "map_res json_text xs = Inr (map text_of xs)"
    and "list_all2 parses (map text_of xs) (map canon xs)"
  using assms by (auto intro: map_res_Inr simp: list.rel_map list_all2_same)

lemma json_text_parses:
  "json_ok v \<Longrightarrow> json_text v = Inr (text_of v) \<and> parses (text_of v) (canon v)"
proof (induction v rule: json_ok.induct)
  case (1 xs)
  then have "\<forall>x \<in> set xs. json_text x = Inr (text_of x) \<and> parses (text_of x) (canon x)" by simp
  note h = json_text_map [OF this]
  show ?case using parses_list [OF h(2)] by (simp add: h(1) text_of_def)
next
  case (2 xs)
  then have "\<forall>x \<in> set xs. json_text x = Inr (text_of x) \<and> parses (text_of x) (canon x)" by simp
  note h = json_text_map [OF this]
  show ?case using parses_list [OF h(2)] by (simp add: h(1) text_of_def)
next
  case (3 d)
  let ?es = "map (\<lambda>(k, v). (k, text_of v)) d"
  have each: "json_text v = Inr (text_of v) \<and> parses (text_of v) (canon v)" if "(k, v) \<in> set d" for k v
    using 3 that by force
  have es: "map_res (\<lambda>(k, v). bind_res (json_text v) (\<lambda>t. Inr (k, t))) d = Inr ?es"
    using each by (intro map_res_Inr) auto
  have "list_all2 (\<lambda>(k, t) (k', v). k = k' \<and> parses t v) (sort_key fst ?es)
      (sort_key fst (map (\<lambda>(k, v). (k, canon v)) d))"
    unfolding sort_key_fst_map list.rel_map by (rule list.rel_refl_strong) (auto simp: each)
  from parses_dict [OF this] show ?case
    using 3 by (simp add: es text_of_def)
qed (auto simp: text_of_def parses_quote parses_int parses_word)

text \<open>Normalisation does not change the text: the writer sorts the keys anyway.\<close>

lemma json_text_canon: "json_ok v \<Longrightarrow> json_text (canon v) = json_text v"
proof (induction v rule: json_ok.induct)
  case (3 d)
  have each: "json_text (canon v) = Inr (text_of v)" "json_text v = Inr (text_of v)" if "(k, v) \<in> set d" for k v
    using 3 that json_text_parses [of v] by force+
  let ?es = "map (\<lambda>(k, v). (k, text_of v)) d" and ?tx = "\<lambda>(k, v). bind_res (json_text v) (\<lambda>t. Inr (k, t))"
  have "map_res ?tx d = Inr ?es" using each(2) by (intro map_res_Inr) auto
  moreover have "map_res ?tx (sort_key fst (map (\<lambda>(k, v). (k, canon v)) d)) = Inr (sort_key fst ?es)"
    unfolding sort_key_fst_map map_res_all list.rel_map by (rule list.rel_refl_strong) (auto simp: each)
  moreover have "sort_key fst (sort_key fst ?es) = sort_key fst ?es"
    using sorted_sort_key [of fst ?es] by (intro sort_key_id_if_sorted) simp
  ultimately show ?case by simp
next
  case (1 xs)
  then have "map_res json_text (map canon xs) = map_res json_text xs" by (induction xs) auto
  then show ?case by simp
next
  case (2 xs)
  then have "map_res json_text (map canon xs) = map_res json_text xs" by (induction xs) auto
  then show ?case by simp
qed auto

lemma json_parse_text: "json_ok v \<Longrightarrow> json_parse (text_of v) = Some (canon v)"
proof -
  assume "json_ok v"
  then have p: "parses (text_of v) (canon v)" by (simp add: json_text_parses)
  then have "parse_value (2 * length (text_of v) + 1) (text_of v @ []) = Some (canon v, [])"
    unfolding parses_def using delim_simps(1) by (meson le_add1)
  then show ?thesis using p skip_ws_start [of "text_of v" "[]"] by (simp add: json_parse_def parses_def)
qed

lemma utf8_decode_Cons:
  "(of_char c :: nat) < 128 \<Longrightarrow> utf8_decode (c # cs) = map_option ((#) c) (utf8_decode cs)"
  by (cases cs) simp_all

lemma nat_of_char_of: "n < 256 \<Longrightarrow> (of_char (char_of n) :: nat) = n"
  by (simp add: take_bit_nat_eq_self)

lemma utf8_decode_encode: "utf8_decode (utf8_encode s) = Some s"
proof (induction s)
  case (Cons c s)
  have lt: "(of_char c :: nat) < 256" by (rule of_char_less_256)
  show ?case
  proof (cases "(of_char c :: nat) < 128")
    case True
    then show ?thesis using Cons by (simp add: utf8_decode_Cons utf8_encode_def)
  next
    case False
    let ?n = "of_char c :: nat"
    have "?n div 64 < 4" using lt by (simp add: less_mult_imp_div_less)
    moreover have "2 \<le> ?n div 64" using False div_le_mono [of 128 ?n 64] by simp
    ultimately have q: "?n div 64 = 2 \<or> ?n div 64 = 3" by linarith
    have r: "?n mod 64 < 64" by simp
    have cd: "(of_char (char_of (192 + ?n div 64)) :: nat) = 192 + ?n div 64"
      "(of_char (char_of (128 + ?n mod 64)) :: nat) = 128 + ?n mod 64"
      using q r by (auto simp: nat_of_char_of)
    have "utf8_decode (char_of (192 + ?n div 64) # char_of (128 + ?n mod 64) # utf8_encode s)
        = map_option ((#) (char_of (?n div 64 * 64 + ?n mod 64))) (utf8_decode (utf8_encode s))"
      unfolding utf8_decode.simps(3) cd using q by auto
    then have "utf8_decode (char_of (192 + ?n div 64) # char_of (128 + ?n mod 64) # utf8_encode s)
        = map_option ((#) c) (utf8_decode (utf8_encode s))"
      by (simp only: div_mult_mod_eq char_of_char)
    moreover have "utf8_encode (c # s) = char_of (192 + ?n div 64) # char_of (128 + ?n mod 64) # utf8_encode s"
      using False by (simp add: utf8_encode_def Let_def)
    ultimately show ?thesis using Cons by (simp del: utf8_decode.simps)
  qed
qed (simp add: utf8_encode_def)

text \<open>
  The values \<open>json.dumps\<close> accepts after tagging: anything but opaque objects and decimals;
  floats are left out because their text is not interpreted.
\<close>

fun serializable :: "pyval \<Rightarrow> bool" where
  "serializable (PList xs) = (\<forall>x \<in> set xs. serializable x)"
| "serializable (PTuple xs) = (\<forall>x \<in> set xs. serializable x)"
| "serializable (PDict d) = (dict_wf d \<and> (\<forall>(k, v) \<in> set d. serializable v))"
| "serializable (PFloat t) = False"
| "serializable (PDecimal t) = False"
| "serializable (PData t fs) = False"
| "serializable v = True"

lemma serializable_json_ok: "serializable v \<Longrightarrow> json_ok (encode_value v)"
  by (induction v rule: serializable.induct)
    (auto simp: encode_datetime_def encode_date_def encode_time_def encode_uuid_def tagged_def dict_wf_def
      comp_def case_prod_beta)

lemma canon_tagged [simp]: "canon (tagged ty s) = tagged ty s"
  by (simp add: tagged_def TYPE_KEY_def VALUE_KEY_def less_eq_char_def)

lemma canon_encode: "canon (encode_value v) = encode_value (canon v)"
proof (induction v)
  case (PDict d)
  have "map (\<lambda>(k, v). (k, canon v)) (map (\<lambda>(k, v). (k, encode_value v)) d)
      = map (\<lambda>(k, v). (k, encode_value v)) (map (\<lambda>(k, v). (k, canon v)) d)"
    using PDict by force
  then show ?case by (simp only: canon.simps encode_value.simps sort_key_fst_map)
qed (simp_all add: encode_datetime_def encode_date_def encode_time_def encode_uuid_def)

lemma map_of_sort_key: "dict_wf d \<Longrightarrow> map_of (sort_key fst d) k = map_of d k"
  by (metis dict_wf_def dict_wf_sort_key map_of_inject_set set_sort)

lemma wf_value_canon: "wf_value v \<Longrightarrow> wf_value (canon v)"
proof (induction v)
  case (PDict d)
  have "map_of (map (\<lambda>(k, v). (k, canon v)) d) TYPE_KEY = map_option canon (map_of d TYPE_KEY)"
    by (induction d) auto
  moreover have "canon v = PStr ty \<Longrightarrow> v = PStr ty" for v ty by (cases v) simp_all
  ultimately show ?case
    using PDict by (auto simp: map_of_sort_key simp del: sort_key_fst_map)
qed auto

theorem loads_dump:
  assumes "wf_value v" "serializable v"
  shows "bind_res (dump v) loads = Inr (canon v)"
proof -
  have ok: "json_ok (encode_value v)" using assms(2) by (rule serializable_json_ok)
  have "dump v = Inr (utf8_encode (text_of (encode_value v)))"
    using json_text_parses [OF ok] by (simp add: dump_def dumps_def)
  then show ?thesis
    using json_parse_text [OF ok] decode_encode_value [OF wf_value_canon [OF assms(1)]]
    by (simp add: loads_def loads_str_def utf8_decode_encode of_option_def canon_encode)
qed

lemma dumps_canon: "serializable v \<Longrightarrow> dumps (canon v) = dumps v"
  using json_text_canon [OF serializable_json_ok, of v] by (simp add: dumps_def canon_encode)

lemma dumps_serializable: "serializable v \<Longrightarrow> dumps v = Inr (text_of (encode_value v))"
  using json_text_parses [OF serializable_json_ok] by (simp add: dumps_def)

end
