(* ===== verification/JsonFuel.thy ===== *)
theory JsonFuel
  imports Json
begin

text \<open>
  The fuel of the JSON parser is enough for every text: from \<open>2 * n + 1\<close> on, more fuel gives the
  same result, so \<open>json_parse\<close> never fails for want of fuel.
\<close>

section \<open>Parsing consumes text\<close>

lemma skip_ws_length: "length (skip_ws s) \<le> length s"
  by (simp add: skip_ws_def length_dropWhile_le)

lemma cons_fst_eq: "cons_fst c x = Some (ys, r) \<longleftrightarrow> (\<exists>cs. x = Some (cs, r) \<and> ys = c # cs)"
  by (auto simp: cons_fst_def)

lemma parse_string_shorter: "parse_string s = Some (t, r) \<Longrightarrow> length r < length s"
proof (induction s arbitrary: t r rule: parse_string.induct)
  case (2 c cs)
  consider "c = quote_char" | "c \<noteq> quote_char" "c = backslash" | "c \<noteq> quote_char" "c \<noteq> backslash" by blast
  then show ?case
  proof cases
    case 1
    then show ?thesis using "2.prems" by auto
  next
    case 2
    then obtain e x where cs: "cs = e # x" using "2.prems" by (auto split: list.splits)
    show ?thesis
    proof (cases "e = CHR ''u''")
      case True
      then obtain n u where n: "hex4 (take 4 x) = Some n" "n < 256" "parse_string (drop 4 x) = Some (u, r)"
        using "2.prems" 2 cs by (auto simp: cons_fst_eq split: option.splits if_splits)
      from "2.IH"(1) [OF 2 cs True n] show ?thesis by (simp add: cs)
    next
      case False
      then obtain d u where d: "unescape e = Some d" "parse_string x = Some (u, r)"
        using "2.prems" 2 cs by (auto simp: cons_fst_eq split: option.splits if_splits)
      from "2.IH"(2) [OF 2 cs False d] show ?thesis by (simp add: cs)
    qed
  next
    case 3
    then obtain u where u: "\<not> of_char c < (32 :: nat)" "parse_string cs = Some (u, r)"
      using "2.prems" by (auto simp: cons_fst_eq split: if_splits)
    from "2.IH"(3) [OF 3 u] show ?thesis by simp
  qed
qed simp

lemma parse_unsigned_shorter: "parse_unsigned neg s = Some (v, r) \<Longrightarrow> length r < length s"
proof -
  have "int_part s \<noteq> [] \<Longrightarrow> s \<noteq> []" by (auto simp: int_part_def split: if_splits)
  then show "parse_unsigned neg s = Some (v, r) \<Longrightarrow> length r < length s"
    by (cases s) (auto simp: parse_unsigned_def Let_def split: if_splits)
qed

lemma parse_number_shorter: "parse_number s = Some (v, r) \<Longrightarrow> length r < length s"
  by (cases s) (auto simp: parse_number_def split: if_splits dest!: parse_unsigned_shorter)

lemma parse_word_shorter:
  assumes "parse_word w u s = Some (v, r)" "w \<noteq> []" shows "length r < length s"
proof -
  have "take (length w) s = w" "r = drop (length w) s" using assms(1) by (auto simp: parse_word_def split: if_splits)
  then have "s \<noteq> []" using assms(2) by auto
  then show ?thesis using \<open>r = drop (length w) s\<close> assms(2) by simp
qed

lemma parse_atom_shorter: "parse_atom s = Some (v, r) \<Longrightarrow> length r < length s"
  by (auto simp: parse_atom_def split: option.splits dest: parse_word_shorter parse_number_shorter)

lemma parse_shorter:
  "(parse_value n s = Some x \<longrightarrow> length (snd x) < length s)
   \<and> (parse_elems n s = Some y \<longrightarrow> length (snd y) < length s)
   \<and> (parse_members n d s = Some z \<longrightarrow> length (snd z) < length s)"
proof (induction n arbitrary: s d x y z)
  case (Suc n)
  have v: "parse_value n t = Some u \<Longrightarrow> length (snd u) < length t" for t u using Suc.IH by blast
  have e: "parse_elems n t = Some u \<Longrightarrow> length (snd u) < length t" for t u using Suc.IH by blast
  have m: "parse_members n d t = Some u \<Longrightarrow> length (snd u) < length t" for d t u using Suc.IH by blast
  note ws = skip_ws_length
  have "length (snd x) < length s" if p: "parse_value (Suc n) s = Some x"
  proof (cases s)
    case Nil
    then show ?thesis using p by simp
  next
    case (Cons c r)
    show ?thesis
      using p Cons ws [of r] le_less_trans [OF ws [of r]]
      by (cases x) (auto simp: Let_def split: if_splits dest!: parse_string_shorter e m parse_atom_shorter)
  qed
  moreover have "length (snd y) < length s" if p: "parse_elems (Suc n) s = Some y"
  proof -
    obtain a r where a: "parse_value n s = Some (a, r)" using p by (auto split: option.splits)
    obtain c r' where c: "skip_ws r = c # r'" using p a by (auto split: list.splits)
    have "length r' < length s" using v [OF a] ws [of r] c by simp
    then show ?thesis
      using p a c ws [of r'] by (cases y) (auto simp: cons_fst_eq split: if_splits dest!: e)
  qed
  moreover have "length (snd z) < length s" if p: "parse_members (Suc n) d s = Some z"
  proof -
    obtain q s' where s: "s = q # s'" using p by (cases s) auto
    obtain k r where k: "parse_string s' = Some (k, r)" using p s by (auto split: if_splits option.splits)
    obtain c r1 where c: "skip_ws r = c # r1" using p s k by (auto split: if_splits list.splits)
    obtain a r2 where a: "parse_value n (skip_ws r1) = Some (a, r2)" using p s k c by (auto split: if_splits option.splits)
    obtain e' r3 where r3: "skip_ws r2 = e' # r3" using p s k c a by (auto split: if_splits list.splits)
    have "length r3 < length s"
      using parse_string_shorter [OF k] v [OF a] ws [of r] ws [of r1] ws [of r2] c r3 s by simp
    then show ?thesis
      using p s k c a r3 ws [of r3] by (auto split: if_splits dest!: m)
  qed
  ultimately show ?case by blast
qed simp

lemma parse_value_shorter: "parse_value n s = Some (v, r) \<Longrightarrow> length r < length s"
  using parse_shorter [of n s "(v, r)"] by auto

section \<open>More fuel changes nothing\<close>

lemma parse_stable:
  "(2 * length s + 1 \<le> n \<longrightarrow> parse_value (Suc n) s = parse_value n s)
   \<and> (2 * length s + 2 \<le> n \<longrightarrow> parse_elems (Suc n) s = parse_elems n s)
   \<and> (2 * length s + 2 \<le> n \<longrightarrow> parse_members (Suc n) d s = parse_members n d s)"
proof (induction n arbitrary: s d)
  case (Suc n)
  have v: "2 * length t + 1 \<le> n \<Longrightarrow> parse_value (Suc n) t = parse_value n t" for t using Suc.IH by blast
  have e: "2 * length t + 2 \<le> n \<Longrightarrow> parse_elems (Suc n) t = parse_elems n t" for t using Suc.IH by blast
  have m: "2 * length t + 2 \<le> n \<Longrightarrow> parse_members (Suc n) d t = parse_members n d t" for d t using Suc.IH by blast
  note ws = skip_ws_length
  have "parse_value (Suc (Suc n)) s = parse_value (Suc n) s" if "2 * length s + 1 \<le> Suc n"
  proof (cases s)
    case (Cons c r)
    have "2 * length (skip_ws r) + 2 \<le> n" using that Cons ws [of r] by simp
    from e [OF this] m [OF this] show ?thesis
      unfolding Cons parse_value.simps(2) [of "Suc n"] parse_value.simps(2) [of n] by (simp only: Let_def list.case)
  qed simp
  moreover have "parse_elems (Suc (Suc n)) s = parse_elems (Suc n) s" if l: "2 * length s + 2 \<le> Suc n"
  proof (cases "parse_value n s")
    case None
    then show ?thesis
      using v [of s] l unfolding parse_elems.simps(2) [of "Suc n" s] parse_elems.simps(2) [of n s] by simp
  next
    case (Some x)
    obtain a r where x: "x = (a, r)" by (cases x)
    have "2 * length (skip_ws r') + 2 \<le> n" if "skip_ws r = c # r'" for c r'
      using parse_value_shorter [of n s a r] Some x that l ws [of r] ws [of r'] by simp
    from e [OF this] show ?thesis
      using v [of s] l Some x unfolding parse_elems.simps(2) [of "Suc n" s] parse_elems.simps(2) [of n s]
      by (simp del: parse_elems.simps parse_value.simps split: list.split)
  qed
  moreover have "parse_members (Suc (Suc n)) d s = parse_members (Suc n) d s" if l: "2 * length s + 2 \<le> Suc n"
  proof -
    have k: "parse_value (Suc n) (skip_ws r1) = parse_value n (skip_ws r1)"
      if "s = q # s'" "parse_string s' = Some (k, r)" "skip_ws r = c # r1" for q s' k r c r1
      using parse_string_shorter [OF that(2)] that ws [of r] ws [of r1] l by (intro v) simp
    have r: "parse_members (Suc n) d' (skip_ws r3) = parse_members n d' (skip_ws r3)"
      if "s = q # s'" "parse_string s' = Some (k, r)" "skip_ws r = c # r1" "parse_value n (skip_ws r1) = Some (a, r2)"
        "skip_ws r2 = g # r3" for q s' k r c r1 a r2 g r3 d'
      using parse_string_shorter [OF that(2)] parse_value_shorter [of n "skip_ws r1" a r2] that
        ws [of r] ws [of r1] ws [of r2] ws [of r3] l by (intro m) simp
    show ?thesis
      unfolding parse_members.simps(2) [of "Suc n" d s] parse_members.simps(2) [of n d s]
      by (auto simp del: parse_value.simps parse_members.simps split: list.split option.split simp: k r)
  qed
  ultimately show ?case by blast
qed simp

lemma parse_value_fuel: "2 * length s + 1 \<le> n \<Longrightarrow> parse_value n s = parse_value (2 * length s + 1) s"
proof (induction n rule: dec_induct)
  case (step n)
  then show ?case using parse_stable [of s n] by simp
qed simp

lemma json_parse_fuel:
  assumes "2 * length s + 1 \<le> n"
  shows "json_parse s = (case parse_value n (skip_ws s) of None \<Rightarrow> None
     | Some (v, r) \<Rightarrow> if skip_ws r = [] then Some v else None)"
proof -
  have "2 * length (skip_ws s) + 1 \<le> 2 * length s + 1" using skip_ws_length [of s] by simp
  then show ?thesis
    using parse_value_fuel [of "skip_ws s" n] parse_value_fuel [of "skip_ws s" "2 * length s + 1"] assms
    by (simp add: json_parse_def)
qed

end
