(* ===== verification/Envelope.thy ===== *)
theory Envelope
  imports Json
begin

text \<open>
  envelope.py: the wire envelope of every message, its construction, validation and its
  dictionary form, and the bytes a publisher puts on a channel. Dataclass fields are not
  checked against their annotations at run time, so every field holds an arbitrary value;
  \<open>now\<close> and \<open>fresh\<close> are the clock and the text of the \<open>uuid4\<close> a call draws.
\<close>

record message_envelope =
  message_id :: pyval
  message_type :: pyval
  message_kind :: pyval
  version :: pyval
  payload :: pyval
  headers :: pyval
  created_at :: pyval
  correlation_id :: pyval
  causation_id :: pyval
  reply_to :: pyval
  expires_at :: pyval
  content_type :: pyval
  content_encoding :: pyval

section \<open>Python truth values\<close>

definition zero_text :: "string \<Rightarrow> bool" where
  "zero_text t \<longleftrightarrow> list_all (\<lambda>c. c = CHR ''0'' \<or> c = dot \<or> c = dash \<or> c = CHR ''+'')
     (takeWhile (\<lambda>c. c \<noteq> CHR ''e'' \<and> c \<noteq> CHR ''E'') t)"

fun truthy :: "pyval \<Rightarrow> bool" where
  "truthy PNone = False"
| "truthy (PBool b) = b"
| "truthy (PInt i) = (i \<noteq> 0)"
| "truthy (PFloat t) = (\<not> zero_text t)"
| "truthy (PDecimal t) = (\<not> zero_text t)"
| "truthy (PStr s) = (s \<noteq> [])"
| "truthy (PList xs) = (xs \<noteq> [])"
| "truthy (PTuple xs) = (xs \<noteq> [])"
| "truthy (PDict d) = (d \<noteq> [])"
| "truthy v = True"

definition or_val :: "pyval \<Rightarrow> pyval \<Rightarrow> pyval" where
  "or_val v w = (if truthy v then v else w)"

definition py_get :: "(string, pyval) dict \<Rightarrow> string \<Rightarrow> pyval" where
  "py_get d k = (case map_of d k of None \<Rightarrow> PNone | Some v \<Rightarrow> v)"

definition py_item :: "(string, pyval) dict \<Rightarrow> string \<Rightarrow> pyval res" where
  "py_item d k = (case map_of d k of None \<Rightarrow> Inl (KeyError k) | Some v \<Rightarrow> Inr v)"

text \<open>The \<open>isoformat\<close> method: datetimes, dates and times have one.\<close>

fun py_isoformat :: "pyval \<Rightarrow> string res" where
  "py_isoformat (PDateTime d) = Inr (isoformat d)"
| "py_isoformat (PDate n) = Inr (fmt_date n)"
| "py_isoformat (PTime t off) = Inr (time_isoformat t off)"
| "py_isoformat v = Inl AttributeError"

section \<open>The envelope\<close>

definition create :: "string \<Rightarrow> instant \<Rightarrow> message_envelope \<Rightarrow> message_envelope" where
  "create fresh now e = e\<lparr>
     message_id := or_val (message_id e) (PStr fresh),
     headers := or_val (headers e) (PDict []),
     created_at := or_val (created_at e) (PDateTime (at_utc now))\<rparr>"

fun is_positive_int :: "pyval \<Rightarrow> bool" where
  "is_positive_int (PInt i) = (1 \<le> i)"
| "is_positive_int v = False"

fun is_dict :: "pyval \<Rightarrow> bool" where
  "is_dict (PDict d) = True"
| "is_dict v = False"

definition validate :: "message_envelope \<Rightarrow> message_envelope res" where
  "validate e =
     (if \<not> truthy (message_id e) then Inl InvalidMessageDefinitionError
      else if \<not> truthy (message_type e) then Inl InvalidMessageDefinitionError
      else if \<not> truthy (message_kind e) then Inl InvalidMessageDefinitionError
      else if \<not> is_positive_int (version e) then Inl InvalidMessageDefinitionError
      else if \<not> is_dict (headers e) then Inl InvalidMessageDefinitionError
      else Inr e)"

definition to_dict :: "message_envelope \<Rightarrow> (string, pyval) dict res" where
  "to_dict self =
     bind_res (validate self) (\<lambda>_.
     bind_res (py_isoformat (created_at self)) (\<lambda>created.
     bind_res (if truthy (expires_at self)
         then bind_res (py_isoformat (expires_at self)) (\<lambda>t. Inr (PStr t)) else Inr PNone) (\<lambda>expires.
     Inr [(''message_id'', message_id self),
          (''message_type'', message_type self),
          (''message_kind'', message_kind self),
          (''version'', version self),
          (''payload'', encode_value (payload self)),
          (''headers'', encode_value (headers self)),
          (''created_at'', PStr created),
          (''correlation_id'', correlation_id self),
          (''causation_id'', causation_id self),
          (''reply_to'', reply_to self),
          (''expires_at'', expires),
          (''content_type'', content_type self),
          (''content_encoding'', content_encoding self)])))"

fun parse_stamp :: "pyval \<Rightarrow> pyval res" where
  "parse_stamp (PStr s) = of_option ValueError (map_option PDateTime (fromisoformat s))"
| "parse_stamp v = Inr v"

definition from_dict_body :: "instant \<Rightarrow> (string, pyval) dict \<Rightarrow> message_envelope res" where
  "from_dict_body now data =
     bind_res (parse_stamp (py_get data ''created_at'')) (\<lambda>created.
     bind_res (parse_stamp (py_get data ''expires_at'')) (\<lambda>expires.
     bind_res (py_item data ''message_id'') (\<lambda>mid.
     bind_res (py_item data ''message_type'') (\<lambda>mtype.
     bind_res (py_item data ''message_kind'') (\<lambda>mkind.
     bind_res (py_item data ''version'') (\<lambda>ver.
     bind_res (py_item data ''payload'') (\<lambda>raw.
     bind_res (decode_value raw) (\<lambda>pl.
     bind_res (decode_value (or_val (py_get data ''headers'') (PDict []))) (\<lambda>hs.
       validate \<lparr>message_id = mid, message_type = mtype, message_kind = mkind, version = ver,
         payload = pl, headers = hs,
         created_at = or_val created (PDateTime (at_utc now)),
         correlation_id = py_get data ''correlation_id'',
         causation_id = py_get data ''causation_id'',
         reply_to = py_get data ''reply_to'',
         expires_at = expires,
         content_type = py_get data ''content_type'',
         content_encoding = py_get data ''content_encoding''\<rparr>)))))))))"

definition from_dict :: "instant \<Rightarrow> (string, pyval) dict \<Rightarrow> message_envelope res" where
  "from_dict now data = (case from_dict_body now data of
       Inl (KeyError k) \<Rightarrow> Inl InvalidMessageDefinitionError | r \<Rightarrow> r)"

text \<open>
  The bytes of an envelope: \<open>serializer.dump(envelope.to_dict())\<close> on the way out,
  \<open>MessageEnvelope.from_dict(serializer.loads(raw))\<close> on the way in; \<open>from_dict\<close> fails with an
  \<open>AttributeError\<close> on a document that is not an object.
\<close>

definition to_wire :: "message_envelope \<Rightarrow> bytes res" where
  "to_wire e = bind_res (to_dict e) (\<lambda>d. dump (PDict d))"

definition from_wire :: "instant \<Rightarrow> bytes \<Rightarrow> message_envelope res" where
  "from_wire now raw = bind_res (loads raw) (\<lambda>v. case v of
     PDict d \<Rightarrow> from_dict now d | _ \<Rightarrow> Inl AttributeError)"

section \<open>Validation\<close>

definition valid_envelope :: "message_envelope \<Rightarrow> bool" where
  "valid_envelope e \<longleftrightarrow> truthy (message_id e) \<and> truthy (message_type e) \<and> truthy (message_kind e)
     \<and> is_positive_int (version e) \<and> is_dict (headers e)"

lemma validate_eq:
  "validate e = (if valid_envelope e then Inr e else Inl InvalidMessageDefinitionError)"
  by (simp add: validate_def valid_envelope_def)

lemma from_dict_valid: "from_dict now d = Inr e \<Longrightarrow> valid_envelope e"
  by (auto simp: from_dict_def from_dict_body_def res_simps validate_eq
      split: sum.splits exn.splits if_splits)

section \<open>Round trips\<close>

text \<open>
  A stamp the text form keeps, and the identifiers JSON carries unchanged.
\<close>

fun is_stamp :: "pyval \<Rightarrow> bool" where
  "is_stamp (PDateTime d) = valid_datetime d"
| "is_stamp v = False"

fun is_text :: "pyval \<Rightarrow> bool" where
  "is_text (PStr s) = True"
| "is_text v = False"

abbreviation opt_text :: "pyval \<Rightarrow> bool" where
  "opt_text v \<equiv> is_text v \<or> v = PNone"

definition wf_envelope :: "message_envelope \<Rightarrow> bool" where
  "wf_envelope e \<longleftrightarrow> valid_envelope e
     \<and> is_text (message_id e) \<and> is_text (message_type e) \<and> is_text (message_kind e)
     \<and> wf_value (payload e) \<and> wf_value (headers e)
     \<and> is_stamp (created_at e) \<and> (is_stamp (expires_at e) \<or> expires_at e = PNone)
     \<and> opt_text (correlation_id e) \<and> opt_text (causation_id e) \<and> opt_text (reply_to e)
     \<and> opt_text (content_type e) \<and> opt_text (content_encoding e)"

lemma is_text_iff: "is_text v \<longleftrightarrow> (\<exists>s. v = PStr s)"
  by (cases v) auto

lemma is_stamp_iff: "is_stamp v \<longleftrightarrow> (\<exists>d. v = PDateTime d \<and> valid_datetime d)"
  by (cases v) auto

lemma is_dict_iff: "is_dict v \<longleftrightarrow> (\<exists>d. v = PDict d)"
  by (cases v) auto

lemma is_positive_int_iff: "is_positive_int v \<longleftrightarrow> (\<exists>i. v = PInt i \<and> 1 \<le> i)"
  by (cases v) auto

lemma py_get_Cons [simp]: "py_get ((k, v) # d) k' = (if k = k' then v else py_get d k')"
  by (simp add: py_get_def)

lemma py_get_update [simp]:
  "py_get (AList.update k v d) k' = (if k = k' then v else py_get d k')"
  by (simp add: py_get_def)

lemma py_item_Cons [simp]: "py_item ((k, v) # d) k' = (if k = k' then Inr v else py_item d k')"
  by (simp add: py_item_def)

lemma from_dict_map_of: "map_of d = map_of d' \<Longrightarrow> from_dict now d = from_dict now d'"
  by (simp add: from_dict_def from_dict_body_def py_get_def py_item_def)

lemma encode_value_idem [simp]: "encode_value (encode_value v) = encode_value v"
  by (induction v) (auto simp: encode_datetime_def encode_date_def encode_time_def encode_uuid_def tagged_def)

lemma decode_wf: "wf_value v \<Longrightarrow> decode_value v = Inr v"
  using decode_encode_value decode_value_idem by blast

text \<open>The dictionary with the payload and headers as they are before tagging.\<close>

definition plain_dict :: "message_envelope \<Rightarrow> (string, pyval) dict" where
  "plain_dict e =
     [(''message_id'', message_id e), (''message_type'', message_type e),
      (''message_kind'', message_kind e), (''version'', version e),
      (''payload'', payload e), (''headers'', headers e),
      (''created_at'', PStr (projr (py_isoformat (created_at e)))),
      (''correlation_id'', correlation_id e), (''causation_id'', causation_id e),
      (''reply_to'', reply_to e),
      (''expires_at'', if truthy (expires_at e) then PStr (projr (py_isoformat (expires_at e))) else PNone),
      (''content_type'', content_type e), (''content_encoding'', content_encoding e)]"

lemma scalar_simps:
  "opt_text v \<Longrightarrow> encode_value v = v" "opt_text v \<Longrightarrow> canon v = v"
  "opt_text v \<Longrightarrow> wf_value v" "opt_text v \<Longrightarrow> serializable v"
  "is_positive_int v \<Longrightarrow> encode_value v = v" "is_positive_int v \<Longrightarrow> canon v = v"
  "is_positive_int v \<Longrightarrow> wf_value v" "is_positive_int v \<Longrightarrow> serializable v"
  by (auto simp: is_text_iff is_positive_int_iff)

text \<open>What reading the two stamps of a well-formed envelope gives.\<close>

lemma stamp_simps:
  assumes "is_stamp v"
  shows "truthy v" "py_isoformat v = Inr (projr (py_isoformat v))"
    "parse_stamp (PStr (projr (py_isoformat v))) = Inr v"
  using assms by (auto simp: is_stamp_iff of_option_def)

abbreviation expires_text :: "message_envelope \<Rightarrow> pyval" where
  "expires_text e \<equiv> if truthy (expires_at e) then PStr (projr (py_isoformat (expires_at e))) else PNone"

lemma expires_simps:
  assumes "is_stamp (expires_at e) \<or> expires_at e = PNone"
  shows "parse_stamp (expires_text e) = Inr (expires_at e)" "opt_text (expires_text e)"
    "(if truthy (expires_at e) then bind_res (py_isoformat (expires_at e)) (\<lambda>t. Inr (PStr t)) else Inr PNone)
       = Inr (expires_text e)"
proof -
  consider d where "expires_at e = PDateTime d" "valid_datetime d" | "expires_at e = PNone"
    using assms by (auto simp: is_stamp_iff)
  then show "parse_stamp (expires_text e) = Inr (expires_at e)" "opt_text (expires_text e)"
    "(if truthy (expires_at e) then bind_res (py_isoformat (expires_at e)) (\<lambda>t. Inr (PStr t)) else Inr PNone)
       = Inr (expires_text e)"
    by (cases; simp add: of_option_def)+
qed

lemma to_dict_plain:
  assumes "wf_envelope e"
  shows "to_dict e = Inr (map (\<lambda>(k, v). (k, encode_value v)) (plain_dict e))"
proof -
  have v: "valid_envelope e" and x: "is_stamp (expires_at e) \<or> expires_at e = PNone"
    using assms by (simp_all add: wf_envelope_def)
  obtain t where c: "py_isoformat (created_at e) = Inr t"
    using assms stamp_simps(2) [of "created_at e"] by (auto simp: wf_envelope_def)
  show ?thesis
    unfolding to_dict_def validate_eq if_P [OF v] c expires_simps(3) [OF x]
    using assms expires_simps(2) [OF x]
    by (simp add: plain_dict_def wf_envelope_def valid_envelope_def scalar_simps c)
qed

lemma from_dict_entries:
  assumes e: "wf_envelope e" and "decode_value pl = Inr (payload e)" "decode_value hs = Inr (headers e)"
    and falsy: "\<not> truthy hs \<longrightarrow> headers e = PDict []"
    and entries: "map_of d = map_of (AList.update ''payload'' pl (AList.update ''headers'' hs (plain_dict e)))"
  shows "from_dict now d = Inr e"
proof -
  let ?d = "AList.update ''payload'' pl (AList.update ''headers'' hs (plain_dict e))"
  have v: "valid_envelope e" and c: "is_stamp (created_at e)"
    and x: "is_stamp (expires_at e) \<or> expires_at e = PNone"
    using e by (simp_all add: wf_envelope_def)
  have hs: "decode_value (or_val hs (PDict [])) = Inr (headers e)"
    using assms(3) falsy by (simp add: or_val_def)
  have "from_dict_body now ?d = validate e"
    using stamp_simps [OF c] expires_simps(1) [OF x] assms(2) hs
    by (simp add: from_dict_body_def plain_dict_def or_val_def [of "created_at e"] del: parse_stamp.simps)
      (cases e, simp)
  then have "from_dict now ?d = Inr e" using v by (simp add: from_dict_def validate_eq)
  then show ?thesis using from_dict_map_of [OF entries] by simp
qed

lemma from_dict_plain:
  assumes "wf_envelope e" shows "from_dict now (plain_dict e) = Inr e"
proof (rule from_dict_entries [OF assms])
  show "decode_value (payload e) = Inr (payload e)" "decode_value (headers e) = Inr (headers e)"
    using assms by (simp_all add: wf_envelope_def decode_wf)
  show "\<not> truthy (headers e) \<longrightarrow> headers e = PDict []"
    using assms by (auto simp: wf_envelope_def valid_envelope_def is_dict_iff)
qed (simp add: plain_dict_def fun_eq_iff)

lemma from_dict_encoded:
  assumes "wf_envelope e"
  shows "from_dict now (map (\<lambda>(k, v). (k, encode_value v)) (plain_dict e)) = Inr e"
proof (rule from_dict_entries [OF assms])
  show "decode_value (encode_value (payload e)) = Inr (payload e)"
    "decode_value (encode_value (headers e)) = Inr (headers e)"
    using assms by (simp_all add: wf_envelope_def decode_encode_value)
  show "\<not> truthy (encode_value (headers e)) \<longrightarrow> headers e = PDict []"
    using assms by (auto simp: wf_envelope_def valid_envelope_def is_dict_iff)
  show "map_of (map (\<lambda>(k, v). (k, encode_value v)) (plain_dict e)) =
      map_of (AList.update ''payload'' (encode_value (payload e))
        (AList.update ''headers'' (encode_value (headers e)) (plain_dict e)))"
    using assms expires_simps(2) [of e]
    by (simp add: plain_dict_def wf_envelope_def valid_envelope_def scalar_simps fun_eq_iff)
qed

definition canon_envelope :: "message_envelope \<Rightarrow> message_envelope" where
  "canon_envelope e = e\<lparr>payload := canon (payload e), headers := canon (headers e)\<rparr>"

lemma plain_dict_wf: "dict_wf (plain_dict e)"
  by (simp add: plain_dict_def dict_wf_def)

lemma wf_plain_dict:
  assumes "wf_envelope e" shows "wf_value (PDict (plain_dict e))"
  using assms expires_simps(2) [of e] plain_dict_wf [of e]
  by (simp add: plain_dict_def wf_envelope_def valid_envelope_def scalar_simps TYPE_KEY_def)

lemma serializable_plain_dict:
  assumes "wf_envelope e" "serializable (payload e)" "serializable (headers e)"
  shows "serializable (PDict (plain_dict e))"
  using assms expires_simps(2) [of e] plain_dict_wf [of e]
  by (simp add: plain_dict_def wf_envelope_def valid_envelope_def scalar_simps)

lemma canon_is_dict: "is_dict (canon v) \<longleftrightarrow> is_dict v"
  by (cases v) auto

lemma wf_canon_envelope: "wf_envelope e \<Longrightarrow> wf_envelope (canon_envelope e)"
  by (auto simp: wf_envelope_def valid_envelope_def canon_envelope_def wf_value_canon canon_is_dict)

lemma canon_plain_dict:
  assumes "wf_envelope e"
  shows "map (\<lambda>(k, v). (k, canon v)) (plain_dict e) = plain_dict (canon_envelope e)"
  using assms expires_simps(2) [of e]
  by (simp add: plain_dict_def canon_envelope_def wf_envelope_def valid_envelope_def scalar_simps)

lemma dump_encode: "dump (encode_value v) = dump v"
  by (simp add: dump_def dumps_def)

text \<open>
  The dictionary form loses nothing: \<open>from_dict\<close> reads back what \<open>to_dict\<close> writes, for every
  envelope that validates, with text identifiers and timezone-aware dates in its payload.
\<close>

theorem from_dict_to_dict:
  assumes "wf_envelope e"
  shows "bind_res (to_dict e) (from_dict now) = Inr e"
  by (simp add: to_dict_plain [OF assms] from_dict_encoded [OF assms])

lemma wire_round_trip:
  assumes "wf_envelope e" "serializable (payload e)" "serializable (headers e)"
  shows "bind_res (to_wire e) (from_wire now) = Inr (canon_envelope e)"
proof -
  let ?d = "plain_dict e"
  have "to_wire e = dump (PDict ?d)"
    using dump_encode [of "PDict ?d"] by (simp add: to_wire_def to_dict_plain [OF assms(1)])
  moreover have "bind_res (dump (PDict ?d)) loads
      = Inr (PDict (sort_key fst (plain_dict (canon_envelope e))))"
    using loads_dump [OF wf_plain_dict serializable_plain_dict] assms canon_plain_dict by simp
  moreover have "from_dict now (sort_key fst (plain_dict (canon_envelope e)))
      = from_dict now (plain_dict (canon_envelope e))"
    using plain_dict_wf by (intro from_dict_map_of ext) (rule map_of_sort_key)
  ultimately show ?thesis
    using from_dict_plain [OF wf_canon_envelope [OF assms(1)]]
    by (cases "dump (PDict ?d)") (simp_all add: from_wire_def)
qed

text \<open>
  C35. The bytes on a channel carry the whole envelope: reading them back gives the envelope
  that was published, with the mappings in its payload and headers sorted by key. The envelope is
  well-formed: its ids, type and kind are texts, its datetimes have an offset, and payload and
  headers hold no tuples (which come back as lists), floats, decimals or reserved tags.
\<close>

theorem from_wire_to_wire:
  assumes "wf_envelope e" "serializable (payload e)" "serializable (headers e)"
  shows "bind_res (to_wire e) (from_wire now) = Inr (canon_envelope e)"
  using assms by (rule wire_round_trip)

definition sample_envelope :: message_envelope where
  "sample_envelope = \<lparr>message_id = PStr ''m1'', message_type = PStr ''send'', message_kind = PStr ''command'',
     version = PInt 1, payload = PDict [(''to'', PStr ''x''), (''n'', PInt 3)], headers = PDict [(''a'', PNone)],
     created_at = PDateTime (at_utc 63000000000000000), correlation_id = PNone, causation_id = PNone,
     reply_to = PStr ''replies'', expires_at = PNone, content_type = PNone, content_encoding = PNone\<rparr>"

lemma sample_envelope_ok:
  "wf_envelope sample_envelope" "serializable (payload sample_envelope)" "serializable (headers sample_envelope)"
  by (simp_all add: sample_envelope_def wf_envelope_def valid_envelope_def reserved_types_def TYPE_KEY_def
      dict_wf_def valid_datetime_def at_utc_def in_range_def)

theorem from_dict_to_dict_witness:
  "bind_res (to_dict sample_envelope) (from_dict 0) = Inr sample_envelope"
  by (rule from_dict_to_dict [OF sample_envelope_ok(1)])

theorem from_wire_to_wire_witness:
  "bind_res (to_wire sample_envelope) (from_wire 0) = Inr (canon_envelope sample_envelope)"
  by (rule from_wire_to_wire [OF sample_envelope_ok])

end
