(* ===== verification/Codecs.thy ===== *)
theory Codecs
  imports Envelope
begin

text \<open>
  codecs.py: the payload type registry and the payload codec that carries decimals and
  dataclasses through JSON. A class is named by the type tag of its instances (see
  \<open>PData\<close>); \<open>build\<close> is the constructor call \<open>value_type(**fields)\<close> of application classes.
\<close>

definition CODEC_KEY :: string where "CODEC_KEY = ''__pybus_codec__''"
definition CODEC_VERSION :: int where "CODEC_VERSION = 1"

section \<open>Decimal\<close>

text \<open>
  \<open>Decimal(text)\<close> and \<open>str(decimal)\<close>: sign, coefficient without leading zeros and exponent.
  The limits of the exponent range are left out.
\<close>

datatype decimal_num = Finite bool string int | Special

definition lower_char :: "char \<Rightarrow> char" where
  "lower_char c = (let n = (of_char c :: nat) in if 65 \<le> n \<and> n \<le> 90 then char_of (n + 32) else c)"

definition strip_zeros :: "string \<Rightarrow> string" where
  "strip_zeros ds = (case dropWhile (\<lambda>c. c = CHR ''0'') ds of [] \<Rightarrow> ''0'' | cs \<Rightarrow> cs)"

definition is_special_text :: "string \<Rightarrow> bool" where
  "is_special_text s \<longleftrightarrow> s = ''inf'' \<or> s = ''infinity''
     \<or> take 3 s = ''nan'' \<and> list_all is_digit (drop 3 s) \<or> take 4 s = ''snan'' \<and> list_all is_digit (drop 4 s)"

definition parse_exponent :: "string \<Rightarrow> int option" where
  "parse_exponent s = (case s of [] \<Rightarrow> Some 0
     | c # cs \<Rightarrow> if c \<noteq> CHR ''e'' then None
         else let neg = (take 1 cs = [dash]);
                  ds = (if neg \<or> take 1 cs = ''+'' then drop 1 cs else cs) in
              if ds \<noteq> [] \<and> list_all is_digit ds
              then Some (if neg then - int (digits_val 0 ds) else int (digits_val 0 ds)) else None)"

definition parse_unsigned_decimal :: "bool \<Rightarrow> string \<Rightarrow> decimal_num option" where
  "parse_unsigned_decimal neg body =
     (if is_special_text body then Some Special
      else let ip = takeWhile is_digit body; r = dropWhile is_digit body;
               fp = (if take 1 r = [dot] then takeWhile is_digit (drop 1 r) else []);
               r2 = (if take 1 r = [dot] then dropWhile is_digit (drop 1 r) else r) in
           if ip = [] \<and> fp = [] then None
           else map_option (\<lambda>e. Finite neg (strip_zeros (ip @ fp)) (e - int (length fp))) (parse_exponent r2))"

definition parse_decimal :: "string \<Rightarrow> decimal_num option" where
  "parse_decimal s =
     (let t = map lower_char (filter (\<lambda>c. c \<noteq> CHR ''_'') (strip s)) in
      if take 1 t = [dash] then parse_unsigned_decimal True (drop 1 t)
      else if take 1 t = ''+'' then parse_unsigned_decimal False (drop 1 t)
      else parse_unsigned_decimal False t)"

definition decimal_str :: "bool \<Rightarrow> string \<Rightarrow> int \<Rightarrow> string" where
  "decimal_str neg ds e =
     (let left = e + int (length ds);
          place = (if e \<le> 0 \<and> - 6 < left then left else 1);
          body = (if place \<le> 0 then ''0'' @ [dot] @ replicate (nat (- place)) CHR ''0'' @ ds
             else if int (length ds) \<le> place then ds @ replicate (nat place - length ds) CHR ''0''
             else take (nat place) ds @ [dot] @ drop (nat place) ds);
          suffix = (if left = place then [] else CHR ''E'' # (if left < place then [] else ''+'') @ int_str (left - place)) in
      (if neg then [dash] else []) @ body @ suffix)"

section \<open>The payload type registry\<close>

record type_registry =
  tr_types :: "(string, string) dict"
  tr_canonical_ids :: "(string, string) dict"

definition empty_types :: type_registry where
  "empty_types = \<lparr>tr_types = [], tr_canonical_ids = []\<rparr>"

text \<open>
  \<open>qualname\<close> is \<open>fully_qualified_type_name(value_type)\<close> and \<open>is_data\<close> the test
  \<open>is_dataclass\<close>. Every identifier is tested before the first one is written.
\<close>

definition register_type ::
    "bool \<Rightarrow> string \<Rightarrow> string \<Rightarrow> string option \<Rightarrow> string list \<Rightarrow> type_registry \<Rightarrow> (string \<times> type_registry) res" where
  "register_type is_data qualname value_type type_id aliases self =
     (if \<not> is_data then Inl TypeError
      else let canonical_id = (case type_id of None \<Rightarrow> qualname | Some i \<Rightarrow> if i = [] then qualname else i);
               existing_id = map_of (tr_canonical_ids self) value_type;
               registered_ids = canonical_id # aliases in
        if existing_id \<noteq> None \<and> existing_id \<noteq> Some canonical_id then Inl ValueError
        else if \<exists>i \<in> set registered_ids. map_of (tr_types self) i \<noteq> None \<and> map_of (tr_types self) i \<noteq> Some value_type
        then Inl ValueError
        else Inr (canonical_id, self\<lparr>
          tr_types := fold (\<lambda>i d. AList.update i value_type d) registered_ids (tr_types self),
          tr_canonical_ids := AList.update value_type canonical_id (tr_canonical_ids self)\<rparr>))"

definition type_id_for :: "type_registry \<Rightarrow> string \<Rightarrow> string res" where
  "type_id_for self value_type = of_option SerializationError (map_of (tr_canonical_ids self) value_type)"

definition resolve_type :: "type_registry \<Rightarrow> string \<Rightarrow> string res" where
  "resolve_type self type_id = of_option DeserializationError (map_of (tr_types self) type_id)"

section \<open>The codec\<close>

text \<open>\<open>PayloadCodec\<close>: both directions take the value and the context.\<close>

record codec =
  codec_encode :: "pyval \<Rightarrow> pyval \<Rightarrow> pyval res"
  codec_decode :: "pyval \<Rightarrow> pyval \<Rightarrow> pyval res"

definition map_entries :: "('v \<Rightarrow> 'w res) \<Rightarrow> ('k \<times> 'v) list \<Rightarrow> ('k \<times> 'w) list res" where
  "map_entries f d = map_res (\<lambda>(k, v). bind_res (f v) (\<lambda>w. Inr (k, w))) d"

lemma map_entries_cong [fundef_cong]:
  "d = d' \<Longrightarrow> (\<And>k v. (k, v) \<in> set d' \<Longrightarrow> f v = g v) \<Longrightarrow> map_entries f d = map_entries g d'"
  unfolding map_entries_def by (rule map_res_cong) auto

definition marked :: "string \<Rightarrow> (string \<times> pyval) list \<Rightarrow> pyval" where
  "marked kind entries = PDict ((CODEC_KEY, PStr kind) # entries)"

fun py_encode :: "type_registry \<Rightarrow> pyval \<Rightarrow> pyval res" where
  "py_encode R (PDecimal t) =
     (if parse_decimal t = Some Special then Inl SerializationError
      else Inr (marked ''decimal'' [(''version'', PInt CODEC_VERSION), (''value'', PStr t)]))"
| "py_encode R (PData n fs) =
     bind_res (type_id_for R n) (\<lambda>i.
     bind_res (map_entries (py_encode R) fs) (\<lambda>es.
     Inr (marked ''dataclass'' [(''type'', PStr i), (''version'', PInt CODEC_VERSION), (''fields'', PDict es)])))"
| "py_encode R (PDict d) =
     bind_res (map_entries (py_encode R) d) (\<lambda>es.
     if has_key d CODEC_KEY
     then Inr (marked ''mapping'' [(''version'', PInt CODEC_VERSION), (''value'', PDict es)])
     else Inr (PDict es))"
| "py_encode R (PList xs) = bind_res (map_res (py_encode R) xs) (\<lambda>ys. Inr (PList ys))"
| "py_encode R (PTuple xs) = bind_res (map_res (py_encode R) xs) (\<lambda>ys. Inr (PList ys))"
| "py_encode R v = Inr (encode_value v)"

text \<open>
  Decoding. \<open>value_kind in {...}\<close> raises \<open>TypeError\<close> for an unhashable tag; \<open>version != 1\<close>
  also accepts \<open>True\<close> and \<open>1.0\<close>.
\<close>

fun hashable :: "pyval \<Rightarrow> bool" where
  "hashable (PList xs) = False"
| "hashable (PDict d) = False"
| "hashable (PTuple xs) = (\<forall>x \<in> set xs. hashable x)"
| "hashable (PData n fs) = (\<forall>(k, v) \<in> set fs. hashable v)"
| "hashable v = True"

definition number_text_is :: "int \<Rightarrow> string \<Rightarrow> bool" where
  "number_text_is i t = (case parse_decimal t of
     Some (Finite neg ds e) \<Rightarrow>
       (let n = (if neg then - int (digits_val 0 ds) else int (digits_val 0 ds)) in
        if 0 \<le> e then n * 10 ^ nat e = i else n = i * 10 ^ nat (- e))
   | _ \<Rightarrow> False)"

fun equals_int :: "int \<Rightarrow> pyval \<Rightarrow> bool" where
  "equals_int i (PInt j) = (j = i)"
| "equals_int i (PBool b) = ((if b then 1 else 0) = i)"
| "equals_int i (PFloat t) = number_text_is i t"
| "equals_int i (PDecimal t) = number_text_is i t"
| "equals_int i v = False"

definition validate_codec_version :: "(string, pyval) dict \<Rightarrow> unit res" where
  "validate_codec_version d =
     (if py_get d ''version'' = PInt CODEC_VERSION then Inr () else Inl DeserializationError)"

definition decode_decimal :: "pyval \<Rightarrow> pyval res" where
  "decode_decimal v = (case v of
     PStr s \<Rightarrow> (case parse_decimal s of Some (Finite neg ds e) \<Rightarrow> Inr (PDecimal (decimal_str neg ds e))
        | _ \<Rightarrow> Inl DeserializationError)
   | _ \<Rightarrow> Inl DeserializationError)"

definition dataclass_id :: "(string, pyval) dict \<Rightarrow> string res" where
  "dataclass_id d =
     (let type_id = (case py_get d ''type'' of
            PNone \<Rightarrow> (case (py_get d ''module'', py_get d ''qualname'') of
                (PStr m, PStr q) \<Rightarrow> PStr (m @ '':'' @ q) | _ \<Rightarrow> PNone)
          | v \<Rightarrow> v) in
      case type_id of PStr i \<Rightarrow> if i = [] then Inl DeserializationError else Inr i | _ \<Rightarrow> Inl DeserializationError)"

definition value_kind :: "(string, pyval) dict \<Rightarrow> pyval res" where
  "value_kind d =
     (if has_key d CODEC_KEY then
        (case py_get d CODEC_KEY of
           PStr k \<Rightarrow> if k = [] then Inl DeserializationError
             else bind_res (validate_codec_version d) (\<lambda>_. Inr (PStr k))
         | _ \<Rightarrow> Inl DeserializationError)
      else Inr (py_get d TYPE_KEY))"

definition catch_type_error :: "'a res \<Rightarrow> 'a res" where
  "catch_type_error r = (case r of Inl TypeError \<Rightarrow> Inl DeserializationError | _ \<Rightarrow> r)"

lemma size_map_of: "map_of d k = Some v \<Longrightarrow> size v < size (PDict d)"
  by (induction d) (auto split: if_splits)

lemma size_entry: "(k, v) \<in> set d \<Longrightarrow> size v < size (PDict d)"
  by (induction d) auto

function (sequential) py_decode ::
    "type_registry \<Rightarrow> (string \<Rightarrow> (string, pyval) dict \<Rightarrow> pyval res) \<Rightarrow> pyval \<Rightarrow> pyval res" where
  "py_decode R build (PList xs) = bind_res (map_res (py_decode R build) xs) (\<lambda>ys. Inr (PList ys))"
| "py_decode R build (PDict d) =
     bind_res (value_kind d) (\<lambda>kind.
     if kind = PStr ''mapping'' \<and> has_key d CODEC_KEY then
       (case map_of d ''value'' of
          Some (PDict m) \<Rightarrow>
            bind_res (map_entries (py_decode R build) m) (\<lambda>m'.
            bind_res (map_entries (py_decode R build)
                (filter (\<lambda>(k, v). k \<notin> {CODEC_KEY, ''version'', ''value''}) d)) (\<lambda>rest.
            Inr (PDict (dict_merge m' rest))))
        | _ \<Rightarrow> Inl DeserializationError)
     else if kind = PStr ''decimal'' then decode_decimal (py_get d ''value'')
     else if kind = PStr ''dataclass'' then
       bind_res (dataclass_id d) (\<lambda>type_id.
       if has_key d ''version'' \<and> \<not> equals_int CODEC_VERSION (py_get d ''version'') then Inl DeserializationError
       else bind_res (resolve_type R type_id) (\<lambda>value_type.
       case map_of d ''fields'' of
         Some (PDict fs) \<Rightarrow>
           catch_type_error (bind_res (map_entries (py_decode R build) fs) (build value_type))
       | _ \<Rightarrow> Inl DeserializationError))
     else if has_key d CODEC_KEY then Inl DeserializationError
     else if \<not> hashable kind then Inl TypeError
     else if kind \<in> PStr ` reserved_types then decode_value (PDict d)
     else bind_res (map_entries (py_decode R build) d) (\<lambda>e. Inr (PDict e)))"
| "py_decode R build v = decode_value v"
  by pat_completeness auto

termination
proof (relation "measure (\<lambda>(R, build, v). size v)", goal_cases)
  case 1
  show ?case by simp
next
  case (2 R build xs z)
  then show ?case by (induction xs) auto
next
  case 3
  then show ?case by (auto dest!: size_map_of size_entry)
next
  case 4
  then show ?case by (auto dest!: size_map_of size_entry)
next
  case 5
  then show ?case by (auto dest!: size_map_of size_entry)
next
  case 6
  then show ?case by (auto dest!: size_entry)
qed

definition python_codec ::
    "type_registry \<Rightarrow> (string \<Rightarrow> (string, pyval) dict \<Rightarrow> pyval res) \<Rightarrow> codec" where
  "python_codec R build = \<lparr>codec_encode = (\<lambda>v ctx. py_encode R v), codec_decode = (\<lambda>v ctx. py_decode R build v)\<rparr>"

definition resolve_payload_codec ::
    "(string \<Rightarrow> (string, pyval) dict \<Rightarrow> pyval res) \<Rightarrow> codec option \<Rightarrow> codec" where
  "resolve_payload_codec build c = (case c of None \<Rightarrow> python_codec empty_types build | Some c \<Rightarrow> c)"

section \<open>Registered types resolve\<close>

definition types_ok :: "type_registry \<Rightarrow> bool" where
  "types_ok R \<longleftrightarrow> (\<forall>c i. map_of (tr_canonical_ids R) c = Some i \<longrightarrow> map_of (tr_types R) i = Some c)"

lemma types_ok_empty: "types_ok empty_types"
  by (simp add: types_ok_def empty_types_def)

lemma map_of_fold_update:
  "map_of (fold (\<lambda>i d. AList.update i c d) is d) k = (if k \<in> set is then Some c else map_of d k)"
  by (induction "is" arbitrary: d) auto

lemma register_type_InrD:
  assumes "register_type is_data qualname c type_id aliases R = Inr (i, R')"
  shows "tr_types R' = fold (\<lambda>i d. AList.update i c d) (i # aliases) (tr_types R)"
    and "tr_canonical_ids R' = AList.update c i (tr_canonical_ids R)"
    and "map_of (tr_canonical_ids R) c \<in> {None, Some i}"
    and "\<And>k. k \<in> set (i # aliases) \<Longrightarrow> map_of (tr_types R) k \<in> {None, Some c}"
proof -
  note d = assms [unfolded register_type_def Let_def]
  show "tr_types R' = fold (\<lambda>i d. AList.update i c d) (i # aliases) (tr_types R)"
    and "tr_canonical_ids R' = AList.update c i (tr_canonical_ids R)"
    and "map_of (tr_canonical_ids R) c \<in> {None, Some i}"
    using d by (auto split: if_splits)
  show "map_of (tr_types R) k \<in> {None, Some c}" if "k \<in> set (i # aliases)" for k
    using d that by (auto simp del: set_simps split: if_splits)
qed

lemma register_type_types_ok:
  assumes "types_ok R" "register_type is_data q c ti al R = Inr (i, R')" shows "types_ok R'"
  unfolding types_ok_def
proof (intro allI impI)
  note d = register_type_InrD [OF assms(2)]
  fix c' k assume k: "map_of (tr_canonical_ids R') c' = Some k"
  show "map_of (tr_types R') k = Some c'"
  proof (cases "c' = c")
    case True
    then show ?thesis using k unfolding d(1,2) map_of_fold_update by simp
  next
    case False
    then have "map_of (tr_types R) k = Some c'" using k assms(1) unfolding d(2) types_ok_def by simp
    moreover from this False have "k \<notin> set (i # al)" using d(4) [of k] by auto
    ultimately show ?thesis unfolding d(1) map_of_fold_update by simp
  qed
qed

text \<open>
  Registering a payload type makes its identifier and all aliases resolve to it, makes it
  encodable under the returned identifier, and changes the meaning of no identifier and of no
  type registered before.
\<close>

theorem register_type_extends:
  assumes "register_type is_data qualname c type_id aliases R = Inr (i, R')"
  shows "type_id_for R' c = Inr i \<and> (\<forall>k \<in> set (i # aliases). resolve_type R' k = Inr c)
    \<and> (\<forall>k c'. resolve_type R k = Inr c' \<longrightarrow> resolve_type R' k = Inr c')
    \<and> (\<forall>c' k. type_id_for R c' = Inr k \<longrightarrow> type_id_for R' c' = Inr k)"
proof -
  note d = register_type_InrD [OF assms]
  have types: "map_of (tr_types R') k = (if k \<in> set (i # aliases) then Some c else map_of (tr_types R) k)" for k
    unfolding d(1) map_of_fold_update ..
  have ids: "map_of (tr_canonical_ids R') = (map_of (tr_canonical_ids R))(c \<mapsto> i)" unfolding d(2) by simp
  have "map_of (tr_types R) k = Some c' \<Longrightarrow> map_of (tr_types R') k = Some c'" for k c'
    using d(4) [of k] by (auto simp: types)
  moreover have "map_of (tr_canonical_ids R) c' = Some k \<Longrightarrow> map_of (tr_canonical_ids R') c' = Some k" for c' k
    using d(3) by (auto simp: ids)
  ultimately show ?thesis
    unfolding type_id_for_def resolve_type_def of_option_eq_Inr using types ids by simp
qed

theorem register_type_extends_witness:
  "\<exists>R'. register_type True ''app:Money'' ''Money'' None [''money''] empty_types = Inr (''app:Money'', R')
     \<and> resolve_type R' ''money'' = Inr ''Money''"
proof -
  obtain R' where R: "register_type True ''app:Money'' ''Money'' None [''money''] empty_types = Inr (''app:Money'', R')"
    by (simp add: register_type_def empty_types_def Let_def)
  from register_type_extends [OF R] R show ?thesis by auto
qed

section \<open>Round trip\<close>

definition codec_types :: "string set" where
  "codec_types = reserved_types \<union> {''decimal'', ''dataclass''}"

definition decimal_ok :: "string \<Rightarrow> bool" where
  "decimal_ok t = (case parse_decimal t of Some (Finite neg ds e) \<Rightarrow> decimal_str neg ds e = t | _ \<Rightarrow> False)"

text \<open>A type tag of an application's own mapping must not look like one of the codec's.\<close>

definition tag_ok :: "pyval option \<Rightarrow> bool" where
  "tag_ok v = (case v of None \<Rightarrow> True | Some (PStr s) \<Rightarrow> s \<notin> codec_types
     | Some PNone \<Rightarrow> True | Some (PBool b) \<Rightarrow> True | Some (PInt i) \<Rightarrow> True | _ \<Rightarrow> False)"

text \<open>
  The values that survive: decimals in the form \<open>str\<close> writes, instances of registered
  dataclasses that their constructor rebuilds, mappings without a colliding type tag unless
  they carry the codec marker (then they are wrapped), no tuples.
\<close>

fun codec_ok :: "type_registry \<Rightarrow> (string \<Rightarrow> (string, pyval) dict \<Rightarrow> pyval res) \<Rightarrow> pyval \<Rightarrow> bool" where
  "codec_ok R build (PDecimal t) = decimal_ok t"
| "codec_ok R build (PData n fs) =
     ((\<forall>(k, v) \<in> set fs. codec_ok R build v) \<and> build n fs = Inr (PData n fs)
      \<and> (\<exists>i. map_of (tr_canonical_ids R) n = Some i \<and> i \<noteq> []))"
| "codec_ok R build (PDict d) =
     (dict_wf d \<and> (\<forall>(k, v) \<in> set d. codec_ok R build v) \<and> (has_key d CODEC_KEY \<or> tag_ok (map_of d TYPE_KEY)))"
| "codec_ok R build (PList xs) = (\<forall>x \<in> set xs. codec_ok R build x)"
| "codec_ok R build (PTuple xs) = False"
| "codec_ok R build v = wf_value v"

lemma map_entries_round_trip:
  assumes "\<And>k v. (k, v) \<in> set d \<Longrightarrow> \<exists>w. f v = Inr w \<and> g w = Inr v"
  shows "\<exists>e. map_entries f d = Inr e \<and> map fst e = map fst d \<and> map_entries g e = Inr d
    \<and> (\<forall>k. map_of e k = (case map_of d k of None \<Rightarrow> None | Some v \<Rightarrow> (case f v of Inl x \<Rightarrow> None | Inr w \<Rightarrow> Some w)))"
  using assms
proof (induction d)
  case Nil
  then show ?case by (simp add: map_entries_def)
next
  case (Cons p d)
  obtain k v where p: "p = (k, v)" by (cases p)
  obtain w where w: "f v = Inr w" "g w = Inr v" using Cons.prems [of k v] p by auto
  obtain e where "map_entries f d = Inr e" "map fst e = map fst d" "map_entries g e = Inr d"
    "\<forall>k. map_of e k = (case map_of d k of None \<Rightarrow> None | Some v \<Rightarrow> (case f v of Inl x \<Rightarrow> None | Inr w \<Rightarrow> Some w))"
    using Cons.IH Cons.prems by auto
  then show ?case using w p by (intro exI [of _ "(k, w) # e"]) (auto simp: map_entries_def)
qed

lemma map_res_round_trip:
  assumes "\<And>v. v \<in> set xs \<Longrightarrow> \<exists>w. f v = Inr w \<and> g w = Inr v"
  shows "\<exists>ys. map_res f xs = Inr ys \<and> map_res g ys = Inr xs"
  using assms
proof (induction xs)
  case (Cons x xs)
  then obtain w ys where "f x = Inr w" "g w = Inr x" "map_res f xs = Inr ys" "map_res g ys = Inr xs" by force
  then show ?case by (intro exI [of _ "w # ys"]) simp
qed simp

lemma codec_keys [simp]:
  "CODEC_KEY \<noteq> ''version''" "CODEC_KEY \<noteq> ''value''" "CODEC_KEY \<noteq> ''type''" "CODEC_KEY \<noteq> ''fields''"
  "''version'' \<noteq> CODEC_KEY" "''value'' \<noteq> CODEC_KEY" "''type'' \<noteq> CODEC_KEY" "''fields'' \<noteq> CODEC_KEY"
  "CODEC_KEY \<noteq> TYPE_KEY" "TYPE_KEY \<noteq> CODEC_KEY"
  by (simp_all add: CODEC_KEY_def TYPE_KEY_def)

lemma value_kind_marked [simp]:
  "k \<noteq> [] \<Longrightarrow> map_of es ''version'' = Some (PInt CODEC_VERSION) \<Longrightarrow>
    value_kind ((CODEC_KEY, PStr k) # es) = Inr (PStr k)"
  by (simp add: value_kind_def has_key_def py_get_def validate_codec_version_def)

lemma tag_ok_kind:
  assumes "tag_ok (map_of d TYPE_KEY)" "\<not> has_key d CODEC_KEY"
    and e: "map fst e = map fst d"
    "map_of e TYPE_KEY = (case map_of d TYPE_KEY of None \<Rightarrow> None | Some v \<Rightarrow> (case py_encode R v of Inl x \<Rightarrow> None | Inr w \<Rightarrow> Some w))"
  shows "value_kind e = Inr (py_get e TYPE_KEY) \<and> \<not> has_key e CODEC_KEY \<and> hashable (py_get e TYPE_KEY)
    \<and> py_get e TYPE_KEY \<notin> PStr ` codec_types"
proof -
  have "\<not> has_key e CODEC_KEY" using assms(2) e(1) by (metis has_key_def list.set_map)
  moreover have "hashable (py_get e TYPE_KEY) \<and> py_get e TYPE_KEY \<notin> PStr ` codec_types"
    using assms(1) e(2) by (auto simp: tag_ok_def py_get_def split: option.splits pyval.splits)
  ultimately show ?thesis by (simp add: value_kind_def)
qed

lemma reserved_types_nonempty: "ty \<in> reserved_types \<Longrightarrow> ty \<notin> {''mapping'', ''decimal'', ''dataclass''}"
  by (auto simp: reserved_types_def)

lemma py_decode_tagged:
  assumes "ty \<in> reserved_types" shows "py_decode R build (tagged ty t) = decode_value (tagged ty t)"
proof -
  let ?d = "[(TYPE_KEY, PStr ty), (VALUE_KEY, PStr t)]"
  have no: "\<not> has_key ?d CODEC_KEY" by (simp add: has_key_def CODEC_KEY_def VALUE_KEY_def TYPE_KEY_def)
  then have "value_kind ?d = Inr (PStr ty)" by (simp add: value_kind_def py_get_def)
  then show ?thesis
    using no assms reserved_types_nonempty [OF assms] unfolding tagged_def py_decode.simps(2) by simp
qed

lemma py_decode_scalar:
  assumes "wf_value v" "\<forall>d. v \<noteq> PDict d" "\<forall>xs. v \<noteq> PList xs" "\<forall>t. v \<noteq> PDecimal t" "\<forall>n fs. v \<noteq> PData n fs"
  shows "\<exists>w. py_encode R v = Inr w \<and> py_decode R build w = Inr v"
proof -
  have r: "''datetime'' \<in> reserved_types" "''date'' \<in> reserved_types" "''time'' \<in> reserved_types"
    "''uuid'' \<in> reserved_types" by (simp_all add: reserved_types_def)
  have "py_encode R v = Inr (encode_value v)" using assms by (cases v) auto
  moreover have "py_decode R build (encode_value v) = decode_value (encode_value v)"
    using assms r [THEN py_decode_tagged]
    by (cases v) (simp_all add: encode_datetime_def encode_date_def encode_time_def encode_uuid_def)
  ultimately show ?thesis using decode_encode_value [OF assms(1)] by simp
qed

lemma py_decode_marked:
  assumes "k \<noteq> []" "map_of es ''version'' = Some (PInt CODEC_VERSION)"
  shows "value_kind ((CODEC_KEY, PStr k) # es) = Inr (PStr k)" "has_key ((CODEC_KEY, PStr k) # es) CODEC_KEY"
  using assms by (simp_all add: has_key_def)

lemma mapping_rest:
  "filter (\<lambda>(k, v). k \<notin> {CODEC_KEY, ''version'', ''value''})
     ((CODEC_KEY, a) # [(''version'', b), (''value'', c)]) = []"
  by simp

lemma codec_round_trip:
  "types_ok R \<Longrightarrow> codec_ok R build v \<Longrightarrow> \<exists>w. py_encode R v = Inr w \<and> py_decode R build w = Inr v"
proof (induction R build v rule: codec_ok.induct)
  case (1 R build t)
  let ?d = "(CODEC_KEY, PStr ''decimal'') # [(''version'', PInt CODEC_VERSION), (''value'', PStr t)]"
  obtain neg ds e where p: "parse_decimal t = Some (Finite neg ds e)" "decimal_str neg ds e = t"
    using 1 by (auto simp: decimal_ok_def split: option.splits decimal_num.splits)
  then have "py_decode R build (PDict ?d) = Inr (PDecimal t)"
    using py_decode_marked [of "''decimal''" "[(''version'', PInt CODEC_VERSION), (''value'', PStr t)]"]
    by (simp add: py_get_def decode_decimal_def)
  then show ?case using p by (simp add: marked_def)
next
  case (2 R build n fs)
  obtain i where i: "map_of (tr_canonical_ids R) n = Some i" "i \<noteq> []" using "2.prems" by auto
  then have ty: "map_of (tr_types R) i = Some n" using "2.prems" by (simp add: types_ok_def)
  obtain e where e: "map_entries (py_encode R) fs = Inr e" "map_entries (py_decode R build) e = Inr fs"
    using map_entries_round_trip [of fs "py_encode R" "py_decode R build"] 2 by fastforce
  let ?es = "[(''type'', PStr i), (''version'', PInt CODEC_VERSION), (''fields'', PDict e)]"
  have "py_decode R build (PDict ((CODEC_KEY, PStr ''dataclass'') # ?es)) = Inr (PData n fs)"
    using py_decode_marked [of "''dataclass''" ?es] i ty e "2.prems"
    by (simp add: py_get_def dataclass_id_def CODEC_VERSION_def resolve_type_def catch_type_error_def)
  then show ?case using i e by (simp add: type_id_for_def marked_def)
next
  case (3 R build d)
  obtain e where e: "map_entries (py_encode R) d = Inr e" "map fst e = map fst d" "map_entries (py_decode R build) e = Inr d"
    "map_of e TYPE_KEY = (case map_of d TYPE_KEY of None \<Rightarrow> None | Some v \<Rightarrow> (case py_encode R v of Inl x \<Rightarrow> None | Inr w \<Rightarrow> Some w))"
    using map_entries_round_trip [of d "py_encode R" "py_decode R build"] 3 by fastforce
  show ?case
  proof (cases "has_key d CODEC_KEY")
    case True
    let ?es = "[(''version'', PInt CODEC_VERSION), (''value'', PDict e)]"
    have "py_decode R build (PDict ((CODEC_KEY, PStr ''mapping'') # ?es)) = Inr (PDict d)"
      using py_decode_marked [of "''mapping''" ?es] mapping_rest e
      by (simp add: map_entries_def dict_merge_def)
    then show ?thesis using True e by (simp add: marked_def)
  next
    case False
    then have "tag_ok (map_of d TYPE_KEY)" using "3.prems" by simp
    note k = tag_ok_kind [OF this False e(2,4)]
    have "py_get e TYPE_KEY \<noteq> PStr ''decimal''" "py_get e TYPE_KEY \<noteq> PStr ''dataclass''"
      "py_get e TYPE_KEY \<notin> PStr ` reserved_types" using k by (auto simp: codec_types_def)
    then have "py_decode R build (PDict e) = Inr (PDict d)" using k e by simp
    then show ?thesis using False e by simp
  qed
next
  case (4 R build xs)
  then obtain ys where "map_res (py_encode R) xs = Inr ys" "map_res (py_decode R build) ys = Inr xs"
    using map_res_round_trip [of xs "py_encode R" "py_decode R build"] by fastforce
  then show ?case by simp
qed ((rule py_decode_scalar; simp) | simp)+

section \<open>The contract of a payload codec\<close>

text \<open>
  What message encoding relies on: the values of a set \<open>ok\<close> come back unchanged, whatever the
  contexts passed along.
\<close>

locale payload_codec =
  fixes C :: codec and ok :: "pyval \<Rightarrow> bool"
  assumes round_trip: "ok v \<Longrightarrow> \<exists>w. codec_encode C v ctx = Inr w \<and> codec_decode C w ctx' = Inr v"
begin

lemma encode_ok: "ok v \<Longrightarrow> \<exists>w. codec_encode C v ctx = Inr w"
  using round_trip by blast

lemma decode_encoded: "ok v \<Longrightarrow> codec_encode C v ctx = Inr w \<Longrightarrow> codec_decode C w ctx' = Inr v"
  using round_trip [of v ctx ctx'] by auto

end

interpretation python: payload_codec "python_codec R build" "\<lambda>v. types_ok R \<and> codec_ok R build v" for R build
  by unfold_locales (use codec_round_trip in \<open>simp add: python_codec_def\<close>)

inductive types_reachable :: "type_registry \<Rightarrow> bool" where
  types_empty: "types_reachable empty_types"
| types_register: "types_reachable R \<Longrightarrow> register_type is_data q c ti al R = Inr (i, R') \<Longrightarrow> types_reachable R'"

lemma types_reachable_ok: "types_reachable R \<Longrightarrow> types_ok R"
  by (induction rule: types_reachable.induct) (simp_all add: types_ok_empty register_type_types_ok)

text \<open>
  C40. The Python payload codec is lossless: every value built of JSON scalars, datetimes,
  dates, times, UUIDs, finite decimals, lists, mappings and instances of registered
  dataclasses is decoded to itself after encoding. The registry is one that
  \<open>PayloadTypeRegistry.register\<close> can build from the empty one.
\<close>

theorem python_codec_round_trip:
  assumes "types_reachable R" "codec_ok R build v"
  shows "\<exists>w. codec_encode (python_codec R build) v ctx = Inr w \<and> codec_decode (python_codec R build) w ctx' = Inr v"
  using python.round_trip types_reachable_ok [OF assms(1)] assms(2) by blast

definition money_types :: type_registry where
  "money_types = \<lparr>tr_types = [(''app:Money'', ''Money'')], tr_canonical_ids = [(''Money'', ''app:Money'')]\<rparr>"

definition money :: pyval where
  "money = PData ''Money'' [(''amount'', PDecimal ''-12.50''), (''tags'', PDict [(CODEC_KEY, PStr ''x'')])]"

theorem python_codec_round_trip_witness:
  "\<exists>w. codec_encode (python_codec money_types (\<lambda>n fs. Inr (PData n fs))) money PNone = Inr w
     \<and> codec_decode (python_codec money_types (\<lambda>n fs. Inr (PData n fs))) w PNone = Inr money"
proof (rule python_codec_round_trip)
  have "register_type True ''app:Money'' ''Money'' None [] empty_types = Inr (''app:Money'', money_types)"
    by (simp add: register_type_def empty_types_def money_types_def Let_def)
  then show "types_reachable money_types" by (rule types_register [OF types_empty])
  have "decimal_ok ''-12.50''" by code_simp
  then show "codec_ok money_types (\<lambda>n fs. Inr (PData n fs)) money"
    by (simp add: money_def money_types_def has_key_def dict_wf_def)
qed

end
