(* ===== verification/Travel.thy ===== *)
theory Travel
  imports Codecs
begin

text \<open>
  Payload values on their way over the wire: encoded by the Python codec, written as JSON, read
  back with sorted keys and decoded by the codec again.
\<close>

section \<open>Values that travel\<close>

text \<open>
  Scalars, dates, UUIDs, decimals in the form \<open>str\<close> writes, lists, and mappings with text keys in
  order that do not collide with the markers. Other mappings come back reordered.
\<close>

fun travels :: "pyval \<Rightarrow> bool" where
  "travels (PDecimal t) = decimal_ok t"
| "travels (PList xs) = (\<forall>x \<in> set xs. travels x)"
| "travels (PDict d) = (dict_wf d \<and> sorted (map fst d) \<and> (\<forall>(k, v) \<in> set d. travels v)
     \<and> \<not> has_key d CODEC_KEY \<and> \<not> has_key d TYPE_KEY)"
| "travels (PTuple xs) = False"
| "travels (PData n fs) = False"
| "travels (PFloat t) = False"
| "travels v = wf_value v"

text \<open>Arguments whose values travel; their own order does not matter.\<close>

definition fields_travel :: "(string, pyval) dict \<Rightarrow> bool" where
  "fields_travel d \<longleftrightarrow> dict_wf d \<and> (\<forall>(k, v) \<in> set d. travels v) \<and> \<not> has_key d CODEC_KEY \<and> \<not> has_key d TYPE_KEY"

text \<open>What is left of a value after the tags of dates and UUIDs are read back.\<close>

fun on_wire :: "pyval \<Rightarrow> pyval" where
  "on_wire (PDecimal t) = marked ''decimal'' [(''version'', PInt CODEC_VERSION), (''value'', PStr t)]"
| "on_wire (PList xs) = PList (map on_wire xs)"
| "on_wire (PDict d) = PDict (map (\<lambda>(k, v). (k, on_wire v)) d)"
| "on_wire v = v"

definition survives :: "type_registry \<Rightarrow> (string \<Rightarrow> (string, pyval) dict \<Rightarrow> pyval res) \<Rightarrow> pyval \<Rightarrow> pyval \<Rightarrow> bool" where
  "survives R build v v' \<longleftrightarrow> wf_value (on_wire v) \<and> serializable (on_wire v)
     \<and> (\<exists>w. py_encode R v = Inr w \<and> encode_value w = encode_value (on_wire v))
     \<and> py_decode R build (canon (on_wire v)) = Inr v'"

lemma map_of_map_values: "map_of (map (\<lambda>(k, v). (k, f v)) d) k = map_option f (map_of d k)"
  by (induction d) auto

lemma has_key_map_values [simp]: "has_key (map (\<lambda>(k, v). (k, f v)) d) k \<longleftrightarrow> has_key d k"
  by (force simp: has_key_def)

lemma has_key_sort [simp]: "has_key (sort_key fst d) k \<longleftrightarrow> has_key d k"
  by (simp add: has_key_def)

lemma dict_wf_map_values [simp]: "dict_wf (map (\<lambda>(k, v). (k, f v)) d) \<longleftrightarrow> dict_wf d"
proof -
  have "map fst (map (\<lambda>(k, v). (k, f v)) d) = map fst d" by (induction d) auto
  then show ?thesis by (simp only: dict_wf_def)
qed

lemma map_entries_Inr:
  "(\<And>k v. (k, v) \<in> set d \<Longrightarrow> f v = Inr (g v)) \<Longrightarrow> map_entries f d = Inr (map (\<lambda>(k, v). (k, g v)) d)"
proof (induction d)
  case (Cons p d)
  then have "map_entries f d = Inr (map (\<lambda>(k, v). (k, g v)) d)" "f (snd p) = Inr (g (snd p))"
    by (cases p; fastforce)+
  then show ?case by (simp add: map_entries_def case_prod_beta)
qed (simp add: map_entries_def)

lemma map_entries_decode:
  "(\<And>k v. (k, v) \<in> set d \<Longrightarrow> f (g v) = Inr v) \<Longrightarrow> map_entries f (map (\<lambda>(k, v). (k, g v)) d) = Inr d"
proof (induction d)
  case (Cons p d)
  then have "map_entries f (map (\<lambda>(k, v). (k, g v)) d) = Inr d" "f (g (snd p)) = Inr (snd p)"
    by (cases p; fastforce)+
  then show ?case by (cases p) (simp add: map_entries_def)
qed (simp add: map_entries_def)

lemma py_decode_unmarked:
  assumes "\<not> has_key d CODEC_KEY" "\<not> has_key d TYPE_KEY"
  shows "py_decode R build (PDict d) = bind_res (map_entries (py_decode R build) d) (\<lambda>e. Inr (PDict e))"
proof -
  have "map_of d TYPE_KEY = None" using assms(2) by (simp add: has_key_map_of)
  then have "value_kind d = Inr PNone" using assms(1) by (simp add: value_kind_def py_get_def)
  then show ?thesis using assms(1) by (auto simp: py_decode.simps)
qed

lemma dict_survives:
  assumes "dict_wf d" "\<not> has_key d CODEC_KEY" "\<not> has_key d TYPE_KEY"
    and each: "\<And>k v. (k, v) \<in> set d \<Longrightarrow> survives R build v v"
  shows "survives R build (PDict d) (PDict (sort_key fst d))"
proof -
  define enc where "enc v = projr (py_encode R v)" for v
  have enc: "py_encode R v = Inr (enc v)" "encode_value (enc v) = encode_value (on_wire v)" if "(k, v) \<in> set d" for k v
    using each [OF that] by (auto simp: survives_def enc_def)
  have "map_entries (py_encode R) d = Inr (map (\<lambda>(k, v). (k, enc v)) d)"
    by (rule map_entries_Inr) (use enc in blast)
  then have "py_encode R (PDict d) = Inr (PDict (map (\<lambda>(k, v). (k, enc v)) d))" using assms(2) by simp
  moreover have "encode_value (PDict (map (\<lambda>(k, v). (k, enc v)) d)) = encode_value (on_wire (PDict d))"
    using enc(2) by auto
  moreover have "wf_value (on_wire (PDict d))"
  proof -
    have "map_of (map (\<lambda>(k, v). (k, on_wire v)) d) TYPE_KEY = None"
      using assms(3) by (simp add: map_of_map_values has_key_map_of)
    then show ?thesis using each assms(1) by (auto simp: survives_def)
  qed
  moreover have "serializable (on_wire (PDict d))" using each assms(1) by (auto simp: survives_def)
  moreover have "py_decode R build (canon (on_wire (PDict d))) = Inr (PDict (sort_key fst d))"
  proof -
    let ?s = "sort_key fst d"
    have "canon (on_wire (PDict d)) = PDict (map (\<lambda>(k, v). (k, canon (on_wire v))) ?s)"
    proof -
      have "map (\<lambda>(k, v). (k, canon v)) (map (\<lambda>(k, v). (k, on_wire v)) d) = map (\<lambda>(k, v). (k, canon (on_wire v))) d"
        by auto
      then show ?thesis by (simp only: on_wire.simps canon.simps sort_key_fst_map)
    qed
    moreover have "map_entries (py_decode R build) (map (\<lambda>(k, v). (k, canon (on_wire v))) ?s) = Inr ?s"
      by (rule map_entries_decode) (use each in \<open>auto simp: survives_def\<close>)
    ultimately show ?thesis using assms(2,3) by (simp add: py_decode_unmarked del: py_decode.simps)
  qed
  ultimately show ?thesis unfolding survives_def by blast
qed

lemma decimal_survives:
  assumes "decimal_ok t" shows "survives R build (PDecimal t) (PDecimal t)"
proof -
  obtain neg ds e where p: "parse_decimal t = Some (Finite neg ds e)" "decimal_str neg ds e = t"
    using assms by (auto simp: decimal_ok_def split: option.splits decimal_num.splits)
  let ?d = "(CODEC_KEY, PStr ''decimal'') # [(''value'', PStr t), (''version'', PInt CODEC_VERSION)]"
  have c: "canon (on_wire (PDecimal t)) = PDict ?d"
    by (simp add: marked_def CODEC_KEY_def)
  have "py_decode R build (PDict ?d) = Inr (PDecimal t)"
    using py_decode_marked [of "''decimal''" "[(''value'', PStr t), (''version'', PInt CODEC_VERSION)]"] p
    by (simp add: py_get_def decode_decimal_def)
  moreover have "TYPE_KEY \<noteq> ''value''" "TYPE_KEY \<noteq> ''version''" by (simp_all add: TYPE_KEY_def)
  ultimately show ?thesis
    using p by (simp add: survives_def c del: canon.simps on_wire.simps) (simp add: marked_def dict_wf_def)
qed

lemma list_survives:
  assumes "\<And>v. v \<in> set xs \<Longrightarrow> survives R build v v" shows "survives R build (PList xs) (PList xs)"
proof -
  have "\<exists>ws. map_res (py_encode R) xs = Inr ws \<and> map encode_value ws = map (\<lambda>v. encode_value (on_wire v)) xs"
    using assms
  proof (induction xs)
    case (Cons v xs)
    obtain w where "py_encode R v = Inr w" "encode_value w = encode_value (on_wire v)"
      using Cons.prems [of v] by (auto simp: survives_def)
    moreover obtain ws where "map_res (py_encode R) xs = Inr ws" "map encode_value ws = map (\<lambda>v. encode_value (on_wire v)) xs"
      using Cons by auto
    ultimately show ?case by simp
  qed simp
  then have "\<exists>w. py_encode R (PList xs) = Inr w \<and> encode_value w = encode_value (on_wire (PList xs))"
    by (auto simp: comp_def)
  moreover have "map_res (py_decode R build) (map (canon \<circ> on_wire) xs) = Inr xs"
    using assms by (induction xs) (auto simp: survives_def)
  ultimately show ?thesis using assms by (auto simp: survives_def)
qed

lemma travels_survives: "travels v \<Longrightarrow> survives R build v v"
proof (induction v rule: travels.induct)
  case (1 t)
  then show ?case by (simp add: decimal_survives)
next
  case (2 xs)
  then show ?case by (intro list_survives) auto
next
  case (3 d)
  then have "survives R build (PDict d) (PDict (sort_key fst d))" by (intro dict_survives) fastforce+
  moreover have "sort_key fst d = d" using 3(2) by (intro sort_key_id_if_sorted) simp
  ultimately show ?case by simp
qed (simp_all add: survives_def encode_datetime_def encode_date_def encode_time_def encode_uuid_def tagged_def)

lemma fields_survive: "fields_travel d \<Longrightarrow> survives R build (PDict d) (PDict (sort_key fst d))"
  using travels_survives by (intro dict_survives) (auto simp: fields_travel_def)

end
