(* ===== verification/Messages.thy ===== *)
theory Messages
  imports Codecs
begin

text \<open>
  messages.py: declared (typed) message classes and the generic message classes, with their
  conversion to and from envelopes. Classes are records of the attributes the code reads; an
  instance of a declared class is the number of its class with its fields.
\<close>

section \<open>Contracts\<close>

definition validate_queue_name :: "pyval \<Rightarrow> string res" where
  "validate_queue_name q = (case q of
     PStr s \<Rightarrow> if strip s = [] then Inl InvalidMessageDefinitionError else Inr s
   | _ \<Rightarrow> Inl InvalidMessageDefinitionError)"

definition validate_message_contract :: "pyval \<Rightarrow> pyval \<Rightarrow> pyval \<Rightarrow> unit res" where
  "validate_message_contract mtype ver queue =
     (case mtype of
        PStr t \<Rightarrow>
          if t = [] then Inl InvalidMessageDefinitionError
          else if \<not> is_positive_int ver then Inl InvalidMessageDefinitionError
          else if queue \<noteq> PNone then bind_res (validate_queue_name queue) (\<lambda>_. Inr ())
          else Inr ()
      | _ \<Rightarrow> Inl InvalidMessageDefinitionError)"

section \<open>Declared message classes\<close>

text \<open>
  The decorated class is a frozen dataclass: \<open>tc_fields\<close> are its fields with their defaults,
  \<open>tc_post_init\<close> the checks of its \<open>__post_init__\<close> (application code).
\<close>

record class_body =
  cb_is_dataclass :: bool
  cb_fields :: "(string \<times> pyval option) list"
  cb_post_init :: "(string, pyval) dict \<Rightarrow> unit res"

record typed_class =
  tc_kind :: string
  tc_type :: string
  tc_version :: int
  tc_queue :: "string option"
  tc_fields :: "(string \<times> pyval option) list"
  tc_post_init :: "(string, pyval) dict \<Rightarrow> unit res"

definition opt_string :: "pyval \<Rightarrow> string option" where
  "opt_string v = (case v of PStr s \<Rightarrow> Some s | _ \<Rightarrow> None)"

definition typed_message :: "string \<Rightarrow> pyval \<Rightarrow> pyval \<Rightarrow> pyval \<Rightarrow> class_body \<Rightarrow> typed_class res" where
  "typed_message kind mtype ver queue body =
     bind_res (validate_message_contract mtype ver queue) (\<lambda>_.
     if cb_is_dataclass body then Inl InvalidMessageDefinitionError
     else (case (mtype, ver) of
        (PStr t, PInt v) \<Rightarrow> Inr \<lparr>tc_kind = kind, tc_type = t, tc_version = v, tc_queue = opt_string queue,
            tc_fields = cb_fields body, tc_post_init = cb_post_init body\<rparr>
      | _ \<Rightarrow> Inl InvalidMessageDefinitionError))"

definition event :: "pyval \<Rightarrow> pyval \<Rightarrow> pyval \<Rightarrow> class_body \<Rightarrow> typed_class res" where
  "event = typed_message ''event''"

definition command :: "pyval \<Rightarrow> pyval \<Rightarrow> pyval \<Rightarrow> class_body \<Rightarrow> typed_class res" where
  "command = typed_message ''command''"

text \<open>
  \<open>typed_class(**payload)\<close>: every argument must name a field, every field without default
  must be given; the fields are stored in their order of declaration.
\<close>

definition field_value :: "(string, pyval) dict \<Rightarrow> string \<times> pyval option \<Rightarrow> (string \<times> pyval) res" where
  "field_value args = (\<lambda>(name, default). case map_of args name of
     Some v \<Rightarrow> Inr (name, v) | None \<Rightarrow> (case default of Some v \<Rightarrow> Inr (name, v) | None \<Rightarrow> Inl TypeError))"

definition construct_message :: "typed_class \<Rightarrow> (string, pyval) dict \<Rightarrow> (string, pyval) dict res" where
  "construct_message c args =
     (if \<exists>k \<in> fst ` set args. k \<notin> fst ` set (tc_fields c) then Inl TypeError
      else bind_res (map_res (field_value args) (tc_fields c)) (\<lambda>fs.
           bind_res (tc_post_init c fs) (\<lambda>_. Inr fs)))"

section \<open>Generic messages\<close>

record message_class =
  mc_kind :: string
  mc_version :: int

record base_message =
  bm_class :: message_class
  bm_message_type :: pyval
  bm_payload :: pyval
  bm_headers :: pyval
  bm_correlation_id :: pyval
  bm_causation_id :: pyval
  bm_reply_to :: pyval
  bm_expires_at :: pyval
  bm_content_type :: pyval
  bm_content_encoding :: pyval

datatype message = Typed nat "(string \<times> pyval) list" | Base base_message

definition EventMessage :: message_class where "EventMessage = \<lparr>mc_kind = ''event'', mc_version = 1\<rparr>"
definition CommandMessage :: message_class where "CommandMessage = \<lparr>mc_kind = ''command'', mc_version = 1\<rparr>"
definition RequestMessage :: message_class where "RequestMessage = \<lparr>mc_kind = ''request'', mc_version = 1\<rparr>"
definition ResponseMessage :: message_class where "ResponseMessage = \<lparr>mc_kind = ''response'', mc_version = 1\<rparr>"

definition MESSAGE_KIND_TO_CLASS :: "(string, message_class) dict" where
  "MESSAGE_KIND_TO_CLASS = [(''event'', EventMessage), (''command'', CommandMessage),
     (''request'', RequestMessage), (''response'', ResponseMessage)]"

definition message_class_for_kind :: "pyval \<Rightarrow> message_class res" where
  "message_class_for_kind kind =
     (if \<not> hashable kind then Inl TypeError
      else case kind of
        PStr k \<Rightarrow> of_option InvalidMessageDefinitionError (map_of MESSAGE_KIND_TO_CLASS k)
      | _ \<Rightarrow> Inl InvalidMessageDefinitionError)"

definition typed_message_payload :: "message \<Rightarrow> (string, pyval) dict res" where
  "typed_message_payload m = (case m of Typed c fs \<Rightarrow> Inr fs | Base b \<Rightarrow> Inl InvalidMessageDefinitionError)"

definition message_validate :: "base_message \<Rightarrow> base_message res" where
  "message_validate m =
     (if \<not> truthy (bm_message_type m) then Inl InvalidMessageDefinitionError
      else if \<not> is_dict (bm_headers m) then Inl InvalidMessageDefinitionError
      else Inr m)"

definition message_to_dict :: "codec \<Rightarrow> base_message \<Rightarrow> (string, pyval) dict res" where
  "message_to_dict C m =
     bind_res (message_validate m) (\<lambda>_.
     bind_res (codec_encode C (bm_headers m) PNone) (\<lambda>encoded_headers.
     bind_res (codec_encode C (bm_payload m) (bm_headers m)) (\<lambda>encoded.
     bind_res (if truthy (bm_expires_at m)
         then bind_res (py_isoformat (bm_expires_at m)) (\<lambda>t. Inr (PStr t)) else Inr PNone) (\<lambda>expires.
     Inr [(''message_type'', bm_message_type m),
          (''message_kind'', PStr (mc_kind (bm_class m))),
          (''version'', PInt (mc_version (bm_class m))),
          (''payload'', encoded),
          (''headers'', encoded_headers),
          (''correlation_id'', bm_correlation_id m),
          (''causation_id'', bm_causation_id m),
          (''reply_to'', bm_reply_to m),
          (''expires_at'', expires),
          (''content_type'', bm_content_type m),
          (''content_encoding'', bm_content_encoding m)]))))"

definition message_from_dict_body :: "codec \<Rightarrow> message_class \<Rightarrow> (string, pyval) dict \<Rightarrow> base_message res" where
  "message_from_dict_body C cls data =
     (if py_get data ''message_kind'' \<noteq> PNone \<and> py_get data ''message_kind'' \<noteq> PStr (mc_kind cls)
      then Inl InvalidMessageDefinitionError
      else if py_get data ''version'' \<noteq> PNone \<and> \<not> equals_int (mc_version cls) (py_get data ''version'')
      then Inl InvalidMessageDefinitionError
      else
        bind_res (parse_stamp (py_get data ''expires_at'')) (\<lambda>expires.
        bind_res (codec_decode C (or_val (py_get data ''headers'') (PDict [])) PNone) (\<lambda>hs.
        bind_res (py_item data ''message_type'') (\<lambda>mtype.
        bind_res (codec_decode C (py_get data ''payload'') hs) (\<lambda>pl.
        message_validate \<lparr>bm_class = cls, bm_message_type = mtype, bm_payload = pl, bm_headers = hs,
          bm_correlation_id = py_get data ''correlation_id'',
          bm_causation_id = py_get data ''causation_id'',
          bm_reply_to = py_get data ''reply_to'',
          bm_expires_at = expires,
          bm_content_type = py_get data ''content_type'',
          bm_content_encoding = py_get data ''content_encoding''\<rparr>)))))"

definition message_from_dict :: "codec \<Rightarrow> message_class \<Rightarrow> (string, pyval) dict \<Rightarrow> base_message res" where
  "message_from_dict C cls data = (case message_from_dict_body C cls data of
       Inl (KeyError k) \<Rightarrow> Inl InvalidMessageDefinitionError | r \<Rightarrow> r)"

definition to_envelope ::
    "codec \<Rightarrow> string \<Rightarrow> instant \<Rightarrow> pyval \<Rightarrow> base_message \<Rightarrow> message_envelope res" where
  "to_envelope C fresh now mid m =
     bind_res (codec_encode C (bm_headers m) PNone) (\<lambda>encoded_headers.
     bind_res (codec_encode C (bm_payload m) (bm_headers m)) (\<lambda>encoded.
     Inr (create fresh now \<lparr>message_id = mid, message_type = bm_message_type m,
       message_kind = PStr (mc_kind (bm_class m)), version = PInt (mc_version (bm_class m)),
       payload = encoded, headers = encoded_headers, created_at = PNone,
       correlation_id = bm_correlation_id m, causation_id = bm_causation_id m, reply_to = bm_reply_to m,
       expires_at = bm_expires_at m, content_type = bm_content_type m,
       content_encoding = bm_content_encoding m\<rparr>)))"

definition from_envelope :: "codec \<Rightarrow> message_class \<Rightarrow> message_envelope \<Rightarrow> base_message res" where
  "from_envelope C cls e =
     (if message_kind e \<noteq> PStr (mc_kind cls) then Inl InvalidMessageDefinitionError
      else
        bind_res (codec_decode C (headers e) PNone) (\<lambda>hs.
        bind_res (codec_decode C (payload e) hs) (\<lambda>pl.
        message_validate \<lparr>bm_class = cls, bm_message_type = message_type e, bm_payload = pl, bm_headers = hs,
          bm_correlation_id = correlation_id e, bm_causation_id = causation_id e,
          bm_reply_to = reply_to e, bm_expires_at = expires_at e,
          bm_content_type = content_type e, bm_content_encoding = content_encoding e\<rparr>)))"

section \<open>Declared classes\<close>

text \<open>
  What the decorators guarantee of a class they return, and that a class they reject never
  comes into being.
\<close>

definition class_ok :: "typed_class \<Rightarrow> bool" where
  "class_ok c \<longleftrightarrow> tc_type c \<noteq> [] \<and> 1 \<le> tc_version c \<and> (\<forall>q. tc_queue c = Some q \<longrightarrow> strip q \<noteq> [])"

lemma typed_message_ok: "typed_message kind t v q body = Inr c \<Longrightarrow> class_ok c \<and> tc_kind c = kind"
  by (auto simp: typed_message_def validate_message_contract_def validate_queue_name_def class_ok_def
      opt_string_def res_simps split: pyval.splits if_splits)

text \<open>Constructing an instance from its own fields gives it back.\<close>

lemma map_res_field_value:
  assumes "map_res (field_value args) fds = Inr fs" shows "map fst fs = map fst fds"
  using assms unfolding map_res_all
  by (induction rule: list_all2_induct) (auto simp: field_value_def split: option.splits)

lemma field_value_own:
  "distinct (map fst fs) \<Longrightarrow> map fst fds = map fst fs \<Longrightarrow> map_res (field_value fs) fds = Inr fs"
proof -
  assume d: "distinct (map fst fs)" and eq: "map fst fds = map fst fs"
  have "field_value fs (fds ! i) = Inr (fs ! i)" if "i < length fs" for i
  proof -
    have "fst (fds ! i) = fst (fs ! i)" using eq that by (metis length_map nth_map)
    moreover have "map_of fs (fst (fs ! i)) = Some (snd (fs ! i))"
      using d that by (metis map_of_is_SomeI nth_mem prod.collapse)
    ultimately show ?thesis by (cases "fds ! i", cases "fs ! i") (simp add: field_value_def)
  qed
  moreover have "length fds = length fs" using eq by (metis length_map)
  ultimately show ?thesis unfolding map_res_all by (intro list_all2_all_nthI) auto
qed

lemma construct_own_fields:
  assumes "distinct (map fst (tc_fields c))" "construct_message c args = Inr fs" shows "construct_message c fs = Inr fs"
proof -
  have fs: "map_res (field_value args) (tc_fields c) = Inr fs" "tc_post_init c fs = Inr ()"
    using assms(2) by (auto simp: construct_message_def res_simps split: if_splits)
  then have eq: "map fst fs = map fst (tc_fields c)" by (intro map_res_field_value)
  then have "fst ` set fs = fst ` set (tc_fields c)" by (metis list.set_map)
  moreover have "map_res (field_value fs) (tc_fields c) = Inr fs"
    by (rule field_value_own) (simp_all add: eq assms(1))
  ultimately show ?thesis using fs(2) unfolding construct_message_def by simp
qed

section \<open>Messages survive their envelope\<close>

lemma create_keeps:
  "message_kind (create f n e) = message_kind e" "version (create f n e) = version e"
  "message_type (create f n e) = message_type e" "payload (create f n e) = payload e"
  "correlation_id (create f n e) = correlation_id e" "causation_id (create f n e) = causation_id e"
  "reply_to (create f n e) = reply_to e" "expires_at (create f n e) = expires_at e"
  "content_type (create f n e) = content_type e" "content_encoding (create f n e) = content_encoding e"
  "headers (create f n e) = or_val (headers e) (PDict [])"
  by (simp_all add: create_def)

context payload_codec
begin

lemma envelope_round_trip:
  assumes "ok (bm_payload m)" "ok (bm_headers m)" "ok (PDict [])" "codec_encode C (PDict []) PNone = Inr (PDict [])"
    and "message_validate m = Inr m"
    and truthy: "\<And>w. codec_encode C (bm_headers m) PNone = Inr w \<Longrightarrow> truthy w \<or> bm_headers m = PDict []"
  shows "\<exists>e. to_envelope C fresh now mid m = Inr e \<and> from_envelope C (bm_class m) e = Inr m"
proof -
  obtain h where h: "codec_encode C (bm_headers m) PNone = Inr h" using encode_ok [OF assms(2)] by blast
  obtain p where p: "codec_encode C (bm_payload m) (bm_headers m) = Inr p" using encode_ok [OF assms(1)] by blast
  have "codec_decode C (or_val h (PDict [])) PNone = Inr (bm_headers m)"
    using truthy [OF h] decode_encoded [OF assms(2) h] decode_encoded [OF assms(3,4)] by (auto simp: or_val_def)
  moreover have "codec_decode C p (bm_headers m) = Inr (bm_payload m)" using decode_encoded [OF assms(1) p] .
  ultimately show ?thesis
    using h p assms(5) by (cases m) (simp add: to_envelope_def from_envelope_def create_keeps)
qed

end

lemma py_encode_dict_truthy:
  "py_encode R (PDict d) = Inr w \<Longrightarrow> truthy w \<or> d = []"
  by (cases d) (auto simp: res_simps marked_def map_entries_def split: if_splits)

text \<open>
  A generic message whose payload and headers the payload codec carries comes back
  unchanged from the envelope it is published in.
\<close>

theorem message_envelope_round_trip:
  assumes "types_reachable R" "codec_ok R build (bm_payload m)" "codec_ok R build (bm_headers m)"
    and "message_validate m = Inr m"
  shows "\<exists>e. to_envelope (python_codec R build) fresh now mid m = Inr e
    \<and> from_envelope (python_codec R build) (bm_class m) e = Inr m"
proof (rule python.envelope_round_trip)
  show "types_ok R \<and> codec_ok R build (bm_payload m)" "types_ok R \<and> codec_ok R build (bm_headers m)"
    "types_ok R \<and> codec_ok R build (PDict [])"
    using assms types_reachable_ok by (simp_all add: tag_ok_def)
  show "codec_encode (python_codec R build) (PDict []) PNone = Inr (PDict [])"
    by (simp add: python_codec_def map_entries_def has_key_def)
  obtain d where "bm_headers m = PDict d"
    using assms(4) by (cases "bm_headers m") (auto simp: message_validate_def split: if_splits)
  then show "truthy w \<or> bm_headers m = PDict []"
    if "codec_encode (python_codec R build) (bm_headers m) PNone = Inr w" for w
    using that py_encode_dict_truthy by (auto simp: python_codec_def)
qed (use assms in simp)

definition sample_message :: base_message where
  "sample_message = \<lparr>bm_class = CommandMessage, bm_message_type = PStr ''pay'',
     bm_payload = PDict [(''amount'', PDecimal ''12.50'')], bm_headers = PDict [], bm_correlation_id = PNone,
     bm_causation_id = PNone, bm_reply_to = PNone, bm_expires_at = PNone, bm_content_type = PNone,
     bm_content_encoding = PNone\<rparr>"

theorem message_envelope_round_trip_witness:
  "\<exists>e. to_envelope (python_codec empty_types (\<lambda>n fs. Inl TypeError)) ''id'' 0 PNone sample_message = Inr e
     \<and> from_envelope (python_codec empty_types (\<lambda>n fs. Inl TypeError)) CommandMessage e = Inr sample_message"
proof -
  have "decimal_ok ''12.50''" by code_simp
  then show ?thesis
    using message_envelope_round_trip [OF types_empty, of "\<lambda>n fs. Inl TypeError" sample_message "''id''" 0 PNone]
    by (simp add: sample_message_def tag_ok_def dict_wf_def message_validate_def TYPE_KEY_def)
qed

end
