(* ===== verification/PyFloat.thy ===== *)
theory PyFloat
  imports Exceptions Complex_Main
begin

text \<open>
  Python's numbers as far as the program computes with them: unbounded ints, and floats as the
  exact values of IEEE doubles. Results are rounded to the nearest double, halves to even, as the
  processor rounds them; the C library's \<open>pow\<close> is taken to be correctly rounded. Only
  non-negative finite numbers occur.
\<close>

section \<open>Rounding\<close>

definition half_even :: "rat \<Rightarrow> int" where
  "half_even x = (let f = \<lfloor>x\<rfloor>; d = x - of_int f in
     if d < 1 / 2 then f else if 1 / 2 < d then f + 1 else if even f then f else f + 1)"

text \<open>
  The distance of the doubles around \<open>x\<close>: the least power of two, from the smallest subnormal
  on, of which \<open>x\<close> has fewer than \<open>2 ^ 53\<close>; \<open>2 ^ 971\<close> is the largest.
\<close>

fun spacing_from :: "nat \<Rightarrow> rat \<Rightarrow> rat \<Rightarrow> rat" where
  "spacing_from 0 u x = u"
| "spacing_from (Suc n) u x = (if x < 2 ^ 53 * u then u else spacing_from n (2 * u) x)"

definition spacing :: "rat \<Rightarrow> rat" where
  "spacing x = spacing_from 2045 (1 / 2 ^ 1074) x"

definition round_double :: "rat \<Rightarrow> rat" where
  "round_double x = of_int (half_even (x / spacing x)) * spacing x"

text \<open>The rounded value overflows when it is beyond the largest double.\<close>

definition overflows :: "rat \<Rightarrow> bool" where
  "overflows x \<longleftrightarrow> 2 ^ 1024 \<le> round_double x"

section \<open>Numbers\<close>

datatype py_number = P_Int int | P_Float rat

fun number_value :: "py_number \<Rightarrow> rat" where
  "number_value (P_Int i) = of_int i"
| "number_value (P_Float x) = x"

text \<open>\<open>float(i)\<close>: too large an int is an error.\<close>

definition int_to_float :: "int \<Rightarrow> rat res" where
  "int_to_float i = (let x = of_int \<bar>i\<bar> in
     if overflows x then Inl OverflowError else Inr (if i < 0 then - round_double x else round_double x))"

fun to_float :: "py_number \<Rightarrow> rat res" where
  "to_float (P_Int i) = int_to_float i"
| "to_float (P_Float x) = Inr x"

text \<open>A product of floats that is too large is infinite; a power is an error.\<close>

datatype product = Finite py_number | Infinite

fun py_mult :: "py_number \<Rightarrow> py_number \<Rightarrow> product res" where
  "py_mult (P_Int i) (P_Int j) = Inr (Finite (P_Int (i * j)))"
| "py_mult a b = bind_res (to_float a) (\<lambda>x. bind_res (to_float b) (\<lambda>y.
     Inr (if overflows (x * y) then Infinite else Finite (P_Float (round_double (x * y))))))"

fun py_power :: "py_number \<Rightarrow> nat \<Rightarrow> py_number res" where
  "py_power (P_Int i) n = Inr (P_Int (i ^ n))"
| "py_power (P_Float x) n = bind_res (int_to_float (int n)) (\<lambda>y.
     if overflows (x ^ nat \<lfloor>y\<rfloor>) then Inl OverflowError else Inr (P_Float (round_double (x ^ nat \<lfloor>y\<rfloor>))))"

fun positive :: "product \<Rightarrow> bool" where
  "positive (Finite a) \<longleftrightarrow> 0 < number_value a"
| "positive Infinite \<longleftrightarrow> True"

text \<open>A constructor argument by its Python type; bools are not integers here.\<close>

datatype number_arg = N_Int int | N_Float rat | N_NotFinite | N_Bool bool | N_Other

text \<open>\<open>math.isfinite\<close> converts an int to a float first.\<close>

fun non_negative_number :: "number_arg \<Rightarrow> py_number res" where
  "non_negative_number (N_Int i) = bind_res (int_to_float i) (\<lambda>_.
     if i < 0 then Inl ValueError else Inr (P_Int i))"
| "non_negative_number (N_Float x) = (if x < 0 then Inl ValueError else Inr (P_Float x))"
| "non_negative_number a = Inl ValueError"

lemma non_negative_number_ok: "non_negative_number a = Inr x \<Longrightarrow> 0 \<le> number_value x"
  by (cases a) (auto simp: res_simps split: if_splits)

section \<open>Ints that are doubles\<close>

lemma half_even_int [simp]: "half_even (of_int i) = i"
  by (simp add: half_even_def Let_def)

lemma spacing_from_cases:
  "\<exists>j \<le> n. spacing_from n u x = 2 ^ j * u \<and> (j = 0 \<or> 2 ^ 52 * spacing_from n u x \<le> x)"
proof (induction n arbitrary: u)
  case (Suc n)
  show ?case
  proof (cases "x < 2 ^ 53 * u")
    case False
    obtain j where j: "j \<le> n" "spacing_from n (2 * u) x = 2 ^ j * (2 * u)"
      "j = 0 \<or> 2 ^ 52 * spacing_from n (2 * u) x \<le> x" using Suc by blast
    then show ?thesis using False by (intro exI [of _ "Suc j"]) auto
  qed auto
qed simp

lemma spacing_int:
  assumes "1 \<le> x" "x < 2 ^ 53" shows "\<exists>k. spacing x = 1 / 2 ^ k"
proof -
  obtain j where j: "spacing x = 2 ^ j * (1 / 2 ^ 1074)" "j = 0 \<or> 2 ^ 52 * spacing x \<le> x"
    using spacing_from_cases [of 2045 "1 / 2 ^ 1074" x] unfolding spacing_def by blast
  have "j \<le> 1074"
  proof (rule ccontr)
    assume j': "\<not> j \<le> 1074"
    then obtain d where "j = 1074 + Suc d" by (metis add_Suc_right less_imp_Suc_add not_le add_Suc)
    then have "spacing x = 2 * 2 ^ d" using j(1) by (simp only: power_add) simp
    moreover have "(1 :: rat) \<le> 2 ^ d" by simp
    ultimately have "(2 :: rat) ^ 53 \<le> 2 ^ 52 * spacing x" by simp
    then show False using j(2) j' assms(2) by simp
  qed
  then have "1074 = (1074 - j) + j" by simp
  then have "(2 :: rat) ^ 1074 = 2 ^ (1074 - j) * 2 ^ j" by (metis power_add)
  then have "spacing x = 1 / 2 ^ (1074 - j)" unfolding j(1) by (simp only:) (simp add: field_simps del: power_numeral)
  then show ?thesis ..
qed

lemma round_double_int:
  assumes "0 \<le> i" "i < 2 ^ 53" shows "round_double (of_int i) = of_int i"
proof (cases "i = 0")
  case True
  have "half_even 0 = 0" using half_even_int [of 0] by simp
  then show ?thesis using True by (simp add: round_double_def)
next
  case False
  then have "1 \<le> (of_int i :: rat)" using assms(1) by simp
  moreover have "(of_int i :: rat) < of_int (2 ^ 53)" using assms(2) by (simp only: of_int_less_iff)
  ultimately obtain k where k: "spacing (of_int i) = 1 / 2 ^ k" using spacing_int [of "of_int i"] by auto
  have "(of_int i :: rat) / (1 / 2 ^ k) = of_int (i * 2 ^ k)" by simp
  then show ?thesis unfolding round_double_def k by (simp only: half_even_int) simp
qed

lemma small_int_float:
  assumes "0 \<le> i" "i < 2 ^ 53" shows "\<not> overflows (of_int i)" "int_to_float i = Inr (of_int i)"
proof -
  have "(of_int i :: rat) < of_int (2 ^ 53)" using assms(2) by (simp only: of_int_less_iff)
  moreover have "(of_int (2 ^ 53) :: rat) \<le> 2 ^ 1024" by simp
  ultimately show "\<not> overflows (of_int i)" using round_double_int [OF assms] by (simp add: overflows_def)
  then show "int_to_float i = Inr (of_int i)" using round_double_int [OF assms] assms(1)
    by (simp add: int_to_float_def Let_def)
qed

text \<open>Powers of two keep their value, so the range ends at \<open>2 ^ 1024\<close>.\<close>

lemma round_double_power:
  assumes "971 \<le> m" shows "round_double (2 ^ m) = 2 ^ m"
proof -
  obtain j where j: "j \<le> 2045" "spacing (2 ^ m) = 2 ^ j * (1 / 2 ^ 1074)"
    using spacing_from_cases [of 2045 "1 / 2 ^ 1074" "2 ^ m"] unfolding spacing_def by blast
  have "m + 1074 = (m + 1074 - j) + j" using j(1) assms by simp
  then have "(2 :: rat) ^ m * 2 ^ 1074 = 2 ^ (m + 1074 - j) * 2 ^ j" by (metis power_add)
  then have "(2 :: rat) ^ m / spacing (2 ^ m) = of_int (2 ^ (m + 1074 - j))"
    unfolding j(2) by (simp add: field_simps del: power_numeral)
  then have "round_double (2 ^ m) = of_int (2 ^ (m + 1074 - j)) * spacing (2 ^ m)"
    unfolding round_double_def by (simp only: half_even_int)
  also have "\<dots> = 2 ^ m" using \<open>2 ^ m / spacing (2 ^ m) = _\<close> j(2) by (metis (no_types, lifting) divide_eq_0_iff
      nonzero_eq_divide_eq mult_eq_0_iff power_eq_0_iff zero_neq_numeral zero_neq_one)
  finally show ?thesis .
qed

lemma power_overflows: "1024 \<le> m \<Longrightarrow> overflows (2 ^ m)"
  unfolding overflows_def by (subst round_double_power) (simp_all only: power_increasing one_le_numeral)

end
