(* ===== verification/Retries.thy ===== *)
theory Retries
  imports Envelope PyFloat
begin

text \<open>
  retries.py: the retry policy and the retry state a message carries in its headers (and, for
  untyped messages, in its payload).
\<close>

section \<open>Policy\<close>

record retry_policy =
  rp_max_retries :: int
  rp_delay :: py_number
  rp_backoff :: py_number

definition new_retry_policy :: "number_arg \<Rightarrow> number_arg \<Rightarrow> number_arg \<Rightarrow> retry_policy res" where
  "new_retry_policy max_retries delay backoff =
     (case max_retries of
        N_Int n \<Rightarrow> if n < 0 then Inl ValueError
          else bind_res (non_negative_number delay) (\<lambda>d.
               bind_res (non_negative_number backoff) (\<lambda>b.
               Inr \<lparr>rp_max_retries = n, rp_delay = d, rp_backoff = b\<rparr>))
      | _ \<Rightarrow> Inl ValueError)"

definition should_retry :: "retry_policy \<Rightarrow> int \<Rightarrow> bool" where
  "should_retry p retries \<longleftrightarrow> retries < rp_max_retries p"

text \<open>The power is computed first; ints stay exact, a float overflows.\<close>

definition next_delay :: "retry_policy \<Rightarrow> nat \<Rightarrow> product res" where
  "next_delay p retries = bind_res (py_power (rp_backoff p) retries) (py_mult (rp_delay p))"

record retry_state =
  rs_retries :: nat
  rs_last_attempt :: "datetime option"
  rs_first_attempt :: "datetime option"

definition bump :: "datetime \<Rightarrow> retry_state \<Rightarrow> retry_state" where
  "bump attempted_at s = \<lparr>rs_retries = rs_retries s + 1, rs_last_attempt = Some attempted_at,
     rs_first_attempt = (case rs_first_attempt s of None \<Rightarrow> Some attempted_at | Some t \<Rightarrow> Some t)\<rparr>"

section \<open>Retry state of a message\<close>

fun valid_retry_count :: "pyval \<Rightarrow> nat option" where
  "valid_retry_count (PInt i) = (if i < 0 then None else Some (nat i))"
| "valid_retry_count (PStr s) = (case py_int s of None \<Rightarrow> None
     | Some i \<Rightarrow> if i < 0 then None else Some (nat i))"
| "valid_retry_count v = None"

fun valid_datetime_text :: "pyval \<Rightarrow> datetime option" where
  "valid_datetime_text (PStr s) = (case fromisoformat s of None \<Rightarrow> None
     | Some d \<Rightarrow> if is_aware d then Some d else None)"
| "valid_datetime_text v = None"

definition or_zero :: "nat option \<Rightarrow> nat" where
  "or_zero x = (case x of None \<Rightarrow> 0 | Some n \<Rightarrow> n)"

definition next_retry_payload ::
    "(string, pyval) dict \<Rightarrow> datetime \<Rightarrow> nat option \<Rightarrow> (string, pyval) dict" where
  "next_retry_payload pl attempted_at retries =
     (let current = (case retries of Some n \<Rightarrow> n
            | None \<Rightarrow> or_zero (valid_retry_count (py_get pl ''retries''))) in
      AList.update ''last_attempt'' (PStr (isoformat attempted_at))
        (AList.update ''retries'' (PInt (int current + 1)) pl))"

text \<open>The headers decide; the payload counts only when it is a mapping and the headers carry no valid count.\<close>

definition resolve_retry_count :: "pyval \<Rightarrow> (string, pyval) dict \<Rightarrow> nat" where
  "resolve_retry_count pl hdrs = (case valid_retry_count (py_get hdrs ''retries'') of
     Some n \<Rightarrow> n
   | None \<Rightarrow> (case pl of PDict d \<Rightarrow> or_zero (valid_retry_count (py_get d ''retries'')) | _ \<Rightarrow> 0))"

definition resolve_last_attempt :: "pyval \<Rightarrow> (string, pyval) dict \<Rightarrow> datetime option" where
  "resolve_last_attempt pl hdrs = (case valid_datetime_text (py_get hdrs ''last_attempt'') of
     Some d \<Rightarrow> Some d
   | None \<Rightarrow> (case pl of PDict d \<Rightarrow> valid_datetime_text (py_get d ''last_attempt'') | _ \<Rightarrow> None))"

section \<open>Properties\<close>

lemma resolve_retry_count_header:
  "py_get hdrs ''retries'' = PInt (int n) \<Longrightarrow> resolve_retry_count pl hdrs = n"
  by (simp add: resolve_retry_count_def)

text \<open>The default policy never waits: a factor of 1.0 and no delay.\<close>

lemma next_delay_none:
  assumes "rp_delay p = P_Int 0" "rp_backoff p = P_Float 1" "int n < 2 ^ 53"
  shows "next_delay p n = Inr (Finite (P_Float 0))"
proof -
  have "int_to_float (int n) = Inr (of_int (int n))" using small_int_float(2) [of "int n"] assms(3) by simp
  moreover have "\<not> overflows 1" "round_double 1 = 1" "\<not> overflows 0" "round_double 0 = 0" "int_to_float 0 = Inr 0"
    using small_int_float [of 1] small_int_float [of 0] round_double_int [of 1] round_double_int [of 0] by simp_all
  ultimately show ?thesis by (simp add: next_delay_def assms(1,2))
qed

text \<open>Whole numbers stay exact however long a message is retried.\<close>

lemma next_delay_ints:
  "rp_delay p = P_Int d \<Longrightarrow> rp_backoff p = P_Int b \<Longrightarrow> next_delay p n = Inr (Finite (P_Int (d * b ^ n)))"
  by (simp add: next_delay_def)

text \<open>A factor of 2.0 ends in an error: the power leaves the range of floats.\<close>

lemma next_delay_overflow:
  assumes "rp_backoff p = P_Float 2" shows "next_delay p 1024 = Inl OverflowError"
proof -
  have "int_to_float (int 1024) = Inr 1024" using small_int_float(2) [of 1024] by simp
  moreover have "overflows (2 ^ 1024)" by (rule power_overflows) simp
  ultimately show ?thesis by (simp add: next_delay_def assms)
qed

end
