(* ===== verification/Registry.thy ===== *)
theory Registry
  imports Messages Retries
begin

text \<open>
  registry.py and handlers.py: the handler registry, the specifications the decorators attach
  to handlers, and the registration of handlers. A handler object is a function or a bound
  method of a function, each with an identity; \<open>attrs\<close> holds the attribute
  \<open>__pybus_handler_spec__\<close> of functions. Message classes are referred to by number.
\<close>

section \<open>Handlers and their specifications\<close>

record handler_spec =
  hs_kind :: string
  hs_type :: string
  hs_class :: "nat option"
  hs_allow_multiple :: "bool option"
  hs_retry_limit :: "int option"
  hs_delay :: int
  hs_is_batched :: bool
  hs_batch_size :: int
  hs_max_wait :: int

datatype handler = Function nat | Method nat nat

type_synonym attrs = "nat \<Rightarrow> handler_spec option"

text \<open>Reading an attribute of a bound method reads it from its function.\<close>

fun spec_attr :: "attrs \<Rightarrow> handler \<Rightarrow> handler_spec option" where
  "spec_attr attrs (Function f) = attrs f"
| "spec_attr attrs (Method m f) = attrs f"

fun func_attr :: "handler \<Rightarrow> nat option" where
  "func_attr (Function f) = None"
| "func_attr (Method m f) = Some f"

definition handler_spec_of :: "attrs \<Rightarrow> handler \<Rightarrow> handler_spec option" where
  "handler_spec_of attrs h = (case spec_attr attrs h of
     Some s \<Rightarrow> Some s
   | None \<Rightarrow> (case func_attr h of None \<Rightarrow> None | Some f \<Rightarrow> attrs f))"

definition is_batched :: "attrs \<Rightarrow> handler \<Rightarrow> bool" where
  "is_batched attrs h =
     (let spec = (case spec_attr attrs h of Some s \<Rightarrow> Some s
            | None \<Rightarrow> (case func_attr h of None \<Rightarrow> None | Some f \<Rightarrow> attrs f)) in
      case spec of None \<Rightarrow> False | Some s \<Rightarrow> hs_is_batched s)"

section \<open>The registry\<close>

type_synonym reg_key = "string \<times> string"

record registry =
  reg_handlers :: "(reg_key, handler list) dict"
  reg_classes :: "(reg_key, nat) dict"

definition empty_registry :: registry where
  "empty_registry = \<lparr>reg_handlers = [], reg_classes = []\<rparr>"

definition key_handlers :: "registry \<Rightarrow> reg_key \<Rightarrow> handler list" where
  "key_handlers R key = (case map_of (reg_handlers R) key of None \<Rightarrow> [] | Some hs \<Rightarrow> hs)"

text \<open>
  Registration. The class is recorded and the entry created before the last three tests; the
  registry at the point of the exception is returned with it.
\<close>

definition prepared :: "reg_key \<Rightarrow> nat option \<Rightarrow> registry \<Rightarrow> registry" where
  "prepared key cls self =
     (let R = (case cls of None \<Rightarrow> self | Some c \<Rightarrow> self\<lparr>reg_classes := AList.update key c (reg_classes self)\<rparr>) in
      if has_key (reg_handlers R) key then R
      else R\<lparr>reg_handlers := AList.update key [] (reg_handlers R)\<rparr>)"

definition register ::
    "attrs \<Rightarrow> string \<Rightarrow> string \<Rightarrow> handler \<Rightarrow> nat option \<Rightarrow> bool option \<Rightarrow> registry \<Rightarrow> handler res \<times> registry" where
  "register attrs kind mtype h cls allow_multiple self =
     (let multiple = (case allow_multiple of None \<Rightarrow> kind = ''event'' | Some b \<Rightarrow> b);
          key = (kind, mtype);
          existing_class = map_of (reg_classes self) key;
          existing = key_handlers self key in
      if cls = None \<and> existing_class \<noteq> None then (Inl ValueError, self)
      else if cls \<noteq> None \<and> existing \<noteq> [] \<and> existing_class = None then (Inl ValueError, self)
      else if cls \<noteq> None \<and> existing_class \<noteq> None \<and> existing_class \<noteq> cls then (Inl ValueError, self)
      else let R = prepared key cls self; hs = key_handlers R key in
        if h \<in> set hs then (Inl ValueError, R)
        else if hs \<noteq> [] \<and> (is_batched attrs h \<or> (\<exists>g \<in> set hs. is_batched attrs g)) then (Inl ValueError, R)
        else if \<not> multiple \<and> hs \<noteq> [] then (Inl ValueError, R)
        else (Inr h, R\<lparr>reg_handlers := AList.update key (hs @ [h]) (reg_handlers R)\<rparr>))"

text \<open>Lookups take the envelope's values: an unhashable one raises, another type finds nothing.\<close>

definition lookup_key :: "pyval \<Rightarrow> pyval \<Rightarrow> reg_key option res" where
  "lookup_key kind mtype =
     (if hashable kind \<and> hashable mtype
      then Inr (case (kind, mtype) of (PStr k, PStr t) \<Rightarrow> Some (k, t) | _ \<Rightarrow> None)
      else Inl TypeError)"

definition handlers_for :: "registry \<Rightarrow> pyval \<Rightarrow> pyval \<Rightarrow> handler list res" where
  "handlers_for self kind mtype = bind_res (lookup_key kind mtype)
     (\<lambda>key. Inr (case key of None \<Rightarrow> [] | Some k \<Rightarrow> key_handlers self k))"

definition require_handler :: "registry \<Rightarrow> pyval \<Rightarrow> pyval \<Rightarrow> handler res" where
  "require_handler self kind mtype = bind_res (handlers_for self kind mtype) (\<lambda>hs.
     case hs of [] \<Rightarrow> Inl HandlerNotFoundError | [h] \<Rightarrow> Inr h | _ \<Rightarrow> Inl ValueError)"

definition message_class_for :: "registry \<Rightarrow> pyval \<Rightarrow> pyval \<Rightarrow> nat option res" where
  "message_class_for self kind mtype = bind_res (lookup_key kind mtype)
     (\<lambda>key. Inr (case key of None \<Rightarrow> None | Some k \<Rightarrow> map_of (reg_classes self) k))"

definition has_handlers :: "registry \<Rightarrow> pyval \<Rightarrow> pyval \<Rightarrow> bool res" where
  "has_handlers self kind mtype = bind_res (handlers_for self kind mtype) (\<lambda>hs. Inr (hs \<noteq> []))"

definition clear :: "registry \<Rightarrow> registry" where
  "clear self = self\<lparr>reg_handlers := [], reg_classes := []\<rparr>"

definition reg_items :: "registry \<Rightarrow> (reg_key \<times> handler list) list" where
  "reg_items self = reg_handlers self"

section \<open>Continuations\<close>

text \<open>\<open>ContinueProcessing(queue, delay)\<close>; the delay is a number of seconds.\<close>

datatype delay_arg = Num rat | Not_finite | Not_number

definition MAX_CONTINUATION_DELAY_SECONDS :: rat where "MAX_CONTINUATION_DELAY_SECONDS = 60"

record continuation =
  cp_queue :: "string option"
  cp_delay :: rat

definition continue_processing :: "pyval \<Rightarrow> delay_arg \<Rightarrow> continuation res" where
  "continue_processing queue delay =
     bind_res (case queue of
         PNone \<Rightarrow> Inr None
       | PStr q \<Rightarrow> if strip q = [] then Inl ValueError else Inr (Some q)
       | _ \<Rightarrow> Inl TypeError) (\<lambda>q.
     case delay of
       Not_number \<Rightarrow> Inl TypeError
     | Not_finite \<Rightarrow> Inl ValueError
     | Num x \<Rightarrow> if x < 0 then Inl ValueError
         else if MAX_CONTINUATION_DELAY_SECONDS < x then Inl ValueError
         else Inr \<lparr>cp_queue = q, cp_delay = x\<rparr>)"

section \<open>Decorators\<close>

datatype binding = B_Str string | B_Typed nat | B_Base string pyval pyval | B_Other

text \<open>
  A binding is a message type, a declared class, a subclass of \<open>BaseMessage\<close> with its
  attributes \<open>message_kind\<close> and \<open>message_type\<close>, or anything else.
\<close>

definition resolve_message_binding ::
    "(nat \<Rightarrow> typed_class) \<Rightarrow> binding \<Rightarrow> string \<Rightarrow> (string \<times> string \<times> nat option) res" where
  "resolve_message_binding classes message expected_kind = (case message of
     B_Str t \<Rightarrow> Inr (expected_kind, t, None)
   | B_Typed c \<Rightarrow>
       if tc_kind (classes c) \<noteq> expected_kind then Inl ValueError
       else if tc_type (classes c) = [] then Inl TypeError
       else Inr (tc_kind (classes c), tc_type (classes c), Some c)
   | B_Base name kind mtype \<Rightarrow>
       if kind \<noteq> PStr expected_kind then Inl ValueError
       else (case mtype of PStr t \<Rightarrow> if t = [] then Inl TypeError else Inr (expected_kind, t, None)
             | _ \<Rightarrow> Inl TypeError)
   | B_Other \<Rightarrow> Inl TypeError)"

definition validate_non_negative_integer :: "bool \<Rightarrow> pyval \<Rightarrow> int option res" where
  "validate_non_negative_integer allow_none v = (case v of
     PNone \<Rightarrow> if allow_none then Inr None else Inl ValueError
   | PInt i \<Rightarrow> if i < 0 then Inl ValueError else Inr (Some i)
   | _ \<Rightarrow> Inl ValueError)"

definition or_int :: "int \<Rightarrow> int option \<Rightarrow> int" where
  "or_int d x = (case x of None \<Rightarrow> d | Some i \<Rightarrow> i)"

text \<open>The part of \<open>_decorate_handler\<close> that runs when the decorator is created.\<close>

definition make_spec ::
    "(nat \<Rightarrow> typed_class) \<Rightarrow> string \<Rightarrow> binding \<Rightarrow> bool option \<Rightarrow> pyval \<Rightarrow> pyval \<Rightarrow> bool \<Rightarrow> pyval \<Rightarrow> pyval \<Rightarrow> handler_spec res" where
  "make_spec classes kind message allow_multiple retry_limit delay batched batch_size max_wait =
     bind_res (validate_non_negative_integer True retry_limit) (\<lambda>limit.
     bind_res (validate_non_negative_integer False delay) (\<lambda>d.
     bind_res (if batched
         then bind_res (validate_non_negative_integer False batch_size) (\<lambda>b.
              bind_res (validate_non_negative_integer False max_wait) (\<lambda>w.
              if b = Some 0 then Inl ValueError else Inr (or_int 100 b, or_int 10 w)))
         else Inr (100, 10)) (\<lambda>(b, w).
     bind_res (resolve_message_binding classes message kind) (\<lambda>(k, t, c).
     Inr \<lparr>hs_kind = k, hs_type = t, hs_class = c, hs_allow_multiple = allow_multiple, hs_retry_limit = limit,
          hs_delay = or_int 0 d, hs_is_batched = batched, hs_batch_size = b, hs_max_wait = w\<rparr>))))"

text \<open>
  The decorator itself: the specification is attached, then the handler registered when a
  registry was given. Setting an attribute of a bound method raises.
\<close>

definition apply_decorator ::
    "handler_spec \<Rightarrow> handler \<Rightarrow> attrs \<times> registry option \<Rightarrow> handler res \<times> (attrs \<times> registry option)" where
  "apply_decorator spec h = (\<lambda>(attrs, reg).
     (case h of
        Method m f \<Rightarrow> (Inl AttributeError, (attrs, reg))
      | Function f \<Rightarrow>
          (let attrs' = attrs(f := Some spec) in
           case reg of
             None \<Rightarrow> (Inr h, (attrs', None))
           | Some R \<Rightarrow> (let (r, R') = register attrs' (hs_kind spec) (hs_type spec) h (hs_class spec) (hs_allow_multiple spec) R
               in (r, (attrs', Some R'))))))"

definition event_handler where
  "event_handler classes message allow_multiple retry_limit delay =
     make_spec classes ''event'' message allow_multiple retry_limit delay False (PInt 100) (PInt 10)"

definition batched_event_handler where
  "batched_event_handler classes message batch_size max_wait retry_limit =
     make_spec classes ''event'' message (Some True) retry_limit (PInt 0) True batch_size max_wait"

definition command_handler where
  "command_handler classes message allow_multiple =
     make_spec classes ''command'' message allow_multiple PNone (PInt 0) False (PInt 100) (PInt 10)"

definition request_handler where
  "request_handler classes message allow_multiple =
     make_spec classes ''request'' message allow_multiple PNone (PInt 0) False (PInt 100) (PInt 10)"

section \<open>Registering targets\<close>

text \<open>
  A target is a decorated handler or an object; an object is the list of its callable
  members in the order of \<open>inspect.getmembers\<close>.
\<close>

datatype target = T_Handler handler | T_Object "handler list"

definition register_spec :: "attrs \<Rightarrow> handler_spec \<Rightarrow> handler \<Rightarrow> registry \<Rightarrow> handler res \<times> registry" where
  "register_spec attrs s h R = register attrs (hs_kind s) (hs_type s) h (hs_class s) (hs_allow_multiple s) R"

fun register_members :: "attrs \<Rightarrow> handler list \<Rightarrow> registry \<Rightarrow> handler list res \<times> registry" where
  "register_members attrs [] R = (Inr [], R)"
| "register_members attrs (h # hs) R =
     (case handler_spec_of attrs h of
        None \<Rightarrow> register_members attrs hs R
      | Some s \<Rightarrow> (case register_spec attrs s h R of
           (Inl e, R') \<Rightarrow> (Inl e, R')
         | (Inr g, R') \<Rightarrow> (case register_members attrs hs R' of
             (Inl e, R'') \<Rightarrow> (Inl e, R'') | (Inr gs, R'') \<Rightarrow> (Inr (g # gs), R''))))"

text \<open>A callable without a specification of its own is searched for decorated members.\<close>

definition register_target_handlers ::
    "attrs \<Rightarrow> (handler \<Rightarrow> handler list) \<Rightarrow> target \<Rightarrow> registry \<Rightarrow> handler list res \<times> registry" where
  "register_target_handlers attrs members target R = (case target of
     T_Object hs \<Rightarrow> register_members attrs hs R
   | T_Handler h \<Rightarrow> (case handler_spec_of attrs h of
        None \<Rightarrow> register_members attrs (members h) R
      | Some s \<Rightarrow> (case register_spec attrs s h R of
          (Inl e, R') \<Rightarrow> (Inl e, R') | (Inr g, R') \<Rightarrow> (Inr [g], R'))))"

fun register_handlers ::
    "attrs \<Rightarrow> (handler \<Rightarrow> handler list) \<Rightarrow> target list \<Rightarrow> registry \<Rightarrow> handler list res \<times> registry" where
  "register_handlers attrs members [] R = (Inr [], R)"
| "register_handlers attrs members (t # ts) R =
     (case register_target_handlers attrs members t R of
        (Inl e, R') \<Rightarrow> (Inl e, R')
      | (Inr gs, R') \<Rightarrow> (case register_handlers attrs members ts R' of
          (Inl e, R'') \<Rightarrow> (Inl e, R'') | (Inr gs', R'') \<Rightarrow> (Inr (gs @ gs'), R'')))"

section \<open>Registrations keep the registry in order\<close>

text \<open>
  No entry is empty, no handler is listed twice, a batched handler is alone under its key, and
  a class is recorded only for a key with handlers.
\<close>

definition entry_ok :: "attrs \<Rightarrow> handler list \<Rightarrow> bool" where
  "entry_ok attrs hs \<longleftrightarrow> hs \<noteq> [] \<and> distinct hs \<and> (\<forall>h \<in> set hs. is_batched attrs h \<longrightarrow> hs = [h])"

definition registry_ok :: "attrs \<Rightarrow> registry \<Rightarrow> bool" where
  "registry_ok attrs R \<longleftrightarrow> dict_wf (reg_handlers R) \<and>
     (\<forall>key hs. map_of (reg_handlers R) key = Some hs \<longrightarrow> entry_ok attrs hs) \<and>
     (\<forall>key. map_of (reg_handlers R) key = None \<longrightarrow> map_of (reg_classes R) key = None)"

lemma registry_ok_empty: "registry_ok attrs empty_registry" "registry_ok attrs (clear R)"
  by (simp_all add: registry_ok_def empty_registry_def clear_def)

lemma update_same: "map_of d k = Some v \<Longrightarrow> AList.update k v d = d"
  by (induction d) (auto split: if_splits)

lemma prepared_same:
  assumes "key_handlers R key \<noteq> []" "cls = None \<or> map_of (reg_classes R) key = cls"
  shows "prepared key cls R = R"
proof -
  have "has_key (reg_handlers R) key" using assms(1) by (auto simp: key_handlers_def has_key_map_of split: option.splits)
  moreover have "R\<lparr>reg_classes := AList.update key c (reg_classes R)\<rparr> = R" if "cls = Some c" for c
    using assms(2) that update_same [of "reg_classes R" key c] by simp
  ultimately show ?thesis by (auto simp: prepared_def Let_def split: option.splits)
qed

lemma key_handlers_prepared: "key_handlers (prepared key cls R) k = key_handlers R k"
  by (auto simp: prepared_def key_handlers_def Let_def has_key_map_of split: option.splits)

lemma prepared_classes:
  "reg_classes (prepared key cls R) = (case cls of None \<Rightarrow> reg_classes R | Some c \<Rightarrow> AList.update key c (reg_classes R))"
  by (simp add: prepared_def Let_def split: option.splits)

lemma prepared_handlers:
  "dict_wf (reg_handlers R) \<Longrightarrow> dict_wf (reg_handlers (prepared key cls R))"
  "map_of (reg_handlers (prepared key cls R)) k =
     (case map_of (reg_handlers R) k of Some hs \<Rightarrow> Some hs | None \<Rightarrow> if k = key then Some [] else None)"
  by (auto simp: prepared_def Let_def has_key_map_of split: option.splits)

lemma register_cases:
  assumes "register attrs kind t h cls am R = (r, R')"
  obtains (error) "r = Inl ValueError" "R' = R"
  | (added) "r = Inr h" "h \<notin> set (key_handlers R (kind, t))"
      "R' = (prepared (kind, t) cls R)\<lparr>reg_handlers := AList.update (kind, t) (key_handlers R (kind, t) @ [h])
         (reg_handlers (prepared (kind, t) cls R))\<rparr>"
      "key_handlers R (kind, t) \<noteq> [] \<Longrightarrow> \<not> is_batched attrs h \<and> (\<forall>g \<in> set (key_handlers R (kind, t)). \<not> is_batched attrs g)"
      "map_of (reg_classes R) (kind, t) = None \<or> map_of (reg_classes R) (kind, t) = cls"
      "key_handlers R (kind, t) \<noteq> [] \<Longrightarrow> map_of (reg_classes R) (kind, t) = cls"
proof -
  let ?hs = "key_handlers R (kind, t)" and ?ec = "map_of (reg_classes R) (kind, t)"
  let ?early = "cls = None \<and> ?ec \<noteq> None \<or> cls \<noteq> None \<and> ?hs \<noteq> [] \<and> ?ec = None \<or> cls \<noteq> None \<and> ?ec \<noteq> None \<and> ?ec \<noteq> cls"
  let ?late = "h \<in> set ?hs \<or> ?hs \<noteq> [] \<and> (is_batched attrs h \<or> (\<exists>g \<in> set ?hs. is_batched attrs g))
    \<or> \<not> (case am of None \<Rightarrow> kind = ''event'' | Some b \<Rightarrow> b) \<and> ?hs \<noteq> []"
  let ?P = "prepared (kind, t) cls R"
  show ?thesis
  proof (cases ?early)
    case True
    then have "register attrs kind t h cls am R = (Inl ValueError, R)"
      unfolding register_def Let_def by (elim disjE) simp_all
    then show ?thesis using assms error by simp
  next
    case False
    then have eq: "register attrs kind t h cls am R = (if ?late then (Inl ValueError, ?P)
        else (Inr h, ?P\<lparr>reg_handlers := AList.update (kind, t) (?hs @ [h]) (reg_handlers ?P)\<rparr>))"
      unfolding register_def Let_def key_handlers_prepared by (simp only: de_Morgan_disj if_False) auto
    show ?thesis
    proof (cases ?late)
      case True
      then have "?hs \<noteq> []" by auto
      then have "?P = R" using False by (intro prepared_same) blast+
      then show ?thesis using True eq assms error by simp
    next
      case False2: False
      then show ?thesis using False eq assms by (intro added) auto
    qed
  qed
qed

lemma register_ok:
  assumes "registry_ok attrs R" "register attrs kind t h cls am R = (r, R')" shows "registry_ok attrs R'"
  using assms(2)
proof (cases rule: register_cases)
  case error
  then show ?thesis using assms(1) by simp
next
  case added
  let ?hs = "key_handlers R (kind, t)"
  have "distinct ?hs"
    using assms(1) by (auto simp: registry_ok_def key_handlers_def entry_ok_def split: option.splits)
  then have "entry_ok attrs (?hs @ [h])" using added(2,4) by (cases "?hs = []") (auto simp: entry_ok_def)
  then show ?thesis using assms(1) unfolding registry_ok_def added(3)
    by (auto simp: prepared_handlers prepared_classes split: option.splits if_splits)
qed

inductive registry_reachable :: "attrs \<Rightarrow> registry \<Rightarrow> bool" for attrs where
  reg_empty: "registry_reachable attrs empty_registry"
| reg_register: "registry_reachable attrs R \<Longrightarrow> register attrs kind t h cls am R = (r, R') \<Longrightarrow> registry_reachable attrs R'"

lemma registry_reachable_ok: "registry_reachable attrs R \<Longrightarrow> registry_ok attrs R"
  by (induction rule: registry_reachable.induct) (simp_all add: registry_ok_empty register_ok)

text \<open>
  Registration either refuses with \<open>ValueError\<close> and leaves the registry as it was, or adds
  the handler at the end of its key's list and changes no other key; a registry built by
  registrations never lists a batched handler beside another one.
\<close>

theorem register_appends:
  assumes "registry_reachable attrs R" "register attrs kind t h cls am R = (r, R')"
  shows "(r = Inl ValueError \<and> R' = R \<or>
      r = Inr h \<and> key_handlers R' (kind, t) = key_handlers R (kind, t) @ [h] \<and> map_of (reg_classes R') (kind, t) = cls
        \<and> (\<forall>k. k \<noteq> (kind, t) \<longrightarrow> key_handlers R' k = key_handlers R k \<and> map_of (reg_classes R') k = map_of (reg_classes R) k))
    \<and> (\<forall>k. \<forall>g \<in> set (key_handlers R' k). is_batched attrs g \<longrightarrow> key_handlers R' k = [g])"
proof -
  have "registry_ok attrs R'" using register_ok [OF registry_reachable_ok] assms by blast
  then have "\<forall>k. \<forall>g \<in> set (key_handlers R' k). is_batched attrs g \<longrightarrow> key_handlers R' k = [g]"
    by (auto simp: registry_ok_def entry_ok_def key_handlers_def split: option.splits)
  moreover have "r = Inl ValueError \<and> R' = R \<or>
      r = Inr h \<and> key_handlers R' (kind, t) = key_handlers R (kind, t) @ [h] \<and> map_of (reg_classes R') (kind, t) = cls
        \<and> (\<forall>k. k \<noteq> (kind, t) \<longrightarrow> key_handlers R' k = key_handlers R k \<and> map_of (reg_classes R') k = map_of (reg_classes R) k)"
    using assms(2)
  proof (cases rule: register_cases)
    case added
    have "map_of (reg_classes R') (kind, t) = cls"
      using added(3,5) by (auto simp: prepared_classes split: option.splits)
    moreover have "key_handlers R' (kind, t) = key_handlers R (kind, t) @ [h]" by (simp add: added(3) key_handlers_def)
    moreover have "key_handlers R' k = key_handlers R k \<and> map_of (reg_classes R') k = map_of (reg_classes R) k"
      if "k \<noteq> (kind, t)" for k
      using that by (auto simp: added(3) key_handlers_def prepared_handlers prepared_classes split: option.splits)
    ultimately show ?thesis using added(1) by blast
  qed simp
  ultimately show ?thesis by blast
qed

definition sample_attrs :: attrs where
  "sample_attrs = (\<lambda>f. None)"

theorem register_appends_witness:
  "\<exists>R'. register sample_attrs ''event'' ''paid'' (Function 2) None None
      (snd (register sample_attrs ''event'' ''paid'' (Function 1) None None empty_registry)) = (Inr (Function 2), R')
    \<and> key_handlers R' (''event'', ''paid'') = [Function 1, Function 2]"
proof -
  let ?R = "snd (register sample_attrs ''event'' ''paid'' (Function 1) None None empty_registry)"
  have R: "registry_reachable sample_attrs ?R" by (rule reg_register [OF reg_empty]) (rule prod.collapse [symmetric])
  have kh: "key_handlers ?R (''event'', ''paid'') = [Function 1]"
    by (simp add: register_def empty_registry_def key_handlers_def prepared_def Let_def has_key_def)
  obtain r R' where r: "register sample_attrs ''event'' ''paid'' (Function 2) None None ?R = (r, R')" by fastforce
  have ok: "r = Inr (Function 2)"
    using r by (auto simp: register_def empty_registry_def key_handlers_def prepared_def Let_def has_key_def
        is_batched_def sample_attrs_def)
  have "key_handlers R' (''event'', ''paid'') = [Function 1, Function 2]"
    using register_appends [OF R r] ok kh by simp
  then show ?thesis using r ok by blast
qed

end
