(* ===== verification/Effects.thy ===== *)
theory Effects
  imports Exceptions
begin

text \<open>
  Stateful code that may raise: a program maps a state to a result and the state afterwards,
  also when it raises. Sequencing, \<open>try/except\<close>, loops over lists, and triples with one
  postcondition for returning and one for raising.
\<close>

named_theorems triples "rules for triples of the combinators"

type_synonym ('s, 'a) prog = "'s \<Rightarrow> 'a res \<times> 's"

definition ret :: "'a \<Rightarrow> ('s, 'a) prog" where
  "ret a s = (Inr a, s)"

definition raise :: "exn \<Rightarrow> ('s, 'a) prog" where
  "raise e s = (Inl e, s)"

definition lift_res :: "'a res \<Rightarrow> ('s, 'a) prog" where
  "lift_res r s = (r, s)"

definition seq :: "('s, 'a) prog \<Rightarrow> ('a \<Rightarrow> ('s, 'b) prog) \<Rightarrow> ('s, 'b) prog" where
  "seq m f s = (case m s of (Inl e, s') \<Rightarrow> (Inl e, s') | (Inr a, s') \<Rightarrow> f a s')"

definition try_catch :: "('s, 'a) prog \<Rightarrow> (exn \<Rightarrow> ('s, 'a) prog) \<Rightarrow> ('s, 'a) prog" where
  "try_catch m h s = (case m s of (Inl e, s') \<Rightarrow> h e s' | (Inr a, s') \<Rightarrow> (Inr a, s'))"

definition get_state :: "('s \<Rightarrow> 'a) \<Rightarrow> ('s, 'a) prog" where
  "get_state f s = (Inr (f s), s)"

definition modify :: "('s \<Rightarrow> 's) \<Rightarrow> ('s, unit) prog" where
  "modify f s = (Inr (), f s)"

fun for_each :: "('a \<Rightarrow> ('s, unit) prog) \<Rightarrow> 'a list \<Rightarrow> ('s, unit) prog" where
  "for_each f [] = ret ()"
| "for_each f (x # xs) = seq (f x) (\<lambda>_. for_each f xs)"

definition perform_if :: "bool \<Rightarrow> ('s, unit) prog \<Rightarrow> ('s, unit) prog" where
  "perform_if b m = (if b then m else ret ())"

text \<open>\<open>try: m except Exception: raise e\<close>, except that the exceptions of \<open>keep\<close> pass.\<close>

definition wrap_errors :: "(exn \<Rightarrow> bool) \<Rightarrow> exn \<Rightarrow> ('s, 'a) prog \<Rightarrow> ('s, 'a) prog" where
  "wrap_errors keep e m = try_catch m (\<lambda>x. raise (if keep x then x else e))"

text \<open>\<open>try: x = m() except Exception as exc: ...\<close>, where the handler is not itself protected.\<close>

definition attempt :: "('s, 'a) prog \<Rightarrow> ('s, 'a res) prog" where
  "attempt m s = (case m s of (r, s') \<Rightarrow> (Inr r, s'))"

definition failed :: "('s, 'a) prog \<Rightarrow> ('s, bool) prog" where
  "failed m = seq (attempt m) (\<lambda>r. ret (\<not> is_ok r))"

text \<open>A reading of a clock or a draw of an id, which changes the world it comes from.\<close>

definition take_reading :: "('w \<Rightarrow> 'a \<times> 'w) \<Rightarrow> ('w, 'a) prog" where
  "take_reading f w = (case f w of (a, w') \<Rightarrow> (Inr a, w'))"

lemma prog_simps [simp]:
  "ret a s = (Inr a, s)" "raise e s = (Inl e, s)" "lift_res r s = (r, s)" "get_state f s = (Inr (f s), s)"
  "modify g s = (Inr (), g s)"
  by (simp_all add: ret_def raise_def lift_res_def get_state_def modify_def)

lemma seq_simps [simp]:
  "m s = (Inr a, s') \<Longrightarrow> seq m f s = f a s'" "m s = (Inl e, s') \<Longrightarrow> seq m f s = (Inl e, s')"
  by (simp_all add: seq_def)

lemma seq_ret [simp]: "seq (ret a) f = f a"
  by (rule ext) (simp add: seq_def)

lemma seq_raise [simp]: "seq (raise e) f = raise e"
  by (rule ext) (simp add: seq_def)

lemma seq_assoc: "seq (seq m f) g = seq m (\<lambda>a. seq (f a) g)"
  by (rule ext) (simp add: seq_def split: prod.splits sum.splits)

section \<open>Triples\<close>

definition triple ::
    "('s \<Rightarrow> bool) \<Rightarrow> ('s, 'a) prog \<Rightarrow> ('a \<Rightarrow> 's \<Rightarrow> bool) \<Rightarrow> (exn \<Rightarrow> 's \<Rightarrow> bool) \<Rightarrow> bool" where
  "triple P m Q E \<longleftrightarrow> (\<forall>s. P s \<longrightarrow> (case m s of (Inr a, s') \<Rightarrow> Q a s' | (Inl e, s') \<Rightarrow> E e s'))"

lemma tripleI:
  assumes "\<And>s a s'. P s \<Longrightarrow> m s = (Inr a, s') \<Longrightarrow> Q a s'" "\<And>s e s'. P s \<Longrightarrow> m s = (Inl e, s') \<Longrightarrow> E e s'"
  shows "triple P m Q E"
  using assms unfolding triple_def by (auto split: prod.splits sum.splits)

lemma tripleD1: "triple P m Q E \<Longrightarrow> P s \<Longrightarrow> m s = (Inr a, s') \<Longrightarrow> Q a s'"
  unfolding triple_def by fastforce

lemma tripleD2: "triple P m Q E \<Longrightarrow> P s \<Longrightarrow> m s = (Inl e, s') \<Longrightarrow> E e s'"
  unfolding triple_def by fastforce

lemma triple_weaken:
  assumes "triple P' m Q' E'" "\<And>s. P s \<Longrightarrow> P' s" "\<And>a s. Q' a s \<Longrightarrow> Q a s" "\<And>e s. E' e s \<Longrightarrow> E e s"
  shows "triple P m Q E"
  using assms by (intro tripleI) (blast dest: tripleD1 tripleD2)+

lemma triple_pre: "triple P' m Q E \<Longrightarrow> (\<And>s. P s \<Longrightarrow> P' s) \<Longrightarrow> triple P m Q E"
  by (rule triple_weaken)

lemma triple_post:
  "triple P m Q' E' \<Longrightarrow> (\<And>a s. Q' a s \<Longrightarrow> Q a s) \<Longrightarrow> (\<And>e s. E' e s \<Longrightarrow> E e s) \<Longrightarrow> triple P m Q E"
  by (rule triple_weaken)

lemma triple_ret [triples]: "triple (Q a) (ret a) Q E"
  by (simp add: triple_def)

lemma triple_raise [triples]: "triple (E e) (raise e) Q E"
  by (simp add: triple_def)

lemma triple_lift_res [triples]:
  "triple (\<lambda>s. case r of Inl e \<Rightarrow> E e s | Inr a \<Rightarrow> Q a s) (lift_res r) Q E"
  by (auto simp: triple_def split: sum.splits)

lemma triple_get_state [triples]: "triple (\<lambda>s. Q (f s) s) (get_state f) Q E"
  by (simp add: triple_def)

lemma triple_modify [triples]: "triple (\<lambda>s. Q () (f s)) (modify f) Q E"
  by (simp add: triple_def)

lemma triple_seq:
  assumes "triple P m R E" "\<And>a. triple (R a) (f a) Q E"
  shows "triple P (seq m f) Q E"
proof (rule tripleI)
  fix s b s' assume "P s" "seq m f s = (Inr b, s')"
  then obtain a t where "m s = (Inr a, t)" "f a t = (Inr b, s')"
    by (auto simp: seq_def split: prod.splits sum.splits)
  then show "Q b s'" using \<open>P s\<close> assms by (blast dest: tripleD1)
next
  fix s e s' assume s: "P s" "seq m f s = (Inl e, s')"
  show "E e s'"
  proof (cases "m s")
    case (Pair r t)
    then show ?thesis
      using s assms by (cases r) (auto dest: tripleD1 tripleD2)
  qed
qed

lemma triple_try_catch:
  assumes "triple P m Q R" "\<And>e. triple (R e) (h e) Q E"
  shows "triple P (try_catch m h) Q E"
proof (rule tripleI)
  fix s a s' assume s: "P s" "try_catch m h s = (Inr a, s')"
  show "Q a s'"
    using s assms by (cases "m s"; cases "fst (m s)") (auto simp: try_catch_def dest: tripleD1 tripleD2)
next
  fix s e s' assume s: "P s" "try_catch m h s = (Inl e, s')"
  show "E e s'"
    using s assms by (cases "m s"; cases "fst (m s)") (auto simp: try_catch_def dest: tripleD1 tripleD2)
qed

lemma triple_if: "(b \<Longrightarrow> triple P m Q E) \<Longrightarrow> (\<not> b \<Longrightarrow> triple P m' Q E) \<Longrightarrow> triple P (if b then m else m') Q E"
  by simp

lemma triple_for_each:
  assumes "\<And>x. x \<in> set xs \<Longrightarrow> triple I (f x) (\<lambda>_. I) E"
  shows "triple I (for_each f xs) (\<lambda>_. I) E"
  using assms by (induction xs) (auto intro: triple_ret triple_seq)

lemma triple_perform_if: "(b \<Longrightarrow> triple P m Q E) \<Longrightarrow> (\<And>s. \<not> b \<Longrightarrow> P s \<Longrightarrow> Q () s) \<Longrightarrow> triple P (perform_if b m) Q E"
  by (auto simp: perform_if_def triple_def)

lemma triple_wrap_errors:
  assumes "triple P m Q (\<lambda>x s. E (if keep x then x else e) s)" shows "triple P (wrap_errors keep e m) Q E"
  unfolding wrap_errors_def using assms by (rule triple_try_catch) (rule triple_raise)

lemma triple_conj:
  "triple P m Q E \<Longrightarrow> triple P' m Q' E' \<Longrightarrow>
    triple (\<lambda>s. P s \<and> P' s) m (\<lambda>a s. Q a s \<and> Q' a s) (\<lambda>e s. E e s \<and> E' e s)"
  by (intro tripleI) (blast dest: tripleD1 tripleD2)+

text \<open>Programs that never touch what \<open>f\<close> reads of the state.\<close>

definition keeps :: "('s \<Rightarrow> 'v) \<Rightarrow> ('s, 'a) prog \<Rightarrow> bool" where
  "keeps f m \<longleftrightarrow> (\<forall>s. f (snd (m s)) = f s)"

named_theorems keeping "programs that leave a part of the state alone"

lemma keepsD: "keeps f m \<Longrightarrow> m s = (r, s') \<Longrightarrow> f s' = f s"
  unfolding keeps_def by (metis snd_conv)

lemma keeps_triple: "keeps f m \<Longrightarrow> triple (\<lambda>s. I (f s)) m (\<lambda>_ s. I (f s)) (\<lambda>_ s. I (f s))"
  unfolding keeps_def by (intro tripleI) (metis snd_conv)+

lemma keeps_basic [keeping]: "keeps f (ret a)" "keeps f (raise x)" "keeps f (lift_res r)" "keeps f (get_state g)"
  by (simp_all add: keeps_def)

lemma keeps_modify: "(\<And>s. f (g s) = f s) \<Longrightarrow> keeps f (modify g)"
  by (simp add: keeps_def)

lemma keeps_seq [keeping]: "keeps f m \<Longrightarrow> (\<And>a. keeps f (g a)) \<Longrightarrow> keeps f (seq m g)"
  by (auto simp: keeps_def seq_def split: prod.splits sum.splits) (metis snd_conv)+

lemma keeps_attempt [keeping]: "keeps f m \<Longrightarrow> keeps f (attempt m)"
  by (auto simp: keeps_def attempt_def split: prod.splits) (metis snd_conv)

lemma keeps_failed [keeping]: "keeps f m \<Longrightarrow> keeps f (failed m)"
  unfolding failed_def by (intro keeping)

lemma keeps_try_catch [keeping]: "keeps f m \<Longrightarrow> (\<And>x. keeps f (h x)) \<Longrightarrow> keeps f (try_catch m h)"
  by (auto simp: keeps_def try_catch_def split: prod.splits sum.splits) (metis snd_conv)+

lemma keeps_wrap_errors [keeping]: "keeps f m \<Longrightarrow> keeps f (wrap_errors k x m)"
  unfolding wrap_errors_def by (intro keeping)

lemma keeps_perform_if [keeping]: "(b \<Longrightarrow> keeps f m) \<Longrightarrow> keeps f (perform_if b m)"
  by (simp add: perform_if_def keeps_basic)

lemma keeps_for_each [keeping]: "(\<And>x. x \<in> set xs \<Longrightarrow> keeps f (g x)) \<Longrightarrow> keeps f (for_each g xs)"
  by (induction xs) (auto intro: keeping)

lemma keeps_cases [keeping]:
  "keeps f m \<Longrightarrow> (\<And>a. keeps f (g a)) \<Longrightarrow> keeps f (case x of None \<Rightarrow> m | Some a \<Rightarrow> g a)"
  "(\<And>e. keeps f (h e)) \<Longrightarrow> (\<And>a. keeps f (g' a)) \<Longrightarrow> keeps f (case y of Inl e \<Rightarrow> h e | Inr a \<Rightarrow> g' a)"
  "keeps f m' \<Longrightarrow> keeps f m'' \<Longrightarrow> keeps f (if b then m' else m'')"
  by (auto split: option.splits sum.splits)

lemma triple_true: "triple P m (\<lambda>_ _. True) (\<lambda>_ _. True)"
  by (rule tripleI) simp_all

end
