(* ===== verification/RequestResponse.thy ===== *)
theory RequestResponse
  imports Registry Effects PyFloat
begin

text \<open>
  request_response.py: the coordinator that matches responses to the requests waiting for
  them. Every method runs under the coordinator's lock, so it is one step on its two tables.
  Correlation ids are what envelopes carry, any value; an unhashable one raises.
\<close>

section \<open>State\<close>

record ticket =
  tk_correlation_id :: pyval
  tk_request_id :: pyval
  tk_reply_to :: pyval
  tk_expires_at :: pyval

record coordinator =
  co_responses :: "(pyval, message_envelope) dict"
  co_deadlines :: "(pyval, instant) dict"

definition new_coordinator :: coordinator where
  "new_coordinator = \<lparr>co_responses = [], co_deadlines = []\<rparr>"

definition default_reply_queue_name :: "string \<Rightarrow> string" where
  "default_reply_queue_name fresh = ''pybus.responses.'' @ fresh"

section \<open>Preparing envelopes\<close>

text \<open>\<open>timedelta(seconds=x)\<close> rounds to microseconds, halves to even.\<close>

definition seconds :: "rat \<Rightarrow> int" where
  "seconds x = half_even (x * 1000000)"

definition plus_seconds :: "datetime \<Rightarrow> rat \<Rightarrow> datetime res" where
  "plus_seconds d x = (let l = dt_local d + seconds x in
     if in_range l then Inr (d\<lparr>dt_local := l\<rparr>) else Inl OverflowError)"

text \<open>
  \<open>fresh_request\<close> and \<open>fresh_correlation\<close> are the \<open>uuid4\<close> draws made when the request brings
  no id of its own.
\<close>

definition prepare_request ::
    "codec \<Rightarrow> string \<Rightarrow> string \<Rightarrow> instant \<Rightarrow> base_message \<Rightarrow> rat option \<Rightarrow> pyval \<Rightarrow> pyval \<Rightarrow> datetime option
      \<Rightarrow> (message_envelope \<times> ticket) res" where
  "prepare_request C fresh_request fresh_correlation now request timeout mid reply created =
     (let created_time = (case created of None \<Rightarrow> at_utc now | Some d \<Rightarrow> d);
          request_id = or_val mid (PStr fresh_request);
          cid = or_val (bm_correlation_id request) (PStr fresh_correlation) in
      bind_res (case timeout of None \<Rightarrow> Inr PNone
         | Some x \<Rightarrow> bind_res (plus_seconds created_time x) (\<lambda>d. Inr (PDateTime d))) (\<lambda>expires.
      bind_res (codec_encode C (bm_headers request) PNone) (\<lambda>encoded_headers.
      bind_res (codec_encode C (bm_payload request) (bm_headers request)) (\<lambda>encoded.
      Inr (create fresh_request now \<lparr>message_id = request_id, message_type = bm_message_type request,
          message_kind = PStr (mc_kind (bm_class request)), version = PInt (mc_version (bm_class request)),
          payload = encoded, headers = encoded_headers, created_at = PDateTime created_time,
          correlation_id = cid, causation_id = bm_causation_id request, reply_to = reply,
          expires_at = expires, content_type = bm_content_type request,
          content_encoding = bm_content_encoding request\<rparr>,
        \<lparr>tk_correlation_id = cid, tk_request_id = request_id, tk_reply_to = reply, tk_expires_at = expires\<rparr>)))))"

definition prepare_response ::
    "codec \<Rightarrow> string \<Rightarrow> instant \<Rightarrow> message_envelope \<Rightarrow> base_message \<Rightarrow> pyval \<Rightarrow> datetime option \<Rightarrow> message_envelope res" where
  "prepare_response C fresh now request response mid created =
     bind_res (codec_encode C (bm_headers response) PNone) (\<lambda>encoded_headers.
     bind_res (codec_encode C (bm_payload response) (bm_headers response)) (\<lambda>encoded.
     Inr (create fresh now \<lparr>message_id = mid, message_type = bm_message_type response,
       message_kind = PStr (mc_kind (bm_class response)), version = PInt (mc_version (bm_class response)),
       payload = encoded, headers = encoded_headers,
       created_at = PDateTime (case created of None \<Rightarrow> at_utc now | Some d \<Rightarrow> d),
       correlation_id = correlation_id request, causation_id = message_id request, reply_to = reply_to request,
       expires_at = bm_expires_at response, content_type = bm_content_type response,
       content_encoding = bm_content_encoding response\<rparr>)))"

section \<open>The tables\<close>

fun discard :: "pyval list \<Rightarrow> coordinator \<Rightarrow> coordinator" where
  "discard [] co = co"
| "discard (k # ks) co = discard ks (co\<lparr>co_responses := AList.delete k (co_responses co),
     co_deadlines := AList.delete k (co_deadlines co)\<rparr>)"

definition evict_expired :: "instant \<Rightarrow> coordinator \<Rightarrow> coordinator" where
  "evict_expired now co = discard (map fst (filter (\<lambda>(k, d). d \<le> now) (co_deadlines co))) co"

definition store_response :: "instant \<Rightarrow> message_envelope \<Rightarrow> (coordinator, unit) prog" where
  "store_response now e co =
     (let cid = correlation_id e in
      if \<not> truthy cid then (Inl ValueError, co)
      else if \<not> hashable cid then (Inl TypeError, co)
      else let already_expired = (case map_of (co_deadlines co) cid of None \<Rightarrow> False | Some d \<Rightarrow> d \<le> now);
               co1 = evict_expired now co in
        if already_expired then (Inr (), co1)
        else (Inr (), co1\<lparr>co_responses := AList.update cid e (co_responses co1)\<rparr>))"

definition take_response :: "pyval \<Rightarrow> (coordinator, message_envelope option) prog" where
  "take_response cid co =
     (if \<not> hashable cid then (Inl TypeError, co)
      else (Inr (map_of (co_responses co) cid),
        co\<lparr>co_responses := AList.delete cid (co_responses co), co_deadlines := AList.delete cid (co_deadlines co)\<rparr>))"

section \<open>Waiting\<close>

text \<open>
  \<open>rr_wait\<close> is \<open>Condition.wait\<close>: it releases the lock, so other threads act on the tables
  before it returns, notified or timed out.
\<close>

record 'w waiting =
  rr_now :: "'w \<Rightarrow> instant \<times> 'w"
  rr_wait :: "int option \<Rightarrow> coordinator \<times> 'w \<Rightarrow> coordinator \<times> 'w"

partial_function (option) wait_loop ::
    "'w waiting \<Rightarrow> pyval \<Rightarrow> instant option \<Rightarrow> coordinator \<times> 'w \<Rightarrow> (message_envelope res \<times> (coordinator \<times> 'w)) option" where
  "wait_loop E cid deadline s =
     (case map_of (co_responses (fst s)) cid of
        Some e \<Rightarrow> Some (Inr e, (snd (take_response cid (fst s)), snd s))
      | None \<Rightarrow>
         (case deadline of
            None \<Rightarrow> wait_loop E cid deadline (rr_wait E None s)
          | Some d \<Rightarrow>
             (let (t, w) = rr_now E (snd s) in
              if d - t \<le> 0 then Some (Inl MessageTimeoutError, (fst s, w))
              else wait_loop E cid deadline (rr_wait E (Some (d - t)) (fst s, w)))))"

definition wait_for_response ::
    "'w waiting \<Rightarrow> pyval \<Rightarrow> rat option \<Rightarrow> coordinator \<times> 'w \<Rightarrow> (message_envelope res \<times> (coordinator \<times> 'w)) option" where
  "wait_for_response E cid timeout s =
     (case timeout of
        None \<Rightarrow> if hashable cid then wait_loop E cid None s else Some (Inl TypeError, s)
      | Some x \<Rightarrow>
         (let (t, w) = rr_now E (snd s) in
          case plus_seconds (at_utc t) x of
            Inl err \<Rightarrow> Some (Inl err, (fst s, w))
          | Inr d \<Rightarrow>
             if hashable cid
             then wait_loop E cid (Some (dt_local d))
               ((fst s)\<lparr>co_deadlines := AList.update cid (dt_local d) (co_deadlines (fst s))\<rparr>, w)
             else Some (Inl TypeError, (fst s, w))))"

section \<open>What the tables hold\<close>

text \<open>Every stored response is filed under its own correlation id.\<close>

definition co_ok :: "coordinator \<Rightarrow> bool" where
  "co_ok co \<longleftrightarrow> dict_wf (co_responses co) \<and> dict_wf (co_deadlines co)
     \<and> (\<forall>k e. map_of (co_responses co) k = Some e \<longrightarrow> correlation_id e = k)"

lemma co_ok_new: "co_ok new_coordinator"
  by (simp add: co_ok_def new_coordinator_def)

lemma discard_maps:
  "map_of (co_responses (discard ks co)) = map_of (co_responses co) |` (- set ks)"
  "map_of (co_deadlines (discard ks co)) = map_of (co_deadlines co) |` (- set ks)"
  by (induction ks arbitrary: co) (auto simp: restrict_map_def fun_eq_iff)

lemma discard_wf:
  "dict_wf (co_responses co) \<Longrightarrow> dict_wf (co_responses (discard ks co))"
  "dict_wf (co_deadlines co) \<Longrightarrow> dict_wf (co_deadlines (discard ks co))"
  by (induction ks arbitrary: co) auto

lemma expired_keys:
  "dict_wf d \<Longrightarrow> k \<in> set (map fst (filter (\<lambda>(k, t). t \<le> now) d)) \<longleftrightarrow> (\<exists>t. map_of d k = Some t \<and> t \<le> now)"
  by (auto simp: dict_wf_def dest!: map_of_SomeD intro!: rev_image_eqI)

text \<open>Eviction removes exactly the requests whose deadline has passed, from both tables.\<close>

definition overdue :: "coordinator \<Rightarrow> instant \<Rightarrow> pyval \<Rightarrow> bool" where
  "overdue co now k \<longleftrightarrow> (\<exists>t. map_of (co_deadlines co) k = Some t \<and> t \<le> now)"

lemma evict_expired_maps:
  assumes "co_ok co"
  shows "map_of (co_responses (evict_expired now co)) k = (if overdue co now k then None else map_of (co_responses co) k)"
    "map_of (co_deadlines (evict_expired now co)) k = (if overdue co now k then None else map_of (co_deadlines co) k)"
proof -
  have "k \<in> set (map fst (filter (\<lambda>(k, d). d \<le> now) (co_deadlines co))) \<longleftrightarrow> overdue co now k"
    using assms expired_keys [of "co_deadlines co" k now] by (simp add: co_ok_def overdue_def)
  then show "map_of (co_responses (evict_expired now co)) k = (if overdue co now k then None else map_of (co_responses co) k)"
    "map_of (co_deadlines (evict_expired now co)) k = (if overdue co now k then None else map_of (co_deadlines co) k)"
    by (simp_all add: evict_expired_def discard_maps restrict_map_def del: set_map)
qed

lemma co_ok_evict: "co_ok co \<Longrightarrow> co_ok (evict_expired now co)"
  using evict_expired_maps [of co now] discard_wf
  by (simp add: co_ok_def) (simp add: evict_expired_def)

lemma co_ok_store: "co_ok co \<Longrightarrow> co_ok (snd (store_response now e co))"
  using co_ok_evict [of co now] by (auto simp: store_response_def Let_def co_ok_def)

lemma co_ok_take: "co_ok co \<Longrightarrow> co_ok (snd (take_response cid co))"
  by (auto simp: take_response_def co_ok_def)

lemma store_response_map:
  assumes "co_ok co" "store_response now e co = (Inr (), co')"
  shows "map_of (co_responses co') k =
    (if overdue co now k then None else if k = correlation_id e then Some e else map_of (co_responses co) k)"
  using assms evict_expired_maps(1) [OF assms(1), of now k]
  by (auto simp: store_response_def Let_def overdue_def split: if_splits option.splits)

lemma take_response_own:
  assumes "co_ok co" "take_response cid co = (Inr (Some e), co')" shows "correlation_id e = cid"
  using assms by (auto simp: take_response_def co_ok_def split: if_splits)

lemma take_response_map:
  "take_response cid co = (r, co') \<Longrightarrow> k \<noteq> cid \<Longrightarrow> map_of (co_responses co') k = map_of (co_responses co) k"
  by (auto simp: take_response_def split: if_splits)

section \<open>Waiting returns the awaited response\<close>

lemma wait_loop_rule:
  assumes "wait_loop E cid deadline s = Some (r, s')" "co_ok (fst s)" "hashable cid"
    and others: "\<And>x t. co_ok (fst t) \<Longrightarrow> co_ok (fst (rr_wait E x t))"
  shows "co_ok (fst s') \<and> (r = Inl MessageTimeoutError \<and> deadline \<noteq> None \<or>
    (\<exists>e. r = Inr e \<and> correlation_id e = cid \<and> map_of (co_responses (fst s')) cid = None
      \<and> map_of (co_deadlines (fst s')) cid = None))"
proof -
  let ?R = "\<lambda>deadline r s'. co_ok (fst s') \<and> (r = Inl MessageTimeoutError \<and> deadline \<noteq> (None :: instant option) \<or>
    (\<exists>e. r = Inr e \<and> correlation_id e = cid \<and> map_of (co_responses (fst s')) cid = None
      \<and> map_of (co_deadlines (fst s')) cid = None))"
  have "E = E \<longrightarrow> cid = cid \<longrightarrow> co_ok (fst s) \<longrightarrow> ?R deadline (fst (r, s')) (snd (r, s'))"
    using assms(1)
  proof (rule wait_loop.raw_induct [where P = "\<lambda>E' cid' deadline s y. E' = E \<longrightarrow> cid' = cid \<longrightarrow> co_ok (fst s)
      \<longrightarrow> ?R deadline (fst y) (snd y)", rotated])
    fix f E' cid' deadline s and y :: "message_envelope res \<times> (coordinator \<times> 'a)"
    assume IH: "\<And>E' cid' deadline s y. f E' cid' deadline s = Some y \<Longrightarrow> E' = E \<longrightarrow> cid' = cid \<longrightarrow> co_ok (fst s)
        \<longrightarrow> ?R deadline (fst y) (snd y)"
      and y: "(case map_of (co_responses (fst s)) cid' of
          Some e \<Rightarrow> Some (Inr e, (snd (take_response cid' (fst s)), snd s))
        | None \<Rightarrow> (case deadline of
              None \<Rightarrow> f E' cid' deadline (rr_wait E' None s)
            | Some d \<Rightarrow> (let (t, w) = rr_now E' (snd s) in
                if d - t \<le> 0 then Some (Inl MessageTimeoutError, (fst s, w))
                else f E' cid' deadline (rr_wait E' (Some (d - t)) (fst s, w))))) = Some y"
    show "E' = E \<longrightarrow> cid' = cid \<longrightarrow> co_ok (fst s) \<longrightarrow> ?R deadline (fst y) (snd y)"
    proof (intro impI)
      assume eq: "E' = E" "cid' = cid" and ok: "co_ok (fst s)"
      show "?R deadline (fst y) (snd y)"
      proof (cases "map_of (co_responses (fst s)) cid")
        case None
        show ?thesis
          using y None eq ok IH [of E cid deadline "rr_wait E None s" y]
            IH [of E cid deadline "rr_wait E (Some (the deadline - fst (rr_now E (snd s)))) (fst s, snd (rr_now E (snd s)))" y]
            others [of s None] others [of "(fst s, snd (rr_now E (snd s)))" "Some (the deadline - fst (rr_now E (snd s)))"]
          by (auto split: option.splits prod.splits if_splits)
      next
        case (Some e)
        then show ?thesis
          using y eq ok assms(3) co_ok_take [OF ok, of cid] by (auto simp: take_response_def) (auto simp: co_ok_def)
      qed
    qed
  qed
  then show ?thesis using assms(2) by simp
qed

lemma wait_for_response_own:
  assumes "wait_for_response E cid timeout s = Some (Inr e, s')" "co_ok (fst s)"
    and "\<And>x t. co_ok (fst t) \<Longrightarrow> co_ok (fst (rr_wait E x t))"
  shows "correlation_id e = cid \<and> map_of (co_responses (fst s')) cid = None \<and> co_ok (fst s')"
proof -
  obtain deadline t where t: "wait_loop E cid deadline t = Some (Inr e, s')" "hashable cid" "co_ok (fst t)"
  proof (cases timeout)
    case None
    then show ?thesis using that assms(1,2) by (auto simp: wait_for_response_def split: if_splits)
  next
    case (Some x)
    obtain now w where now: "rr_now E (snd s) = (now, w)" by fastforce
    obtain d where d: "plus_seconds (at_utc now) x = Inr d"
      using assms(1) Some now by (auto simp: wait_for_response_def split: sum.splits)
    let ?co = "(fst s)\<lparr>co_deadlines := AList.update cid (dt_local d) (co_deadlines (fst s))\<rparr>"
    have "co_ok ?co" using assms(2) by (auto simp: co_ok_def)
    then show ?thesis
      using that [of "Some (dt_local d)" "(?co, w)"] assms(1) Some now d
      by (auto simp: wait_for_response_def split: if_splits)
  qed
  show ?thesis using wait_loop_rule [OF t(1,3,2) assms(3)] by auto
qed

end
