(* ===== verification/Recurrence.thy ===== *)
theory Recurrence
  imports PyTime Exceptions
begin

text \<open>
  recurrence.py: cadences, the series data and \<open>next_cadence_at\<close>, the next wall-clock time of
  a recurring job. A time zone (tzdata through \<open>zoneinfo\<close>) is a parameter: the offset of a
  local reading for each \<open>fold\<close>, and the local reading and fold of an instant; \<open>zones\<close> maps
  IANA names to zones. Every datetime computation that leaves years 1 to 9999 raises
  \<open>OverflowError\<close>.
\<close>

datatype cadence = DAILY | WEEKLY | MONTHLY

datatype series_state = S_ACTIVE | S_COMPLETED | S_FAILED | S_CANCELLED

record zone =
  z_offset :: "int \<Rightarrow> bool \<Rightarrow> int"
  z_fromutc :: "instant \<Rightarrow> int \<times> bool"

type_synonym zones = "string \<Rightarrow> zone option"

record recurrence =
  rc_cadence :: cadence
  rc_timezone :: string
  rc_ends_at :: "datetime option"

text \<open>What a recurring handler may return besides \<open>None\<close>.\<close>

datatype recurrence_result = ScheduleNextOccurrence datetime | EndRecurrence

definition require_aware :: "datetime \<Rightarrow> unit res" where
  "require_aware d = (if is_aware d then Inr () else Inl ValueError)"

definition find_zone :: "zones \<Rightarrow> string \<Rightarrow> zone res" where
  "find_zone zones name = (if strip name = [] then Inl ValueError else of_option ValueError (zones name))"

definition new_recurrence ::
    "zones \<Rightarrow> cadence \<Rightarrow> string \<Rightarrow> datetime option \<Rightarrow> recurrence res" where
  "new_recurrence zones c name ends =
     bind_res (find_zone zones name) (\<lambda>_.
     bind_res (case ends of None \<Rightarrow> Inr () | Some d \<Rightarrow> require_aware d) (\<lambda>_.
     Inr \<lparr>rc_cadence = c, rc_timezone = name, rc_ends_at = ends\<rparr>))"

definition schedule_next_occurrence :: "datetime \<Rightarrow> recurrence_result res" where
  "schedule_next_occurrence d = bind_res (require_aware d) (\<lambda>_. Inr (ScheduleNextOccurrence d))"

section \<open>Conversions\<close>

definition ranged :: "int \<Rightarrow> int res" where
  "ranged l = (if in_range l then Inr l else Inl OverflowError)"

text \<open>\<open>d.astimezone(timezone.utc)\<close> and \<open>d.astimezone(zone)\<close> for an aware \<open>d\<close>; a reading in
  a zone is a local time with its fold.\<close>

definition instant_of :: "datetime \<Rightarrow> instant res" where
  "instant_of d = ranged (utc_of d)"

definition to_utc :: "zone \<Rightarrow> int \<times> bool \<Rightarrow> instant res" where
  "to_utc z p = ranged (fst p - z_offset z (fst p) (snd p))"

definition in_zone :: "zone \<Rightarrow> instant \<Rightarrow> (int \<times> bool) res" where
  "in_zone z u = bind_res (ranged (fst (z_fromutc z u))) (\<lambda>_. Inr (z_fromutc z u))"

definition datetime_in_zone :: "zone \<Rightarrow> datetime \<Rightarrow> (int \<times> bool) res" where
  "datetime_in_zone z d = bind_res (instant_of d) (in_zone z)"

section \<open>Candidates\<close>

definition initial_index :: "cadence \<Rightarrow> int \<Rightarrow> int \<Rightarrow> nat" where
  "initial_index c anchor after =
     (let days = after div us_day - anchor div us_day in
      case c of DAILY \<Rightarrow> nat (max 1 days)
      | WEEKLY \<Rightarrow> nat (max 1 (days div 7))
      | MONTHLY \<Rightarrow>
          (let (y, m, d) = days_ymd (after div us_day); (y0, m0, d0) = days_ymd (anchor div us_day)
           in nat (max 1 ((y - y0) * 12 + m - m0))))"

definition monthly_day :: "int \<Rightarrow> nat \<Rightarrow> int \<times> int \<times> int" where
  "monthly_day anchor i =
     (let (y0, m0, d0) = days_ymd (anchor div us_day); mi = y0 * 12 + m0 - 1 + int i;
          y = mi div 12; m = mi mod 12 + 1
      in (y, m, min d0 (days_in_month y m)))"

definition candidate_local :: "int \<Rightarrow> cadence \<Rightarrow> nat \<Rightarrow> int res" where
  "candidate_local anchor c i = (case c of
     DAILY \<Rightarrow> ranged (anchor + int i * us_day)
   | WEEKLY \<Rightarrow> ranged (anchor + int i * (7 * us_day))
   | MONTHLY \<Rightarrow> (let (y, m, d) = monthly_day anchor i in
       if 1 \<le> y \<and> y \<le> 9999 then Inr (ymd_days y m d * us_day + anchor mod us_day) else Inl ValueError))"

definition earlier :: "zone \<Rightarrow> int \<times> bool \<Rightarrow> int \<times> bool \<Rightarrow> (int \<times> bool) res" where
  "earlier z a b = bind_res (to_utc z a) (\<lambda>ua. bind_res (to_utc z b) (\<lambda>ub. Inr (if ub < ua then b else a)))"

definition resolve_local :: "int \<Rightarrow> zone \<Rightarrow> (int \<times> bool) res" where
  "resolve_local v z =
     bind_res (to_utc z (v, False)) (\<lambda>u1. bind_res (in_zone z u1) (\<lambda>first.
     bind_res (to_utc z (v, True)) (\<lambda>u2. bind_res (in_zone z u2) (\<lambda>second.
       if fst first = v then Inr (v, False)
       else if fst second = v then Inr (v, True)
       else (case filter (\<lambda>c. v < fst c) [first, second] of
          [] \<Rightarrow> Inl ValueError
        | [a] \<Rightarrow> bind_res (to_utc z a) (\<lambda>_. Inr a)
        | a # b # _ \<Rightarrow> earlier z a b)))))"

definition candidate :: "zone \<Rightarrow> int \<Rightarrow> cadence \<Rightarrow> nat \<Rightarrow> instant res" where
  "candidate z anchor c i =
     bind_res (candidate_local anchor c i) (\<lambda>v. bind_res (resolve_local v z) (to_utc z))"

section \<open>The search\<close>

text \<open>
  The \<open>while True\<close> loop. It ends: each round moves the local candidate forward, and past
  year 9999 computing it raises.
\<close>

definition slots_left :: "int \<Rightarrow> cadence \<Rightarrow> nat \<Rightarrow> nat" where
  "slots_left anchor c i = (case c of
     MONTHLY \<Rightarrow> (let (y0, m0, d0) = days_ymd (anchor div us_day) in nat (120000 - (y0 * 12 + m0 - 1) - int i))
   | _ \<Rightarrow> nat (3652059 * us_day - anchor - int i))"

lemma slots_left_decreases:
  assumes "candidate_local anchor c i = Inr v"
  shows "slots_left anchor c (Suc i) < slots_left anchor c i"
proof (cases c)
  case DAILY
  then have "anchor + int i * us_day < 3652059 * us_day"
    using assms by (simp add: candidate_local_def ranged_def in_range_def split: if_splits)
  then show ?thesis using DAILY by (simp add: slots_left_def)
next
  case WEEKLY
  then have "anchor + int i * (7 * us_day) < 3652059 * us_day"
    using assms by (simp add: candidate_local_def ranged_def in_range_def split: if_splits)
  then show ?thesis using WEEKLY by (simp add: slots_left_def)
next
  case MONTHLY
  obtain y0 m0 d0 where a: "days_ymd (anchor div us_day) = (y0, m0, d0)" by (cases "days_ymd (anchor div us_day)") auto
  have "(y0 * 12 + m0 - 1 + int i) div 12 \<le> 9999"
    using assms MONTHLY by (simp add: candidate_local_def monthly_day_def a Let_def split: if_splits)
  then have "y0 * 12 + m0 - 1 + int i < 120000" by linarith
  then show ?thesis using MONTHLY by (simp add: slots_left_def a)
qed

function search :: "zone \<Rightarrow> int \<Rightarrow> cadence \<Rightarrow> instant \<Rightarrow> nat \<Rightarrow> instant res" where
  "search z anchor c after i =
     bind_res (candidate_local anchor c i) (\<lambda>v.
     bind_res (resolve_local v z) (\<lambda>p.
     bind_res (to_utc z p) (\<lambda>u.
       if after < u then Inr u else search z anchor c after (Suc i))))"
  by pat_completeness auto
termination
  by (relation "measure (\<lambda>(z, anchor, c, after, i). slots_left anchor c i)") (auto intro: slots_left_decreases)

declare search.simps [simp del]

definition next_cadence_at ::
    "zones \<Rightarrow> recurrence \<Rightarrow> datetime \<Rightarrow> datetime \<Rightarrow> instant option res" where
  "next_cadence_at zones r starts_at after =
     bind_res (require_aware starts_at) (\<lambda>_.
     bind_res (require_aware after) (\<lambda>_.
     bind_res (find_zone zones (rc_timezone r)) (\<lambda>z.
     bind_res (datetime_in_zone z starts_at) (\<lambda>anchor.
     bind_res (instant_of after) (\<lambda>after_utc.
     bind_res (datetime_in_zone z after) (\<lambda>after_local.
     bind_res (search z (fst anchor) (rc_cadence r) after_utc
         (initial_index (rc_cadence r) (fst anchor) (fst after_local))) (\<lambda>u.
       (case rc_ends_at r of None \<Rightarrow> Inr (Some u)
        | Some e \<Rightarrow> bind_res (instant_of e) (\<lambda>end_utc.
            Inr (if end_utc \<le> u then None else Some u))))))))))"

section \<open>What the search returns\<close>

lemma ranged_eq_Inr [res_simps]: "ranged l = Inr m \<longleftrightarrow> m = l \<and> in_range l"
  by (auto simp: ranged_def)

lemma search_eq:
  "search z anchor c after i = bind_res (candidate z anchor c i)
     (\<lambda>u. if after < u then Inr u else search z anchor c after (Suc i))"
  by (subst search.simps) (simp add: candidate_def bind_res_def split: sum.splits)

lemma search_spec:
  "search z anchor c after i = Inr u \<Longrightarrow>
     \<exists>k \<ge> i. candidate z anchor c k = Inr u \<and> after < u \<and>
       (\<forall>j. i \<le> j \<and> j < k \<longrightarrow> (\<exists>w. candidate z anchor c j = Inr w \<and> w \<le> after))"
proof (induction z anchor c after i rule: search.induct)
  case (1 z anchor c after i)
  from "1.prems" obtain w where w: "candidate z anchor c i = Inr w"
    by (subst (asm) search_eq) (auto simp: res_simps)
  show ?case
  proof (cases "after < w")
    case True
    then show ?thesis using "1.prems" w by (subst (asm) search_eq) (auto intro!: exI [of _ i])
  next
    case False
    then have rest: "search z anchor c after (Suc i) = Inr u"
      using "1.prems" w by (subst (asm) search_eq) simp
    obtain v p where vp: "candidate_local anchor c i = Inr v" "resolve_local v z = Inr p" "to_utc z p = Inr w"
      using w unfolding candidate_def bind_res_eq_Inr by blast
    obtain k where k: "k \<ge> Suc i" "candidate z anchor c k = Inr u" "after < u"
      "\<forall>j. Suc i \<le> j \<and> j < k \<longrightarrow> (\<exists>w. candidate z anchor c j = Inr w \<and> w \<le> after)"
      using "1.IH" [OF vp False rest] by blast
    have "\<exists>w. candidate z anchor c j = Inr w \<and> w \<le> after" if "i \<le> j" "j < k" for j
      using that k(4) w False by (cases "j = i") auto
    then show ?thesis using k by (intro exI [of _ k]) auto
  qed
qed

section \<open>Zones\<close>

text \<open>
  What PEP 495 promises of a zone: the local reading and fold of an instant identify it.
\<close>

definition zone_ok :: "zone \<Rightarrow> bool" where
  "zone_ok z \<longleftrightarrow> (\<forall>u. fst (z_fromutc z u) - z_offset z (fst (z_fromutc z u)) (snd (z_fromutc z u)) = u)"

definition fixed_zone :: "int \<Rightarrow> zone" where
  "fixed_zone off = \<lparr>z_offset = (\<lambda>l f. off), z_fromutc = (\<lambda>u. (u + off, False))\<rparr>"

text \<open>
  A zone whose offset changes once, at instant \<open>t\<close>: local times are skipped when the offset
  grows and repeated, told apart by the fold, when it shrinks.
\<close>

definition transition_zone :: "instant \<Rightarrow> int \<Rightarrow> int \<Rightarrow> zone" where
  "transition_zone t before later = \<lparr>
     z_offset = (\<lambda>l f. if l < t + min before later then before
       else if t + max before later \<le> l then later else if f then later else before),
     z_fromutc = (\<lambda>u. if u < t then (u + before, False)
       else (u + later, u + later < t + before))\<rparr>"

locale pep495 =
  fixes z :: zone
  assumes to_from_utc: "fst (z_fromutc z u) - z_offset z (fst (z_fromutc z u)) (snd (z_fromutc z u)) = u"
begin

text \<open>The reading of a resolved instant: the wanted local time, or a later one in a gap.\<close>

lemma resolve_reading:
  assumes "resolve_local v z = Inr p" "to_utc z p = Inr u"
  shows "v \<le> fst (z_fromutc z u)"
    and "(\<exists>w. fst (z_fromutc z w) = v) \<Longrightarrow> fst (z_fromutc z u) = v"
proof -
  have ret: "to_utc z (z_fromutc z w) = Inr u \<Longrightarrow> u = w" for w
    using to_from_utc [of w] by (simp add: to_utc_def res_simps)
  have "v \<le> fst (z_fromutc z u) \<and> ((\<exists>w. fst (z_fromutc z w) = v) \<longrightarrow> fst (z_fromutc z u) = v)"
  proof (cases "fst (z_fromutc z (v - z_offset z v False)) = v \<or> fst (z_fromutc z (v - z_offset z v True)) = v")
    case True
    then show ?thesis
      using assms by (auto simp: resolve_local_def res_simps to_utc_def in_zone_def split: if_splits)
  next
    case False
    have "\<nexists>w. fst (z_fromutc z w) = v"
    proof
      assume "\<exists>w. fst (z_fromutc z w) = v"
      then obtain w where w: "fst (z_fromutc z w) = v" ..
      then have "w = v - z_offset z v (snd (z_fromutc z w))" using to_from_utc [of w] by simp
      then show False using False w by (cases "snd (z_fromutc z w)") auto
    qed
    moreover have "v < fst (z_fromutc z u)"
      using assms False
      by (auto simp: resolve_local_def res_simps in_zone_def earlier_def dest!: ret split: if_splits)
         (auto simp: to_utc_def res_simps)
    ultimately show ?thesis by simp
  qed
  then show "v \<le> fst (z_fromutc z u)"
    and "(\<exists>w. fst (z_fromutc z w) = v) \<Longrightarrow> fst (z_fromutc z u) = v" by blast+
qed

end

interpretation fixed_zone: pep495 "fixed_zone off" for off
  by unfold_locales (simp add: fixed_zone_def)

interpretation transition_zone: pep495 "transition_zone t before later" for t before later
  by unfold_locales (auto simp: transition_zone_def)

section \<open>The next occurrence\<close>

lemma next_cadence_search:
  assumes "next_cadence_at zones r starts_at after = Inr (Some u)"
  shows "\<exists>z anchor after_local. zones (rc_timezone r) = Some z \<and> datetime_in_zone z starts_at = Inr anchor
     \<and> datetime_in_zone z after = Inr after_local
     \<and> search z (fst anchor) (rc_cadence r) (utc_of after)
         (initial_index (rc_cadence r) (fst anchor) (fst after_local)) = Inr u"
    and "rc_ends_at r = Some e \<Longrightarrow> u < utc_of e"
  using assms
  by (auto simp: next_cadence_at_def res_simps find_zone_def of_option_def instant_of_def
      split: option.splits if_splits)

lemma candidate_reading:
  assumes "zone_ok z" "candidate z anchor c k = Inr u"
  shows "\<exists>v. candidate_local anchor c k = Inr v \<and> v \<le> fst (z_fromutc z u)
     \<and> ((\<exists>w. fst (z_fromutc z w) = v) \<longrightarrow> fst (z_fromutc z u) = v)"
proof -
  have ok: "pep495 z" using assms(1) by unfold_locales (simp add: zone_ok_def)
  obtain v p where "candidate_local anchor c k = Inr v" "resolve_local v z = Inr p" "to_utc z p = Inr u"
    using assms(2) unfolding candidate_def bind_res_eq_Inr by blast
  then show ?thesis using pep495.resolve_reading [OF ok] by blast
qed

lemma initial_index_pos: "1 \<le> initial_index c anchor after"
  by (cases c) (auto simp: initial_index_def Let_def split: prod.splits)

section \<open>Fixed offsets: the first cadence point\<close>

lemma resolve_fixed:
  "resolve_local v (fixed_zone off) = Inr p \<Longrightarrow> p = (v, False)"
  by (auto simp: resolve_local_def res_simps to_utc_def in_zone_def fixed_zone_def)

lemma candidate_fixed:
  "candidate (fixed_zone off) anchor c k = Inr u \<Longrightarrow> candidate_local anchor c k = Inr (u + off)"
  by (auto simp: candidate_def res_simps to_utc_def dest!: resolve_fixed)
     (simp add: fixed_zone_def)

lemma ymd_days_month_less:
  assumes "y * 12 + m < y' * 12 + m'" "valid_ymd y m d" "valid_ymd y' m' d'"
  shows "ymd_days y m d < ymd_days y' m' d'"
proof (cases "y = y'")
  case True
  then have lt: "m + 1 \<le> m'" using assms(1) by simp
  have "days_before_month y (m + 1) \<le> days_before_month y m'"
    using lt assms by (intro days_before_month_mono) (auto simp: valid_ymd_def)
  then show ?thesis
    using True assms(2,3) days_before_month_next [of m y] by (auto simp: ymd_days_def valid_ymd_def)
next
  case False
  then have "y + 1 \<le> y'" using assms by (auto simp: valid_ymd_def)
  then have "days_before_year (y + 1) \<le> days_before_year y'" by (rule days_before_year_mono)
  moreover have "ymd_days y m d < days_before_year (y + 1)"
    using days_before_month_bound(2) [OF assms(2)] by (simp add: ymd_days_def year_length)
  moreover have "days_before_year y' \<le> ymd_days y' m' d'"
    using days_before_month_bound(1) [OF assms(3)] by (simp add: ymd_days_def)
  ultimately show ?thesis by simp
qed

lemma monthly_day_valid: "monthly_day anchor i = (y, m, d) \<Longrightarrow> valid_ymd y m d"
proof -
  assume m: "monthly_day anchor i = (y, m, d)"
  obtain y0 m0 d0 where a: "days_ymd (anchor div us_day) = (y0, m0, d0)" by (cases "days_ymd (anchor div us_day)") auto
  have "1 \<le> d0" using ymd_days_days_ymd(2) [OF a] by (simp add: valid_ymd_def)
  then show ?thesis
    using m days_in_month_pos [of y m] by (auto simp: monthly_day_def a Let_def valid_ymd_def)
qed

text \<open>Candidates before the initial index lie on an earlier local day than \<open>after\<close>.\<close>

lemma skipped_candidates:
  assumes "1 \<le> j" "j < initial_index c anchor after" "candidate_local anchor c j = Inr v"
  shows "v < after"
proof -
  have earlier_day: "v div us_day < after div us_day \<Longrightarrow> v < after"
    using zdiv_mono1 [of after v us_day] by fastforce
  show ?thesis
  proof (cases c)
    case DAILY
    then have "v div us_day < after div us_day"
      using assms by (auto simp: candidate_local_def res_simps initial_index_def)
    then show ?thesis by (rule earlier_day)
  next
    case WEEKLY
    have "(anchor + int j * (7 * us_day)) div us_day = anchor div us_day + int j * 7"
      using div_mult_self1 [of us_day anchor "int j * 7"] by (simp add: algebra_simps)
    then have "v div us_day < after div us_day"
      using assms WEEKLY by (auto simp: candidate_local_def res_simps initial_index_def Let_def)
    then show ?thesis by (rule earlier_day)
  next
    case MONTHLY
    obtain y0 m0 d0 where a: "days_ymd (anchor div us_day) = (y0, m0, d0)" by (cases "days_ymd (anchor div us_day)") auto
    obtain y1 m1 d1 where b: "days_ymd (after div us_day) = (y1, m1, d1)" by (cases "days_ymd (after div us_day)") auto
    obtain y m d where c: "monthly_day anchor j = (y, m, d)" by (cases "monthly_day anchor j") auto
    have "y * 12 + m = y0 * 12 + m0 + int j"
      using c by (auto simp: monthly_day_def a Let_def)
    moreover have "int j < (y1 - y0) * 12 + m1 - m0"
      using assms(1,2) MONTHLY by (auto simp: initial_index_def a b Let_def)
    ultimately have "ymd_days y m d < ymd_days y1 m1 d1"
      using monthly_day_valid [OF c] ymd_days_days_ymd(2) [OF b] by (intro ymd_days_month_less) auto
    moreover have "v = ymd_days y m d * us_day + anchor mod us_day"
      using assms(3) MONTHLY c by (auto simp: candidate_local_def split: if_splits)
    ultimately have "v div us_day < after div us_day" by (simp add: ymd_days_days_ymd(1) [OF b])
    then show ?thesis by (rule earlier_day)
  qed
qed

text \<open>
  C38. The next occurrence of a series is strictly later than the completion it follows and
  lies before the end of the series, in every time zone.
\<close>

theorem next_cadence_bounds:
  assumes "next_cadence_at zones r starts_at after = Inr (Some u)"
  shows "utc_of after < u \<and> (\<forall>e. rc_ends_at r = Some e \<longrightarrow> u < utc_of e)"
  using next_cadence_search [OF assms] search_spec by blast

text \<open>
  C36. Wall-clock time is kept across offset changes: in a zone that satisfies PEP 495 the
  next occurrence reads, in that zone, as the anchor's time moved by a whole number of
  cadence steps, and only when that local time does not exist as a later one.
\<close>

theorem next_cadence_wall_clock:
  assumes "next_cadence_at zones r starts_at after = Inr (Some u)"
    and "zones (rc_timezone r) = Some z" "zone_ok z"
  shows "\<exists>anchor k v. datetime_in_zone z starts_at = Inr anchor \<and> 1 \<le> k
     \<and> candidate_local (fst anchor) (rc_cadence r) k = Inr v \<and> v \<le> fst (z_fromutc z u)
     \<and> ((\<exists>w. fst (z_fromutc z w) = v) \<longrightarrow> fst (z_fromutc z u) = v)"
proof -
  obtain anchor la where a: "datetime_in_zone z starts_at = Inr anchor"
    and s: "search z (fst anchor) (rc_cadence r) (utc_of after)
         (initial_index (rc_cadence r) (fst anchor) (fst la)) = Inr u"
    using next_cadence_search(1) [OF assms(1)] assms(2) by auto
  obtain k where k: "initial_index (rc_cadence r) (fst anchor) (fst la) \<le> k"
    "candidate z (fst anchor) (rc_cadence r) k = Inr u"
    using search_spec [OF s] by blast
  then have "1 \<le> k" using initial_index_pos le_trans by blast
  then show ?thesis using a candidate_reading [OF assms(3) k(2)] by blast
qed

text \<open>
  C37. At a fixed offset (UTC is the default zone) the next occurrence is the first cadence point
  after the completion: it is later than the completion, and every earlier point of the series is not.
\<close>

theorem next_cadence_first:
  assumes "next_cadence_at zones r starts_at after = Inr (Some u)"
    and "zones (rc_timezone r) = Some (fixed_zone off)"
  shows "utc_of after < u \<and> (\<exists>k \<ge> 1. candidate (fixed_zone off) (utc_of starts_at + off) (rc_cadence r) k = Inr u \<and>
     (\<forall>j w. 1 \<le> j \<and> j < k \<and> candidate (fixed_zone off) (utc_of starts_at + off) (rc_cadence r) j = Inr w
        \<longrightarrow> w \<le> utc_of after))"
proof -
  let ?z = "fixed_zone off" and ?a = "utc_of starts_at + off" and ?c = "rc_cadence r"
  have s: "search ?z ?a ?c (utc_of after) (initial_index ?c ?a (utc_of after + off)) = Inr u"
    using next_cadence_search(1) [OF assms(1)] assms(2)
    by (auto simp: datetime_in_zone_def in_zone_def instant_of_def res_simps) (simp add: fixed_zone_def)
  let ?i = "initial_index ?c ?a (utc_of after + off)"
  obtain k where k: "?i \<le> k" "candidate ?z ?a ?c k = Inr u"
    "\<forall>j. ?i \<le> j \<and> j < k \<longrightarrow> (\<exists>w. candidate ?z ?a ?c j = Inr w \<and> w \<le> utc_of after)" "utc_of after < u"
    using search_spec [OF s] by blast
  have "w \<le> utc_of after" if "1 \<le> j" "j < k" "candidate ?z ?a ?c j = Inr w" for j w
  proof (cases "?i \<le> j")
    case True
    then show ?thesis using that k(3) by force
  next
    case False
    then show ?thesis
      using skipped_candidates [OF that(1) _ candidate_fixed [OF that(3)], of "utc_of after + off"] by simp
  qed
  moreover have "1 \<le> k" using k(1) initial_index_pos le_trans by blast
  ultimately show ?thesis using k(2,4) by blast
qed

text \<open>A daily series at 02:30 in a zone whose clocks go forward by an hour at 02:00 on the second day.\<close>

definition spring_zone :: zone where
  "spring_zone = transition_zone 63847443600000000 3600000000 7200000000"

definition sample_zones :: zones where
  "sample_zones name = (if name = ''UTC'' then Some (fixed_zone 0)
     else if name = ''Europe/Paris'' then Some spring_zone else None)"

definition daily_in :: "string \<Rightarrow> recurrence" where
  "daily_in name = \<lparr>rc_cadence = DAILY, rc_timezone = name, rc_ends_at = Some (at_utc 63849951000000000)\<rparr>"

lemma sample_next:
  "next_cadence_at sample_zones (daily_in ''UTC'') (at_utc 63847359000000000) (at_utc 63847359000000005) = Inr (Some 63847445400000000)"
  "next_cadence_at sample_zones (daily_in ''Europe/Paris'') (at_utc 63847359000000000) (at_utc 63847359000000005) = Inr (Some 63847445400000000)"
  by code_simp+

lemma sample_zones_spring: "sample_zones ''Europe/Paris'' = Some spring_zone"
  by (simp add: sample_zones_def)

lemma spring_zone_ok: "zone_ok spring_zone"
  unfolding zone_ok_def spring_zone_def using transition_zone.to_from_utc by blast

theorem next_cadence_bounds_witness:
  "utc_of (at_utc 63847359000000005) < 63847445400000000"
  using next_cadence_bounds [OF sample_next(2)] by blast

theorem next_cadence_wall_clock_witness:
  "\<exists>anchor k v. datetime_in_zone spring_zone (at_utc 63847359000000000) = Inr anchor \<and> 1 \<le> k
     \<and> candidate_local (fst anchor) DAILY k = Inr v \<and> v \<le> fst (z_fromutc spring_zone 63847445400000000)"
  using next_cadence_wall_clock [OF sample_next(2) _ spring_zone_ok]
  by (simp add: sample_zones_spring daily_in_def) blast

theorem next_cadence_first_witness:
  "utc_of (at_utc 63847359000000005) < 63847445400000000
    \<and> (\<exists>k \<ge> 1. candidate (fixed_zone 0) 63847359000000000 DAILY k = Inr 63847445400000000)"
  using next_cadence_first [OF sample_next(1), of 0]
  by (simp add: sample_zones_def daily_in_def) blast

end
