(* ===== verification/Durable.thy ===== *)
theory Durable
  imports Envelope Recurrence
begin

text \<open>
  delivery.py and the data of durable.py: delivery outcomes, the durable job record with its
  drafts, claims, admissions and settlements, the envelope a claim is delivered in and the
  identity a delivery carries in its headers. Timestamps are UTC instants: Django returns
  aware UTC datetimes.
\<close>

section \<open>Delivery outcomes\<close>

datatype delivery_status = STARTED | SUCCEEDED | CONTINUED | RETRY_SCHEDULED | DEAD_LETTERED

fun status_value :: "delivery_status \<Rightarrow> string" where
  "status_value STARTED = ''started''"
| "status_value SUCCEEDED = ''succeeded''"
| "status_value CONTINUED = ''continued''"
| "status_value RETRY_SCHEDULED = ''retry_scheduled''"
| "status_value DEAD_LETTERED = ''dead_lettered''"

record outcome =
  o_status :: delivery_status
  o_message_id :: pyval
  o_message_type :: pyval
  o_version :: pyval
  o_source :: string
  o_destination :: "string option"
  o_retry_count :: int
  o_max_retries :: int
  o_record_id :: "string option"
  o_generation :: "int option"

section \<open>Durable jobs\<close>

datatype job_state = PENDING | CLAIMED | PUBLISHED | RUNNING | SETTLING | INDETERMINATE
  | J_SUCCEEDED | J_DEAD_LETTERED | CANCELLED

datatype decision = PROCEED | DROP | ABORT

record draft =
  d_message_id :: string
  d_message_type :: string
  d_version :: int
  d_payload :: pyval
  d_headers :: "(string, pyval) dict"
  d_created_at :: instant
  d_available_at :: instant
  d_queue :: string
  d_fingerprint :: string
  d_idempotency_key :: "string option"

record job_record =
  r_id :: string
  r_message_id :: string
  r_message_type :: string
  r_version :: int
  r_payload :: pyval
  r_headers :: "(string, pyval) dict"
  r_created_at :: instant
  r_available_at :: instant
  r_queue :: string
  r_fingerprint :: string
  r_idempotency_key :: "string option"
  r_state :: job_state
  r_generation :: int
  r_retry_count :: int
  r_lease_owner :: "string option"
  r_lease_expires_at :: "instant option"
  r_reconciliation_due_at :: "instant option"
  r_max_retries :: "int option"
  r_settlement_status :: "string option"
  r_settlement_source :: "string option"
  r_settlement_destination :: "string option"
  r_last_attempt_at :: "instant option"
  r_started_at :: "instant option"
  r_finished_at :: "instant option"
  r_series_id :: "string option"
  r_occurrence_number :: "nat option"

definition from_draft :: "string \<Rightarrow> draft \<Rightarrow> job_record" where
  "from_draft fresh d = \<lparr>r_id = fresh, r_message_id = d_message_id d, r_message_type = d_message_type d,
     r_version = d_version d, r_payload = d_payload d, r_headers = d_headers d,
     r_created_at = d_created_at d, r_available_at = d_available_at d, r_queue = d_queue d,
     r_fingerprint = d_fingerprint d, r_idempotency_key = d_idempotency_key d,
     r_state = PENDING, r_generation = 0, r_retry_count = 0, r_lease_owner = None,
     r_lease_expires_at = None, r_reconciliation_due_at = None, r_max_retries = None,
     r_settlement_status = None, r_settlement_source = None, r_settlement_destination = None,
     r_last_attempt_at = None, r_started_at = None, r_finished_at = None,
     r_series_id = None, r_occurrence_number = None\<rparr>"

record claim =
  c_id :: string
  c_message_id :: string
  c_message_type :: string
  c_version :: int
  c_payload :: pyval
  c_headers :: "(string, pyval) dict"
  c_created_at :: instant
  c_queue :: string
  c_generation :: int
  c_retry_count :: int
  c_settlement_status :: "string option"
  c_settlement_source :: "string option"
  c_last_attempt_at :: "instant option"

definition claim_from_record :: "job_record \<Rightarrow> claim" where
  "claim_from_record r = \<lparr>c_id = r_id r, c_message_id = r_message_id r, c_message_type = r_message_type r,
     c_version = r_version r, c_payload = r_payload r, c_headers = r_headers r,
     c_created_at = r_created_at r, c_queue = r_queue r, c_generation = r_generation r,
     c_retry_count = r_retry_count r, c_settlement_status = r_settlement_status r,
     c_settlement_source = r_settlement_source r, c_last_attempt_at = r_last_attempt_at r\<rparr>"

definition DURABLE_RECORD_HEADER :: string where "DURABLE_RECORD_HEADER = ''pybus_durable_record''"
definition DURABLE_GENERATION_HEADER :: string where "DURABLE_GENERATION_HEADER = ''pybus_durable_generation''"

definition opt_str :: "string option \<Rightarrow> pyval" where
  "opt_str s = (case s of None \<Rightarrow> PNone | Some t \<Rightarrow> PStr t)"

definition delivery_headers :: "claim \<Rightarrow> (string, pyval) dict" where
  "delivery_headers c =
     (let h0 = c_headers c;
          h1 = (if c_retry_count c \<noteq> 0 then AList.update ''retries'' (PInt (c_retry_count c)) h0 else h0);
          h2 = (case c_last_attempt_at c of None \<Rightarrow> h1
            | Some t \<Rightarrow> AList.update ''last_attempt'' (PStr (isoformat (at_utc t))) h1);
          h3 = (if c_settlement_status c = Some (status_value DEAD_LETTERED)
            then AList.update ''dead_lettered_from'' (opt_str (c_settlement_source c)) h2 else h2)
      in AList.update DURABLE_GENERATION_HEADER (PInt (c_generation c))
           (AList.update DURABLE_RECORD_HEADER (PStr (c_id c)) h3))"

definition delivery_envelope :: "string \<Rightarrow> instant \<Rightarrow> claim \<Rightarrow> message_envelope" where
  "delivery_envelope fresh now c = create fresh now
     \<lparr>message_id = PStr (c_message_id c), message_type = PStr (c_message_type c),
      message_kind = PStr ''command'', version = PInt (c_version c), payload = c_payload c,
      headers = PDict (delivery_headers c), created_at = PDateTime (at_utc (c_created_at c)),
      correlation_id = PNone, causation_id = PNone, reply_to = PNone, expires_at = PNone,
      content_type = PNone, content_encoding = PNone\<rparr>"

record handle =
  h_id :: string
  h_message_id :: string
  h_state :: job_state
  h_created_at :: instant
  h_series_id :: "string option"
  h_occurrence_number :: "nat option"

definition handle_from_record :: "job_record \<Rightarrow> handle" where
  "handle_from_record r = \<lparr>h_id = r_id r, h_message_id = r_message_id r, h_state = r_state r,
     h_created_at = r_created_at r, h_series_id = r_series_id r, h_occurrence_number = r_occurrence_number r\<rparr>"

record admission =
  a_record_id :: string
  a_generation :: int
  a_source_queue :: string
  a_retry_count :: int
  a_max_retries :: int
  a_message_id :: pyval
  a_message_type :: pyval
  a_version :: pyval
  a_payload :: pyval
  a_headers :: "(string, pyval) dict"
  a_last_attempt_at :: "instant option"
  a_admitted_at :: "instant option"
  a_reconciliation_due_at :: "instant option"

record settlement =
  s_record_id :: string
  s_generation :: int
  s_status :: delivery_status
  s_source :: string
  s_destination :: "string option"
  s_retry_count :: int
  s_max_retries :: int
  s_reconciliation_due_at :: instant
  s_last_attempt_at :: "instant option"

record policy =
  lease_duration :: int
  reconciliation_delay :: int

definition new_policy :: "int \<Rightarrow> int \<Rightarrow> policy res" where
  "new_policy lease delay =
     (if lease \<le> 0 then Inl ValueError
      else if delay \<le> 0 then Inl ValueError
      else Inr \<lparr>lease_duration = lease, reconciliation_delay = delay\<rparr>)"

section \<open>Series\<close>

record series_draft =
  sd_first :: draft
  sd_recurrence :: recurrence
  sd_starts_at :: datetime
  sd_fingerprint :: string
  sd_idempotency_key :: "string option"

record series_record =
  sr_id :: string
  sr_state :: series_state
  sr_cadence :: cadence
  sr_timezone :: string
  sr_starts_at :: instant
  sr_ends_at :: "instant option"
  sr_fingerprint :: string
  sr_idempotency_key :: "string option"
  sr_latest_occurrence_number :: nat
  sr_latest_occurrence_id :: string
  sr_latest_message_id :: string
  sr_latest_run_at :: instant
  sr_created_at :: instant
  sr_finished_at :: "instant option"

record series_handle =
  sh_id :: string
  sh_state :: series_state
  sh_occurrence_id :: string
  sh_message_id :: string
  sh_occurrence_number :: nat
  sh_run_at :: instant
  sh_created_at :: instant

definition series_handle_from_record :: "series_record \<Rightarrow> series_handle" where
  "series_handle_from_record r = \<lparr>sh_id = sr_id r, sh_state = sr_state r,
     sh_occurrence_id = sr_latest_occurrence_id r, sh_message_id = sr_latest_message_id r,
     sh_occurrence_number = sr_latest_occurrence_number r, sh_run_at = sr_latest_run_at r,
     sh_created_at = sr_created_at r\<rparr>"

section \<open>The identity of a delivery\<close>

definition env_headers :: "message_envelope \<Rightarrow> (string, pyval) dict" where
  "env_headers e = (case headers e of PDict d \<Rightarrow> d | _ \<Rightarrow> [])"

definition identity :: "message_envelope \<Rightarrow> (string \<times> int) option res" where
  "identity e =
     (let record_id = py_get (env_headers e) DURABLE_RECORD_HEADER;
          generation = py_get (env_headers e) DURABLE_GENERATION_HEADER in
      if record_id = PNone \<and> generation = PNone then Inr None
      else (case (record_id, generation) of
          (PStr s, PInt g) \<Rightarrow> if s \<noteq> [] \<and> 1 \<le> g then Inr (Some (s, g)) else Inl ValueError
        | _ \<Rightarrow> Inl ValueError))"

definition internal_headers :: "string list" where
  "internal_headers = [DURABLE_RECORD_HEADER, DURABLE_GENERATION_HEADER, ''dead_lettered_from'',
     ''last_attempt'', ''retries'']"

definition application_headers :: "message_envelope \<Rightarrow> (string, pyval) dict" where
  "application_headers e = filter (\<lambda>(k, v). k \<notin> set internal_headers) (env_headers e)"

text \<open>A claim's envelope identifies the claimed record and generation.\<close>

lemma delivery_env_headers [simp]: "env_headers (delivery_envelope fresh now c) = delivery_headers c"
  by (simp add: env_headers_def delivery_envelope_def create_def or_val_def delivery_headers_def Let_def)

lemma identity_delivery_envelope:
  assumes "c_id c \<noteq> []" "1 \<le> c_generation c"
  shows "identity (delivery_envelope fresh now c) = Inr (Some (c_id c, c_generation c))"
  using assms
  by (simp add: identity_def delivery_headers_def Let_def DURABLE_RECORD_HEADER_def DURABLE_GENERATION_HEADER_def)

lemma filter_dict_update_drop:
  "\<not> P k \<Longrightarrow> filter (\<lambda>(k, v). P k) (AList.update k v d) = filter (\<lambda>(k, v). P k) d"
  by (induction d) auto

lemma application_headers_delivery:
  assumes "\<And>k v. (k, v) \<in> set (c_headers c) \<Longrightarrow> k \<notin> set internal_headers"
  shows "application_headers (delivery_envelope fresh now c) = c_headers c"
proof -
  have drop: "filter (\<lambda>(k, v). k \<notin> set internal_headers) (AList.update k v d)
      = filter (\<lambda>(k, v). k \<notin> set internal_headers) d" if "k \<in> set internal_headers" for k v d
    using that by (intro filter_dict_update_drop) simp
  have "filter (\<lambda>(k, v). k \<notin> set internal_headers) (c_headers c) = c_headers c"
    using assms by (auto simp: filter_id_conv)
  moreover have "DURABLE_RECORD_HEADER \<in> set internal_headers" "DURABLE_GENERATION_HEADER \<in> set internal_headers"
    "''dead_lettered_from'' \<in> set internal_headers" "''last_attempt'' \<in> set internal_headers"
    "''retries'' \<in> set internal_headers" by (simp_all add: internal_headers_def)
  ultimately show ?thesis
    unfolding application_headers_def delivery_env_headers delivery_headers_def Let_def
    by (simp add: drop split: option.splits)
qed

end
