(* ===== verification/JobStore.thy ===== *)
theory JobStore
  imports Durable "HOL-Library.Product_Lexorder"
begin

text \<open>
  integrations/django_durable: the two tables of models.py and the operations of
  \<open>DjangoDurableJobStore\<close> (store.py). A table is the list of its rows; an operation either
  returns a value and the new database or raises and leaves the database as it was, which is
  what the \<open>transaction.atomic\<close> blocks give. Rows are read and written under row locks inside
  one transaction, so an operation is one atomic step; the reads some operations make before
  their transaction fetch only \<open>series_id\<close>, which no operation changes. Column widths and
  \<open>updated_at\<close> are left out, and JSON columns hold the value given. \<open>fresh\<close> arguments are the
  \<open>uuid4\<close> draws, \<open>now\<close> the clock.
\<close>

section \<open>Tables\<close>

record series_row =
  q_id :: nat
  q_message_type :: string
  q_version :: int
  q_payload :: pyval
  q_headers :: "(string, pyval) dict"
  q_queue :: string
  q_cadence :: cadence
  q_timezone :: string
  q_starts_at :: instant
  q_anchor_local :: string
  q_ends_at :: "instant option"
  q_fingerprint :: string
  q_idempotency_key :: "string option"
  q_state :: series_state
  q_latest :: nat
  q_created_at :: instant
  q_finished_at :: "instant option"

record job_row =
  j_id :: nat
  j_message_id :: string
  j_message_type :: string
  j_version :: int
  j_payload :: pyval
  j_headers :: "(string, pyval) dict"
  j_created_at :: instant
  j_available_at :: instant
  j_queue :: string
  j_fingerprint :: string
  j_idempotency_key :: "string option"
  j_series :: "nat option"
  j_occurrence :: "nat option"
  j_state :: job_state
  j_generation :: int
  j_retry_count :: int
  j_max_retries :: "int option"
  j_lease_owner :: "string option"
  j_lease_expires_at :: "instant option"
  j_reconciliation_due_at :: "instant option"
  j_indeterminate_reason :: "string option"
  j_settlement_status :: "string option"
  j_settlement_source :: "string option"
  j_settlement_destination :: "string option"
  j_last_attempt_at :: "instant option"
  j_started_at :: "instant option"
  j_finished_at :: "instant option"

record db =
  jobs :: "job_row list"
  series :: "series_row list"

text \<open>The states of the partial unique index: an occurrence that is not finished.\<close>

definition live :: "job_state \<Rightarrow> bool" where
  "live s \<longleftrightarrow> s \<in> {PENDING, CLAIMED, PUBLISHED, RUNNING, SETTLING, INDETERMINATE}"

text \<open>
  The unique constraints of \<open>DurableJob\<close>: primary key, \<open>message_id\<close>, \<open>idempotency_key\<close>,
  occurrence number within a series, and one unfinished occurrence per series.
\<close>

definition rows_clash :: "job_row \<Rightarrow> job_row \<Rightarrow> bool" where
  "rows_clash r j \<longleftrightarrow> j_id r = j_id j \<or> j_message_id r = j_message_id j
     \<or> (j_idempotency_key j \<noteq> None \<and> j_idempotency_key r = j_idempotency_key j)
     \<or> (j_series j \<noteq> None \<and> j_series r = j_series j
         \<and> (j_occurrence j \<noteq> None \<and> j_occurrence r = j_occurrence j \<or> live (j_state r) \<and> live (j_state j)))"

definition series_clash :: "series_row \<Rightarrow> series_row \<Rightarrow> bool" where
  "series_clash r q \<longleftrightarrow> q_id r = q_id q
     \<or> (q_idempotency_key q \<noteq> None \<and> q_idempotency_key r = q_idempotency_key q)"

definition insert_job :: "job_row \<Rightarrow> db \<Rightarrow> db res" where
  "insert_job j db = (if \<exists>r \<in> set (jobs db). rows_clash r j then Inl IntegrityError
     else Inr (db\<lparr>jobs := jobs db @ [j]\<rparr>))"

definition insert_series :: "series_row \<Rightarrow> db \<Rightarrow> db res" where
  "insert_series q db = (if \<exists>r \<in> set (series db). series_clash r q then Inl IntegrityError
     else Inr (db\<lparr>series := series db @ [q]\<rparr>))"

section \<open>Queries\<close>

definition find_job :: "(job_row \<Rightarrow> bool) \<Rightarrow> db \<Rightarrow> job_row option" where
  "find_job P db = find P (jobs db)"

definition find_series :: "nat \<Rightarrow> db \<Rightarrow> series_row option" where
  "find_series i db = find (\<lambda>q. q_id q = i) (series db)"

text \<open>\<open>save(update_fields=...)\<close> of a row read in the same transaction, and \<open>filter().update()\<close>.\<close>

definition save_job :: "job_row \<Rightarrow> db \<Rightarrow> db" where
  "save_job j db = db\<lparr>jobs := map (\<lambda>r. if j_id r = j_id j then j else r) (jobs db)\<rparr>"

definition save_series :: "series_row \<Rightarrow> db \<Rightarrow> db" where
  "save_series q db = db\<lparr>series := map (\<lambda>r. if q_id r = q_id q then q else r) (series db)\<rparr>"

definition update_jobs :: "(job_row \<Rightarrow> bool) \<Rightarrow> (job_row \<Rightarrow> job_row) \<Rightarrow> db \<Rightarrow> db" where
  "update_jobs P f db = db\<lparr>jobs := map (\<lambda>r. if P r then f r else r) (jobs db)\<rparr>"

definition count_jobs :: "(job_row \<Rightarrow> bool) \<Rightarrow> db \<Rightarrow> nat" where
  "count_jobs P db = length (filter P (jobs db))"

definition first_job :: "(job_row \<Rightarrow> bool) \<Rightarrow> db \<Rightarrow> job_row option" where
  "first_job P db = (case sort_key (\<lambda>j. (j_created_at j, j_id j)) (filter P (jobs db)) of
     [] \<Rightarrow> None | j # _ \<Rightarrow> Some j)"

definition series_state_of :: "db \<Rightarrow> job_row \<Rightarrow> series_state option" where
  "series_state_of db j = (case j_series j of None \<Rightarrow> None
     | Some i \<Rightarrow> map_option q_state (find_series i db))"

text \<open>A UUID column compared with text: text that is no UUID is a \<open>ValidationError\<close>.\<close>

definition uuid_arg :: "string \<Rightarrow> nat res" where
  "uuid_arg s = of_option ValidationError (uuid_parse s)"

text \<open>A text column compared with a value, which Django turns into text first.\<close>

fun field_eq :: "string \<Rightarrow> pyval \<Rightarrow> bool" where
  "field_eq s (PStr t) = (s = t)"
| "field_eq s (PInt i) = (s = int_str i)"
| "field_eq s v = False"

section \<open>Records\<close>

definition record_of :: "job_row \<Rightarrow> job_record" where
  "record_of m = \<lparr>r_id = uuid_str (j_id m), r_message_id = j_message_id m, r_message_type = j_message_type m,
     r_version = j_version m, r_payload = j_payload m, r_headers = j_headers m,
     r_created_at = j_created_at m, r_available_at = j_available_at m, r_queue = j_queue m,
     r_fingerprint = j_fingerprint m, r_idempotency_key = j_idempotency_key m,
     r_state = j_state m, r_generation = j_generation m, r_retry_count = j_retry_count m,
     r_lease_owner = j_lease_owner m, r_lease_expires_at = j_lease_expires_at m,
     r_reconciliation_due_at = j_reconciliation_due_at m, r_max_retries = j_max_retries m,
     r_settlement_status = j_settlement_status m, r_settlement_source = j_settlement_source m,
     r_settlement_destination = j_settlement_destination m, r_last_attempt_at = j_last_attempt_at m,
     r_started_at = j_started_at m, r_finished_at = j_finished_at m,
     r_series_id = map_option uuid_str (j_series m), r_occurrence_number = j_occurrence m\<rparr>"

definition series_record_of :: "series_row \<Rightarrow> job_row \<Rightarrow> series_record" where
  "series_record_of q occ = \<lparr>sr_id = uuid_str (q_id q), sr_state = q_state q, sr_cadence = q_cadence q,
     sr_timezone = q_timezone q, sr_starts_at = q_starts_at q, sr_ends_at = q_ends_at q,
     sr_fingerprint = q_fingerprint q, sr_idempotency_key = q_idempotency_key q,
     sr_latest_occurrence_number = q_latest q, sr_latest_occurrence_id = uuid_str (j_id occ),
     sr_latest_message_id = j_message_id occ, sr_latest_run_at = j_available_at occ,
     sr_created_at = q_created_at q, sr_finished_at = q_finished_at q\<rparr>"

definition recurrence_of :: "zones \<Rightarrow> series_row \<Rightarrow> recurrence res" where
  "recurrence_of zones q =
     new_recurrence zones (q_cadence q) (q_timezone q) (map_option at_utc (q_ends_at q))"

text \<open>The row \<open>objects.create\<close> inserts for a draft, with the columns' defaults.\<close>

definition new_job :: "nat \<Rightarrow> draft \<Rightarrow> nat option \<Rightarrow> nat option \<Rightarrow> job_row" where
  "new_job fresh d s n = \<lparr>j_id = fresh, j_message_id = d_message_id d, j_message_type = d_message_type d,
     j_version = d_version d, j_payload = d_payload d, j_headers = d_headers d,
     j_created_at = d_created_at d, j_available_at = d_available_at d, j_queue = d_queue d,
     j_fingerprint = d_fingerprint d, j_idempotency_key = d_idempotency_key d,
     j_series = s, j_occurrence = n, j_state = PENDING, j_generation = 0, j_retry_count = 0,
     j_max_retries = None, j_lease_owner = None, j_lease_expires_at = None,
     j_reconciliation_due_at = None, j_indeterminate_reason = None, j_settlement_status = None,
     j_settlement_source = None, j_settlement_destination = None, j_last_attempt_at = None,
     j_started_at = None, j_finished_at = None\<rparr>"

section \<open>Scheduling\<close>

definition schedule :: "nat \<Rightarrow> draft \<Rightarrow> db \<Rightarrow> (job_record \<times> db) res" where
  "schedule fresh draft db = (let j = new_job fresh draft None None in
     case insert_job j db of
       Inr db' \<Rightarrow> Inr (record_of j, db')
     | Inl e \<Rightarrow>
        (case d_idempotency_key draft of
           None \<Rightarrow> Inl e
         | Some key \<Rightarrow>
            (case find_job (\<lambda>r. j_idempotency_key r = Some key) db of
               None \<Rightarrow> Inl DoesNotExist
             | Some model \<Rightarrow>
                 if j_fingerprint model \<noteq> d_fingerprint draft then Inl DurableJobConflictError
                 else Inr (record_of model, db))))"

definition new_series :: "nat \<Rightarrow> zone \<Rightarrow> series_draft \<Rightarrow> series_row res" where
  "new_series fresh z draft =
     bind_res (datetime_in_zone z (sd_starts_at draft)) (\<lambda>anchor.
     (let d = sd_first draft; r = sd_recurrence draft in
     Inr \<lparr>q_id = fresh, q_message_type = d_message_type d, q_version = d_version d,
       q_payload = d_payload d, q_headers = d_headers d, q_queue = d_queue d,
       q_cadence = rc_cadence r, q_timezone = rc_timezone r,
       q_starts_at = utc_of (sd_starts_at draft),
       q_anchor_local = isoformat \<lparr>dt_local = fst anchor, dt_offset = None\<rparr>,
       q_ends_at = map_option utc_of (rc_ends_at r), q_fingerprint = sd_fingerprint draft,
       q_idempotency_key = sd_idempotency_key draft, q_state = S_ACTIVE, q_latest = 1,
       q_created_at = d_created_at d, q_finished_at = None\<rparr>))"

definition schedule_recurring ::
    "zones \<Rightarrow> nat \<Rightarrow> nat \<Rightarrow> series_draft \<Rightarrow> db \<Rightarrow> ((series_record \<times> job_record) \<times> db) res" where
  "schedule_recurring zones fresh_series fresh_job draft db =
     bind_res (of_option (KeyError (rc_timezone (sd_recurrence draft))) (zones (rc_timezone (sd_recurrence draft)))) (\<lambda>z.
     bind_res (new_series fresh_series z draft) (\<lambda>q.
     (let occ = new_job fresh_job (sd_first draft) (Some fresh_series) (Some 1) in
      case bind_res (insert_series q db) (insert_job occ) of
        Inr db' \<Rightarrow> Inr ((series_record_of q occ, record_of occ), db')
      | Inl e \<Rightarrow>
         (case sd_idempotency_key draft of
            None \<Rightarrow> Inl e
          | Some key \<Rightarrow>
             (case find (\<lambda>s. q_idempotency_key s = Some key) (series db) of
                None \<Rightarrow> Inl DurableJobConflictError
              | Some s \<Rightarrow>
                  if q_fingerprint s \<noteq> sd_fingerprint draft then Inl DurableJobConflictError
                  else (case find_job (\<lambda>r. j_series r = Some (q_id s) \<and> j_occurrence r = Some (q_latest s)) db of
                      None \<Rightarrow> Inl DoesNotExist
                    | Some o' \<Rightarrow> Inr ((series_record_of s o', record_of o'), db)))))))"

definition cancel_job :: "instant \<Rightarrow> job_row \<Rightarrow> job_row" where
  "cancel_job at j = j\<lparr>j_state := CANCELLED, j_lease_owner := None, j_lease_expires_at := None,
     j_reconciliation_due_at := None, j_finished_at := Some at\<rparr>"

definition cancel_occurrence :: "instant \<Rightarrow> job_row \<Rightarrow> db \<Rightarrow> db" where
  "cancel_occurrence at j db = save_job (cancel_job at j) db"

definition finish_series :: "series_row \<Rightarrow> series_state \<Rightarrow> instant \<Rightarrow> db \<Rightarrow> db" where
  "finish_series q st at db = save_series (q\<lparr>q_state := st, q_finished_at := Some at\<rparr>) db"

definition cancel_recurring :: "string \<Rightarrow> instant \<Rightarrow> db \<Rightarrow> (series_record \<times> db) res" where
  "cancel_recurring series_id cancelled_at db =
     (case uuid_parse series_id of
        None \<Rightarrow> Inl JobSeriesNotFoundError
      | Some i \<Rightarrow>
     (case find_series i db of
        None \<Rightarrow> Inl JobSeriesNotFoundError
      | Some q \<Rightarrow>
     (case find_job (\<lambda>r. j_series r = Some (q_id q) \<and> j_occurrence r = Some (q_latest q)) db of
        None \<Rightarrow> Inl DoesNotExist
      | Some occ \<Rightarrow>
          if q_state q = S_ACTIVE then
            (let q' = q\<lparr>q_state := S_CANCELLED, q_finished_at := Some cancelled_at\<rparr>;
                 db1 = save_series q' db in
             if j_state occ \<in> {PENDING, CLAIMED, PUBLISHED, SETTLING, INDETERMINATE}
             then (let occ' = cancel_job cancelled_at occ in
                   Inr (series_record_of q' occ', save_job occ' db1))
             else Inr (series_record_of q' occ, db1))
          else Inr (series_record_of q occ, db))))"

section \<open>Claims\<close>

definition due :: "instant \<Rightarrow> job_row \<Rightarrow> bool" where
  "due now j = (case j_reconciliation_due_at j of None \<Rightarrow> False | Some t \<Rightarrow> t \<le> now)"

definition lease_expired :: "instant \<Rightarrow> job_row \<Rightarrow> bool" where
  "lease_expired now j = (case j_lease_expires_at j of None \<Rightarrow> False | Some t \<Rightarrow> t < now)"

definition cancelled_reclaimable :: "instant \<Rightarrow> db \<Rightarrow> job_row \<Rightarrow> bool" where
  "cancelled_reclaimable now db j \<longleftrightarrow>
     (j_state j = CLAIMED \<and> lease_expired now j
      \<or> j_state j \<in> {PUBLISHED, INDETERMINATE, RUNNING, SETTLING} \<and> due now j)
     \<and> series_state_of db j = Some S_CANCELLED"

definition series_open :: "db \<Rightarrow> job_row \<Rightarrow> bool" where
  "series_open db j \<longleftrightarrow> j_series j = None \<or> series_state_of db j = Some S_ACTIVE"

definition exhausted :: "instant \<Rightarrow> db \<Rightarrow> job_row \<Rightarrow> bool" where
  "exhausted now db j \<longleftrightarrow> series_open db j \<and> j_state j = RUNNING \<and> due now j
     \<and> (case j_max_retries j of None \<Rightarrow> False | Some n \<Rightarrow> n \<le> j_retry_count j)"

definition mark_exhausted :: "job_row \<Rightarrow> job_row" where
  "mark_exhausted j = j\<lparr>j_state := INDETERMINATE, j_reconciliation_due_at := None,
     j_indeterminate_reason := Some ''handler_outcome''\<rparr>"

definition sweep :: "instant \<Rightarrow> db \<Rightarrow> db" where
  "sweep now db =
     (let db1 = update_jobs (cancelled_reclaimable now db) (cancel_job now) db
      in update_jobs (exhausted now db1) mark_exhausted db1)"

definition claimable :: "instant \<Rightarrow> db \<Rightarrow> job_row \<Rightarrow> bool" where
  "claimable now db j \<longleftrightarrow>
     (j_state j = PENDING
      \<or> j_state j = CLAIMED \<and> lease_expired now j
      \<or> j_state j \<in> {PUBLISHED, INDETERMINATE} \<and> due now j
      \<or> j_state j = RUNNING \<and> due now j
      \<or> j_state j = SETTLING \<and> due now j)
     \<and> series_open db j \<and> j_available_at j \<le> now"

definition claim_job :: "string \<Rightarrow> instant \<Rightarrow> instant \<Rightarrow> job_row \<Rightarrow> job_row" where
  "claim_job worker_id now lease_expires j =
     (let j1 = j\<lparr>j_state := CLAIMED, j_generation := j_generation j + 1,
            j_retry_count := (if j_state j = RUNNING then j_retry_count j + 1 else j_retry_count j),
            j_lease_owner := Some worker_id, j_lease_expires_at := Some lease_expires,
            j_reconciliation_due_at := None, j_indeterminate_reason := None\<rparr>;
          j2 = (if j_state j = RUNNING then j1\<lparr>j_last_attempt_at := Some now\<rparr> else j1)
      in if j_settlement_status j = None
         then j2\<lparr>j_settlement_status := None, j_settlement_source := None, j_settlement_destination := None\<rparr>
         else j2)"

definition claim_next :: "bool \<Rightarrow> string \<Rightarrow> instant \<Rightarrow> instant \<Rightarrow> db \<Rightarrow> (claim option \<times> db) res" where
  "claim_next in_atomic_block worker_id now lease_expires db =
     (if in_atomic_block then Inl WorkerAbortError
      else (let db1 = sweep now db in
        case first_job (claimable now db1) db1 of
          None \<Rightarrow> Inr (None, db1)
        | Some model \<Rightarrow>
           (let mine = (\<lambda>r. j_id r = j_id model \<and> j_state r = j_state model \<and> j_generation r = j_generation model)
            in if count_jobs mine db1 \<noteq> 1 then Inr (None, db1)
               else Inr (Some (claim_from_record (record_of (claim_job worker_id now lease_expires model))),
                         update_jobs mine (claim_job worker_id now lease_expires) db1))))"

section \<open>Publication\<close>

definition lock_series :: "nat option \<Rightarrow> db \<Rightarrow> series_row option res" where
  "lock_series s db = (case s of None \<Rightarrow> Inr None
     | Some i \<Rightarrow> (case find_series i db of None \<Rightarrow> Inl DoesNotExist | Some q \<Rightarrow> Inr (Some q)))"

definition fail_active_series :: "series_row option \<Rightarrow> instant \<Rightarrow> db \<Rightarrow> db" where
  "fail_active_series s at db = (case s of None \<Rightarrow> db
     | Some q \<Rightarrow> if q_state q = S_ACTIVE then finish_series q S_FAILED at db else db)"

definition finish_dead_letter_from_claim :: "claim \<Rightarrow> instant \<Rightarrow> db \<Rightarrow> (unit \<times> db) res" where
  "finish_dead_letter_from_claim c finished_at db =
     bind_res (uuid_arg (c_id c)) (\<lambda>i.
     case find_job (\<lambda>r. j_id r = i) db of
       None \<Rightarrow> Inr ((), db)
     | Some snap \<Rightarrow>
        bind_res (lock_series (j_series snap) db) (\<lambda>s.
        case find_job (\<lambda>r. j_id r = i \<and> j_generation r = c_generation c \<and> j_state r = CLAIMED) db of
          None \<Rightarrow> Inr ((), db)
        | Some occ \<Rightarrow> Inr ((), fail_active_series s finished_at (save_job
            (occ\<lparr>j_state := J_DEAD_LETTERED, j_reconciliation_due_at := None, j_lease_owner := None,
               j_lease_expires_at := None, j_finished_at := Some finished_at, j_indeterminate_reason := None\<rparr>) db))))"

definition clear_settlement :: "job_row \<Rightarrow> job_row" where
  "clear_settlement j = j\<lparr>j_settlement_status := None, j_settlement_source := None, j_settlement_destination := None\<rparr>"

definition mark_published :: "claim \<Rightarrow> instant \<Rightarrow> instant \<Rightarrow> db \<Rightarrow> (unit \<times> db) res" where
  "mark_published c now reconciliation_due db =
     (if c_settlement_status c = Some (status_value DEAD_LETTERED)
      then finish_dead_letter_from_claim c now db
      else bind_res (uuid_arg (c_id c)) (\<lambda>i.
        Inr ((), update_jobs (\<lambda>r. j_id r = i \<and> j_generation r = c_generation c \<and> j_state r = CLAIMED)
          (\<lambda>r. let r1 = r\<lparr>j_state := PUBLISHED, j_reconciliation_due_at := Some reconciliation_due\<rparr>
            in if c_settlement_status c \<noteq> None then clear_settlement r1 else r1) db)))"

definition mark_publish_indeterminate :: "claim \<Rightarrow> instant \<Rightarrow> db \<Rightarrow> (unit \<times> db) res" where
  "mark_publish_indeterminate c reconciliation_due db =
     bind_res (uuid_arg (c_id c)) (\<lambda>i.
       Inr ((), update_jobs (\<lambda>r. j_id r = i \<and> j_generation r = c_generation c \<and> j_state r = CLAIMED)
         (\<lambda>r. r\<lparr>j_state := (if c_settlement_status c \<noteq> None then SETTLING else INDETERMINATE),
            j_reconciliation_due_at := Some reconciliation_due,
            j_indeterminate_reason := (if c_settlement_status c \<noteq> None then None
              else Some ''publication_acknowledgement'')\<rparr>) db))"

section \<open>Admission\<close>

text \<open>The comparison of the stored message with the delivered one; \<open>None\<close> when either does not serialize.\<close>

definition same_message :: "job_row \<Rightarrow> admission \<Rightarrow> bool option" where
  "same_message m a = (case (dumps (j_payload m), dumps (a_payload a),
        dumps (PDict (j_headers m)), dumps (PDict (a_headers a))) of
      (Inr sp, Inr ap, Inr sh, Inr ah) \<Rightarrow>
        Some (PStr (j_message_id m) = a_message_id a \<and> PStr (j_message_type m) = a_message_type a
          \<and> PInt (j_version m) = a_version a \<and> sp = ap \<and> sh = ah \<and> j_queue m = a_source_queue a
          \<and> j_last_attempt_at m = a_last_attempt_at a)
    | _ \<Rightarrow> None)"

definition start_job :: "instant \<Rightarrow> admission \<Rightarrow> job_row \<Rightarrow> job_row" where
  "start_job now a m = m\<lparr>j_state := RUNNING, j_retry_count := a_retry_count a,
     j_max_retries := (case j_max_retries m of None \<Rightarrow> Some (a_max_retries a) | Some n \<Rightarrow> Some n),
     j_queue := a_source_queue a, j_reconciliation_due_at := a_reconciliation_due_at a,
     j_settlement_status := None, j_settlement_source := None, j_settlement_destination := None,
     j_indeterminate_reason := None,
     j_started_at := (case j_started_at m of
         None \<Rightarrow> (case a_admitted_at a of None \<Rightarrow> Some now | Some t \<Rightarrow> Some t)
       | Some t \<Rightarrow> Some t)\<rparr>"

definition admit_locked :: "instant \<Rightarrow> admission \<Rightarrow> series_row option \<Rightarrow> job_row \<Rightarrow> db \<Rightarrow> decision \<times> db" where
  "admit_locked now a s m db =
     (if j_generation m < a_generation a then (ABORT, db)
      else if a_generation a < j_generation m \<or> j_state m \<in> {J_SUCCEEDED, J_DEAD_LETTERED, CANCELLED, RUNNING}
        then (DROP, db)
      else if (case s of None \<Rightarrow> False | Some q \<Rightarrow> q_state q \<noteq> S_ACTIVE)
        then (DROP, if (case s of None \<Rightarrow> False | Some q \<Rightarrow> q_state q = S_CANCELLED)
                \<and> j_state m \<notin> {J_SUCCEEDED, J_DEAD_LETTERED, CANCELLED}
              then cancel_occurrence now m db else db)
      else if j_state m \<notin> {CLAIMED, PUBLISHED, SETTLING, INDETERMINATE} then (ABORT, db)
      else if j_state m = INDETERMINATE \<and> j_indeterminate_reason m \<noteq> Some ''publication_acknowledgement''
        then (DROP, db)
      else (case same_message m a of None \<Rightarrow> (ABORT, db)
       | Some same \<Rightarrow>
          if \<not> same then (ABORT, db)
          else if a_retry_count a < j_retry_count m then (DROP, db)
          else if j_retry_count m < a_retry_count a then (ABORT, db)
          else if (case j_max_retries m of None \<Rightarrow> False | Some n \<Rightarrow> n \<noteq> a_max_retries a) then (ABORT, db)
          else (PROCEED, save_job (start_job now a m) db)))"

definition admit_delivery :: "instant \<Rightarrow> admission \<Rightarrow> db \<Rightarrow> (decision \<times> db) res" where
  "admit_delivery now a db =
     (case uuid_parse (a_record_id a) of None \<Rightarrow> Inr (ABORT, db)
      | Some i \<Rightarrow> (case find_job (\<lambda>r. j_id r = i) db of None \<Rightarrow> Inr (ABORT, db)
      | Some m \<Rightarrow> bind_res (lock_series (j_series m) db) (\<lambda>s. Inr (admit_locked now a s m db))))"

section \<open>Settlement\<close>

definition guarded_series_update ::
    "(job_row \<Rightarrow> bool) \<Rightarrow> job_state \<Rightarrow> (job_row \<Rightarrow> job_row) \<Rightarrow> instant \<Rightarrow> db \<Rightarrow> (nat \<times> db) res" where
  "guarded_series_update filters expected_state values cancelled_at db =
     (case find_job filters db of
        None \<Rightarrow> Inr (0, db)
      | Some snap \<Rightarrow>
     (case j_series snap of
        None \<Rightarrow> (let P = (\<lambda>r. filters r \<and> j_state r = expected_state)
                 in Inr (count_jobs P db, update_jobs P values db))
      | Some i \<Rightarrow>
     (case find_series i db of
        None \<Rightarrow> Inl DoesNotExist
      | Some q \<Rightarrow>
     (case find_job (\<lambda>r. filters r \<and> j_state r = expected_state) db of
        None \<Rightarrow> Inr (0, db)
      | Some occ \<Rightarrow>
          if q_state q = S_CANCELLED then Inr (1, cancel_occurrence cancelled_at occ db)
          else if q_state q \<noteq> S_ACTIVE then Inr (0, db)
          else Inr (1, save_job (values occ) db)))))"

definition or_source :: "string option \<Rightarrow> string \<Rightarrow> string" where
  "or_source dest src = (case dest of None \<Rightarrow> src | Some d \<Rightarrow> if d = [] then src else d)"

definition settle_job :: "settlement \<Rightarrow> job_row \<Rightarrow> job_row" where
  "settle_job s j = j\<lparr>j_state := SETTLING, j_retry_count := s_retry_count s,
     j_settlement_status := Some (status_value (s_status s)), j_settlement_source := Some (s_source s),
     j_settlement_destination := s_destination s, j_queue := or_source (s_destination s) (s_source s),
     j_reconciliation_due_at := Some (s_reconciliation_due_at s),
     j_last_attempt_at := (case s_last_attempt_at s of None \<Rightarrow> j_last_attempt_at j | Some t \<Rightarrow> Some t)\<rparr>"

definition checkpoint_settlement :: "instant \<Rightarrow> settlement \<Rightarrow> db \<Rightarrow> (unit \<times> db) res" where
  "checkpoint_settlement now s db =
     bind_res (uuid_arg (s_record_id s)) (\<lambda>i.
     bind_res (guarded_series_update
         (\<lambda>r. j_id r = i \<and> j_generation r = s_generation s \<and> j_retry_count r \<le> s_retry_count s
            \<and> j_max_retries r = Some (s_max_retries s))
         RUNNING (settle_job s) now db) (\<lambda>(updated, db').
       if updated \<noteq> 1 then Inl RuntimeError else Inr ((), db')))"

definition release_delivery :: "instant \<Rightarrow> string \<Rightarrow> int \<Rightarrow> instant \<Rightarrow> db \<Rightarrow> (unit \<times> db) res" where
  "release_delivery now record_id generation reconciliation_due db =
     bind_res (uuid_arg record_id) (\<lambda>i.
     bind_res (guarded_series_update (\<lambda>r. j_id r = i \<and> j_generation r = generation) RUNNING
         (\<lambda>j. j\<lparr>j_state := PUBLISHED, j_reconciliation_due_at := Some reconciliation_due, j_started_at := None\<rparr>)
         now db) (\<lambda>(updated, db').
       if updated \<noteq> 1 then Inl RuntimeError else Inr ((), db')))"

definition outcome_matches :: "outcome \<Rightarrow> nat \<Rightarrow> int \<Rightarrow> job_row \<Rightarrow> bool" where
  "outcome_matches oc i g r \<longleftrightarrow> j_id r = i \<and> j_generation r = g \<and> field_eq (j_message_id r) (o_message_id oc)
     \<and> field_eq (j_message_type r) (o_message_type oc) \<and> o_version oc = PInt (j_version r)"

definition succeed_job :: "instant \<Rightarrow> job_row \<Rightarrow> job_row" where
  "succeed_job at j = j\<lparr>j_state := J_SUCCEEDED, j_lease_owner := None, j_lease_expires_at := None,
     j_reconciliation_due_at := None, j_finished_at := Some at\<rparr>"

definition finish_dead_letter_from_outcome :: "instant \<Rightarrow> outcome \<Rightarrow> nat \<Rightarrow> int \<Rightarrow> db \<Rightarrow> (unit \<times> db) res" where
  "finish_dead_letter_from_outcome now oc i g db =
     (case find_job (outcome_matches oc i g) db of
        None \<Rightarrow> Inr ((), db)
      | Some snap \<Rightarrow>
         bind_res (lock_series (j_series snap) db) (\<lambda>s.
         case find_job (\<lambda>r. j_id r = i \<and> j_generation r = g \<and> j_state r = SETTLING) db of
           None \<Rightarrow> Inr ((), db)
         | Some occ \<Rightarrow> Inr ((), fail_active_series s now (save_job
             (occ\<lparr>j_state := J_DEAD_LETTERED, j_queue := or_source (o_destination oc) (o_source oc),
                j_lease_owner := None, j_lease_expires_at := None, j_reconciliation_due_at := None,
                j_finished_at := Some now\<rparr>) db))))"

definition republish_job :: "outcome \<Rightarrow> instant \<Rightarrow> job_row \<Rightarrow> job_row" where
  "republish_job oc reconciliation_due j = j\<lparr>j_state := PUBLISHED,
     j_queue := or_source (o_destination oc) (o_source oc), j_retry_count := o_retry_count oc,
     j_settlement_status := None, j_settlement_source := None, j_settlement_destination := None,
     j_reconciliation_due_at := Some reconciliation_due\<rparr>"

definition apply_outcome :: "instant \<Rightarrow> outcome \<Rightarrow> instant \<Rightarrow> db \<Rightarrow> (unit \<times> db) res" where
  "apply_outcome now oc reconciliation_due db =
     (case (o_record_id oc, o_generation oc) of
        (Some rid, Some g) \<Rightarrow>
          bind_res (uuid_arg rid) (\<lambda>i.
            case o_status oc of
              STARTED \<Rightarrow> Inr ((), db)
            | SUCCEEDED \<Rightarrow> Inr ((), update_jobs (\<lambda>r. outcome_matches oc i g r \<and> j_state r = RUNNING) (succeed_job now) db)
            | DEAD_LETTERED \<Rightarrow> finish_dead_letter_from_outcome now oc i g db
            | _ \<Rightarrow> bind_res (guarded_series_update (outcome_matches oc i g) SETTLING
                (republish_job oc reconciliation_due) now db) (\<lambda>(_, db'). Inr ((), db')))
      | _ \<Rightarrow> Inr ((), db))"

section \<open>Recurring completion\<close>

text \<open>What the handler returned: nothing, a recurrence instruction, or something else.\<close>

datatype completion = R_None | R_Recurrence recurrence_result | R_Other

text \<open>
  The next occurrence of an active series: \<open>None\<close> when the series ends. An explicit time has
  to be after the completion.
\<close>

definition next_occurrence ::
    "zones \<Rightarrow> series_row \<Rightarrow> completion \<Rightarrow> instant \<Rightarrow> instant option res" where
  "next_occurrence zones q result completed_at = (case result of
     R_Recurrence EndRecurrence \<Rightarrow> Inr None
   | R_Recurrence (ScheduleNextOccurrence at) \<Rightarrow>
       bind_res (instant_of at) (\<lambda>next_at.
         if next_at \<le> completed_at then Inl InvalidMessageDefinitionError
         else Inr (case q_ends_at q of None \<Rightarrow> Some next_at
           | Some e \<Rightarrow> if e \<le> next_at then None else Some next_at))
   | _ \<Rightarrow> bind_res (recurrence_of zones q) (\<lambda>r.
       next_cadence_at zones r (at_utc (q_starts_at q)) (at_utc completed_at)))"

definition next_draft :: "string \<Rightarrow> series_row \<Rightarrow> instant \<Rightarrow> instant \<Rightarrow> draft" where
  "next_draft fresh_message q completed_at next_at = \<lparr>d_message_id = fresh_message,
     d_message_type = q_message_type q, d_version = q_version q, d_payload = q_payload q,
     d_headers = q_headers q, d_created_at = completed_at, d_available_at = next_at,
     d_queue = q_queue q, d_fingerprint = q_fingerprint q, d_idempotency_key = None\<rparr>"

definition advance_series ::
    "zones \<Rightarrow> nat \<Rightarrow> string \<Rightarrow> series_row \<Rightarrow> completion \<Rightarrow> instant \<Rightarrow> db \<Rightarrow> db res" where
  "advance_series zones fresh fresh_message q result completed_at db =
     bind_res (next_occurrence zones q result completed_at) (\<lambda>next.
     case next of
       None \<Rightarrow> Inr (finish_series q S_COMPLETED completed_at db)
     | Some next_at \<Rightarrow>
         bind_res (insert_job (new_job fresh (next_draft fresh_message q completed_at next_at)
             (Some (q_id q)) (Some (q_latest q + 1))) db) (\<lambda>db'.
         Inr (save_series (q\<lparr>q_latest := q_latest q + 1\<rparr>) db')))"

definition complete_recurring_success ::
    "zones \<Rightarrow> nat \<Rightarrow> string \<Rightarrow> outcome \<Rightarrow> completion \<Rightarrow> instant \<Rightarrow> db \<Rightarrow> (bool \<times> db) res" where
  "complete_recurring_success zones fresh fresh_message oc result completed_at db =
     (case (o_record_id oc, o_generation oc) of
        (Some rid, Some g) \<Rightarrow>
          bind_res (uuid_arg rid) (\<lambda>i.
          case find_job (outcome_matches oc i g) db of
            None \<Rightarrow> Inr (False, db)
          | Some occ \<Rightarrow> (case j_series occ of
              None \<Rightarrow> Inr (False, db)
            | Some sid \<Rightarrow> (case find_series sid db of
                None \<Rightarrow> Inl DoesNotExist
              | Some q \<Rightarrow>
                  if j_state occ \<noteq> RUNNING then Inr (True, db)
                  else if result = R_Other then Inl InvalidMessageDefinitionError
                  else (let db1 = save_job (succeed_job completed_at occ) db in
                    if q_state q \<noteq> S_ACTIVE then Inr (True, db1)
                    else bind_res (advance_series zones fresh fresh_message q result completed_at db1)
                           (\<lambda>db2. Inr (True, db2))))))
      | _ \<Rightarrow> Inr (False, db))"

end
