(* ===== verification/JobLife.thy ===== *)
theory JobLife
  imports JobStore
begin

text \<open>
  The life of one durable job as a state machine on its row, independent of the tables: which
  changes the store may make to a row and what they keep. JobInvariant shows that every
  store operation moves every row along these steps.
\<close>

definition finished :: "job_state \<Rightarrow> bool" where
  "finished s \<longleftrightarrow> s \<in> {J_SUCCEEDED, J_DEAD_LETTERED, CANCELLED}"

lemma live_iff: "live s \<longleftrightarrow> \<not> finished s"
  by (cases s) (auto simp: live_def finished_def)

definition within_budget :: "job_row \<Rightarrow> bool" where
  "within_budget j = (case j_max_retries j of None \<Rightarrow> True | Some n \<Rightarrow> j_retry_count j < n)"

inductive job_step :: "job_row \<Rightarrow> job_row \<Rightarrow> bool" where
  claim: "live (j_state j) \<Longrightarrow> (j_state j = RUNNING \<longrightarrow> within_budget j) \<Longrightarrow>
     (j_state j = INDETERMINATE \<longrightarrow> j_reconciliation_due_at j \<noteq> None) \<Longrightarrow>
     job_step j (claim_job w now lease j)"
| publish: "j_state j = CLAIMED \<Longrightarrow>
     job_step j (j\<lparr>j_state := PUBLISHED, j_reconciliation_due_at := Some t\<rparr>)"
| publish_settled: "j_state j = CLAIMED \<Longrightarrow>
     job_step j (clear_settlement (j\<lparr>j_state := PUBLISHED, j_reconciliation_due_at := Some t\<rparr>))"
| unconfirmed: "j_state j = CLAIMED \<Longrightarrow>
     job_step j (j\<lparr>j_state := INDETERMINATE, j_reconciliation_due_at := Some t,
       j_indeterminate_reason := Some ''publication_acknowledgement''\<rparr>)"
| unconfirmed_settlement: "j_state j = CLAIMED \<Longrightarrow>
     job_step j (j\<lparr>j_state := SETTLING, j_reconciliation_due_at := Some t, j_indeterminate_reason := None\<rparr>)"
| admit: "j_state j \<in> {CLAIMED, PUBLISHED, SETTLING, INDETERMINATE} \<Longrightarrow> a_generation a = j_generation j \<Longrightarrow>
     a_retry_count a = j_retry_count j \<Longrightarrow> a_reconciliation_due_at a \<noteq> None \<Longrightarrow>
     job_step j (start_job now a j)"
| settle: "j_state j = RUNNING \<Longrightarrow> j_retry_count j \<le> s_retry_count s \<Longrightarrow> job_step j (settle_job s j)"
| release: "j_state j = RUNNING \<Longrightarrow>
     job_step j (j\<lparr>j_state := PUBLISHED, j_reconciliation_due_at := Some t, j_started_at := None\<rparr>)"
| republish: "j_state j = SETTLING \<Longrightarrow> job_step j (republish_job oc t j)"
| succeed: "j_state j = RUNNING \<Longrightarrow> job_step j (succeed_job t j)"
| dead_letter_claim: "j_state j = CLAIMED \<Longrightarrow>
     job_step j (j\<lparr>j_state := J_DEAD_LETTERED, j_reconciliation_due_at := None, j_lease_owner := None,
       j_lease_expires_at := None, j_finished_at := Some t, j_indeterminate_reason := None\<rparr>)"
| dead_letter: "j_state j = SETTLING \<Longrightarrow>
     job_step j (j\<lparr>j_state := J_DEAD_LETTERED, j_queue := q, j_lease_owner := None,
       j_lease_expires_at := None, j_reconciliation_due_at := None, j_finished_at := Some t\<rparr>)"
| cancel: "live (j_state j) \<Longrightarrow> job_step j (cancel_job t j)"
| exhaust: "j_state j = RUNNING \<Longrightarrow> \<not> within_budget j \<Longrightarrow> job_step j (mark_exhausted j)"

inductive_cases job_step_cases: "job_step j j'"

lemmas row_defs = claim_job_def clear_settlement_def start_job_def settle_job_def republish_job_def
  succeed_job_def cancel_job_def mark_exhausted_def

lemma row_states [simp]:
  "j_state (claim_job w now lease j) = CLAIMED" "j_state (clear_settlement j) = j_state j"
  "j_state (start_job now a j) = RUNNING" "j_state (settle_job s j) = SETTLING"
  "j_state (republish_job oc t j) = PUBLISHED" "j_state (succeed_job t j) = J_SUCCEEDED"
  "j_state (cancel_job t j) = CANCELLED" "j_state (mark_exhausted j) = INDETERMINATE"
  by (simp_all add: row_defs Let_def)

lemma live_states [simp]:
  "live PENDING" "live CLAIMED" "live PUBLISHED" "live RUNNING" "live SETTLING" "live INDETERMINATE"
  "\<not> live J_SUCCEEDED" "\<not> live J_DEAD_LETTERED" "\<not> live CANCELLED"
  by (simp_all add: live_def)

abbreviation job_steps :: "job_row \<Rightarrow> job_row \<Rightarrow> bool" where
  "job_steps \<equiv> job_step\<^sup>*\<^sup>*"

section \<open>What a step keeps\<close>

text \<open>The columns that are written once, when the row is inserted.\<close>

definition same_job :: "job_row \<Rightarrow> job_row \<Rightarrow> bool" where
  "same_job j j' \<longleftrightarrow> j_id j' = j_id j \<and> j_message_id j' = j_message_id j \<and> j_message_type j' = j_message_type j
     \<and> j_version j' = j_version j \<and> j_payload j' = j_payload j \<and> j_headers j' = j_headers j
     \<and> j_created_at j' = j_created_at j \<and> j_available_at j' = j_available_at j
     \<and> j_fingerprint j' = j_fingerprint j \<and> j_idempotency_key j' = j_idempotency_key j
     \<and> j_series j' = j_series j \<and> j_occurrence j' = j_occurrence j"

lemma job_step_same: "job_step j j' \<Longrightarrow> same_job j j'"
  by (induction rule: job_step.induct) (simp_all add: same_job_def row_defs Let_def)

lemma job_step_live: "job_step j j' \<Longrightarrow> live (j_state j)"
  by (induction rule: job_step.induct) (auto simp: live_def)

lemma job_step_generation:
  "job_step j j' \<Longrightarrow> j_generation j \<le> j_generation j'"
  by (induction rule: job_step.induct) (simp_all add: row_defs Let_def)

lemma job_steps_same: "job_steps j j' \<Longrightarrow> same_job j j'"
  by (induction rule: rtranclp_induct) (auto dest!: job_step_same simp: same_job_def)

lemma job_steps_generation: "job_steps j j' \<Longrightarrow> j_generation j \<le> j_generation j'"
  by (induction rule: rtranclp_induct) (auto dest: job_step_generation)

lemma job_steps_finished: "job_steps j j' \<Longrightarrow> \<not> live (j_state j) \<Longrightarrow> j' = j"
  by (erule converse_rtranclpE) (auto dest: job_step_live)

lemma job_steps_live: "job_steps j j' \<Longrightarrow> live (j_state j') \<Longrightarrow> live (j_state j)"
  using job_steps_finished by blast

section \<open>Well-formed rows\<close>

text \<open>
  A row never loses the deadline that lets it be claimed again: a claim has its lease, a
  published, running or settling job its reconciliation time; only a job whose handler
  outcome is unknown after its last attempt waits for an operator. A finished job records
  when it finished and holds no lease.
\<close>

definition row_ok :: "job_row \<Rightarrow> bool" where
  "row_ok j \<longleftrightarrow>
     (j_state j = CLAIMED \<longrightarrow> j_lease_expires_at j \<noteq> None)
   \<and> (j_state j \<in> {PUBLISHED, RUNNING, SETTLING} \<longrightarrow> j_reconciliation_due_at j \<noteq> None)
   \<and> (j_state j = INDETERMINATE \<longrightarrow> j_reconciliation_due_at j \<noteq> None
        \<or> j_indeterminate_reason j = Some ''handler_outcome'' \<and> \<not> within_budget j)
   \<and> (j_state j = RUNNING \<longrightarrow> j_max_retries j \<noteq> None)
   \<and> (j_state j = PENDING \<longrightarrow> j_generation j = 0) \<and> 0 \<le> j_generation j
   \<and> (live (j_state j) \<and> j_state j \<noteq> PENDING \<longrightarrow> 1 \<le> j_generation j)
   \<and> (finished (j_state j) \<longrightarrow> j_finished_at j \<noteq> None \<and> j_lease_owner j = None
        \<and> j_lease_expires_at j = None \<and> j_reconciliation_due_at j = None)"

lemma row_ok_generation: "row_ok j \<Longrightarrow> live (j_state j) \<Longrightarrow> j_state j \<noteq> PENDING \<Longrightarrow> 1 \<le> j_generation j"
  by (simp add: row_ok_def)

lemma row_ok_waiting:
  "j_state j \<in> {PUBLISHED, SETTLING, INDETERMINATE} \<Longrightarrow> j_reconciliation_due_at j \<noteq> None \<Longrightarrow> 1 \<le> j_generation j \<Longrightarrow>
     row_ok j"
  by (auto simp: row_ok_def finished_def)

lemma row_ok_finished:
  "finished (j_state j) \<Longrightarrow> j_finished_at j \<noteq> None \<Longrightarrow> j_lease_owner j = None \<Longrightarrow> j_lease_expires_at j = None \<Longrightarrow>
     j_reconciliation_due_at j = None \<Longrightarrow> 0 \<le> j_generation j \<Longrightarrow> row_ok j"
  by (auto simp: row_ok_def finished_def live_def)

lemma row_ok_step:
  assumes "job_step j j'" "1 \<le> j_generation j \<or> j_state j = PENDING \<and> 0 \<le> j_generation j"
    "j_state j = RUNNING \<longrightarrow> j_max_retries j \<noteq> None"
  shows "row_ok j'"
  using assms
proof (induction rule: job_step.induct)
  case (claim j w now lease)
  then have "0 \<le> j_generation j" by auto
  then show ?case by (simp add: claim_job_def Let_def row_ok_def finished_def)
next
  case (admit j a now)
  then have "1 \<le> j_generation j" by auto
  moreover have "j_state (start_job now a j) = RUNNING" "j_generation (start_job now a j) = j_generation j"
    "j_reconciliation_due_at (start_job now a j) \<noteq> None" "j_max_retries (start_job now a j) \<noteq> None"
    using admit.hyps by (simp_all add: start_job_def split: option.splits)
  ultimately show ?case by (simp add: row_ok_def finished_def)
next
  case (exhaust j)
  then show ?case by (simp add: row_ok_def mark_exhausted_def finished_def live_def within_budget_def
      split: option.splits)
next
  case (publish j t)
  show ?case by (rule row_ok_waiting) (use publish in \<open>auto simp: row_defs\<close>)
next
  case (publish_settled j t)
  show ?case by (rule row_ok_waiting) (use publish_settled in \<open>auto simp: row_defs\<close>)
next
  case (unconfirmed j t)
  show ?case by (rule row_ok_waiting) (use unconfirmed in \<open>auto simp: row_defs\<close>)
next
  case (unconfirmed_settlement j t)
  show ?case by (rule row_ok_waiting) (use unconfirmed_settlement in \<open>auto simp: row_defs\<close>)
next
  case (settle j s)
  show ?case by (rule row_ok_waiting) (use settle in \<open>auto simp: row_defs\<close>)
next
  case (release j t)
  show ?case by (rule row_ok_waiting) (use release in \<open>auto simp: row_defs\<close>)
next
  case (republish j oc t)
  show ?case by (rule row_ok_waiting) (use republish in \<open>auto simp: row_defs\<close>)
next
  case (succeed j t)
  show ?case by (rule row_ok_finished) (use succeed in \<open>auto simp: row_defs finished_def\<close>)
next
  case (dead_letter_claim j t)
  show ?case by (rule row_ok_finished) (use dead_letter_claim in \<open>auto simp: row_defs finished_def\<close>)
next
  case (dead_letter j q t)
  show ?case by (rule row_ok_finished) (use dead_letter in \<open>auto simp: row_defs finished_def\<close>)
next
  case (cancel j t)
  show ?case by (rule row_ok_finished) (use cancel in \<open>auto simp: row_defs finished_def\<close>)
qed

lemma job_step_row_ok: "job_step j j' \<Longrightarrow> row_ok j \<Longrightarrow> row_ok j'"
proof -
  assume step: "job_step j j'" and ok: "row_ok j"
  have lv: "live (j_state j)" using step by (rule job_step_live)
  have "j_state j = RUNNING \<longrightarrow> j_max_retries j \<noteq> None" "0 \<le> j_generation j" using ok by (simp_all add: row_ok_def)
  then show ?thesis using row_ok_step [OF step] row_ok_generation [OF ok lv] by blast
qed

lemma job_steps_row_ok: "job_steps j j' \<Longrightarrow> row_ok j \<Longrightarrow> row_ok j'"
  by (induction rule: rtranclp_induct) (auto dest: job_step_row_ok)

lemma new_job_row_ok: "row_ok (new_job fresh d s n)"
  by (simp add: row_ok_def new_job_def finished_def live_def)

end
