(* ===== verification/JobInvariant.thy ===== *)
theory JobInvariant
  imports JobLife
begin

text \<open>
  The database as a state machine: every operation of the store as a step, the invariant of
  the reachable databases (the unique constraints, the numbering of occurrences, an active
  series has exactly one unfinished occurrence) and the refinement of the row automaton.
\<close>

section \<open>The invariant\<close>

definition latest_of :: "series_row \<Rightarrow> job_row \<Rightarrow> bool" where
  "latest_of q r \<longleftrightarrow> j_series r = Some (q_id q) \<and> j_occurrence r = Some (q_latest q)"

definition inv :: "db \<Rightarrow> bool" where
  "inv db \<longleftrightarrow>
     distinct (map j_id (jobs db)) \<and> distinct (map q_id (series db))
   \<and> (\<forall>r \<in> set (jobs db). \<forall>r' \<in> set (jobs db). rows_clash r r' \<longrightarrow> r = r')
   \<and> (\<forall>q \<in> set (series db). \<forall>q' \<in> set (series db). series_clash q q' \<longrightarrow> q = q')
   \<and> (\<forall>r \<in> set (jobs db). \<forall>i. j_series r = Some i \<longrightarrow> (\<exists>q \<in> set (series db). q_id q = i))
   \<and> (\<forall>r \<in> set (jobs db). \<forall>q \<in> set (series db). j_series r = Some (q_id q) \<longrightarrow>
        (\<exists>n. j_occurrence r = Some n \<and> 1 \<le> n \<and> n \<le> q_latest q \<and> (n < q_latest q \<longrightarrow> \<not> live (j_state r))))
   \<and> (\<forall>q \<in> set (series db). \<exists>r \<in> set (jobs db). latest_of q r
        \<and> (q_state q = S_ACTIVE \<longrightarrow> live (j_state r))
        \<and> (q_state q \<in> {S_COMPLETED, S_FAILED} \<longrightarrow> \<not> live (j_state r)))
   \<and> (\<forall>r \<in> set (jobs db). row_ok r)"

lemma invD:
  assumes "inv db"
  shows "distinct (map j_id (jobs db))" "distinct (map q_id (series db))"
    "\<And>r r'. r \<in> set (jobs db) \<Longrightarrow> r' \<in> set (jobs db) \<Longrightarrow> rows_clash r r' \<Longrightarrow> r = r'"
    "\<And>q q'. q \<in> set (series db) \<Longrightarrow> q' \<in> set (series db) \<Longrightarrow> series_clash q q' \<Longrightarrow> q = q'"
    "\<And>r i. r \<in> set (jobs db) \<Longrightarrow> j_series r = Some i \<Longrightarrow> \<exists>q \<in> set (series db). q_id q = i"
    "\<And>r q. r \<in> set (jobs db) \<Longrightarrow> q \<in> set (series db) \<Longrightarrow> j_series r = Some (q_id q) \<Longrightarrow>
       \<exists>n. j_occurrence r = Some n \<and> 1 \<le> n \<and> n \<le> q_latest q \<and> (n < q_latest q \<longrightarrow> \<not> live (j_state r))"
    "\<And>q. q \<in> set (series db) \<Longrightarrow> \<exists>r \<in> set (jobs db). latest_of q r
       \<and> (q_state q = S_ACTIVE \<longrightarrow> live (j_state r)) \<and> (q_state q \<in> {S_COMPLETED, S_FAILED} \<longrightarrow> \<not> live (j_state r))"
    "\<And>r. r \<in> set (jobs db) \<Longrightarrow> row_ok r"
  using assms unfolding inv_def by blast+

lemma job_by_id:
  assumes "inv db" "r \<in> set (jobs db)" "r' \<in> set (jobs db)" "j_id r = j_id r'" shows "r = r'"
  using invD(3) [OF assms(1-3)] assms(4) by (simp add: rows_clash_def)

lemma series_by_id:
  assumes "inv db" "q \<in> set (series db)" "q' \<in> set (series db)" "q_id q = q_id q'" shows "q = q'"
  using invD(4) [OF assms(1-3)] assms(4) by (simp add: series_clash_def)

lemma latest_unique:
  assumes "inv db" "r \<in> set (jobs db)" "r' \<in> set (jobs db)" "latest_of q r" "latest_of q r'"
  shows "r = r'"
  using invD(3) [OF assms(1-3)] assms(4,5) by (simp add: rows_clash_def latest_of_def)

text \<open>A live occurrence is the latest of its series, so it is the only one.\<close>

lemma live_is_latest:
  assumes "inv db" "r \<in> set (jobs db)" "q \<in> set (series db)" "j_series r = Some (q_id q)" "live (j_state r)"
  shows "latest_of q r"
  using invD(6) [OF assms(1-4)] assms(4,5) by (force simp: latest_of_def)

section \<open>Finding and writing rows\<close>

lemma find_job_SomeD: "find_job P db = Some j \<Longrightarrow> j \<in> set (jobs db) \<and> P j"
  by (auto simp: find_job_def find_Some_iff)

lemma find_series_SomeD: "find_series i db = Some q \<Longrightarrow> q \<in> set (series db) \<and> q_id q = i"
  by (auto simp: find_series_def find_Some_iff)

lemma find_series_in:
  assumes "inv db" "q \<in> set (series db)" shows "find_series (q_id q) db = Some q"
proof (cases "find_series (q_id q) db")
  case None
  then show ?thesis using assms(2) by (auto simp: find_series_def find_None_iff)
next
  case (Some q')
  then show ?thesis using find_series_SomeD [OF Some] series_by_id [OF assms] by force
qed

lemma find_job_by_id:
  assumes "inv db" "r \<in> set (jobs db)" "P r" "\<And>r'. P r' \<Longrightarrow> j_id r' = j_id r"
  shows "find_job P db = Some r"
proof (cases "find_job P db")
  case None
  then show ?thesis using assms(2,3) by (auto simp: find_job_def find_None_iff)
next
  case (Some r')
  then show ?thesis using find_job_SomeD [OF Some] assms job_by_id [OF assms(1)] by metis
qed

lemma series_state_of_in:
  assumes "inv db" "q \<in> set (series db)" "j_series r = Some (q_id q)"
  shows "series_state_of db r = Some (q_state q)"
  using find_series_in [OF assms(1,2)] assms(3) by (simp add: series_state_of_def)

text \<open>Writing one row back is a map over the table that changes that row only.\<close>

lemma save_job_map:
  assumes "inv db" "j \<in> set (jobs db)" "j_id j' = j_id j"
  shows "jobs (save_job j' db) = map (\<lambda>r. if r = j then j' else r) (jobs db)"
    and "series (save_job j' db) = series db"
  using job_by_id [OF assms(1) _ assms(2)] assms(3) by (auto simp: save_job_def)

lemma save_series_map:
  assumes "inv db" "q \<in> set (series db)" "q_id q' = q_id q"
  shows "series (save_series q' db) = map (\<lambda>r. if r = q then q' else r) (series db)"
    and "jobs (save_series q' db) = jobs db"
  using series_by_id [OF assms(1) _ assms(2)] assms(3) by (auto simp: save_series_def)

lemma update_jobs_simps [simp]:
  "jobs (update_jobs P f db) = map (\<lambda>r. if P r then f r else r) (jobs db)"
  "series (update_jobs P f db) = series db"
  by (simp_all add: update_jobs_def)

section \<open>Preservation\<close>

lemma same_jobD: "same_job j j' \<Longrightarrow> j_id j' = j_id j \<and> j_series j' = j_series j \<and> j_occurrence j' = j_occurrence j"
  by (simp add: same_job_def)

lemma clash_back:
  assumes "job_steps r s" "job_steps r' s'" "rows_clash s s'" shows "rows_clash r r'"
  using assms(3) job_steps_same [OF assms(1)] job_steps_same [OF assms(2)]
    job_steps_live [OF assms(1)] job_steps_live [OF assms(2)]
  by (auto simp: rows_clash_def same_job_def)

text \<open>
  What may change of a series: its state, finishing time and latest occurrence, and nothing
  once it is no longer active.
\<close>

definition series_evolves :: "series_row \<Rightarrow> series_row \<Rightarrow> bool" where
  "series_evolves q q' \<longleftrightarrow> (\<exists>st fin n. q' = q\<lparr>q_state := st, q_finished_at := fin, q_latest := n\<rparr> \<and> q_latest q \<le> n)
     \<and> (q_state q \<noteq> S_ACTIVE \<longrightarrow> q' = q)"

definition series_kept :: "series_row \<Rightarrow> series_row \<Rightarrow> bool" where
  "series_kept q q' \<longleftrightarrow> series_evolves q q' \<and> q_latest q' = q_latest q"

lemma series_evolves_refl [simp]: "series_evolves q q"
proof -
  have "q = q\<lparr>q_state := q_state q, q_finished_at := q_finished_at q, q_latest := q_latest q\<rparr>" by simp
  then show ?thesis unfolding series_evolves_def by (meson order_refl)
qed

lemma series_kept_refl [simp]: "series_kept q q"
  by (simp add: series_kept_def)

lemma series_keptD:
  assumes "series_kept q q'"
  shows "q_id q' = q_id q \<and> q_idempotency_key q' = q_idempotency_key q \<and> q_latest q' = q_latest q"
proof -
  obtain st fin n where "q' = q\<lparr>q_state := st, q_finished_at := fin, q_latest := n\<rparr>"
    using assms unfolding series_kept_def series_evolves_def by blast
  moreover have "q_latest q' = q_latest q" using assms unfolding series_kept_def by blast
  ultimately show ?thesis by simp
qed

text \<open>
  The change an operation makes: every row of the jobs table moves along the row automaton
  or stays, every series evolves, and rows are only added at the end.
\<close>

definition evolves :: "db \<Rightarrow> db \<Rightarrow> bool" where
  "evolves db db' \<longleftrightarrow>
     (\<exists>f new. jobs db' = map f (jobs db) @ new \<and> (\<forall>r \<in> set (jobs db). job_steps r (f r))
        \<and> (\<forall>n \<in> set new. \<exists>fresh d s k. n = new_job fresh d s k))
   \<and> (\<exists>g new. series db' = map g (series db) @ new \<and> (\<forall>q \<in> set (series db). series_evolves q (g q)))"

lemma evolves_refl [simp]: "evolves db db"
  unfolding evolves_def by (auto intro!: exI [of _ id])

lemma evolvesI:
  assumes "jobs db' = map f (jobs db) @ new" "\<And>r. r \<in> set (jobs db) \<Longrightarrow> job_steps r (f r)"
    "\<And>n. n \<in> set new \<Longrightarrow> \<exists>fresh d s k. n = new_job fresh d s k"
    "series db' = map g (series db) @ newq" "\<And>q. q \<in> set (series db) \<Longrightarrow> series_evolves q (g q)"
  shows "evolves db db'"
  unfolding evolves_def using assms by blast

lemma inv_update:
  assumes inv: "inv db"
    and jobs: "jobs db' = map f (jobs db)" and series: "series db' = map g (series db)"
    and f: "\<And>r. r \<in> set (jobs db) \<Longrightarrow> job_steps r (f r)"
    and g: "\<And>q. q \<in> set (series db) \<Longrightarrow> series_kept q (g q)"
    and lv: "\<And>q r. q \<in> set (series db) \<Longrightarrow> r \<in> set (jobs db) \<Longrightarrow> latest_of q r \<Longrightarrow>
      (q_state (g q) = S_ACTIVE \<longrightarrow> live (j_state (f r)))
      \<and> (q_state (g q) \<in> {S_COMPLETED, S_FAILED} \<longrightarrow> \<not> live (j_state (f r)))"
  shows "inv db'"
  unfolding inv_def
proof (intro conjI ballI impI allI)
  note same = job_steps_same [OF f]
  have "map j_id (jobs db') = map j_id (jobs db)" using same by (auto simp: jobs same_job_def)
  then show "distinct (map j_id (jobs db'))" using invD(1) [OF inv] by simp
  have "map q_id (series db') = map q_id (series db)" using series_keptD [OF g] by (simp add: series)
  then show "distinct (map q_id (series db'))" using invD(2) [OF inv] by simp
next
  fix s s' assume "s \<in> set (jobs db')" "s' \<in> set (jobs db')" "rows_clash s s'"
  then obtain r r' where "s = f r" "s' = f r'" "r \<in> set (jobs db)" "r' \<in> set (jobs db)" by (auto simp: jobs)
  then show "s = s'" using invD(3) [OF inv] clash_back [OF f f] \<open>rows_clash s s'\<close> by blast
next
  fix s s' assume "s \<in> set (series db')" "s' \<in> set (series db')" "series_clash s s'"
  then obtain r r' where r: "s = g r" "s' = g r'" "r \<in> set (series db)" "r' \<in> set (series db)" by (auto simp: series)
  then have "series_clash r r'" using series_keptD [OF g, of r] series_keptD [OF g, of r'] \<open>series_clash s s'\<close>
    by (simp add: series_clash_def)
  then show "s = s'" using invD(4) [OF inv] r by blast
next
  fix s i assume "s \<in> set (jobs db')" "j_series s = Some i"
  then obtain r where "s = f r" "r \<in> set (jobs db)" "j_series r = Some i"
    using job_steps_same [OF f] by (auto simp: jobs same_job_def)
  then obtain q where "q \<in> set (series db)" "q_id q = i" using invD(5) [OF inv] by blast
  then show "\<exists>q \<in> set (series db'). q_id q = i" using series_keptD [OF g] by (force simp: series)
next
  fix s p assume sp: "s \<in> set (jobs db')" "p \<in> set (series db')" "j_series s = Some (q_id p)"
  then obtain r q where r: "s = f r" "r \<in> set (jobs db)" "p = g q" "q \<in> set (series db)" by (auto simp: jobs series)
  have eq: "j_series r = Some (q_id q)" "j_occurrence s = j_occurrence r" "q_latest p = q_latest q"
    using sp r job_steps_same [OF f [OF r(2)]] series_keptD [OF g [OF r(4)]] by (auto simp: same_job_def)
  show "\<exists>n. j_occurrence s = Some n \<and> 1 \<le> n \<and> n \<le> q_latest p \<and> (n < q_latest p \<longrightarrow> \<not> live (j_state s))"
    using invD(6) [OF inv r(2,4) eq(1)] job_steps_live [OF f [OF r(2)]] r(1) eq(2,3) by auto
next
  fix p assume "p \<in> set (series db')"
  then obtain q where q: "p = g q" "q \<in> set (series db)" by (auto simp: series)
  obtain r where r: "r \<in> set (jobs db)" "latest_of q r" using invD(7) [OF inv q(2)] by blast
  have "latest_of p (f r)"
    using r(2) q series_keptD [OF g [OF q(2)]] job_steps_same [OF f [OF r(1)]]
    by (simp add: latest_of_def same_job_def)
  then show "\<exists>s \<in> set (jobs db'). latest_of p s \<and> (q_state p = S_ACTIVE \<longrightarrow> live (j_state s))
      \<and> (q_state p \<in> {S_COMPLETED, S_FAILED} \<longrightarrow> \<not> live (j_state s))"
    using lv [OF q(2) r] r(1) q(1) by (intro bexI [of _ "f r"]) (auto simp: jobs)
next
  fix s assume "s \<in> set (jobs db')"
  then show "row_ok s" using f invD(8) [OF inv] job_steps_row_ok by (auto simp: jobs)
qed

text \<open>An operation's effect on a database that satisfies the invariant.\<close>

definition good :: "db \<Rightarrow> db \<Rightarrow> bool" where
  "good db db' \<longleftrightarrow> inv db' \<and> evolves db db'"

lemma good_refl [simp]: "good db db \<longleftrightarrow> inv db"
  by (simp add: good_def)

lemma good_update:
  assumes "inv db" "jobs db' = map f (jobs db)" "series db' = map g (series db)"
    and "\<And>r. r \<in> set (jobs db) \<Longrightarrow> job_steps r (f r)"
    and "\<And>q. q \<in> set (series db) \<Longrightarrow> series_kept q (g q)"
    and "\<And>q r. q \<in> set (series db) \<Longrightarrow> r \<in> set (jobs db) \<Longrightarrow> latest_of q r \<Longrightarrow>
      (q_state (g q) = S_ACTIVE \<longrightarrow> live (j_state (f r)))
      \<and> (q_state (g q) \<in> {S_COMPLETED, S_FAILED} \<longrightarrow> \<not> live (j_state (f r)))"
  shows "good db db'"
  unfolding good_def
proof
  show "inv db'" using assms by (rule inv_update)
  show "evolves db db'"
    by (rule evolvesI [where f = f and g = g and new = "[]" and newq = "[]"])
       (use assms in \<open>auto simp: series_kept_def\<close>)
qed

text \<open>Only job rows change, and no live occurrence of an active series is finished.\<close>

lemma good_jobs:
  assumes inv: "inv db" and eq: "jobs db' = map f (jobs db)" "series db' = series db"
    and f: "\<And>r. r \<in> set (jobs db) \<Longrightarrow> job_steps r (f r)"
    and lv: "\<And>r. r \<in> set (jobs db) \<Longrightarrow> live (j_state r) \<Longrightarrow> series_state_of db r = Some S_ACTIVE \<Longrightarrow> live (j_state (f r))"
  shows "good db db'"
proof (rule good_update [OF inv eq(1), where g = id])
  fix q r assume q: "q \<in> set (series db)" and r: "r \<in> set (jobs db)" and l: "latest_of q r"
  obtain r' where r': "r' \<in> set (jobs db)" "latest_of q r'" "q_state q = S_ACTIVE \<longrightarrow> live (j_state r')"
    "q_state q \<in> {S_COMPLETED, S_FAILED} \<longrightarrow> \<not> live (j_state r')" using invD(7) [OF inv q] by blast
  have [simp]: "r' = r" using latest_unique [OF inv r'(1) r r'(2) l] .
  have "series_state_of db r = Some (q_state q)" using series_state_of_in [OF inv q] l by (simp add: latest_of_def)
  then show "(q_state (id q) = S_ACTIVE \<longrightarrow> live (j_state (f r)))
      \<and> (q_state (id q) \<in> {S_COMPLETED, S_FAILED} \<longrightarrow> \<not> live (j_state (f r)))"
    using r' lv [OF r] job_steps_live [OF f [OF r]] by auto
qed (use f eq in auto)

text \<open>One row is changed.\<close>

lemma good_save:
  assumes "inv db" "j \<in> set (jobs db)" "job_step j j'"
    and "series_state_of db j = Some S_ACTIVE \<Longrightarrow> live (j_state j')"
  shows "good db (save_job j' db)"
proof -
  have id: "j_id j' = j_id j" using job_step_same [OF assms(3)] by (simp add: same_job_def)
  show ?thesis
    by (rule good_jobs [OF assms(1) save_job_map [OF assms(1,2) id]]) (use assms in auto)
qed

lemma good_update_jobs:
  assumes "inv db" "\<And>r. r \<in> set (jobs db) \<Longrightarrow> P r \<Longrightarrow> job_step r (f r)"
    "\<And>r. r \<in> set (jobs db) \<Longrightarrow> P r \<Longrightarrow> series_state_of db r = Some S_ACTIVE \<Longrightarrow> live (j_state (f r))"
  shows "good db (update_jobs P f db)"
  by (rule good_jobs [OF assms(1) update_jobs_simps]) (use assms in auto)

section \<open>Publication, admission and settlement\<close>

lemma mark_published_good:
  assumes "inv db" "c_settlement_status c \<noteq> Some (status_value DEAD_LETTERED)"
    "mark_published c now t db = Inr (u, db')"
  shows "good db db'"
proof -
  obtain i where db': "db' = update_jobs (\<lambda>r. j_id r = i \<and> j_generation r = c_generation c \<and> j_state r = CLAIMED)
      (\<lambda>r. let r1 = r\<lparr>j_state := PUBLISHED, j_reconciliation_due_at := Some t\<rparr>
            in if c_settlement_status c \<noteq> None then clear_settlement r1 else r1) db"
    using assms(2,3) by (auto simp: mark_published_def res_simps)
  show ?thesis
    unfolding db'
    by (rule good_update_jobs [OF assms(1)])
       (auto intro: job_step.publish job_step.publish_settled simp: Let_def simp del: status_value.simps)
qed

lemma mark_publish_indeterminate_good:
  assumes "inv db" "mark_publish_indeterminate c t db = Inr (u, db')"
  shows "good db db'"
proof -
  obtain i where db': "db' = update_jobs (\<lambda>r. j_id r = i \<and> j_generation r = c_generation c \<and> j_state r = CLAIMED)
         (\<lambda>r. r\<lparr>j_state := (if c_settlement_status c \<noteq> None then SETTLING else INDETERMINATE),
            j_reconciliation_due_at := Some t,
            j_indeterminate_reason := (if c_settlement_status c \<noteq> None then None
              else Some ''publication_acknowledgement'')\<rparr>) db"
    using assms(2) by (auto simp: mark_publish_indeterminate_def res_simps)
  show ?thesis
    unfolding db'
    by (rule good_update_jobs [OF assms(1)])
       (auto intro: job_step.unconfirmed job_step.unconfirmed_settlement simp: live_def)
qed

lemma lock_series_cases:
  assumes "inv db" "j \<in> set (jobs db)" "lock_series (j_series j) db = Inr s"
  shows "(s = None \<and> j_series j = None) \<or>
     (\<exists>q \<in> set (series db). s = Some q \<and> j_series j = Some (q_id q) \<and> series_state_of db j = Some (q_state q))"
proof (cases "j_series j")
  case None
  then show ?thesis using assms(3) by (simp add: lock_series_def)
next
  case (Some i)
  then obtain q where q: "find_series i db = Some q" "s = Some q"
    using assms(3) by (auto simp: lock_series_def split: option.splits)
  then show ?thesis using find_series_SomeD [OF q(1)] Some by (auto simp: series_state_of_def)
qed

lemma admit_locked_good:
  assumes "inv db" "m \<in> set (jobs db)" "lock_series (j_series m) db = Inr s"
    and due: "a_reconciliation_due_at a \<noteq> None"
    and res: "admit_locked now a s m db = (d, db')"
  shows "good db db'"
proof -
  consider "db' = db" | "db' = cancel_occurrence now m db" "live (j_state m)" "series_state_of db m = Some S_CANCELLED"
    | "db' = save_job (start_job now a m) db" "j_state m \<in> {CLAIMED, PUBLISHED, SETTLING, INDETERMINATE}"
      "a_generation a = j_generation m" "a_retry_count a = j_retry_count m"
    using res lock_series_cases [OF assms(1-3)] unfolding admit_locked_def
    by (auto simp: live_iff finished_def split: if_splits option.splits)
  then show ?thesis
  proof cases
    case 1
    then show ?thesis using assms(1) by simp
  next
    case 2
    then show ?thesis
      unfolding cancel_occurrence_def 2(1)
      by (intro good_save [OF assms(1,2) job_step.cancel]) (use 2 in auto)
  next
    case 3
    then show ?thesis
      unfolding 3(1) by (intro good_save [OF assms(1,2)] job_step.admit due) (use 3 in auto)
  qed
qed

lemma admit_delivery_good:
  assumes "inv db" "a_reconciliation_due_at a \<noteq> None" "admit_delivery now a db = Inr (d, db')"
  shows "good db db'"
proof -
  consider "db' = db" | m s where "m \<in> set (jobs db)" "lock_series (j_series m) db = Inr s"
      "admit_locked now a s m db = (d, db')"
    using assms(3) unfolding admit_delivery_def
    by (auto simp: res_simps split: option.splits dest: find_job_SomeD)
  then show ?thesis
  proof cases
    case 1
    then show ?thesis using assms(1) by simp
  next
    case 2
    then show ?thesis using admit_locked_good [OF assms(1) _ _ assms(2)] by blast
  qed
qed

lemma guarded_series_update_good:
  assumes inv: "inv db"
    and step: "\<And>r. r \<in> set (jobs db) \<Longrightarrow> filters r \<Longrightarrow> j_state r = st \<Longrightarrow> job_step r (values r) \<and> live (j_state (values r))"
    and live: "live st"
    and one: "\<And>r r'. filters r \<Longrightarrow> filters r' \<Longrightarrow> j_id r = j_id r'"
    and res: "guarded_series_update filters st values at db = Inr (n, db')"
  shows "good db db'"
proof (cases "find_job filters db")
  case None
  then show ?thesis using res inv by (simp add: guarded_series_update_def)
next
  case (Some snap)
  note snap = find_job_SomeD [OF Some]
  show ?thesis
  proof (cases "j_series snap")
    case None
    then have "db' = update_jobs (\<lambda>r. filters r \<and> j_state r = st) values db"
      using res Some by (simp add: guarded_series_update_def Let_def)
    then show ?thesis using step by (auto intro!: good_update_jobs [OF inv])
  next
    case (Some i)
    then obtain q where q: "find_series i db = Some q"
      using res \<open>find_job filters db = Some snap\<close> by (auto simp: guarded_series_update_def split: option.splits)
    show ?thesis
    proof (cases "find_job (\<lambda>r. filters r \<and> j_state r = st) db")
      case None
      then show ?thesis
        using res inv q Some \<open>find_job filters db = Some snap\<close> by (simp add: guarded_series_update_def)
    next
      case (Some occ)
      note occ = find_job_SomeD [OF this]
      have "occ = snap" using job_by_id [OF inv _ _ one] occ snap by blast
      then have st: "series_state_of db occ = Some (q_state q)"
        using q \<open>j_series snap = Some i\<close> by (simp add: series_state_of_def)
      have "db' = cancel_occurrence at occ db \<and> q_state q = S_CANCELLED \<or> db' = db
          \<or> db' = save_job (values occ) db"
        using res q Some \<open>find_job filters db = Some snap\<close> \<open>j_series snap = Some i\<close>
        by (auto simp: guarded_series_update_def split: if_splits)
      then show ?thesis
        using good_save [OF inv, of occ] occ st step live inv job_step.cancel [of occ at]
        by (auto simp: cancel_occurrence_def)
    qed
  qed
qed

lemma checkpoint_settlement_good:
  assumes "inv db" "checkpoint_settlement now s db = Inr (u, db')" shows "good db db'"
proof -
  obtain i n where g: "guarded_series_update (\<lambda>r. j_id r = i \<and> j_generation r = s_generation s
      \<and> j_retry_count r \<le> s_retry_count s \<and> j_max_retries r = Some (s_max_retries s))
         RUNNING (settle_job s) now db = Inr (n, db')"
    using assms(2) by (auto simp: checkpoint_settlement_def res_simps split: if_splits)
  show ?thesis
    by (rule guarded_series_update_good [OF assms(1) _ _ _ g])
       (auto intro: job_step.settle)
qed

lemma release_delivery_good:
  assumes "inv db" "release_delivery now rid gen t db = Inr (u, db')" shows "good db db'"
proof -
  obtain i n where g: "guarded_series_update (\<lambda>r. j_id r = i \<and> j_generation r = gen) RUNNING
         (\<lambda>j. j\<lparr>j_state := PUBLISHED, j_reconciliation_due_at := Some t, j_started_at := None\<rparr>)
         now db = Inr (n, db')"
    using assms(2) by (auto simp: release_delivery_def res_simps split: if_splits)
  show ?thesis
    by (rule guarded_series_update_good [OF assms(1) _ _ _ g]) (auto intro: job_step.release)
qed

section \<open>Finishing occurrences and series\<close>

lemma save_job_id:
  assumes "inv db" "j \<in> set (jobs db)" shows "save_job j db = db"
proof -
  have "map (\<lambda>r. if r = j then j else r) (jobs db) = jobs db" by (simp add: map_idI)
  then show ?thesis using save_job_map [OF assms refl] by (intro db.equality) simp_all
qed

lemma finish_series_map:
  assumes "inv db" "q \<in> set (series db)" "j \<in> set (jobs db)" "j_id j' = j_id j"
  shows "jobs (finish_series q st at (save_job j' db)) = map (\<lambda>r. if r = j then j' else r) (jobs db)"
    and "series (finish_series q st at (save_job j' db)) =
      map (\<lambda>p. if p = q then q\<lparr>q_state := st, q_finished_at := Some at\<rparr> else p) (series db)"
  using save_job_map [OF assms(1,3,4)] series_by_id [OF assms(1) _ assms(2)]
  by (auto simp: finish_series_def save_series_def)

lemma series_kept_finish:
  "q_state q = S_ACTIVE \<Longrightarrow> series_kept q (q\<lparr>q_state := st, q_finished_at := fin\<rparr>)"
proof -
  assume "q_state q = S_ACTIVE"
  moreover have "q\<lparr>q_state := st, q_finished_at := fin\<rparr> = q\<lparr>q_state := st, q_finished_at := fin, q_latest := q_latest q\<rparr>"
    by simp
  ultimately show ?thesis unfolding series_kept_def series_evolves_def by (metis order_refl series_row.select_convs(15)
      series_row.update_convs(14) series_row.update_convs(17) series_row.surjective)
qed

lemma good_finish_series:
  assumes inv: "inv db" and q: "q \<in> set (series db)" "q_state q = S_ACTIVE"
    and occ: "occ \<in> set (jobs db)" "j_series occ = Some (q_id q)" "live (j_state occ)"
    and step: "job_steps occ occ'" and st: "st \<noteq> S_ACTIVE" "st \<in> {S_COMPLETED, S_FAILED} \<longrightarrow> \<not> live (j_state occ')"
  shows "good db (finish_series q st at (save_job occ' db))"
proof -
  have id: "j_id occ' = j_id occ" using job_steps_same [OF step] by (simp add: same_job_def)
  have lat: "latest_of q occ" using live_is_latest [OF inv occ(1) q(1) occ(2,3)] .
  show ?thesis
  proof (rule good_update [OF inv finish_series_map [OF inv q(1) occ(1) id]])
    fix p r assume p: "p \<in> set (series db)" "r \<in> set (jobs db)" "latest_of p r"
    show "(q_state (if p = q then q\<lparr>q_state := st, q_finished_at := Some at\<rparr> else p) = S_ACTIVE
          \<longrightarrow> live (j_state (if r = occ then occ' else r)))
        \<and> (q_state (if p = q then q\<lparr>q_state := st, q_finished_at := Some at\<rparr> else p) \<in> {S_COMPLETED, S_FAILED}
          \<longrightarrow> \<not> live (j_state (if r = occ then occ' else r)))"
    proof (cases "p = q")
      case True
      then show ?thesis using latest_unique [OF inv p(2) occ(1)] p(3) lat st by auto
    next
      case False
      then have "r \<noteq> occ" using p(3) occ(2) series_by_id [OF inv p(1) q(1)] by (auto simp: latest_of_def)
      moreover obtain r' where "r' \<in> set (jobs db)" "latest_of p r'" "q_state p = S_ACTIVE \<longrightarrow> live (j_state r')"
        "q_state p \<in> {S_COMPLETED, S_FAILED} \<longrightarrow> \<not> live (j_state r')" using invD(7) [OF inv p(1)] by blast
      ultimately show ?thesis using False latest_unique [OF inv p(2) _ p(3)] by auto
    qed
  qed (use step q(2) series_kept_finish in auto)
qed

lemma good_dead_letter:
  assumes "inv db" "occ \<in> set (jobs db)" "lock_series (j_series occ) db = Inr s"
    "job_step occ occ'" "\<not> live (j_state occ')"
  shows "good db (fail_active_series s at (save_job occ' db))"
proof -
  have lv: "live (j_state occ)" using assms(4) by (rule job_step_live)
  have steps: "job_steps occ occ'" using assms(4) by blast
  consider "s = None" "j_series occ = None"
    | q where "q \<in> set (series db)" "s = Some q" "j_series occ = Some (q_id q)" "series_state_of db occ = Some (q_state q)"
    using lock_series_cases [OF assms(1-3)] by auto
  then show ?thesis
  proof cases
    case 1
    then show ?thesis
      using good_save [OF assms(1,2,4)] by (simp add: fail_active_series_def series_state_of_def)
  next
    case (2 q)
    show ?thesis
    proof (cases "q_state q = S_ACTIVE")
      case True
      then show ?thesis
        using good_finish_series [OF assms(1) 2(1) True assms(2) 2(3) lv steps] assms(5) 2(2)
        by (simp add: fail_active_series_def)
    next
      case False
      then show ?thesis using good_save [OF assms(1,2,4)] 2 by (simp add: fail_active_series_def)
    qed
  qed
qed

lemma finish_dead_letter_from_claim_good:
  assumes "inv db" "finish_dead_letter_from_claim c at db = Inr (u, db')" shows "good db db'"
proof -
  obtain i where i: "uuid_arg (c_id c) = Inr i" using assms(2) by (auto simp: finish_dead_letter_from_claim_def res_simps)
  let ?P = "\<lambda>r. j_id r = i \<and> j_generation r = c_generation c \<and> j_state r = CLAIMED"
  show ?thesis
  proof (cases "find_job ?P db")
    case None
    then show ?thesis
      using assms i by (auto simp: finish_dead_letter_from_claim_def res_simps split: option.splits)
  next
    case (Some occ)
    note occ = find_job_SomeD [OF Some]
    then have snap: "find_job (\<lambda>r. j_id r = i) db = Some occ" by (intro find_job_by_id [OF assms(1)]) auto
    show ?thesis
      using assms(2) i snap Some occ
      by (auto simp: finish_dead_letter_from_claim_def res_simps intro!: good_dead_letter [OF assms(1)]
          intro: job_step.dead_letter_claim)
  qed
qed

lemma finish_dead_letter_from_outcome_good:
  assumes "inv db" "finish_dead_letter_from_outcome now oc i g db = Inr (u, db')" shows "good db db'"
proof (cases "find_job (outcome_matches oc i g) db")
  case None
  then show ?thesis using assms by (simp add: finish_dead_letter_from_outcome_def)
next
  case (Some snap)
  note snap = find_job_SomeD [OF this]
  let ?P = "\<lambda>r. j_id r = i \<and> j_generation r = g \<and> j_state r = SETTLING"
  show ?thesis
  proof (cases "find_job ?P db")
    case None
    then show ?thesis using assms Some by (auto simp: finish_dead_letter_from_outcome_def res_simps)
  next
    case (Some occ)
    note occ = find_job_SomeD [OF this]
    have "snap = occ" using job_by_id [OF assms(1)] snap occ by (auto simp: outcome_matches_def)
    then show ?thesis
      using assms(2) \<open>find_job (outcome_matches oc i g) db = Some snap\<close> Some occ
      by (auto simp: finish_dead_letter_from_outcome_def res_simps intro!: good_dead_letter [OF assms(1)]
          intro: job_step.dead_letter)
  qed
qed

lemma apply_outcome_good:
  assumes "inv db" "o_status oc \<noteq> SUCCEEDED" "apply_outcome now oc t db = Inr (u, db')" shows "good db db'"
proof -
  consider "db' = db" | i g where "finish_dead_letter_from_outcome now oc i g db = Inr (u, db')"
    | i g n where "guarded_series_update (outcome_matches oc i g) SETTLING (republish_job oc t) now db = Inr (n, db')"
  proof (cases "\<exists>rid g i. o_record_id oc = Some rid \<and> o_generation oc = Some g \<and> uuid_arg rid = Inr i")
    case True
    then obtain rid g i where "o_record_id oc = Some rid" "o_generation oc = Some g" "uuid_arg rid = Inr i" by blast
    then show ?thesis
      using assms(2,3) that by (cases "o_status oc") (auto simp: apply_outcome_def bind_res_eq_Inr)
  next
    case False
    then show ?thesis using assms(3) that(1) by (auto simp: apply_outcome_def bind_res_eq_Inr split: option.splits)
  qed
  then show ?thesis
  proof cases
    case 1
    then show ?thesis using assms(1) by simp
  next
    case 2
    then show ?thesis using finish_dead_letter_from_outcome_good [OF assms(1)] by blast
  next
    case 3
    show ?thesis
      by (rule guarded_series_update_good [OF assms(1) _ _ _ 3])
         (auto simp: outcome_matches_def intro: job_step.republish)
  qed
qed

end
