(* ===== verification/JobSteps.thy ===== *)
theory JobSteps
  imports JobInvariant
begin

text \<open>
  The operations that add rows or sweep the table (scheduling, recurring completion,
  cancellation, claims), the transition system of the database and the invariants of its
  reachable states.
\<close>

section \<open>Adding rows\<close>

lemma insert_jobD:
  "insert_job j db = Inr db' \<Longrightarrow> jobs db' = jobs db @ [j] \<and> series db' = series db
     \<and> (\<forall>r \<in> set (jobs db). \<not> rows_clash r j)"
  by (auto simp: insert_job_def split: if_splits)

lemma insert_seriesD:
  "insert_series q db = Inr db' \<Longrightarrow> series db' = series db @ [q] \<and> jobs db' = jobs db
     \<and> (\<forall>r \<in> set (series db). \<not> series_clash r q)"
  by (auto simp: insert_series_def split: if_splits)

lemma rows_clash_sym: "rows_clash r j \<longleftrightarrow> rows_clash j r"
  by (auto simp: rows_clash_def)

lemma series_clash_sym: "series_clash q p \<longleftrightarrow> series_clash p q"
  by (auto simp: series_clash_def)

lemma inv_extend:
  assumes inv: "inv db"
    and jobs: "jobs db' = map f (jobs db) @ [n]" and series: "series db' = map g (series db) @ new"
    and f: "\<And>r. r \<in> set (jobs db) \<Longrightarrow> job_steps r (f r)"
    and fresh: "\<And>r. r \<in> set (jobs db) \<Longrightarrow> \<not> rows_clash (f r) n"
    and g: "\<And>q. q \<in> set (series db) \<Longrightarrow> q_id (g q) = q_id q \<and> q_idempotency_key (g q) = q_idempotency_key q"
    and new: "\<And>q p. q \<in> set (series db) \<Longrightarrow> p \<in> set new \<Longrightarrow> \<not> series_clash q p" "length new \<le> 1"
    and ok: "row_ok n"
    and fk: "\<And>i. j_series n = Some i \<Longrightarrow> \<exists>p \<in> set (series db'). q_id p = i"
    and occ: "\<And>r p. r \<in> set (jobs db') \<Longrightarrow> p \<in> set (series db') \<Longrightarrow> j_series r = Some (q_id p) \<Longrightarrow>
       \<exists>k. j_occurrence r = Some k \<and> 1 \<le> k \<and> k \<le> q_latest p \<and> (k < q_latest p \<longrightarrow> \<not> live (j_state r))"
    and lat: "\<And>p. p \<in> set (series db') \<Longrightarrow> \<exists>r \<in> set (jobs db'). latest_of p r
       \<and> (q_state p = S_ACTIVE \<longrightarrow> live (j_state r)) \<and> (q_state p \<in> {S_COMPLETED, S_FAILED} \<longrightarrow> \<not> live (j_state r))"
  shows "inv db'"
  unfolding inv_def
proof (intro conjI ballI impI allI)
  have "map j_id (map f (jobs db)) = map j_id (jobs db)"
    using job_steps_same [OF f] by (simp add: same_job_def)
  then have "distinct (map j_id (map f (jobs db)))" using invD(1) [OF inv] by (simp only:)
  moreover have "j_id n \<notin> set (map j_id (map f (jobs db)))" using fresh by (force simp: rows_clash_def)
  ultimately show "distinct (map j_id (jobs db'))" by (simp add: jobs)
  have "map q_id (map g (series db)) = map q_id (series db)" using g by simp
  then have "distinct (map q_id (map g (series db)))" using invD(2) [OF inv] by (simp only:)
  moreover have "q_id p \<notin> set (map q_id (map g (series db)))" if "p \<in> set new" for p
    using new(1) [OF _ that] g by (force simp: series_clash_def)
  ultimately show "distinct (map q_id (series db'))" using new(2) by (cases new) (auto simp: series)
next
  fix s s' assume s: "s \<in> set (jobs db')" "s' \<in> set (jobs db')" "rows_clash s s'"
  consider "s = n" "s' = n" | r where "r \<in> set (jobs db)" "s = f r" "s' = n"
    | r where "r \<in> set (jobs db)" "s' = f r" "s = n"
    | r r' where "r \<in> set (jobs db)" "r' \<in> set (jobs db)" "s = f r" "s' = f r'"
    using s(1,2) by (auto simp: jobs)
  then show "s = s'"
  proof cases
    case 4
    then show ?thesis using invD(3) [OF inv] clash_back [OF f f] s(3) by blast
  qed (use fresh s(3) rows_clash_sym in blast)+
next
  fix s s' assume s: "s \<in> set (series db')" "s' \<in> set (series db')" "series_clash s s'"
  have gc: "series_clash (g q) p \<longleftrightarrow> series_clash q p" if "q \<in> set (series db)" for q p
    using g [OF that] by (simp add: series_clash_def)
  consider "s \<in> set new" "s' \<in> set new" | q where "q \<in> set (series db)" "s = g q" "s' \<in> set new"
    | q where "q \<in> set (series db)" "s' = g q" "s \<in> set new"
    | q q' where "q \<in> set (series db)" "q' \<in> set (series db)" "s = g q" "s' = g q'"
    using s(1,2) by (auto simp: series)
  then show "s = s'"
  proof cases
    case 1
    then show ?thesis using new(2) by (cases new) auto
  next
    case 4
    then show ?thesis using invD(4) [OF inv] s(3) gc series_clash_sym by metis
  qed (use new(1) s(3) gc series_clash_sym in blast)+
next
  fix s i assume s: "s \<in> set (jobs db')" "j_series s = Some i"
  show "\<exists>q \<in> set (series db'). q_id q = i"
  proof (cases "s = n")
    case True
    then show ?thesis using fk s(2) by blast
  next
    case False
    then obtain r where "s = f r" "r \<in> set (jobs db)" using s(1) by (auto simp: jobs)
    then obtain q where "q \<in> set (series db)" "q_id q = i"
      using invD(5) [OF inv, of r] job_steps_same [OF f] s(2) by (auto simp: same_job_def)
    then show ?thesis using g by (force simp: series)
  qed
next
  fix s assume "s \<in> set (jobs db')"
  then show "row_ok s" using f invD(8) [OF inv] job_steps_row_ok ok by (auto simp: jobs)
qed (use occ lat in blast)+

lemma schedule_good:
  assumes "inv db" "schedule fresh d db = Inr (r, db')" shows "good db db'"
proof (cases "insert_job (new_job fresh d None None) db")
  case (Inl e)
  then have "db' = db" using assms(2) by (auto simp: schedule_def Let_def split: option.splits if_splits)
  then show ?thesis using assms(1) by simp
next
  case (Inr db1)
  then have [simp]: "db1 = db'" using assms(2) by (simp add: schedule_def Let_def)
  note ins = insert_jobD [OF Inr, simplified]
  have none: "j_series (new_job fresh d None None) = None" by (simp add: new_job_def)
  have "inv db'"
  proof (rule inv_extend [OF assms(1), where f = id and g = id and new = "[]"])
    fix s p assume sp: "s \<in> set (jobs db')" "p \<in> set (series db')" "j_series s = Some (q_id p)"
    then show "\<exists>k. j_occurrence s = Some k \<and> 1 \<le> k \<and> k \<le> q_latest p \<and> (k < q_latest p \<longrightarrow> \<not> live (j_state s))"
      using ins none invD(6) [OF assms(1)] by auto
  next
    fix p assume "p \<in> set (series db')"
    then show "\<exists>s \<in> set (jobs db'). latest_of p s \<and> (q_state p = S_ACTIVE \<longrightarrow> live (j_state s))
        \<and> (q_state p \<in> {S_COMPLETED, S_FAILED} \<longrightarrow> \<not> live (j_state s))"
      using ins invD(7) [OF assms(1), of p] by auto
  qed (use ins none new_job_row_ok in auto)
  moreover have "evolves db db'"
    by (rule evolvesI [where f = id and g = id and new = "[new_job fresh d None None]" and newq = "[]"]) (use ins in auto)
  ultimately show ?thesis by (simp add: good_def)
qed

lemma schedule_recurring_good:
  assumes inv: "inv db" and res: "schedule_recurring zones fs fj d db = Inr (r, db')"
  shows "good db db'"
proof -
  obtain z q where q: "new_series fs z d = Inr q" and
    rest: "(let occ = new_job fj (sd_first d) (Some fs) (Some 1) in
      case bind_res (insert_series q db) (insert_job occ) of
        Inr db' \<Rightarrow> Inr ((series_record_of q occ, record_of occ), db')
      | Inl e \<Rightarrow>
         (case sd_idempotency_key d of
            None \<Rightarrow> Inl e
          | Some key \<Rightarrow>
             (case find (\<lambda>s. q_idempotency_key s = Some key) (series db) of
                None \<Rightarrow> Inl DurableJobConflictError
              | Some s \<Rightarrow>
                  if q_fingerprint s \<noteq> sd_fingerprint d then Inl DurableJobConflictError
                  else (case find_job (\<lambda>r. j_series r = Some (q_id s) \<and> j_occurrence r = Some (q_latest s)) db of
                      None \<Rightarrow> Inl DoesNotExist
                    | Some o' \<Rightarrow> Inr ((series_record_of s o', record_of o'), db))))) = Inr (r, db')"
    using res unfolding schedule_recurring_def bind_res_eq_Inr by blast
  have q0: "q_id q = fs" "q_state q = S_ACTIVE" "q_latest q = 1" using q by (auto simp: new_series_def res_simps Let_def)
  let ?n = "new_job fj (sd_first d) (Some fs) (Some 1)"
  have n: "j_series ?n = Some fs" "j_occurrence ?n = Some 1" "j_state ?n = PENDING" by (simp_all add: new_job_def)
  show ?thesis
  proof (cases "bind_res (insert_series q db) (insert_job ?n)")
    case (Inl e)
    then have "db' = db" using rest by (auto simp: Let_def split: option.splits if_splits)
    then show ?thesis using inv by simp
  next
    case (Inr db2)
    then have [simp]: "db2 = db'" using rest by (simp add: Let_def)
    obtain db1 where i: "insert_series q db = Inr db1" "insert_job ?n db1 = Inr db'"
      using Inr by (auto simp: bind_res_eq_Inr)
    note ins = insert_seriesD [OF i(1)] insert_jobD [OF i(2)]
    have eq: "jobs db' = jobs db @ [?n]" "series db' = series db @ [q]" using ins by auto
    have old: "j_series s \<noteq> Some fs" if "s \<in> set (jobs db)" for s
      using invD(5) [OF inv that, of fs] ins(1) q0(1) by (auto simp: series_clash_def)
    have other: "q_id p \<noteq> fs" if "p \<in> set (series db)" for p
      using ins(1) q0(1) that by (auto simp: series_clash_def)
    have "inv db'"
    proof (rule inv_extend [OF inv, where f = id and g = id and new = "[q]"])
      fix s p assume sp: "s \<in> set (jobs db')" "p \<in> set (series db')" "j_series s = Some (q_id p)"
      show "\<exists>k. j_occurrence s = Some k \<and> 1 \<le> k \<and> k \<le> q_latest p \<and> (k < q_latest p \<longrightarrow> \<not> live (j_state s))"
      proof (cases "p = q")
        case True
        then show ?thesis using sp eq n q0 old by auto
      next
        case False
        then have p: "p \<in> set (series db)" using sp eq by auto
        then have "s \<noteq> ?n" using sp(3) n(1) other [OF p] by auto
        then have "s \<in> set (jobs db)" using sp(1) eq by auto
        then show ?thesis using invD(6) [OF inv _ p sp(3)] by blast
      qed
    next
      fix p assume p: "p \<in> set (series db')"
      show "\<exists>s \<in> set (jobs db'). latest_of p s \<and> (q_state p = S_ACTIVE \<longrightarrow> live (j_state s))
          \<and> (q_state p \<in> {S_COMPLETED, S_FAILED} \<longrightarrow> \<not> live (j_state s))"
      proof (cases "p = q")
        case True
        then show ?thesis using eq n q0 by (intro bexI [of _ ?n]) (auto simp: latest_of_def)
      next
        case False
        then show ?thesis using p eq invD(7) [OF inv, of p] by auto
      qed
    qed (use eq ins n q0 new_job_row_ok in auto)
    moreover have "evolves db db'"
      by (rule evolvesI [where f = id and g = id and new = "[?n]" and newq = "[q]"]) (use eq in auto)
    ultimately show ?thesis by (simp add: good_def)
  qed
qed

section \<open>Recurring completion and cancellation\<close>

lemma advance_good:
  assumes inv: "inv db" and q: "q \<in> set (series db)" "q_state q = S_ACTIVE"
    and occ: "occ \<in> set (jobs db)" "j_series occ = Some (q_id q)" "j_state occ = RUNNING"
    and res: "advance_series zones fresh fm q result at (save_job (succeed_job at occ) db) = Inr db'"
  shows "good db db'"
proof -
  let ?occ = "succeed_job at occ" and ?f = "\<lambda>r. if r = occ then succeed_job at occ else r"
  have step: "job_step occ ?occ" using occ(3) by (rule job_step.succeed)
  then have steps: "job_steps occ ?occ" by blast
  have id: "j_id ?occ = j_id occ" by (simp add: succeed_job_def)
  obtain nx where nx: "next_occurrence zones q result at = Inr nx"
    using res by (auto simp: advance_series_def res_simps)
  show ?thesis
  proof (cases nx)
    case None
    then have "db' = finish_series q S_COMPLETED at (save_job ?occ db)"
      using res nx by (simp add: advance_series_def)
    then show ?thesis using good_finish_series [OF inv q occ(1,2) _ steps] occ(3) by simp
  next
    case (Some t)
    let ?n = "new_job fresh (next_draft fm q at t) (Some (q_id q)) (Some (q_latest q + 1))"
    let ?g = "\<lambda>p. if p = q then q\<lparr>q_latest := q_latest q + 1\<rparr> else p"
    obtain db1 where db1: "insert_job ?n (save_job ?occ db) = Inr db1"
      and db': "db' = save_series (q\<lparr>q_latest := q_latest q + 1\<rparr>) db1"
      using res nx Some by (auto simp: advance_series_def res_simps)
    note ins = insert_jobD [OF db1] save_job_map [OF inv occ(1) id]
    have n: "j_series ?n = Some (q_id q)" "j_occurrence ?n = Some (q_latest q + 1)" "j_state ?n = PENDING"
      by (simp_all add: new_job_def)
    have jobs': "jobs db' = map ?f (jobs db) @ [?n]" using ins by (simp add: db' save_series_def)
    have series': "series db' = map ?g (series db)"
      using ins series_by_id [OF inv _ q(1)] by (auto simp: db' save_series_def)
    have f: "job_steps r (?f r)" for r using steps by auto
    have keep: "j_series (?f r) = j_series r" "j_occurrence (?f r) = j_occurrence r" for r
      by (simp_all add: succeed_job_def)
    have dead: "\<not> live (j_state (?f r))" if "r \<in> set (jobs db)" "j_series r = Some (q_id q)" for r
    proof (cases "r = occ")
      case False
      then show ?thesis
        using latest_unique [OF inv that(1) occ(1)] live_is_latest [OF inv that(1) q(1) that(2)]
          live_is_latest [OF inv occ(1) q(1) occ(2)] occ(3) by auto
    qed simp
    have g: "q_id (?g p) = q_id p" "q_state (?g p) = q_state p" for p using q(2) by auto
    have "inv db'"
    proof (rule inv_extend [OF inv jobs', where g = ?g and new = "[]"])
      fix r assume "r \<in> set (jobs db)"
      then show "\<not> rows_clash (?f r) ?n" using ins by auto
    next
      fix s p assume sp: "s \<in> set (jobs db')" "p \<in> set (series db')" "j_series s = Some (q_id p)"
      then obtain p0 where p0: "p0 \<in> set (series db)" "p = ?g p0" by (auto simp: series')
      show "\<exists>k. j_occurrence s = Some k \<and> 1 \<le> k \<and> k \<le> q_latest p \<and> (k < q_latest p \<longrightarrow> \<not> live (j_state s))"
      proof (cases "s = ?n")
        case True
        have "j_series s = Some (q_id q)" unfolding True by (rule n(1))
        moreover have "q_id p = q_id p0" unfolding p0(2) by (rule g(1))
        ultimately have "q_id p0 = q_id q" using sp(3) by (metis option.inject)
        then have "p0 = q" using series_by_id [OF inv p0(1) q(1)] by blast
        then show ?thesis using True p0(2) n(2) by simp
      next
        case False
        then obtain r where r: "r \<in> set (jobs db)" "s = ?f r" using sp(1) unfolding jobs' by auto
        have sr: "j_series r = Some (q_id p0)" using sp(3) keep [of r] g [of p0] p0(2) r(2) by simp
        obtain k where k: "j_occurrence r = Some k" "1 \<le> k" "k \<le> q_latest p0" "k < q_latest p0 \<longrightarrow> \<not> live (j_state r)"
          using invD(6) [OF inv r(1) p0(1) sr] by blast
        have "q_latest p0 \<le> q_latest p" using p0(2) by simp
        moreover have "k < q_latest p \<longrightarrow> \<not> live (j_state s)"
        proof (cases "p0 = q")
          case True
          then show ?thesis using dead [OF r(1)] sr r(2) by blast
        next
          case False
          then show ?thesis using k(4) job_steps_live [OF f, of r] r(2) p0(2) by auto
        qed
        ultimately show ?thesis using k keep [of r] r(2) by auto
      qed
    next
      fix p assume "p \<in> set (series db')"
      then obtain p0 where p0: "p0 \<in> set (series db)" "p = ?g p0" by (auto simp: series')
      show "\<exists>s \<in> set (jobs db'). latest_of p s \<and> (q_state p = S_ACTIVE \<longrightarrow> live (j_state s))
          \<and> (q_state p \<in> {S_COMPLETED, S_FAILED} \<longrightarrow> \<not> live (j_state s))"
      proof (cases "p0 = q")
        case True
        then have p: "p = q\<lparr>q_latest := q_latest q + 1\<rparr>" using p0(2) by simp
        have "latest_of p ?n" "live (j_state ?n)" "q_state p = S_ACTIVE" using n q(2) by (simp_all add: latest_of_def p)
        moreover have "?n \<in> set (jobs db')" by (simp add: jobs')
        ultimately show ?thesis by force
      next
        case False
        obtain r where r: "r \<in> set (jobs db)" "latest_of p0 r" "q_state p0 = S_ACTIVE \<longrightarrow> live (j_state r)"
          "q_state p0 \<in> {S_COMPLETED, S_FAILED} \<longrightarrow> \<not> live (j_state r)" using invD(7) [OF inv p0(1)] by blast
        have "r \<noteq> occ" using False r(2) occ(2) series_by_id [OF inv p0(1) q(1)] by (auto simp: latest_of_def)
        then show ?thesis using False p0(2) r by (intro bexI [of _ r]) (auto simp: jobs')
      qed
    qed (use f g series' q n new_job_row_ok in auto)
    moreover have "evolves db db'"
    proof (rule evolvesI [OF jobs', where g = ?g and newq = "[]"])
      have "series_evolves q (q\<lparr>q_latest := q_latest q + 1\<rparr>)"
      proof -
        have "q\<lparr>q_latest := q_latest q + 1\<rparr>
            = q\<lparr>q_state := q_state q, q_finished_at := q_finished_at q, q_latest := q_latest q + 1\<rparr>" by simp
        then show ?thesis unfolding series_evolves_def using q(2) by (metis le_add1)
      qed
      then show "series_evolves p (?g p)" for p by simp
    qed (use f series' in auto)
    ultimately show ?thesis by (simp add: good_def)
  qed
qed

lemma outcome_matches_id: "outcome_matches oc i g r \<Longrightarrow> j_id r = i"
  by (simp add: outcome_matches_def)

lemma complete_recurring_success_good:
  assumes inv: "inv db" and res: "complete_recurring_success zones fresh fm oc result at db = Inr (b, db')"
  shows "good db db'"
proof -
  consider "db' = db" | occ q where "occ \<in> set (jobs db)" "q \<in> set (series db)" "j_series occ = Some (q_id q)"
      "j_state occ = RUNNING" "q_state q \<noteq> S_ACTIVE" "db' = save_job (succeed_job at occ) db"
    | occ q where "occ \<in> set (jobs db)" "q \<in> set (series db)" "j_series occ = Some (q_id q)"
      "j_state occ = RUNNING" "q_state q = S_ACTIVE"
      "advance_series zones fresh fm q result at (save_job (succeed_job at occ) db) = Inr db'"
  proof (cases "db' = db")
    case True
    then show ?thesis by (rule that(1))
  next
    case ne: False
    obtain rid g where ids: "o_record_id oc = Some rid" "o_generation oc = Some g"
      using res ne by (auto simp: complete_recurring_success_def split: option.split_asm)
    obtain i where i: "uuid_arg rid = Inr i"
      using res ids by (auto simp: complete_recurring_success_def bind_res_eq_Inr)
    note body = res [unfolded complete_recurring_success_def ids, simplified, unfolded i, simplified]
    obtain occ where occ: "find_job (outcome_matches oc i g) db = Some occ" using body ne by (auto split: option.split_asm)
    obtain sid where sid: "j_series occ = Some sid" using body ne occ by (auto split: option.split_asm)
    obtain q where q: "find_series sid db = Some q" using body occ sid by (auto split: option.split_asm)
    note qm = find_series_SomeD [OF q]
    have st: "j_state occ = RUNNING" "result \<noteq> R_Other" using body ne occ sid q by (auto split: if_split_asm)
    show ?thesis
      using body occ sid q st qm find_job_SomeD [OF occ] that(2,3)
      by (cases "q_state q = S_ACTIVE") (auto simp: Let_def bind_res_eq_Inr)
  qed
  then show ?thesis
  proof cases
    case 1
    then show ?thesis using inv by simp
  next
    case (2 occ q)
    then show ?thesis
      unfolding 2(6) using series_state_of_in [OF inv 2(2,3)]
      by (intro good_save [OF inv 2(1)] job_step.succeed) auto
  next
    case (3 occ q)
    then show ?thesis using advance_good [OF inv] by blast
  qed
qed

text \<open>
  The controller records a success with \<open>apply_outcome\<close> only when the store said that the
  delivery does not belong to a series.
\<close>

lemma apply_success_good:
  assumes inv: "inv db" and no: "complete_recurring_success zones fresh fm oc result at db = Inr (False, db)"
    and st: "o_status oc = SUCCEEDED" and res: "apply_outcome now oc t db = Inr (u, db')"
  shows "good db db'"
proof (cases "\<exists>rid g i. o_record_id oc = Some rid \<and> o_generation oc = Some g \<and> uuid_arg rid = Inr i")
  case False
  then have "db' = db" using res by (auto simp: apply_outcome_def bind_res_eq_Inr split: option.splits)
  then show ?thesis using inv by simp
next
  case True
  then obtain rid g i where ids: "o_record_id oc = Some rid" "o_generation oc = Some g" "uuid_arg rid = Inr i" by blast
  have db': "db' = update_jobs (\<lambda>r. outcome_matches oc i g r \<and> j_state r = RUNNING) (succeed_job now) db"
    using res st ids by (simp add: apply_outcome_def)
  have "j_series r = None" if r: "r \<in> set (jobs db)" "outcome_matches oc i g r" for r
  proof -
    have "find_job (outcome_matches oc i g) db = Some r"
      using r outcome_matches_id by (intro find_job_by_id [OF inv]) (simp, simp, metis)
    then show ?thesis
      using no ids by (auto simp: complete_recurring_success_def bind_res_eq_Inr Let_def split: option.splits if_splits)
  qed
  then show ?thesis
    unfolding db' by (intro good_update_jobs [OF inv]) (auto intro: job_step.succeed simp: series_state_of_def)
qed

lemma save_swap: "save_job j (save_series q db) = save_series q (save_job j db)"
  by (simp add: save_job_def save_series_def)

lemma cancel_recurring_good:
  assumes inv: "inv db" and res: "cancel_recurring sid at db = Inr (r, db')"
  shows "good db db'"
proof -
  consider "db' = db" | q occ occ' where "q \<in> set (series db)" "occ \<in> set (jobs db)" "latest_of q occ"
      "q_state q = S_ACTIVE" "occ' = occ \<or> job_step occ occ'" "db' = finish_series q S_CANCELLED at (save_job occ' db)"
  proof -
    obtain i q occ where f: "find_series i db = Some q"
      "find_job (\<lambda>r. j_series r = Some (q_id q) \<and> j_occurrence r = Some (q_latest q)) db = Some occ"
      "uuid_parse sid = Some i"
      using res by (auto simp: cancel_recurring_def split: option.splits)
    note m = find_series_SomeD [OF f(1)] find_job_SomeD [OF f(2)]
    have lat: "latest_of q occ" using m by (simp add: latest_of_def)
    show ?thesis
    proof (cases "q_state q = S_ACTIVE")
      case False
      then show ?thesis using res f that(1) by (simp add: cancel_recurring_def)
    next
      case True
      show ?thesis
      proof (cases "j_state occ \<in> {PENDING, CLAIMED, PUBLISHED, SETTLING, INDETERMINATE}")
        case stop: True
        have "db' = finish_series q S_CANCELLED at (save_job (cancel_job at occ) db)"
          using res f True stop by (simp add: cancel_recurring_def Let_def save_swap finish_series_def)
        moreover have "job_step occ (cancel_job at occ)" using stop by (intro job_step.cancel) auto
        ultimately show ?thesis using that(2) m lat True by blast
      next
        case run: False
        have "db' = finish_series q S_CANCELLED at db"
          using res f True run by (simp add: cancel_recurring_def Let_def finish_series_def)
        then show ?thesis using that(2) m lat True save_job_id [OF inv] by metis
      qed
    qed
  qed
  then show ?thesis
  proof cases
    case 1
    then show ?thesis using inv by simp
  next
    case (2 q occ occ')
    have "live (j_state occ)"
      using invD(7) [OF inv 2(1)] latest_unique [OF inv _ 2(2) _ 2(3)] 2(4) by blast
    moreover have "job_steps occ occ'" using 2(5) by auto
    ultimately show ?thesis
      unfolding 2(6) using 2(3) by (intro good_finish_series [OF inv 2(1,4,2)]) (auto simp: latest_of_def)
  qed
qed

section \<open>Claims\<close>

text \<open>The two sweeps and the claim each change rows in place.\<close>

definition good_rows :: "db \<Rightarrow> db \<Rightarrow> bool" where
  "good_rows db db' \<longleftrightarrow> inv db' \<and> series db' = series db \<and>
     (\<exists>f. jobs db' = map f (jobs db) \<and> (\<forall>r \<in> set (jobs db). job_steps r (f r)))"

lemma good_rows_update:
  assumes "inv db" "\<And>r. r \<in> set (jobs db) \<Longrightarrow> P r \<Longrightarrow> job_step r (f r)"
    "\<And>r. r \<in> set (jobs db) \<Longrightarrow> P r \<Longrightarrow> series_state_of db r = Some S_ACTIVE \<Longrightarrow> live (j_state (f r))"
  shows "good_rows db (update_jobs P f db)"
proof -
  have "good db (update_jobs P f db)" by (rule good_update_jobs) (use assms in blast)+
  then have "inv (update_jobs P f db)" unfolding good_def by blast
  moreover have "job_steps r (if P r then f r else r)" if "r \<in> set (jobs db)" for r
    using assms(2) [OF that] by auto
  ultimately show ?thesis
    unfolding good_rows_def update_jobs_simps by blast
qed

lemma good_rows_trans: "good_rows db db1 \<Longrightarrow> good_rows db1 db2 \<Longrightarrow> good_rows db db2"
proof -
  assume a: "good_rows db db1" and b: "good_rows db1 db2"
  obtain f where f: "jobs db1 = map f (jobs db)" "\<forall>r \<in> set (jobs db). job_steps r (f r)"
    using a unfolding good_rows_def by blast
  obtain g where g: "jobs db2 = map g (jobs db1)" "\<forall>r \<in> set (jobs db1). job_steps r (g r)"
    using b unfolding good_rows_def by blast
  have "jobs db2 = map (g \<circ> f) (jobs db) \<and> (\<forall>r \<in> set (jobs db). job_steps r ((g \<circ> f) r))"
    using f g by (auto intro: rtranclp_trans)
  then show ?thesis using a b unfolding good_rows_def by auto
qed

lemma good_rows_good: "good_rows db db' \<Longrightarrow> good db db'"
  unfolding good_rows_def good_def evolves_def by (fastforce intro: exI [of _ id])

lemma sweep_good:
  assumes inv: "inv db" shows "good_rows db (sweep now db)"
proof -
  let ?db1 = "update_jobs (cancelled_reclaimable now db) (cancel_job now) db"
  have one: "good_rows db ?db1"
    by (rule good_rows_update [OF inv]) (auto simp: cancelled_reclaimable_def intro: job_step.cancel)
  then have inv1: "inv ?db1" by (simp add: good_rows_def)
  have "good_rows ?db1 (update_jobs (exhausted now ?db1) mark_exhausted ?db1)"
    by (rule good_rows_update [OF inv1])
       (auto simp: exhausted_def within_budget_def intro!: job_step.exhaust split: option.splits)
  with one show ?thesis unfolding sweep_def Let_def by (rule good_rows_trans)
qed

text \<open>After the sweeps a claimable running job has attempts left.\<close>

lemma sweep_series [simp]: "series (sweep now db) = series db"
  by (simp add: sweep_def Let_def)

lemma series_state_cong: "series db' = series db \<Longrightarrow> j_series r = j_series r' \<Longrightarrow>
    series_state_of db' r = series_state_of db r'"
  by (simp add: series_state_of_def find_series_def split: option.split)

lemma swept_budget:
  assumes "r \<in> set (jobs (sweep now db))" "j_state r = RUNNING" "due now r" "series_open (sweep now db) r"
  shows "within_budget r"
proof (rule ccontr)
  assume nb: "\<not> within_budget r"
  let ?db1 = "update_jobs (cancelled_reclaimable now db) (cancel_job now) db"
  obtain r0 where r0: "r0 \<in> set (jobs ?db1)" "r = (if exhausted now ?db1 r0 then mark_exhausted r0 else r0)"
    using assms(1) unfolding sweep_def Let_def update_jobs_simps(1) [of "exhausted now ?db1"] set_map by blast
  have r: "r = r0" "\<not> exhausted now ?db1 r0" using r0(2) assms(2) by (auto split: if_splits)
  have "series_open ?db1 r0"
    using assms(4) series_state_cong [of ?db1 "sweep now db" r0 r0] unfolding series_open_def r(1) by simp
  then have "exhausted now ?db1 r0"
    using assms(2,3) nb unfolding r(1) exhausted_def within_budget_def by (simp split: option.splits)
  then show False using r(2) by blast
qed

lemma first_job_SomeD: "first_job P db = Some j \<Longrightarrow> j \<in> set (jobs db) \<and> P j"
proof -
  assume "first_job P db = Some j"
  then obtain js where "sort_key (\<lambda>j. (j_created_at j, j_id j)) (filter P (jobs db)) = j # js"
    by (auto simp: first_job_def split: list.splits)
  then have "j \<in> set (filter P (jobs db))" by (metis list.set_intros(1) set_sort)
  then show ?thesis by simp
qed

lemma claimable_step:
  assumes "j \<in> set (jobs (sweep now db))" "claimable now (sweep now db) j"
  shows "job_step j (claim_job w t lease j)"
proof (rule job_step.claim)
  show "live (j_state j)" using assms(2) by (auto simp: claimable_def)
  show "j_state j = RUNNING \<longrightarrow> within_budget j"
    using assms swept_budget by (auto simp: claimable_def)
  show "j_state j = INDETERMINATE \<longrightarrow> j_reconciliation_due_at j \<noteq> None"
    using assms(2) by (auto simp: claimable_def due_def split: option.splits)
qed

lemma claim_next_good:
  assumes inv: "inv db" and res: "claim_next atomic w now lease db = Inr (c, db')"
  shows "good db db'"
proof -
  let ?db1 = "sweep now db"
  have sw: "good_rows db ?db1" using inv by (rule sweep_good)
  consider "db' = ?db1" | m where "first_job (claimable now ?db1) ?db1 = Some m"
      "db' = update_jobs (\<lambda>r. j_id r = j_id m \<and> j_state r = j_state m \<and> j_generation r = j_generation m)
        (claim_job w now lease) ?db1"
    using res by (auto simp: claim_next_def Let_def split: if_splits option.splits)
  then show ?thesis
  proof cases
    case 1
    then show ?thesis using good_rows_good [OF sw] by simp
  next
    case (2 m)
    note m = first_job_SomeD [OF 2(1)]
    have inv1: "inv ?db1" using sw by (simp add: good_rows_def)
    have "good_rows ?db1 db'"
      unfolding 2(2)
    proof (rule good_rows_update [OF inv1])
      fix r assume "r \<in> set (jobs ?db1)"
        "j_id r = j_id m \<and> j_state r = j_state m \<and> j_generation r = j_generation m"
      then have "r = m" using job_by_id [OF inv1, of r m] m by blast
      then show "job_step r (claim_job w now lease r)" using claimable_step m by blast
    qed simp
    then show ?thesis using good_rows_trans [OF sw] good_rows_good by blast
  qed
qed

section \<open>The transition system\<close>

text \<open>
  One step per operation that returns, as the runner and the controller of durable.py call
  them: an admission always carries a reconciliation time, and a success of an occurrence
  that belongs to a series goes through \<open>complete_recurring_success\<close>.
\<close>

inductive db_step :: "zones \<Rightarrow> db \<Rightarrow> db \<Rightarrow> bool" for zones where
  schedule: "schedule fresh d db = Inr (r, db') \<Longrightarrow> db_step zones db db'"
| schedule_recurring: "schedule_recurring zones fs fj d db = Inr (r, db') \<Longrightarrow> db_step zones db db'"
| cancel_recurring: "cancel_recurring sid at db = Inr (r, db') \<Longrightarrow> db_step zones db db'"
| claim_next: "claim_next atomic w now lease db = Inr (c, db') \<Longrightarrow> db_step zones db db'"
| mark_published: "mark_published c now t db = Inr (u, db') \<Longrightarrow> db_step zones db db'"
| mark_publish_indeterminate: "mark_publish_indeterminate c t db = Inr (u, db') \<Longrightarrow> db_step zones db db'"
| admit_delivery: "a_reconciliation_due_at a \<noteq> None \<Longrightarrow> admit_delivery now a db = Inr (d, db') \<Longrightarrow> db_step zones db db'"
| checkpoint_settlement: "checkpoint_settlement now s db = Inr (u, db') \<Longrightarrow> db_step zones db db'"
| release_delivery: "release_delivery now rid g t db = Inr (u, db') \<Longrightarrow> db_step zones db db'"
| apply_outcome: "o_status oc \<noteq> SUCCEEDED \<Longrightarrow> apply_outcome now oc t db = Inr (u, db') \<Longrightarrow> db_step zones db db'"
| complete_recurring: "complete_recurring_success zones fresh fm oc result at db = Inr (b, db') \<Longrightarrow> db_step zones db db'"
| complete_single: "complete_recurring_success zones fresh fm oc result at db = Inr (False, db) \<Longrightarrow>
     o_status oc = SUCCEEDED \<Longrightarrow> apply_outcome now oc t db = Inr (u, db') \<Longrightarrow> db_step zones db db'"

definition empty_db :: db where
  "empty_db = \<lparr>jobs = [], series = []\<rparr>"

definition reachable :: "zones \<Rightarrow> db \<Rightarrow> bool" where
  "reachable zones db \<longleftrightarrow> (db_step zones)\<^sup>*\<^sup>* empty_db db"

lemma inv_empty: "inv empty_db"
  by (simp add: inv_def empty_db_def)

lemma mark_published_any_good:
  "inv db \<Longrightarrow> mark_published c now t db = Inr (u, db') \<Longrightarrow> good db db'"
  using mark_published_good [of db c now t u db'] finish_dead_letter_from_claim_good [of db c now u db']
  by (cases "c_settlement_status c = Some (status_value DEAD_LETTERED)") (auto simp: mark_published_def)

lemma db_step_good: "db_step zones db db' \<Longrightarrow> inv db \<Longrightarrow> good db db'"
proof (induction rule: db_step.induct)
  case (mark_published c now t db u db')
  then show ?case by (simp add: mark_published_any_good)
qed (blast intro: schedule_good schedule_recurring_good cancel_recurring_good claim_next_good
      mark_publish_indeterminate_good admit_delivery_good checkpoint_settlement_good release_delivery_good
      apply_outcome_good complete_recurring_success_good apply_success_good)+

lemma db_steps_inv: "(db_step zones)\<^sup>*\<^sup>* db db' \<Longrightarrow> inv db \<Longrightarrow> inv db'"
  by (induction rule: rtranclp_induct) (auto dest: db_step_good simp: good_def)

lemma reachable_inv: "reachable zones db \<Longrightarrow> inv db"
  unfolding reachable_def using db_steps_inv inv_empty by blast

lemma evolves_job:
  assumes "evolves db db'" "r \<in> set (jobs db)" shows "\<exists>r' \<in> set (jobs db'). job_steps r r'"
  using assms unfolding evolves_def by fastforce

lemma evolves_series:
  assumes "evolves db db'" "q \<in> set (series db)" shows "\<exists>q' \<in> set (series db'). series_evolves q q'"
  using assms unfolding evolves_def by fastforce

lemma db_steps_job:
  assumes "(db_step zones)\<^sup>*\<^sup>* db db'" "inv db" "r \<in> set (jobs db)"
  shows "\<exists>r' \<in> set (jobs db'). job_steps r r'"
  using assms
proof (induction rule: rtranclp_induct)
  case (step db1 db2)
  then obtain r1 where r1: "r1 \<in> set (jobs db1)" "job_steps r r1" by blast
  have "good db1 db2" using db_step_good [OF step.hyps(2)] db_steps_inv [OF step.hyps(1)] step.prems(1) by blast
  then obtain r2 where "r2 \<in> set (jobs db2)" "job_steps r1 r2"
    using evolves_job r1(1) unfolding good_def by blast
  then show ?case using r1(2) rtranclp_trans [of job_step] by blast
qed auto

lemma series_evolves_closed: "series_evolves q q' \<Longrightarrow> q_state q \<noteq> S_ACTIVE \<Longrightarrow> q' = q"
  unfolding series_evolves_def by blast

lemma db_steps_closed_series:
  assumes "(db_step zones)\<^sup>*\<^sup>* db db'" "inv db" "q \<in> set (series db)" "q_state q \<noteq> S_ACTIVE"
  shows "q \<in> set (series db')"
  using assms
proof (induction rule: rtranclp_induct)
  case (step db1 db2)
  have "good db1 db2" using db_step_good [OF step.hyps(2)] db_steps_inv [OF step.hyps(1)] step.prems(1) by blast
  then show ?case
    using evolves_series [of db1 db2 q] series_evolves_closed step unfolding good_def by blast
qed auto

end
