(* ===== verification/JobProps.thy ===== *)
theory JobProps
  imports JobSteps
begin

text \<open>
  What the durable store guarantees in every database its operations can reach, and what
  each operation does on its branches.
\<close>

section \<open>Sample databases\<close>

definition run_db :: "(db \<Rightarrow> ('a \<times> db) res) \<Rightarrow> db \<Rightarrow> db" where
  "run_db f db = (case f db of Inl e \<Rightarrow> db | Inr (x, db') \<Rightarrow> db')"

lemma reachable_run:
  assumes "reachable zones db" "\<And>r db'. f db = Inr (r, db') \<Longrightarrow> db_step zones db db'"
  shows "reachable zones (run_db f db)"
  using assms unfolding reachable_def run_db_def
  by (auto split: sum.splits intro: rtranclp.rtrancl_into_rtrancl)

lemma reachable_empty: "reachable zones empty_db"
  by (simp add: reachable_def)

definition sample_draft :: draft where
  "sample_draft = \<lparr>d_message_id = ''m1'', d_message_type = ''mail.send'', d_version = 1,
     d_payload = PDict [(''to'', PStr ''x'')], d_headers = [(''tenant'', PStr ''t'')], d_created_at = 1000,
     d_available_at = 1000, d_queue = ''default'', d_fingerprint = ''f1'', d_idempotency_key = Some ''k1''\<rparr>"

definition sample_series :: series_draft where
  "sample_series = \<lparr>sd_first = sample_draft\<lparr>d_message_id := ''m2'', d_idempotency_key := None\<rparr>,
     sd_recurrence = \<lparr>rc_cadence = DAILY, rc_timezone = ''UTC'', rc_ends_at = None\<rparr>,
     sd_starts_at = at_utc 1000, sd_fingerprint = ''fs'', sd_idempotency_key = Some ''ks''\<rparr>"

definition single_db :: db where
  "single_db = run_db (schedule 5 sample_draft) empty_db"

definition series_db :: db where
  "series_db = run_db (schedule_recurring sample_zones 7 8 sample_series) empty_db"

definition claimed_db :: db where
  "claimed_db = run_db (claim_next False ''w'' 2000 3000) single_db"

definition sample_claim :: claim where
  "sample_claim = claim_from_record (record_of (hd (jobs claimed_db)))"

definition published_db :: db where
  "published_db = run_db (mark_published sample_claim 2100 9000) claimed_db"

definition sample_admission :: admission where
  "sample_admission = \<lparr>a_record_id = uuid_str 5, a_generation = 1, a_source_queue = ''default'',
     a_retry_count = 0, a_max_retries = 3, a_message_id = PStr ''m1'', a_message_type = PStr ''mail.send'',
     a_version = PInt 1, a_payload = PDict [(''to'', PStr ''x'')], a_headers = [(''tenant'', PStr ''t'')],
     a_last_attempt_at = None, a_admitted_at = Some 2200, a_reconciliation_due_at = Some 9100\<rparr>"

definition running_db :: db where
  "running_db = run_db (admit_delivery 2200 sample_admission) published_db"

definition sample_outcome :: "nat \<Rightarrow> string \<Rightarrow> delivery_status \<Rightarrow> outcome" where
  "sample_outcome i m st = \<lparr>o_status = st, o_message_id = PStr m, o_message_type = PStr ''mail.send'',
     o_version = PInt 1, o_source = ''default'', o_destination = None, o_retry_count = 0, o_max_retries = 3,
     o_record_id = Some (uuid_str i), o_generation = Some 1\<rparr>"

definition done_db :: db where
  "done_db = run_db (apply_outcome 2300 (sample_outcome 5 ''m1'' SUCCEEDED) 0) running_db"

definition cancelled_series_db :: db where
  "cancelled_series_db = run_db (cancel_recurring (uuid_str 7) 4000) series_db"

lemma sample_reachable:
  "reachable sample_zones single_db" "reachable sample_zones series_db" "reachable sample_zones claimed_db"
  "reachable sample_zones published_db" "reachable sample_zones running_db" "reachable sample_zones cancelled_series_db"
proof -
  show s: "reachable sample_zones single_db"
    unfolding single_db_def by (rule reachable_run [OF reachable_empty]) (rule db_step.schedule)
  show q: "reachable sample_zones series_db"
    unfolding series_db_def by (rule reachable_run [OF reachable_empty]) (rule db_step.schedule_recurring)
  show c: "reachable sample_zones claimed_db"
    unfolding claimed_db_def by (rule reachable_run [OF s]) (rule db_step.claim_next)
  show p: "reachable sample_zones published_db"
    unfolding published_db_def by (rule reachable_run [OF c]) (rule db_step.mark_published)
  show "reachable sample_zones running_db"
    unfolding running_db_def
    by (rule reachable_run [OF p], rule db_step.admit_delivery) (simp_all add: sample_admission_def)
  show "reachable sample_zones cancelled_series_db"
    unfolding cancelled_series_db_def by (rule reachable_run [OF q]) (rule db_step.cancel_recurring)
qed

text \<open>The rows these databases hold.\<close>

abbreviation row_new :: job_row where "row_new \<equiv> new_job 5 sample_draft None None"
abbreviation row_claimed :: job_row where "row_claimed \<equiv> claim_job ''w'' 2000 3000 row_new"
abbreviation row_published :: job_row where
  "row_published \<equiv> row_claimed\<lparr>j_state := PUBLISHED, j_reconciliation_due_at := Some 9000\<rparr>"
abbreviation row_running :: job_row where "row_running \<equiv> start_job 2200 sample_admission row_published"

lemmas op_defs = run_db_def schedule_def insert_job_def empty_db_def Let_def claim_next_def sweep_def
  update_jobs_def first_job_def count_jobs_def claimable_def cancelled_reclaimable_def exhausted_def
  series_open_def find_job_def find_series_def uuid_arg_def of_option_def

lemma row_fields:
  "j_id row_new = 5" "j_state row_new = PENDING" "j_generation row_new = 0" "j_series row_new = None"
  "j_available_at row_new = 1000" "j_settlement_status row_new = None"
  by (simp_all add: new_job_def sample_draft_def)

lemma single_db_rows: "single_db = \<lparr>jobs = [row_new], series = []\<rparr>"
  by (simp add: single_db_def op_defs)

lemma claimed_db_rows: "claimed_db = \<lparr>jobs = [row_claimed], series = []\<rparr>"
  by (simp add: claimed_db_def single_db_rows op_defs row_fields)

lemma sample_claim_fields:
  "c_id sample_claim = uuid_str 5" "c_generation sample_claim = 1" "c_settlement_status sample_claim = None"
  by (simp_all add: sample_claim_def claimed_db_rows claim_from_record_def record_of_def claim_job_def row_fields)

lemma published_db_rows: "published_db = \<lparr>jobs = [row_published], series = []\<rparr>"
  by (simp add: published_db_def claimed_db_rows mark_published_def sample_claim_fields op_defs)
     (simp add: claim_job_def row_fields)

lemma sample_admitted: "admit_delivery 2200 sample_admission published_db = Inr (PROCEED, \<lparr>jobs = [row_running], series = []\<rparr>)"
proof -
  have same: "same_message row_published sample_admission = Some True"
    by (simp add: same_message_def claim_job_def new_job_def sample_draft_def sample_admission_def
        dumps_serializable dict_wf_def)
  have "admit_locked 2200 sample_admission None row_published \<lparr>jobs = [row_published], series = []\<rparr>
      = (PROCEED, \<lparr>jobs = [row_running], series = []\<rparr>)"
    unfolding admit_locked_def same
    by (simp add: claim_job_def new_job_def sample_admission_def save_job_def start_job_def)
  moreover have "a_record_id sample_admission = uuid_str 5" by (simp add: sample_admission_def)
  moreover have "j_id row_published = 5" "j_series row_published = None" by (simp_all add: claim_job_def row_fields)
  ultimately show ?thesis
    by (simp add: published_db_rows admit_delivery_def find_job_def lock_series_def)
qed

lemma running_db_rows: "running_db = \<lparr>jobs = [row_running], series = []\<rparr>"
  by (simp add: running_db_def run_db_def sample_admitted)

lemma done_db_rows: "done_db = \<lparr>jobs = [succeed_job 2300 row_running], series = []\<rparr>"
proof -
  have "outcome_matches (sample_outcome 5 ''m1'' SUCCEEDED) 5 1 row_running"
    by (simp add: outcome_matches_def sample_outcome_def start_job_def claim_job_def new_job_def sample_draft_def)
  moreover have "o_status (sample_outcome 5 ''m1'' SUCCEEDED) = SUCCEEDED"
    "o_record_id (sample_outcome 5 ''m1'' SUCCEEDED) = Some (uuid_str 5)"
    "o_generation (sample_outcome 5 ''m1'' SUCCEEDED) = Some 1" by (simp_all add: sample_outcome_def)
  ultimately show ?thesis
    by (simp add: done_db_def running_db_rows run_db_def apply_outcome_def uuid_arg_def of_option_def update_jobs_def)
qed

definition sample_series_row :: series_row where
  "sample_series_row = projr (new_series 7 (fixed_zone 0) sample_series)"

lemma new_series_sample: "new_series 7 (fixed_zone 0) sample_series = Inr sample_series_row"
  by (simp add: sample_series_row_def new_series_def sample_series_def datetime_in_zone_def instant_of_def
      ranged_def in_range_def in_zone_def fixed_zone_def Let_def)

lemma new_series_fields:
  "new_series fresh z d = Inr q \<Longrightarrow> q_id q = fresh \<and> q_state q = S_ACTIVE \<and> q_latest q = 1"
  by (auto simp: new_series_def res_simps Let_def)

lemma sample_series_row_fields:
  "q_id sample_series_row = 7" "q_state sample_series_row = S_ACTIVE" "q_latest sample_series_row = 1"
  using new_series_fields [OF new_series_sample] by simp_all

abbreviation row_occurrence :: job_row where
  "row_occurrence \<equiv> new_job 8 (sd_first sample_series) (Some 7) (Some 1)"

lemma series_db_rows: "series_db = \<lparr>jobs = [row_occurrence], series = [sample_series_row]\<rparr>"
proof -
  have "sample_zones (rc_timezone (sd_recurrence sample_series)) = Some (fixed_zone 0)"
    by (simp add: sample_series_def sample_zones_def)
  then show ?thesis
    by (simp add: series_db_def run_db_def schedule_recurring_def of_option_def new_series_sample
        insert_series_def insert_job_def empty_db_def Let_def)
qed

lemma cancelled_series_db_rows:
  "cancelled_series_db = \<lparr>jobs = [cancel_job 4000 row_occurrence],
     series = [sample_series_row\<lparr>q_state := S_CANCELLED, q_finished_at := Some 4000\<rparr>]\<rparr>"
proof -
  have "j_series row_occurrence = Some 7" "j_occurrence row_occurrence = Some 1" "j_state row_occurrence = PENDING"
    "j_id row_occurrence = 8" "j_id (cancel_job 4000 row_occurrence) = 8"
    by (simp_all add: new_job_def cancel_job_def)
  then show ?thesis
    by (simp add: cancelled_series_db_def run_db_def cancel_recurring_def series_db_rows find_series_def find_job_def
        sample_series_row_fields save_series_def save_job_def Let_def)
qed

section \<open>Every reachable database\<close>

text \<open>
  C16. No operation ever leaves two rows that a unique constraint of the jobs table forbids
  (same key, message id or idempotency key, same occurrence of a series, two unfinished
  occurrences of one series), so no update can fail on them.
\<close>

theorem unique_constraints:
  assumes "reachable zones db" "r \<in> set (jobs db)" "r' \<in> set (jobs db)" "rows_clash r r'"
  shows "r = r'"
  using invD(3) [OF reachable_inv [OF assms(1)] assms(2-4)] .

theorem unique_constraints_witness:
  "rows_clash row_running row_running \<and> row_running = row_running"
proof -
  have "rows_clash row_running row_running" by (simp add: rows_clash_def)
  moreover have "row_running = row_running"
    by (rule unique_constraints [OF sample_reachable(5)]) (simp_all add: running_db_rows rows_clash_def)
  ultimately show ?thesis by blast
qed

text \<open>
  C7. An active series always has exactly one unfinished occurrence, and it is the latest:
  a series neither stalls nor runs two occurrences at once.
\<close>

theorem active_series_one_occurrence:
  assumes "reachable zones db" "q \<in> set (series db)" "q_state q = S_ACTIVE"
  shows "\<exists>r. {s \<in> set (jobs db). j_series s = Some (q_id q) \<and> live (j_state s)} = {r} \<and> j_occurrence r = Some (q_latest q)"
proof -
  have inv: "inv db" using assms(1) by (rule reachable_inv)
  obtain r where r: "r \<in> set (jobs db)" "latest_of q r" "live (j_state r)" using invD(7) [OF inv assms(2)] assms(3) by blast
  have "s = r" if "s \<in> set (jobs db)" "j_series s = Some (q_id q)" "live (j_state s)" for s
    by (rule invD(3) [OF inv that(1) r(1)]) (use that r(2,3) in \<open>simp add: rows_clash_def latest_of_def\<close>)
  then have "{s \<in> set (jobs db). j_series s = Some (q_id q) \<and> live (j_state s)} = {r}"
    using r unfolding latest_of_def by blast
  then show ?thesis using r(2) unfolding latest_of_def by blast
qed

theorem active_series_one_occurrence_witness:
  "\<exists>r. {s \<in> set (jobs series_db). j_series s = Some (q_id sample_series_row) \<and> live (j_state s)} = {r}
     \<and> j_occurrence r = Some (q_latest sample_series_row)"
  by (rule active_series_one_occurrence [OF sample_reachable(2)])
     (simp_all add: series_db_rows sample_series_row_fields)

text \<open>
  C9. A finished job is never touched again: whatever operations follow, with whatever stale
  claims, admissions or outcomes, its row stays as it is.
\<close>

theorem finished_job_frozen:
  assumes "reachable zones db" "(db_step zones)\<^sup>*\<^sup>* db db'" "r \<in> set (jobs db)" "finished (j_state r)"
  shows "r \<in> set (jobs db')"
  using db_steps_job [OF assms(2) reachable_inv [OF assms(1)] assms(3)] job_steps_finished assms(4) live_iff by metis

lemma done_reachable: "reachable sample_zones done_db"
proof -
  have "complete_recurring_success sample_zones 0 [] (sample_outcome 5 ''m1'' SUCCEEDED) R_None 0 running_db
      = Inr (False, running_db)"
    by (simp add: complete_recurring_success_def running_db_rows sample_outcome_def uuid_arg_def of_option_def
        find_job_def outcome_matches_def start_job_def claim_job_def new_job_def sample_draft_def)
  then show ?thesis
    unfolding done_db_def
    by (intro reachable_run [OF sample_reachable(5)] db_step.complete_single) (auto simp: sample_outcome_def)
qed

theorem finished_job_frozen_witness:
  "succeed_job 2300 row_running \<in> set (jobs (run_db (schedule 9 sample_draft) done_db))"
proof (rule finished_job_frozen [OF done_reachable])
  show "(db_step sample_zones)\<^sup>*\<^sup>* done_db (run_db (schedule 9 sample_draft) done_db)"
    unfolding run_db_def by (auto split: sum.splits intro: db_step.schedule)
qed (simp_all add: done_db_rows finished_def)

text \<open>
  C18. A job keeps its identity, message, payload and place in its series for ever, and its
  generation never decreases.
\<close>

theorem job_identity_stable:
  assumes "reachable zones db" "(db_step zones)\<^sup>*\<^sup>* db db'" "r \<in> set (jobs db)"
  shows "\<exists>r' \<in> set (jobs db'). same_job r r' \<and> j_generation r \<le> j_generation r'"
  using db_steps_job [OF assms(2) reachable_inv [OF assms(1)] assms(3)] job_steps_same job_steps_generation by blast

theorem job_identity_stable_witness:
  "\<exists>r' \<in> set (jobs claimed_db). same_job row_new r' \<and> j_generation row_new \<le> j_generation r'"
proof (rule job_identity_stable [OF sample_reachable(1)])
  show "(db_step sample_zones)\<^sup>*\<^sup>* single_db claimed_db"
    unfolding claimed_db_def run_db_def by (auto split: sum.splits intro: db_step.claim_next)
qed (simp add: single_db_rows)

definition operator_hold :: "job_row \<Rightarrow> bool" where
  "operator_hold j \<longleftrightarrow> (j_state j = INDETERMINATE \<and> j_reconciliation_due_at j = None \<or> j_state j = RUNNING) \<and> \<not> within_budget j"

text \<open>
  C10. No job is lost: an unfinished job of an open series (or of none) becomes claimable
  from some time on, unless its last attempt left the handler outcome unknown.
\<close>

theorem unfinished_job_claimable:
  assumes "reachable zones db" "r \<in> set (jobs db)" "live (j_state r)" "series_open db r" "\<not> operator_hold r"
  shows "\<exists>t. \<forall>now \<ge> t. claimable now db r"
proof -
  have ok: "row_ok r" using invD(8) [OF reachable_inv [OF assms(1)] assms(2)] .
  have lease: "j_state r = CLAIMED \<longrightarrow> j_lease_expires_at r \<noteq> None"
    and rec: "j_state r \<in> {PUBLISHED, RUNNING, SETTLING} \<longrightarrow> j_reconciliation_due_at r \<noteq> None"
    and ind: "j_state r = INDETERMINATE \<longrightarrow> j_reconciliation_due_at r \<noteq> None \<or> \<not> within_budget r"
    using ok unfolding row_ok_def by blast+
  let ?t = "max (j_available_at r) (max (case j_lease_expires_at r of None \<Rightarrow> 0 | Some t \<Rightarrow> t + 1)
      (case j_reconciliation_due_at r of None \<Rightarrow> 0 | Some t \<Rightarrow> t))"
  have "claimable now db r" if now: "?t \<le> now" for now
  proof -
    have "j_state r = CLAIMED \<Longrightarrow> lease_expired now r" using lease now by (auto simp: lease_expired_def)
    moreover have "j_state r \<in> {PUBLISHED, RUNNING, SETTLING, INDETERMINATE} \<Longrightarrow> due now r"
      using rec ind now assms(5) by (auto simp: due_def operator_hold_def)
    ultimately show ?thesis using assms(3,4) now by (cases "j_state r") (auto simp: claimable_def)
  qed
  then show ?thesis by blast
qed

theorem unfinished_job_claimable_witness: "\<exists>t. \<forall>now \<ge> t. claimable now published_db row_published"
  by (rule unfinished_job_claimable [OF sample_reachable(4)])
     (simp_all add: published_db_rows series_open_def operator_hold_def claim_job_def row_fields)

section \<open>Operations\<close>

lemma first_job_None: "first_job P db = None \<longleftrightarrow> (\<forall>r \<in> set (jobs db). \<not> P r)"
proof -
  have "sort_key (\<lambda>j. (j_created_at j, j_id j)) (filter P (jobs db)) = [] \<longleftrightarrow> filter P (jobs db) = []"
    by (metis length_0_conv length_sort)
  then show ?thesis by (auto simp: first_job_def filter_empty_conv split: list.splits)
qed

lemma first_job_min:
  assumes "first_job P db = Some j" "r \<in> set (jobs db)" "P r"
  shows "(j_created_at j, j_id j) \<le> (j_created_at r, j_id r)"
proof -
  let ?k = "\<lambda>j. (j_created_at j, j_id j)" and ?xs = "filter P (jobs db)"
  obtain js where js: "sort_key ?k ?xs = j # js" using assms(1) by (auto simp: first_job_def split: list.splits)
  have "sorted (map ?k (j # js))" using sorted_sort_key [of ?k ?xs] js by simp
  moreover have "r \<in> set (j # js)" using assms(2,3) js set_sort [of ?k ?xs] by auto
  ultimately show ?thesis by auto
qed

lemma count_one:
  assumes "inv db" "m \<in> set (jobs db)" "P m" "\<And>r. P r \<Longrightarrow> j_id r = j_id m"
  shows "count_jobs P db = 1"
proof -
  have "distinct (jobs db)" using invD(1) [OF assms(1)] by (simp add: distinct_map)
  then have "length (filter P (jobs db)) = card (set (filter P (jobs db)))" by (metis distinct_card distinct_filter)
  also have "set (filter P (jobs db)) = {m}"
  proof -
    have "r = m" if "r \<in> set (jobs db)" "P r" for r using job_by_id [OF assms(1) that(1) assms(2) assms(4) [OF that(2)]] .
    then have "set (filter P (jobs db)) \<subseteq> {m}" unfolding set_filter by blast
    moreover have "m \<in> set (filter P (jobs db))" using assms(2,3) by simp
    ultimately show ?thesis by blast
  qed
  finally show ?thesis by (simp add: count_jobs_def)
qed

text \<open>
  C11. A claim takes the oldest claimable job: some job is handed out exactly when one is
  claimable after the sweeps; it is the first by creation time and id; its generation grows
  by one; and a running job is retried only while it has attempts left, each retry counting.
\<close>

theorem claim_takes_oldest:
  assumes "reachable zones db"
  shows "(\<forall>r \<in> set (jobs (sweep now db)). \<not> claimable now (sweep now db) r) \<and>
      claim_next False w now lease db = Inr (None, sweep now db)
    \<or> (\<exists>m \<in> set (jobs (sweep now db)). claimable now (sweep now db) m \<and>
        (\<forall>r \<in> set (jobs (sweep now db)). claimable now (sweep now db) r \<longrightarrow>
           (j_created_at m, j_id m) \<le> (j_created_at r, j_id r)) \<and>
        (j_state m = RUNNING \<longrightarrow> within_budget m) \<and>
        claim_next False w now lease db = Inr (Some (claim_from_record (record_of (claim_job w now lease m))),
          save_job (claim_job w now lease m) (sweep now db)) \<and>
        j_generation (claim_job w now lease m) = j_generation m + 1 \<and>
        j_retry_count (claim_job w now lease m) = (if j_state m = RUNNING then j_retry_count m + 1 else j_retry_count m))"
proof (cases "first_job (claimable now (sweep now db)) (sweep now db)")
  case None
  then have "\<forall>r \<in> set (jobs (sweep now db)). \<not> claimable now (sweep now db) r" using first_job_None by blast
  moreover have "claim_next False w now lease db = Inr (None, sweep now db)"
    using None by (simp add: claim_next_def Let_def)
  ultimately show ?thesis by blast
next
  case (Some m)
  let ?db = "sweep now db" and ?P = "\<lambda>r. j_id r = j_id m \<and> j_state r = j_state m \<and> j_generation r = j_generation m"
  have inv: "inv ?db" using sweep_good [OF reachable_inv [OF assms]] by (simp add: good_rows_def)
  note m = first_job_SomeD [OF Some]
  have P: "?P r \<longleftrightarrow> j_id r = j_id m" if "r \<in> set (jobs ?db)" for r using job_by_id [OF inv that, of m] m by auto
  have one: "count_jobs ?P ?db = 1" by (rule count_one [OF inv, of m]) (use m in auto)
  have "update_jobs ?P (claim_job w now lease) ?db = save_job (claim_job w now lease m) ?db"
  proof -
    have "j_id (claim_job w now lease m) = j_id m" by (simp add: claim_job_def Let_def)
    then have "map (\<lambda>r. if ?P r then claim_job w now lease r else r) (jobs ?db)
        = map (\<lambda>r. if j_id r = j_id (claim_job w now lease m) then claim_job w now lease m else r) (jobs ?db)"
      using P job_by_id [OF inv, of _ m] m by (intro map_cong refl) (metis (no_types, lifting))
    then show ?thesis by (simp add: update_jobs_def save_job_def)
  qed
  then have eq: "claim_next False w now lease db = Inr (Some (claim_from_record (record_of (claim_job w now lease m))),
      save_job (claim_job w now lease m) ?db)"
    using Some one by (simp add: claim_next_def Let_def)
  have "j_state m = RUNNING \<longrightarrow> within_budget m" using swept_budget m by (auto simp: claimable_def)
  moreover have "j_generation (claim_job w now lease m) = j_generation m + 1"
    "j_retry_count (claim_job w now lease m) = (if j_state m = RUNNING then j_retry_count m + 1 else j_retry_count m)"
    by (simp_all add: claim_job_def Let_def)
  ultimately show ?thesis using m eq first_job_min [OF Some] by blast
qed

theorem claim_takes_oldest_witness: "\<exists>c db'. claim_next False ''w'' 2000 3000 single_db = Inr (Some c, db')"
proof -
  have "sweep 2000 single_db = single_db"
    by (simp add: sweep_def single_db_rows op_defs row_fields)
  then have "claimable 2000 (sweep 2000 single_db) row_new" "row_new \<in> set (jobs (sweep 2000 single_db))"
    by (simp_all add: single_db_rows claimable_def series_open_def row_fields)
  then show ?thesis
    using claim_takes_oldest [OF sample_reachable(1), of 2000 "''w''" 3000] by blast
qed

lemma find_job_same_id:
  assumes "inv db" "m \<in> set (jobs db)" shows "find_job (\<lambda>r. j_id r = j_id m) db = Some m"
  by (rule find_job_by_id [OF assms]) auto

lemma admit_delivery_eq:
  assumes "inv db" "m \<in> set (jobs db)" "uuid_parse (a_record_id a) = Some (j_id m)"
  shows "\<exists>s. lock_series (j_series m) db = Inr s \<and> admit_delivery now a db = Inr (admit_locked now a s m db)"
proof -
  have "\<exists>s. lock_series (j_series m) db = Inr s"
  proof (cases "j_series m")
    case None
    then show ?thesis by (simp add: lock_series_def)
  next
    case (Some i)
    then obtain q where "q \<in> set (series db)" "q_id q = i" using invD(5) [OF assms(1,2)] by blast
    then show ?thesis using find_series_in [OF assms(1)] Some by (auto simp: lock_series_def)
  qed
  then show ?thesis using assms(3) find_job_same_id [OF assms(1,2)] by (auto simp: admit_delivery_def)
qed

lemma admitted_row:
  assumes "inv db" "a_reconciliation_due_at a \<noteq> None" "admit_delivery now a db = Inr (PROCEED, db')"
  shows "\<exists>m \<in> set (jobs db). uuid_parse (a_record_id a) = Some (j_id m) \<and> a_generation a = j_generation m
    \<and> inv db' \<and> start_job now a m \<in> set (jobs db')"
proof -
  have inv': "inv db'" using admit_delivery_good [OF assms] by (simp add: good_def)
  obtain m where m: "m \<in> set (jobs db)" "uuid_parse (a_record_id a) = Some (j_id m)"
    using assms(3) by (auto simp: admit_delivery_def split: option.splits dest: find_job_SomeD)
  obtain s where s: "admit_locked now a s m db = (PROCEED, db')"
    using admit_delivery_eq [OF assms(1) m, of now] assms(3) by auto
  then have db': "db' = save_job (start_job now a m) db" and g: "a_generation a = j_generation m"
    by (auto simp: admit_locked_def split: if_splits option.splits)
  have f: "j_id (start_job now a m) = j_id m" by (simp add: start_job_def)
  have "start_job now a m \<in> set (jobs db')" using save_job_map(1) [OF assms(1) m(1) f] m(1) by (force simp: db')
  then show ?thesis using inv' m g by blast
qed

lemma dropped_if_taken:
  assumes "inv db" "r \<in> set (jobs db)" "uuid_parse (a_record_id a) = Some (j_id r)"
    and "a_generation a < j_generation r \<or> a_generation a = j_generation r \<and> (j_state r = RUNNING \<or> finished (j_state r))"
  shows "admit_delivery now a db = Inr (DROP, db)"
  using admit_delivery_eq [OF assms(1,2,3), of now] assms(4) by (auto simp: admit_locked_def finished_def)

text \<open>
  C8. A delivery runs at most once. After an admission let a handler start, the record is running
  and a second admission of it at the same or an earlier generation is dropped and changes
  nothing; so is every later one, whatever happened to the database meanwhile, while the record
  is running or finished or once it was claimed again. Only when its handler's delivery was
  released or settled, without finishing the job, is the same generation admitted again.
\<close>

theorem admission_exclusive:
  assumes "reachable zones db" "a_reconciliation_due_at a \<noteq> None" "admit_delivery now a db = Inr (PROCEED, db')"
    and "uuid_parse (a_record_id a') = uuid_parse (a_record_id a)" "a_generation a' \<le> a_generation a"
  shows "admit_delivery now' a' db' = Inr (DROP, db')
    \<and> (\<forall>later r. (db_step zones)\<^sup>*\<^sup>* db' later \<and> r \<in> set (jobs later) \<and> uuid_parse (a_record_id a) = Some (j_id r)
        \<and> (j_state r = RUNNING \<or> finished (j_state r) \<or> a_generation a < j_generation r)
      \<longrightarrow> admit_delivery now' a' later = Inr (DROP, later))"
proof -
  obtain m where m: "m \<in> set (jobs db)" "uuid_parse (a_record_id a) = Some (j_id m)" "a_generation a = j_generation m"
    "inv db'" "start_job now a m \<in> set (jobs db')"
    using admitted_row [OF reachable_inv [OF assms(1)] assms(2,3)] by blast
  have f: "j_id (start_job now a m) = j_id m" "j_generation (start_job now a m) = j_generation m"
    by (simp_all add: start_job_def)
  have dropped: "admit_delivery now' a' later = Inr (DROP, later)"
    if steps: "(db_step zones)\<^sup>*\<^sup>* db' later" and r: "r \<in> set (jobs later)" "uuid_parse (a_record_id a) = Some (j_id r)"
      and taken: "j_state r = RUNNING \<or> finished (j_state r) \<or> a_generation a < j_generation r" for later r
  proof -
    have inv: "inv later" using db_steps_inv [OF steps m(4)] .
    obtain s where s: "s \<in> set (jobs later)" "job_steps (start_job now a m) s" using db_steps_job [OF steps m(4,5)] by blast
    have "s = r" using job_by_id [OF inv s(1) r(1)] job_steps_same [OF s(2)] r(2) m(2) f(1) by (simp add: same_job_def)
    then have "a_generation a \<le> j_generation r" using job_steps_generation [OF s(2)] m(3) f(2) by simp
    then show ?thesis using assms(4,5) taken by (intro dropped_if_taken [OF inv r(1)]) (use r(2) in auto)
  qed
  have "admit_delivery now' a' db' = Inr (DROP, db')"
    by (rule dropped [OF rtranclp.rtrancl_refl m(5)]) (simp_all add: m(2) f(1))
  then show ?thesis using dropped by blast
qed

theorem admission_exclusive_witness:
  "admit_delivery 5000 sample_admission running_db = Inr (DROP, running_db)"
  using admission_exclusive [OF sample_reachable(4) _ sample_admitted [folded running_db_rows], of sample_admission 5000]
  by (simp add: sample_admission_def)

text \<open>
  C12. A delivery of an earlier generation than the stored one (its lease expired and the job
  was claimed again) is dropped without any change.
\<close>

theorem stale_delivery_dropped:
  assumes "reachable zones db" "m \<in> set (jobs db)" "uuid_parse (a_record_id a) = Some (j_id m)"
    and "a_generation a < j_generation m"
  shows "admit_delivery now a db = Inr (DROP, db)"
  using admit_delivery_eq [OF reachable_inv [OF assms(1)] assms(2,3), of now] assms(4) by (auto simp: admit_locked_def)

theorem stale_delivery_dropped_witness:
  "admit_delivery 0 (sample_admission\<lparr>a_generation := 0\<rparr>) running_db = Inr (DROP, running_db)"
  by (rule stale_delivery_dropped [OF sample_reachable(5), of row_running])
     (simp_all add: running_db_rows sample_admission_def start_job_def claim_job_def row_fields)

text \<open>
  C13. A runner that lost its lease cannot overwrite the state of the job: once another claim
  raised the generation, its late \<open>mark_published\<close> and \<open>mark_publish_indeterminate\<close> change nothing.
\<close>

theorem stale_claim_harmless:
  assumes "reachable zones db" "m \<in> set (jobs db)" "uuid_parse (c_id c) = Some (j_id m)"
    and "c_generation c < j_generation m"
  shows "mark_published c now t db = Inr ((), db) \<and> mark_publish_indeterminate c t db = Inr ((), db)"
proof -
  have inv: "inv db" using assms(1) by (rule reachable_inv)
  let ?P = "\<lambda>r. j_id r = j_id m \<and> j_generation r = c_generation c \<and> j_state r = CLAIMED"
  have none: "\<not> ?P r" if "r \<in> set (jobs db)" for r using job_by_id [OF inv that assms(2)] assms(4) by auto
  have upd: "update_jobs ?P f db = db" for f
  proof -
    have "map (\<lambda>r. if ?P r then f r else r) (jobs db) = jobs db" by (rule map_idI) (use none in meson)
    then show ?thesis by (simp add: update_jobs_def)
  qed
  have "find_job ?P db = None" using none by (auto simp: find_job_def find_None_iff)
  moreover obtain s where "lock_series (j_series m) db = Inr s"
    using admit_delivery_eq [OF inv assms(2), of "sample_admission\<lparr>a_record_id := c_id c\<rparr>" 0] assms(3) by auto
  ultimately have "finish_dead_letter_from_claim c now db = Inr ((), db)"
    using assms(3) find_job_same_id [OF inv assms(2)]
    by (simp add: finish_dead_letter_from_claim_def uuid_arg_def of_option_def)
  then show ?thesis
    using upd assms(3) by (simp add: mark_published_def mark_publish_indeterminate_def uuid_arg_def of_option_def)
qed

theorem stale_claim_harmless_witness:
  "mark_published (sample_claim\<lparr>c_generation := 0\<rparr>) 0 0 published_db = Inr ((), published_db)"
proof -
  have "mark_published (sample_claim\<lparr>c_generation := 0\<rparr>) 0 0 published_db = Inr ((), published_db)
      \<and> mark_publish_indeterminate (sample_claim\<lparr>c_generation := 0\<rparr>) 0 published_db = Inr ((), published_db)"
    by (rule stale_claim_harmless [OF sample_reachable(4), of row_published])
       (simp_all add: published_db_rows sample_claim_fields claim_job_def row_fields)
  then show ?thesis by blast
qed

lemma find_append: "find P (xs @ ys) = (case find P xs of None \<Rightarrow> find P ys | Some x \<Rightarrow> Some x)"
  by (induction xs) auto

text \<open>
  C15. Scheduling is idempotent by key: after a job was scheduled under a key, scheduling
  under that key again returns the same record and stores nothing, and a different job under
  that key is refused.
\<close>

theorem schedule_idempotent:
  assumes "schedule fresh d db = Inr (r, db')" "d_idempotency_key d = Some key" "d_idempotency_key d' = Some key"
  shows "schedule fresh' d' db' =
    (if d_fingerprint d' = d_fingerprint d then Inr (r, db') else Inl DurableJobConflictError)"
proof -
  obtain m where m: "find_job (\<lambda>r. j_idempotency_key r = Some key) db' = Some m" "r = record_of m"
    "j_fingerprint m = d_fingerprint d"
  proof (cases "insert_job (new_job fresh d None None) db")
    case (Inl e)
    then show ?thesis
      using assms(1,2) that by (auto simp: schedule_def Let_def split: option.splits if_splits)
  next
    case (Inr db1)
    note ins = insert_jobD [OF Inr]
    have [simp]: "db' = db1" "r = record_of (new_job fresh d None None)"
      using assms(1) Inr by (simp_all add: schedule_def Let_def)
    have key: "j_idempotency_key (new_job fresh d None None) = Some key" using assms(2) by (simp add: new_job_def)
    have "find (\<lambda>r. j_idempotency_key r = Some key) (jobs db) = None"
      using ins key by (auto simp: find_None_iff rows_clash_def)
    then have "find_job (\<lambda>r. j_idempotency_key r = Some key) db' = Some (new_job fresh d None None)"
      using ins key by (simp add: find_job_def find_append)
    then show ?thesis using that by (simp add: new_job_def)
  qed
  have "m \<in> set (jobs db') \<and> j_idempotency_key m = Some key" using find_job_SomeD [OF m(1)] .
  then have "insert_job (new_job fresh' d' None None) db' = Inl IntegrityError"
    using assms(3) by (auto simp: insert_job_def rows_clash_def new_job_def)
  then show ?thesis using m assms(3) by (simp add: schedule_def)
qed

theorem schedule_idempotent_witness:
  "schedule 6 sample_draft single_db = Inr (record_of row_new, single_db)"
proof -
  have "schedule 5 sample_draft empty_db = Inr (record_of row_new, single_db)"
    by (simp add: schedule_def insert_job_def empty_db_def single_db_rows Let_def)
  then show ?thesis
    using schedule_idempotent [of 5 sample_draft empty_db "record_of row_new" single_db "''k1''" sample_draft 6]
    by (simp add: sample_draft_def)
qed

text \<open>
  C14. Cancelling a series is final: a series that is no longer active never changes again, so
  no occurrence is added, and no later delivery of any of its occurrences starts a handler.
\<close>

theorem closed_series_never_runs:
  assumes "reachable zones db" "q \<in> set (series db)" "q_state q \<noteq> S_ACTIVE" "(db_step zones)\<^sup>*\<^sup>* db db'"
  shows "q \<in> set (series db') \<and>
    (\<forall>m \<in> set (jobs db'). \<forall>a now. j_series m = Some (q_id q) \<and> uuid_parse (a_record_id a) = Some (j_id m) \<longrightarrow>
       (\<forall>db2. admit_delivery now a db' \<noteq> Inr (PROCEED, db2)))"
proof -
  have inv: "inv db" using assms(1) by (rule reachable_inv)
  have inv': "inv db'" using db_steps_inv [OF assms(4) inv] .
  have q: "q \<in> set (series db')" using db_steps_closed_series [OF assms(4) inv assms(2,3)] .
  have "admit_delivery now a db' \<noteq> Inr (PROCEED, db2)"
    if m: "m \<in> set (jobs db')" "j_series m = Some (q_id q)" "uuid_parse (a_record_id a) = Some (j_id m)" for m a now db2
  proof -
    have "lock_series (j_series m) db' = Inr (Some q)"
      using find_series_in [OF inv' q] m(2) by (simp add: lock_series_def)
    then have "admit_delivery now a db' = Inr (admit_locked now a (Some q) m db')"
      using admit_delivery_eq [OF inv' m(1,3), of now] by auto
    then show ?thesis using assms(3) by (auto simp: admit_locked_def)
  qed
  then show ?thesis using q by blast
qed

theorem closed_series_never_runs_witness:
  "\<forall>now db2. admit_delivery now (sample_admission\<lparr>a_record_id := uuid_str 8\<rparr>) cancelled_series_db \<noteq> Inr (PROCEED, db2)"
proof -
  let ?q = "sample_series_row\<lparr>q_state := S_CANCELLED, q_finished_at := Some 4000\<rparr>"
  have "j_series (cancel_job 4000 row_occurrence) = Some 7" "j_id (cancel_job 4000 row_occurrence) = 8"
    by (simp_all add: cancel_job_def new_job_def)
  moreover have "uuid_parse (a_record_id (sample_admission\<lparr>a_record_id := uuid_str 8\<rparr>)) = Some 8" by simp
  ultimately show ?thesis
    using closed_series_never_runs [OF sample_reachable(6), of ?q cancelled_series_db]
    by (simp add: cancelled_series_db_rows sample_series_row_fields)
qed

end
