(* ===== verification/Controller.thy ===== *)
theory Controller
  imports JobProps Retries
begin

text \<open>
  The runner, the controller and the poller of durable.py. They work against the protocols
  \<open>DurableJobStore\<close> and \<open>JobSeriesStore\<close>, a record of operations here, so that a store other
  than the Django one can be plugged in; an operation returns or raises, together with the
  store afterwards. \<open>now\<close> arguments are the clock readings of the call.
\<close>

section \<open>The store protocol\<close>

record 's store_ops =
  so_schedule :: "draft \<Rightarrow> 's \<Rightarrow> job_record res \<times> 's"
  so_claim :: "string \<Rightarrow> instant \<Rightarrow> instant \<Rightarrow> 's \<Rightarrow> claim option res \<times> 's"
  so_mark_published :: "claim \<Rightarrow> instant \<Rightarrow> instant \<Rightarrow> 's \<Rightarrow> unit res \<times> 's"
  so_mark_publish_indeterminate :: "claim \<Rightarrow> instant \<Rightarrow> instant \<Rightarrow> 's \<Rightarrow> unit res \<times> 's"
  so_admit_delivery :: "instant \<Rightarrow> admission \<Rightarrow> 's \<Rightarrow> decision res \<times> 's"
  so_checkpoint_settlement :: "instant \<Rightarrow> settlement \<Rightarrow> 's \<Rightarrow> unit res \<times> 's"
  so_release_delivery :: "instant \<Rightarrow> string \<Rightarrow> int \<Rightarrow> instant \<Rightarrow> 's \<Rightarrow> unit res \<times> 's"
  so_apply_outcome :: "instant \<Rightarrow> outcome \<Rightarrow> instant \<Rightarrow> 's \<Rightarrow> unit res \<times> 's"
  so_complete_recurring :: "(outcome \<Rightarrow> completion \<Rightarrow> instant \<Rightarrow> 's \<Rightarrow> bool res \<times> 's) option"

definition atomic_op :: "(db \<Rightarrow> ('a \<times> db) res) \<Rightarrow> db \<Rightarrow> 'a res \<times> db" where
  "atomic_op f db = (case f db of Inl e \<Rightarrow> (Inl e, db) | Inr (a, db') \<Rightarrow> (Inr a, db'))"

text \<open>The Django store as an instance; \<open>fresh\<close> and \<open>fresh_message\<close> draw the ids of new rows.\<close>

definition django_store :: "zones \<Rightarrow> bool \<Rightarrow> (db \<Rightarrow> nat) \<Rightarrow> (db \<Rightarrow> string) \<Rightarrow> db store_ops" where
  "django_store zones in_atomic fresh fresh_message = \<lparr>
     so_schedule = (\<lambda>d db. atomic_op (schedule (fresh db) d) db),
     so_claim = (\<lambda>w now lease. atomic_op (claim_next in_atomic w now lease)),
     so_mark_published = (\<lambda>c now t. atomic_op (mark_published c now t)),
     so_mark_publish_indeterminate = (\<lambda>c now t. atomic_op (mark_publish_indeterminate c t)),
     so_admit_delivery = (\<lambda>now a. atomic_op (admit_delivery now a)),
     so_checkpoint_settlement = (\<lambda>now s. atomic_op (checkpoint_settlement now s)),
     so_release_delivery = (\<lambda>now rid g t. atomic_op (release_delivery now rid g t)),
     so_apply_outcome = (\<lambda>now oc t. atomic_op (apply_outcome now oc t)),
     so_complete_recurring = Some (\<lambda>oc r t db.
       atomic_op (complete_recurring_success zones (fresh db) (fresh_message db) oc r t) db)\<rparr>"

section \<open>The runner\<close>

text \<open>
  \<open>publisher\<close> sends an envelope to a queue; \<open>'p\<close> is whatever it acts on. Every failure after
  the claim leaves the delivery indeterminate.
\<close>

type_synonym 'p publisher = "message_envelope \<Rightarrow> string \<Rightarrow> 'p \<Rightarrow> unit res \<times> 'p"

definition run_once ::
    "'s store_ops \<Rightarrow> 'p publisher \<Rightarrow> policy \<Rightarrow> string \<Rightarrow> string \<Rightarrow> instant \<Rightarrow> instant \<Rightarrow> 's \<times> 'p
      \<Rightarrow> claim option res \<times> ('s \<times> 'p)" where
  "run_once S publisher pol worker_id fresh now later = (\<lambda>(s, p).
     (case so_claim S worker_id now (now + lease_duration pol) s of
        (Inl e, s1) \<Rightarrow> (Inl e, (s1, p))
      | (Inr None, s1) \<Rightarrow> (Inr None, (s1, p))
      | (Inr (Some c), s1) \<Rightarrow>
         (case publisher (delivery_envelope fresh now c) (c_queue c) p of
            (Inl e, p1) \<Rightarrow>
              (Inl IndeterminateDeliveryError,
               (snd (so_mark_publish_indeterminate S c now (later + reconciliation_delay pol) s1), p1))
          | (Inr _, p1) \<Rightarrow>
              (case so_mark_published S c later (later + reconciliation_delay pol) s1 of
                 (Inl e, s2) \<Rightarrow> (Inl IndeterminateDeliveryError, (s2, p1))
               | (Inr _, s2) \<Rightarrow> (Inr (Some c), (s2, p1))))))"

text \<open>\<open>DurableJobPoller.listen_once\<close> is one run; it waits when nothing was claimed.\<close>

definition poll_once ::
    "'s store_ops \<Rightarrow> 'p publisher \<Rightarrow> policy \<Rightarrow> string \<Rightarrow> string \<Rightarrow> instant \<Rightarrow> instant \<Rightarrow> 's \<times> 'p
      \<Rightarrow> claim option res \<times> bool \<times> ('s \<times> 'p)" where
  "poll_once S publisher pol worker_id fresh now later st =
     (let (r, st') = run_once S publisher pol worker_id fresh now later st in (r, r = Inr None, st'))"

section \<open>The controller\<close>

definition parse_last_attempt :: "pyval \<Rightarrow> instant option res" where
  "parse_last_attempt v = (case v of
     PNone \<Rightarrow> Inr None
   | PStr s \<Rightarrow> (case fromisoformat s of None \<Rightarrow> Inl ValueError
       | Some d \<Rightarrow> if is_aware d then Inr (Some (utc_of d)) else Inl ValueError)
   | _ \<Rightarrow> Inl ValueError)"

definition admission_of ::
    "policy \<Rightarrow> instant \<Rightarrow> message_envelope \<Rightarrow> string \<Rightarrow> int \<Rightarrow> int \<Rightarrow> string \<times> int \<Rightarrow> instant option \<Rightarrow> admission" where
  "admission_of pol now e source_queue retry_count max_retries ident last_at = \<lparr>
     a_record_id = fst ident, a_generation = snd ident, a_source_queue = source_queue,
     a_retry_count = retry_count, a_max_retries = max_retries, a_message_id = message_id e,
     a_message_type = message_type e, a_version = version e, a_payload = payload e,
     a_headers = application_headers e, a_last_attempt_at = last_at, a_admitted_at = Some now,
     a_reconciliation_due_at = Some (now + reconciliation_delay pol)\<rparr>"

definition admit ::
    "'s store_ops \<Rightarrow> policy \<Rightarrow> instant \<Rightarrow> message_envelope \<Rightarrow> string \<Rightarrow> int \<Rightarrow> int \<Rightarrow> 's
      \<Rightarrow> decision option res \<times> 's" where
  "admit S pol now e source_queue retry_count max_retries s =
     (case identity e of
        Inl x \<Rightarrow> (Inl x, s)
      | Inr None \<Rightarrow> (Inr None, s)
      | Inr (Some ident) \<Rightarrow>
          if message_kind e \<noteq> PStr ''command'' then (Inl ValueError, s)
          else (case parse_last_attempt (py_get (env_headers e) ''last_attempt'') of
             Inl x \<Rightarrow> (Inl x, s)
           | Inr last_at \<Rightarrow>
              (case so_admit_delivery S now
                  (admission_of pol now e source_queue retry_count max_retries ident last_at) s of
                 (Inl x, s') \<Rightarrow> (Inl x, s') | (Inr d, s') \<Rightarrow> (Inr (Some d), s'))))"

definition checkpoint ::
    "'s store_ops \<Rightarrow> policy \<Rightarrow> instant \<Rightarrow> message_envelope \<Rightarrow> delivery_status \<Rightarrow> string \<Rightarrow> string option
      \<Rightarrow> int \<Rightarrow> int \<Rightarrow> instant option \<Rightarrow> 's \<Rightarrow> unit res \<times> 's" where
  "checkpoint S pol now e status source dest retry_count max_retries last_at s =
     (case identity e of
        Inl x \<Rightarrow> (Inl x, s)
      | Inr None \<Rightarrow> (Inr (), s)
      | Inr (Some (rid, g)) \<Rightarrow> so_checkpoint_settlement S now
          \<lparr>s_record_id = rid, s_generation = g, s_status = status, s_source = source, s_destination = dest,
           s_retry_count = retry_count, s_max_retries = max_retries,
           s_reconciliation_due_at = now + reconciliation_delay pol, s_last_attempt_at = last_at\<rparr> s)"

definition release_claim ::
    "'s store_ops \<Rightarrow> policy \<Rightarrow> instant \<Rightarrow> message_envelope \<Rightarrow> 's \<Rightarrow> unit res \<times> 's" where
  "release_claim S pol now e s =
     (case identity e of
        Inl x \<Rightarrow> (Inl x, s)
      | Inr None \<Rightarrow> (Inr (), s)
      | Inr (Some (rid, g)) \<Rightarrow> so_release_delivery S now rid g (now + reconciliation_delay pol) s)"

definition controller_apply ::
    "'s store_ops \<Rightarrow> policy \<Rightarrow> instant \<Rightarrow> outcome \<Rightarrow> 's \<Rightarrow> unit res \<times> 's" where
  "controller_apply S pol now oc s =
     (if o_record_id oc \<noteq> None then so_apply_outcome S now oc (now + reconciliation_delay pol) s
      else (Inr (), s))"

definition complete_success ::
    "'s store_ops \<Rightarrow> policy \<Rightarrow> instant \<Rightarrow> outcome \<Rightarrow> completion \<Rightarrow> instant \<Rightarrow> 's \<Rightarrow> unit res \<times> 's" where
  "complete_success S pol now oc result completed_at s =
     (let (handled, s1) = (case so_complete_recurring S of
            None \<Rightarrow> (Inr False, s) | Some f \<Rightarrow> f oc result completed_at s) in
      case handled of
        Inl x \<Rightarrow> (Inl x, s1)
      | Inr True \<Rightarrow> (Inr (), s1)
      | Inr False \<Rightarrow>
          if (case result of R_Recurrence r \<Rightarrow> True | _ \<Rightarrow> False) then (Inl InvalidMessageDefinitionError, s1)
          else controller_apply S pol now oc s1)"

section \<open>The contract of a store\<close>

text \<open>
  What runner and controller need of a store: a state invariant all operations keep, and that
  a claim names its record and a positive generation.
\<close>

locale job_store =
  fixes S :: "'s store_ops" and ok :: "'s \<Rightarrow> bool"
  assumes claim_ok: "ok s \<Longrightarrow> ok (snd (so_claim S w now lease s))"
    and claim_named: "ok s \<Longrightarrow> so_claim S w now lease s = (Inr (Some c), s') \<Longrightarrow> c_id c \<noteq> [] \<and> 1 \<le> c_generation c"
    and published_ok: "ok s \<Longrightarrow> ok (snd (so_mark_published S c now t s))"
    and indeterminate_ok: "ok s \<Longrightarrow> ok (snd (so_mark_publish_indeterminate S c now t s))"
    and admit_ok: "ok s \<Longrightarrow> a_reconciliation_due_at a \<noteq> None \<Longrightarrow> ok (snd (so_admit_delivery S now a s))"
    and checkpoint_ok: "ok s \<Longrightarrow> ok (snd (so_checkpoint_settlement S now st s))"
    and release_ok: "ok s \<Longrightarrow> ok (snd (so_release_delivery S now rid g t s))"
begin

lemma run_once_ok:
  assumes "ok s" "run_once S pub pol w fresh now later (s, p) = (r, (s', p'))" shows "ok s'"
proof -
  obtain cr s1 where c: "so_claim S w now (now + lease_duration pol) s = (cr, s1)" by fastforce
  then have "ok s1" using claim_ok [OF assms(1), of w now "now + lease_duration pol"] by simp
  then show ?thesis
    using assms(2) c published_ok [of s1] indeterminate_ok [of s1]
    by (auto simp: run_once_def split: sum.splits option.splits prod.splits) (metis snd_conv)+
qed

text \<open>
  Whatever happens, at most one envelope leaves, it carries the identity of the claim, and a
  result is reported only when it was published.
\<close>

lemma run_once_publishes:
  assumes "ok s" "run_once S pub pol w fresh now later (s, p) = (r, (s', p'))"
  shows "p' = p \<and> (\<forall>c. r \<noteq> Inr (Some c)) \<or>
    (\<exists>c x. identity (delivery_envelope fresh now c) = Inr (Some (c_id c, c_generation c))
       \<and> pub (delivery_envelope fresh now c) (c_queue c) p = (x, p')
       \<and> (r = Inr (Some c) \<and> x = Inr () \<or> r = Inl IndeterminateDeliveryError))"
proof -
  obtain cr s1 where c: "so_claim S w now (now + lease_duration pol) s = (cr, s1)" by fastforce
  show ?thesis
  proof (cases "\<exists>cl. cr = Inr (Some cl)")
    case False
    then show ?thesis using assms(2) c by (auto simp: run_once_def split: sum.splits option.splits)
  next
    case True
    then obtain cl where cl: "so_claim S w now (now + lease_duration pol) s = (Inr (Some cl), s1)" using c by auto
    obtain x p1 where x: "pub (delivery_envelope fresh now cl) (c_queue cl) p = (x, p1)" by fastforce
    have "identity (delivery_envelope fresh now cl) = Inr (Some (c_id cl, c_generation cl))"
      using claim_named [OF assms(1) cl] identity_delivery_envelope by blast
    moreover have "p' = p1 \<and> (r = Inr (Some cl) \<and> x = Inr () \<or> r = Inl IndeterminateDeliveryError)"
      using assms(2) cl x by (auto simp: run_once_def split: sum.splits prod.splits)
    ultimately show ?thesis using x by blast
  qed
qed

end

end
