(* ===== verification/DurableFlow.thy ===== *)
theory DurableFlow
  imports Controller
begin

text \<open>
  The Django store meets the contract of the runner and the controller, and the two ends fit:
  what a runner publishes for a claimed job is admitted when it is delivered.
\<close>

section \<open>The Django store meets the contract\<close>

lemma atomic_op_good:
  assumes "inv db" "\<And>a db'. f db = Inr (a, db') \<Longrightarrow> good db db'"
  shows "inv (snd (atomic_op f db))"
  using assms by (auto simp: atomic_op_def good_def split: sum.splits)

lemma claimed_row:
  assumes "inv db" "claim_next atomic w now lease db = Inr (Some c, db')"
  shows "\<exists>m \<in> set (jobs (sweep now db)). claimable now (sweep now db) m
    \<and> c = claim_from_record (record_of (claim_job w now lease m))
    \<and> claim_job w now lease m \<in> set (jobs db') \<and> series db' = series db"
proof -
  let ?db = "sweep now db"
  obtain m where m: "first_job (claimable now ?db) ?db = Some m"
    "c = claim_from_record (record_of (claim_job w now lease m))"
    "db' = update_jobs (\<lambda>r. j_id r = j_id m \<and> j_state r = j_state m \<and> j_generation r = j_generation m)
        (claim_job w now lease) ?db"
    using assms(2) by (auto simp: claim_next_def Let_def split: if_splits option.splits)
  note mem = first_job_SomeD [OF m(1)]
  then have "claim_job w now lease m \<in> set (jobs db')" unfolding m(3) update_jobs_simps by force
  then show ?thesis using m mem by auto
qed

lemma claim_named_row:
  assumes "inv db" "claim_next atomic w now lease db = Inr (Some c, db')"
  shows "c_id c \<noteq> [] \<and> 1 \<le> c_generation c"
proof -
  obtain m where m: "m \<in> set (jobs (sweep now db))" "c = claim_from_record (record_of (claim_job w now lease m))"
    using claimed_row [OF assms] by blast
  have "inv (sweep now db)" using sweep_good [OF assms(1)] by (simp add: good_rows_def)
  then have "0 \<le> j_generation m" using invD(8) m(1) unfolding row_ok_def by blast
  then show ?thesis
    by (simp add: m(2) claim_from_record_def record_of_def claim_job_def Let_def uuid_str_def)
qed

lemma unclaimed:
  assumes "inv db" "claim_next False w now lease db = Inr (None, db')"
  shows "db' = sweep now db \<and> (\<forall>m \<in> set (jobs db'). \<not> claimable now db' m)"
proof (cases "first_job (claimable now (sweep now db)) (sweep now db)")
  case None
  then have "db' = sweep now db" using assms(2) by (simp add: claim_next_def Let_def)
  then show ?thesis using None first_job_None by blast
next
  case (Some m)
  let ?P = "\<lambda>r. j_id r = j_id m \<and> j_state r = j_state m \<and> j_generation r = j_generation m"
  have inv: "inv (sweep now db)" using sweep_good [OF assms(1)] by (simp add: good_rows_def)
  have "count_jobs ?P (sweep now db) = 1" by (rule count_one [OF inv, of m]) (use first_job_SomeD [OF Some] in auto)
  then show ?thesis using assms(2) Some by (simp add: claim_next_def Let_def)
qed

interpretation django: job_store "django_store zones in_atomic fresh fresh_message" inv
  for zones in_atomic fresh fresh_message
proof unfold_locales
  let ?S = "django_store zones in_atomic fresh fresh_message"
  fix s w now lease c s' t st rid g a
  assume inv: "inv s"
  show "inv (snd (so_claim ?S w now lease s))"
    unfolding django_store_def store_ops.simps by (rule atomic_op_good [OF inv]) (rule claim_next_good [OF inv])
  show "inv (snd (so_mark_published ?S c now t s))"
    unfolding django_store_def store_ops.simps by (rule atomic_op_good [OF inv]) (rule mark_published_any_good [OF inv])
  show "inv (snd (so_mark_publish_indeterminate ?S c now t s))"
    unfolding django_store_def store_ops.simps
    by (rule atomic_op_good [OF inv]) (rule mark_publish_indeterminate_good [OF inv])
  show "inv (snd (so_checkpoint_settlement ?S now st s))"
    unfolding django_store_def store_ops.simps by (rule atomic_op_good [OF inv]) (rule checkpoint_settlement_good [OF inv])
  show "inv (snd (so_release_delivery ?S now rid g t s))"
    unfolding django_store_def store_ops.simps by (rule atomic_op_good [OF inv]) (rule release_delivery_good [OF inv])
  show "inv (snd (so_admit_delivery ?S now a s))" if "a_reconciliation_due_at a \<noteq> None"
    unfolding django_store_def store_ops.simps by (rule atomic_op_good [OF inv]) (rule admit_delivery_good [OF inv that])
  show "c_id c \<noteq> [] \<and> 1 \<le> c_generation c" if "so_claim ?S w now lease s = (Inr (Some c), s')"
    using that claim_named_row [OF inv, of in_atomic w now lease c s']
    by (auto simp: django_store_def atomic_op_def split: sum.splits)
qed

section \<open>What a run leaves behind\<close>

text \<open>
  The row still waits for the delivery the claim announced: the handler of this generation has
  not been started, and nothing the envelope carries has changed.
\<close>

definition awaiting :: "claim \<Rightarrow> job_row \<Rightarrow> bool" where
  "awaiting c r \<longleftrightarrow> j_state r \<in> {CLAIMED, PUBLISHED, SETTLING, INDETERMINATE}
     \<and> (j_state r = INDETERMINATE \<longrightarrow> j_indeterminate_reason r = Some ''publication_acknowledgement'')
     \<and> j_generation r = c_generation c \<and> j_retry_count r = c_retry_count c
     \<and> j_queue r = c_queue c \<and> j_last_attempt_at r = c_last_attempt_at c"

definition claim_of :: "string \<Rightarrow> instant \<Rightarrow> instant \<Rightarrow> job_row \<Rightarrow> claim" where
  "claim_of w now lease m = claim_from_record (record_of (claim_job w now lease m))"

lemma claim_of_fields [simp]:
  "c_id (claim_of w now lease m) = uuid_str (j_id m)" "c_generation (claim_of w now lease m) = j_generation m + 1"
  "c_payload (claim_of w now lease m) = j_payload m" "c_message_type (claim_of w now lease m) = j_message_type m"
  "c_queue (claim_of w now lease m) = j_queue m"
  "c_settlement_status (claim_of w now lease m) = j_settlement_status m"
  by (simp_all add: claim_of_def claim_from_record_def record_of_def claim_job_def Let_def)

lemma claimed_awaiting: "awaiting (claim_of w now lease m) (claim_job w now lease m)"
  by (simp add: awaiting_def claim_of_def claim_from_record_def record_of_def claim_job_def Let_def)

lemma update_ids:
  assumes "\<And>r. j_id (f r) = j_id r" shows "j_id ` set (jobs (update_jobs P f db)) = j_id ` set (jobs db)"
proof -
  have "map j_id (jobs (update_jobs P f db)) = map j_id (jobs db)" using assms by simp
  then show ?thesis by (metis set_map)
qed

lemma sweep_ids: "j_id ` set (jobs (sweep now db)) = j_id ` set (jobs db)"
proof -
  have "j_id (cancel_job now r) = j_id r" "j_id (mark_exhausted r) = j_id r" for r
    by (simp_all add: cancel_job_def mark_exhausted_def)
  then show ?thesis by (simp only: sweep_def Let_def update_ids)
qed

text \<open>How the runner's own marks leave the row of the claim.\<close>

lemma published_row:
  assumes inv: "inv db" and m: "claim_job w now lease m \<in> set (jobs db)" "j_id m < 2 ^ 128"
  shows "\<exists>db' row. mark_published (claim_of w now lease m) later t db = Inr ((), db') \<and> row \<in> set (jobs db') \<and> j_id row = j_id m
    \<and> (if j_settlement_status m = Some (status_value DEAD_LETTERED) then j_state row = J_DEAD_LETTERED
       else j_state row = PUBLISHED \<and> awaiting (claim_of w now lease m) row)"
proof -
  let ?c = "claim_of w now lease m" and ?m = "claim_job w now lease m"
  let ?P = "\<lambda>r. j_id r = j_id m \<and> j_generation r = c_generation ?c \<and> j_state r = CLAIMED"
  have f: "j_id ?m = j_id m" "j_generation ?m = j_generation m + 1" "j_state ?m = CLAIMED"
    by (simp_all add: claim_job_def Let_def)
  have uuid: "uuid_arg (c_id ?c) = Inr (j_id m)" using m(2) by (simp add: uuid_arg_def)
  show ?thesis
  proof (cases "j_settlement_status m = Some (status_value DEAD_LETTERED)")
    case True
    have "find_job (\<lambda>r. j_id r = j_id m) db = Some ?m" using find_job_same_id [OF inv m(1)] f(1) by simp
    moreover have "find_job ?P db = Some ?m" by (rule find_job_by_id [OF inv m(1)]) (use f in auto)
    moreover obtain s where "lock_series (j_series ?m) db = Inr s"
      using admit_delivery_eq [OF inv m(1), of "sample_admission\<lparr>a_record_id := c_id ?c\<rparr>"] m(2) f(1) by auto
    ultimately obtain db' where db': "mark_published ?c later t db = Inr ((), db')"
      "db' = fail_active_series s later (save_job (?m\<lparr>j_state := J_DEAD_LETTERED, j_reconciliation_due_at := None,
         j_lease_owner := None, j_lease_expires_at := None, j_finished_at := Some later, j_indeterminate_reason := None\<rparr>) db)"
      using True uuid by (simp add: mark_published_def finish_dead_letter_from_claim_def)
    let ?r = "?m\<lparr>j_state := J_DEAD_LETTERED, j_reconciliation_due_at := None, j_lease_owner := None,
      j_lease_expires_at := None, j_finished_at := Some later, j_indeterminate_reason := None\<rparr>"
    have "jobs db' = jobs (save_job ?r db)"
      by (simp add: db'(2) fail_active_series_def finish_series_def save_series_def split: option.split)
    then have "?r \<in> set (jobs db')" using save_job_map(1) [OF inv m(1), of ?r] m(1) by force
    moreover have "j_id ?r = j_id m" "j_state ?r = J_DEAD_LETTERED" using f(1) by simp_all
    ultimately show ?thesis using db'(1) True by (intro exI [of _ db'] exI [of _ ?r]) simp
  next
    case False
    define g where "g r = (let r1 = r\<lparr>j_state := PUBLISHED, j_reconciliation_due_at := Some t\<rparr>
        in if c_settlement_status ?c \<noteq> None then clear_settlement r1 else r1)" for r
    have "mark_published ?c later t db = Inr ((), update_jobs ?P g db)"
      using False uuid by (simp add: mark_published_def g_def Let_def)
    moreover have "g ?m \<in> set (jobs (update_jobs ?P g db))" using m(1) f by force
    moreover have "j_id (g ?m) = j_id m" "j_state (g ?m) = PUBLISHED" by (simp_all add: g_def clear_settlement_def Let_def f)
    moreover have "awaiting ?c (g ?m)"
      using claimed_awaiting [of w now lease m] by (simp add: awaiting_def g_def clear_settlement_def Let_def)
    ultimately show ?thesis using False by (intro exI [of _ "update_jobs ?P g db"] exI [of _ "g ?m"]) simp
  qed
qed

lemma unconfirmed_row:
  assumes m: "claim_job w now lease m \<in> set (jobs db)" "j_id m < 2 ^ 128"
  shows "\<exists>db' row. mark_publish_indeterminate (claim_of w now lease m) t db = Inr ((), db') \<and> row \<in> set (jobs db')
    \<and> j_id row = j_id m \<and> j_state row \<in> {INDETERMINATE, SETTLING} \<and> awaiting (claim_of w now lease m) row"
proof -
  let ?c = "claim_of w now lease m" and ?m = "claim_job w now lease m"
  let ?P = "\<lambda>r. j_id r = j_id m \<and> j_generation r = c_generation ?c \<and> j_state r = CLAIMED"
  define g where "g r = r\<lparr>j_state := (if c_settlement_status ?c \<noteq> None then SETTLING else INDETERMINATE),
      j_reconciliation_due_at := Some t, j_indeterminate_reason := (if c_settlement_status ?c \<noteq> None then None
        else Some ''publication_acknowledgement'')\<rparr>" for r :: job_row
  have f: "j_id ?m = j_id m" "j_generation ?m = j_generation m + 1" "j_state ?m = CLAIMED"
    by (simp_all add: claim_job_def Let_def)
  have "mark_publish_indeterminate ?c t db = Inr ((), update_jobs ?P g db)"
    using m(2) by (simp add: mark_publish_indeterminate_def uuid_arg_def g_def)
  moreover have "g ?m \<in> set (jobs (update_jobs ?P g db))" using m(1) f by force
  moreover have "j_id (g ?m) = j_id m" "j_state (g ?m) \<in> {INDETERMINATE, SETTLING}" by (simp_all add: g_def f)
  moreover have "awaiting ?c (g ?m)" using claimed_awaiting [of w now lease m] by (simp add: awaiting_def g_def)
  ultimately show ?thesis by (intro exI [of _ "update_jobs ?P g db"] exI [of _ "g ?m"]) simp
qed

text \<open>
  C19. One round of the runner hands one claimable job of the store to the publisher, or none.
  Without a claimable job, or inside a transaction, nothing is sent. Otherwise the envelope holds
  the job's message, its id and its next generation; success is reported exactly when the
  publisher took it, and then the job is recorded as published (or as dead-lettered when that was
  the settlement to be repeated); when the publisher failed, the round raises and the job is left
  for reconciliation. Ids are those of UUIDs.
\<close>

theorem runner_publishes_claim:
  assumes "reachable zones db" "\<forall>m \<in> set (jobs db). j_id m < 2 ^ 128"
    and "run_once (django_store zones in_atomic fresh fm) pub pol w fid now later (db, p) = (r, (db', p'))"
  shows "p' = p \<and> (r = Inl WorkerAbortError \<and> in_atomic \<and> db' = db
        \<or> r = Inr None \<and> db' = sweep now db \<and> (\<forall>m \<in> set (jobs db'). \<not> claimable now db' m))
    \<or> (\<exists>m c x row. m \<in> set (jobs (sweep now db)) \<and> claimable now (sweep now db) m
       \<and> c = claim_of w now (now + lease_duration pol) m
       \<and> identity (delivery_envelope fid now c) = Inr (Some (uuid_str (j_id m), j_generation m + 1))
       \<and> message_type (delivery_envelope fid now c) = PStr (j_message_type m)
       \<and> payload (delivery_envelope fid now c) = j_payload m
       \<and> pub (delivery_envelope fid now c) (j_queue m) p = (x, p')
       \<and> row \<in> set (jobs db') \<and> j_id row = j_id m
       \<and> (case x of
            Inl y \<Rightarrow> r = Inl IndeterminateDeliveryError \<and> j_state row \<in> {INDETERMINATE, SETTLING} \<and> awaiting c row
          | Inr u \<Rightarrow> r = Inr (Some c)
              \<and> (if j_settlement_status m = Some (status_value DEAD_LETTERED) then j_state row = J_DEAD_LETTERED
                 else j_state row = PUBLISHED \<and> awaiting c row)))"
proof (cases in_atomic)
  case True
  then show ?thesis using assms(3) by (auto simp: run_once_def django_store_def atomic_op_def claim_next_def)
next
  case False
  let ?lease = "now + lease_duration pol" and ?S = "django_store zones in_atomic fresh fm"
  have inv: "inv db" using assms(1) by (rule reachable_inv)
  obtain co db1 where co: "claim_next False w now ?lease db = Inr (co, db1)"
  proof (cases "claim_next False w now ?lease db")
    case (Inl e)
    then show thesis by (auto simp: claim_next_def Let_def split: option.splits if_splits)
  next
    case (Inr z)
    then show thesis using that by (cases z) simp
  qed
  then have claim: "so_claim ?S w now ?lease db = (Inr co, db1)" using False by (simp add: django_store_def atomic_op_def)
  show ?thesis
  proof (cases co)
    case None
    have "db1 = sweep now db \<and> (\<forall>m \<in> set (jobs db1). \<not> claimable now db1 m)" using unclaimed [OF inv co [unfolded None]] .
    moreover have "r = Inr None \<and> db' = db1 \<and> p' = p" using assms(3) claim None by (simp add: run_once_def)
    ultimately show ?thesis by blast
  next
    case (Some c)
    obtain m where m: "m \<in> set (jobs (sweep now db))" "claimable now (sweep now db) m" "c = claim_of w now ?lease m"
      "claim_job w now ?lease m \<in> set (jobs db1)"
      using claimed_row [OF inv co [unfolded Some]] by (auto simp: claim_of_def)
    have inv1: "inv db1" using claim_next_good [OF inv co] by (simp add: good_def)
    have small: "j_id m < 2 ^ 128" using assms(2) m(1) sweep_ids [of now db] by force
    have ident: "identity (delivery_envelope fid now c) = Inr (Some (uuid_str (j_id m), j_generation m + 1))"
      using claim_named_row [OF inv co [unfolded Some]] identity_delivery_envelope [of c] by (simp add: m(3))
    have env: "message_type (delivery_envelope fid now c) = PStr (j_message_type m)"
      "payload (delivery_envelope fid now c) = j_payload m" by (simp_all add: delivery_envelope_def create_def m(3))
    obtain x p1 where x: "pub (delivery_envelope fid now c) (c_queue c) p = (x, p1)" by (metis surj_pair)
    obtain dbp rowp where pub: "mark_published c later (later + reconciliation_delay pol) db1 = Inr ((), dbp)" "rowp \<in> set (jobs dbp)"
      "j_id rowp = j_id m" "if j_settlement_status m = Some (status_value DEAD_LETTERED) then j_state rowp = J_DEAD_LETTERED
         else j_state rowp = PUBLISHED \<and> awaiting c rowp"
      using published_row [OF inv1 m(4) small] unfolding m(3) by blast
    obtain dbu rowu where unc: "mark_publish_indeterminate c (later + reconciliation_delay pol) db1 = Inr ((), dbu)" "rowu \<in> set (jobs dbu)"
      "j_id rowu = j_id m" "j_state rowu \<in> {INDETERMINATE, SETTLING}" "awaiting c rowu"
      using unconfirmed_row [OF m(4) small] unfolding m(3) by blast
    have q: "c_queue c = j_queue m" by (simp add: m(3))
    show ?thesis
    proof (cases x)
      case (Inl y)
      then have "r = Inl IndeterminateDeliveryError" "p' = p1" "db' = dbu"
        using assms(3) claim Some x unc(1) by (simp_all add: run_once_def) (simp_all add: django_store_def atomic_op_def)
      then show ?thesis using m(1-3) ident env x Inl q unc(2-) by (intro disjI2 exI [of _ m] exI [of _ c] exI [of _ x] exI [of _ rowu]) simp
    next
      case (Inr u)
      have "so_mark_published ?S c later (later + reconciliation_delay pol) db1 = (Inr (), dbp)"
        using pub(1) by (simp add: django_store_def atomic_op_def)
      then have "r = Inr (Some c)" "p' = p1" "db' = dbp" using assms(3) claim Some x Inr by (simp_all add: run_once_def)
      then show ?thesis using m(1-3) ident env x Inr q pub(2-) by (intro disjI2 exI [of _ m] exI [of _ c] exI [of _ x] exI [of _ rowp]) simp
    qed
  qed
qed

definition sample_policy :: policy where
  "sample_policy = \<lparr>lease_duration = 1000, reconciliation_delay = 7000\<rparr>"

definition outbox_publisher :: "message_envelope list publisher" where
  "outbox_publisher e q p = (Inr (), p @ [e])"

theorem runner_publishes_claim_witness:
  "\<exists>r db' p'. run_once (django_store sample_zones False (\<lambda>_. 0) (\<lambda>_. [])) outbox_publisher sample_policy
     ''w'' [] 2000 2100 (single_db, []) = (r, (db', p')) \<and> (\<exists>row \<in> set (jobs db'). j_state row = PUBLISHED)"
proof -
  obtain r db' p' where run: "run_once (django_store sample_zones False (\<lambda>_. 0) (\<lambda>_. [])) outbox_publisher sample_policy
     ''w'' [] 2000 2100 (single_db, []) = (r, (db', p'))" by (metis prod.exhaust)
  have swept: "sweep 2000 single_db = single_db" by (simp add: single_db_rows op_defs row_fields)
  have due: "claimable 2000 single_db row_new" by (simp add: single_db_rows op_defs row_fields)
  have small: "\<forall>m \<in> set (jobs single_db). j_id m < 2 ^ 128" by (simp add: single_db_rows row_fields)
  from runner_publishes_claim [OF sample_reachable(1) small run] due
  have "\<exists>row \<in> set (jobs db'). j_state row = PUBLISHED"
    unfolding swept by (elim disjE exE conjE) (auto simp: single_db_rows row_fields outbox_publisher_def)
  then show ?thesis using run by blast
qed

section \<open>What is published is admitted\<close>

lemma set_update_subset: "set (AList.update k v d) \<subseteq> insert (k, v) (set d)"
  by (induction d) auto

lemma serializable_update:
  "serializable (PDict d) \<Longrightarrow> serializable v \<Longrightarrow> serializable (PDict (AList.update k v d))"
  using set_update_subset [of k v d] by force

lemma wf_value_update:
  "wf_value (PDict d) \<Longrightarrow> wf_value v \<Longrightarrow> k \<noteq> TYPE_KEY \<Longrightarrow> wf_value (PDict (AList.update k v d))"
  using set_update_subset [of k v d] by force

text \<open>
  The contents a job needs for its envelope to survive the wire unchanged: JSON values with
  aware datetimes, none of the headers the bus uses itself, dates within Python's range.
\<close>

definition deliverable :: "claim \<Rightarrow> bool" where
  "deliverable c \<longleftrightarrow> c_message_id c \<noteq> [] \<and> c_message_type c \<noteq> [] \<and> 1 \<le> c_version c
     \<and> wf_value (c_payload c) \<and> serializable (c_payload c)
     \<and> wf_value (PDict (c_headers c)) \<and> serializable (PDict (c_headers c))
     \<and> (\<forall>(k, v) \<in> set (c_headers c). k \<notin> set internal_headers)
     \<and> in_range (c_created_at c) \<and> (\<forall>t. c_last_attempt_at c = Some t \<longrightarrow> in_range t) \<and> 0 \<le> c_retry_count c"

lemma bus_keys [simp]:
  "DURABLE_RECORD_HEADER \<noteq> TYPE_KEY" "DURABLE_GENERATION_HEADER \<noteq> TYPE_KEY"
  "''retries'' \<noteq> TYPE_KEY" "''last_attempt'' \<noteq> TYPE_KEY" "''dead_lettered_from'' \<noteq> TYPE_KEY"
  by (simp_all add: DURABLE_RECORD_HEADER_def DURABLE_GENERATION_HEADER_def TYPE_KEY_def)

lemma wf_opt_str [simp]: "wf_value (opt_str s)" "serializable (opt_str s)"
  by (simp_all add: opt_str_def split: option.split)

lemma delivery_headers_wf:
  assumes "deliverable c"
  shows "wf_value (PDict (delivery_headers c))" "serializable (PDict (delivery_headers c))"
proof -
  have h: "wf_value (PDict (c_headers c))" "serializable (PDict (c_headers c))" using assms by (auto simp: deliverable_def)
  show "wf_value (PDict (delivery_headers c))"
    unfolding delivery_headers_def Let_def
    by (intro wf_value_update) (auto intro!: wf_value_update simp: h simp del: wf_value.simps(5) split: option.split)
  show "serializable (PDict (delivery_headers c))"
    unfolding delivery_headers_def Let_def
    by (intro serializable_update) (auto intro!: serializable_update simp: h simp del: serializable.simps(3) split: option.split)
qed

lemma delivery_envelope_fields:
  assumes "deliverable c"
  shows "delivery_envelope fresh now c =
    \<lparr>message_id = PStr (c_message_id c), message_type = PStr (c_message_type c),
      message_kind = PStr ''command'', version = PInt (c_version c), payload = c_payload c,
      headers = PDict (delivery_headers c), created_at = PDateTime (at_utc (c_created_at c)),
      correlation_id = PNone, causation_id = PNone, reply_to = PNone, expires_at = PNone,
      content_type = PNone, content_encoding = PNone\<rparr>"
  using assms by (simp add: delivery_envelope_def create_def or_val_def deliverable_def delivery_headers_def Let_def)

lemma delivery_envelope_wf:
  assumes "deliverable c" shows "wf_envelope (delivery_envelope fresh now c)"
  using assms delivery_headers_wf [OF assms]
  by (simp add: delivery_envelope_fields wf_envelope_def valid_envelope_def valid_datetime_def deliverable_def
      del: wf_value.simps(5)) (simp add: at_utc_def)

text \<open>Headers read after the wire.\<close>

lemma canon_dict: "canon (PDict d) = PDict (sort_key fst (map (\<lambda>(k, v). (k, canon v)) d))"
  by simp

lemma py_get_canon:
  assumes "dict_wf d" shows "py_get (sort_key fst (map (\<lambda>(k, v). (k, canon v)) d)) k = canon (py_get d k)"
proof -
  have "map_of (map (\<lambda>(k, v). (k, canon v)) d) k = map_option canon (map_of d k)" by (induction d) auto
  then show ?thesis using assms by (simp add: py_get_def map_of_sort_key split: option.split)
qed

lemma env_headers_canon:
  "env_headers e = d \<Longrightarrow> is_dict (headers e) \<Longrightarrow>
     env_headers (canon_envelope e) = sort_key fst (map (\<lambda>(k, v). (k, canon v)) d)"
  by (auto simp: env_headers_def canon_envelope_def is_dict_iff)

lemma application_headers_canon:
  assumes "is_dict (headers e)"
  shows "PDict (application_headers (canon_envelope e)) = canon (PDict (application_headers e))"
proof -
  let ?P = "\<lambda>(k, v). k \<notin> set internal_headers" and ?c = "\<lambda>(k, v). (k, canon v)"
  have "filter ?P (map ?c d) = map ?c (filter ?P d)" for d by (induction d) auto
  then show ?thesis
    unfolding application_headers_def env_headers_canon [OF refl assms] canon_dict by (simp add: filter_sort)
qed

lemma py_get_internal:
  assumes "deliverable c" "k \<in> set internal_headers" shows "py_get (c_headers c) k = PNone"
proof -
  have "map_of (c_headers c) k = None" using assms by (force simp: deliverable_def map_of_eq_None_iff)
  then show ?thesis by (simp add: py_get_def)
qed

lemma header_keys:
  "DURABLE_RECORD_HEADER = ''pybus_durable_record''" "DURABLE_GENERATION_HEADER = ''pybus_durable_generation''"
  by (simp_all add: DURABLE_RECORD_HEADER_def DURABLE_GENERATION_HEADER_def)

lemma delivered_headers:
  assumes "deliverable c"
  shows "py_get (env_headers (canon_envelope (delivery_envelope fresh now c))) k = canon (py_get (delivery_headers c) k)"
    and "dumps (PDict (application_headers (canon_envelope (delivery_envelope fresh now c)))) = dumps (PDict (c_headers c))"
proof -
  let ?e = "canon_envelope (delivery_envelope fresh now c)"
  have d: "is_dict (headers (delivery_envelope fresh now c))"
    by (simp add: delivery_envelope_fields [OF assms(1)])
  have wf: "dict_wf (delivery_headers c)" using delivery_headers_wf(1) [OF assms(1)] by simp
  show "py_get (env_headers ?e) k = canon (py_get (delivery_headers c) k)"
    unfolding env_headers_canon [OF refl d] delivery_env_headers by (rule py_get_canon [OF wf])
  have "application_headers (delivery_envelope fresh now c) = c_headers c"
    using assms(1) by (intro application_headers_delivery) (auto simp: deliverable_def)
  then show "dumps (PDict (application_headers ?e)) = dumps (PDict (c_headers c))"
    unfolding application_headers_canon [OF d]
    using dumps_canon [of "PDict (c_headers c)"] assms(1) by (simp add: deliverable_def del: canon.simps)
qed

lemma delivered_identity:
  assumes "deliverable c" "c_id c \<noteq> []" "1 \<le> c_generation c"
  shows "identity (canon_envelope (delivery_envelope fresh now c)) = Inr (Some (c_id c, c_generation c))"
  unfolding identity_def delivered_headers(1) [OF assms(1)]
  using assms(2,3) by (simp add: delivery_headers_def Let_def header_keys)

lemma delivered_last_attempt:
  assumes "deliverable c"
  shows "parse_last_attempt (py_get (env_headers (canon_envelope (delivery_envelope fresh now c))) ''last_attempt'')
    = Inr (c_last_attempt_at c)"
proof (cases "c_last_attempt_at c")
  case None
  then have "py_get (delivery_headers c) ''last_attempt'' = PNone"
    using py_get_internal [OF assms, of "''last_attempt''"]
    by (simp add: delivery_headers_def Let_def header_keys internal_headers_def)
  then show ?thesis using None by (simp add: delivered_headers(1) [OF assms] parse_last_attempt_def)
next
  case (Some t)
  then have "py_get (delivery_headers c) ''last_attempt'' = PStr (isoformat (at_utc t))"
    by (simp add: delivery_headers_def Let_def header_keys)
  moreover have "valid_datetime (at_utc t)" using assms Some by (simp add: deliverable_def valid_datetime_def at_utc_def)
  ultimately show ?thesis using Some by (simp add: delivered_headers(1) [OF assms] parse_last_attempt_def)
qed

lemma delivered_retry_count:
  assumes "deliverable c"
  shows "int (resolve_retry_count PNone (env_headers (canon_envelope (delivery_envelope fresh now c)))) = c_retry_count c"
proof (cases "c_retry_count c = 0")
  case True
  then have "py_get (delivery_headers c) ''retries'' = PNone"
    using py_get_internal [OF assms, of "''retries''"]
    by (simp add: delivery_headers_def Let_def header_keys internal_headers_def split: option.split)
  then show ?thesis using True by (simp add: delivered_headers(1) [OF assms] resolve_retry_count_def)
next
  case False
  then have "py_get (delivery_headers c) ''retries'' = PInt (c_retry_count c)"
    by (simp add: delivery_headers_def Let_def header_keys split: option.split)
  then show ?thesis
    using assms by (simp add: delivered_headers(1) [OF assms] resolve_retry_count_def deliverable_def)
qed

lemma lock_series_active:
  assumes "lock_series (j_series r) db = Inr s" "\<forall>q \<in> set (series db). j_series r = Some (q_id q) \<longrightarrow> q_state q = S_ACTIVE"
  shows "case s of None \<Rightarrow> True | Some q \<Rightarrow> q_state q = S_ACTIVE"
  using assms by (auto simp: lock_series_def find_series_def find_Some_iff of_option_def res_simps split: option.splits)

text \<open>What the row of a claim still holds in every later state of the database.\<close>

lemma claimed_row_later:
  assumes "inv db" "claim_next False w now lease db = Inr (Some c, db')"
    and later: "(db_step zones)\<^sup>*\<^sup>* db' db2" "r \<in> set (jobs db2)" "uuid_str (j_id r) = c_id c"
    and ids: "\<forall>m \<in> set (jobs db2). j_id m < 2 ^ 128"
  shows "j_message_id r = c_message_id c \<and> j_message_type r = c_message_type c \<and> j_version r = c_version c
    \<and> j_payload r = c_payload c \<and> j_headers r = c_headers c"
proof -
  obtain m where m: "c = claim_of w now lease m" "claim_job w now lease m \<in> set (jobs db')"
    using claimed_row [OF assms(1,2)] by (auto simp: claim_of_def)
  have inv': "inv db'" using claim_next_good [OF assms(1,2)] by (simp add: good_def)
  obtain r' where r': "r' \<in> set (jobs db2)" "same_job (claim_job w now lease m) r'"
    using db_steps_job [OF later(1) inv' m(2)] job_steps_same by blast
  then have "j_id r' = j_id m" by (simp add: same_job_def claim_job_def Let_def)
  moreover have "uuid_parse (uuid_str (j_id r)) = Some (j_id r)" "uuid_parse (uuid_str (j_id r')) = Some (j_id r')"
    using ids later(2) r'(1) by auto
  ultimately have "j_id r = j_id r'" using later(3) by (simp add: m(1))
  then have "r = r'" using job_by_id [OF db_steps_inv [OF later(1) inv'] later(2) r'(1)] by simp
  then show ?thesis using r'(2)
    by (simp add: m(1) claim_of_def same_job_def claim_from_record_def record_of_def claim_job_def Let_def)
qed

text \<open>
  C1. The two ends of a durable delivery fit together. The envelope a runner publishes for a
  claim, sent as bytes and read back by a listener, is admitted by the controller in every later
  state of the database in which the job still waits for that delivery - just claimed, recorded
  as published, settling, or with an unconfirmed publication, and in an active series - and the
  job is then running, so the handler runs. It holds for messages whose contents JSON carries
  unchanged (deliverable), for the retry limit the listener and the job agree on (or a job without
  one yet), and for the retry count that the header carries, which is how the runner sends it.
\<close>

theorem claimed_delivery_admitted:
  assumes db: "reachable zones db" "claim_next False w now lease db = Inr (Some c, db')"
    and later: "(db_step zones)\<^sup>*\<^sup>* db' db2" "r \<in> set (jobs db2)" "uuid_str (j_id r) = c_id c"
    and current: "awaiting c r" "\<forall>q \<in> set (series db2). j_series r = Some (q_id q) \<longrightarrow> q_state q = S_ACTIVE"
    and del: "deliverable c" and ids: "\<forall>m \<in> set (jobs db2). j_id m < 2 ^ 128"
    and retries: "j_max_retries r = None \<or> j_max_retries r = Some max_retries"
    and sent: "to_wire (delivery_envelope fid now c) = Inr raw"
  shows "\<exists>e db3. from_wire read_at raw = Inr e
    \<and> admit (django_store zones in_atomic fresh fm) pol at_now e (c_queue c)
        (int (resolve_retry_count PNone (env_headers e))) max_retries db2 = (Inr (Some PROCEED), db3)
    \<and> (\<exists>row \<in> set (jobs db3). j_id row = j_id r \<and> j_state row = RUNNING)"
proof -
  let ?e = "canon_envelope (delivery_envelope fid now c)"
  have inv: "inv db" using db(1) by (rule reachable_inv)
  have inv': "inv db'" using claim_next_good [OF inv db(2)] by (simp add: good_def)
  have inv2: "inv db2" using db_steps_inv [OF later(1) inv'] .
  have "serializable (payload (delivery_envelope fid now c))" "serializable (headers (delivery_envelope fid now c))"
    using del delivery_headers_wf(2) [OF del] by (simp_all add: delivery_envelope_fields [OF del] deliverable_def del: serializable.simps(3))
  then have read: "from_wire read_at raw = Inr ?e"
    using wire_round_trip [OF delivery_envelope_wf [OF del], of fid now read_at] sent by simp
  note msg = claimed_row_later [OF inv db(2) later ids]
  have c: "c_generation c = j_generation r" "c_queue c = j_queue r" "c_retry_count c = j_retry_count r"
    "c_last_attempt_at c = j_last_attempt_at r" using current(1) by (simp_all add: awaiting_def)
  let ?a = "admission_of pol at_now ?e (c_queue c) (c_retry_count c) max_retries (c_id c, c_generation c) (c_last_attempt_at c)"
  have fields: "message_id ?e = PStr (c_message_id c)" "message_type ?e = PStr (c_message_type c)"
    "message_kind ?e = PStr ''command''" "version ?e = PInt (c_version c)" "payload ?e = canon (c_payload c)"
    by (simp_all add: canon_envelope_def delivery_envelope_fields [OF del])
  have "uuid_parse (uuid_str (j_id r)) = Some (j_id r)" using ids later(2) by auto
  then have parse: "uuid_parse (a_record_id ?a) = Some (j_id r)" using later(3) by (simp add: admission_of_def)
  obtain s where s: "lock_series (j_series r) db2 = Inr s"
    "admit_delivery at_now ?a db2 = Inr (admit_locked at_now ?a s r db2)"
    using admit_delivery_eq [OF inv2 later(2) parse] by blast
  note open_series = lock_series_active [OF s(1) current(2)]
  have same: "same_message r ?a = Some True"
    using del msg c dumps_serializable [of "c_payload c"] dumps_serializable [of "PDict (c_headers c)"]
    by (simp add: same_message_def admission_of_def fields delivered_headers(2) [OF del] dumps_canon deliverable_def
        del: serializable.simps(3) encode_value.simps(5))
  have "admit_locked at_now ?a s r db2 = (PROCEED, save_job (start_job at_now ?a r) db2)"
    using open_series same c retries current(1)
    by (auto simp: admit_locked_def admission_of_def awaiting_def split: option.splits)
  then have adm: "so_admit_delivery (django_store zones in_atomic fresh fm) at_now ?a db2
      = (Inr PROCEED, save_job (start_job at_now ?a r) db2)"
    using s(2) by (simp add: django_store_def atomic_op_def)
  have "identity ?e = Inr (Some (c_id c, c_generation c))"
    using claim_named_row [OF inv db(2)] by (intro delivered_identity [OF del]) auto
  then have "admit (django_store zones in_atomic fresh fm) pol at_now ?e (c_queue c) (c_retry_count c) max_retries db2
      = (Inr (Some PROCEED), save_job (start_job at_now ?a r) db2)"
    using adm by (simp add: admit_def fields delivered_last_attempt [OF del])
  moreover have "start_job at_now ?a r \<in> set (jobs (save_job (start_job at_now ?a r) db2))" "j_id (start_job at_now ?a r) = j_id r"
    using save_job_map(1) [OF inv2 later(2), of "start_job at_now ?a r"] later(2) by (force simp: start_job_def)+
  ultimately show ?thesis using read delivered_retry_count [OF del, of fid now]
    by (intro exI [of _ ?e] exI [of _ "save_job (start_job at_now ?a r) db2"]) (auto intro!: bexI [of _ "start_job at_now ?a r"])
qed

lemma sample_claim_next: "claim_next False ''w'' 2000 3000 single_db = Inr (Some sample_claim, claimed_db)"
  by (simp add: single_db_rows op_defs row_fields sample_claim_def claimed_db_rows)

lemma sample_claim_deliverable: "deliverable sample_claim"
  by (simp add: deliverable_def sample_claim_def claimed_db_rows claim_from_record_def record_of_def claim_job_def
      new_job_def sample_draft_def internal_headers_def header_keys dict_wf_def reserved_types_def TYPE_KEY_def in_range_def)

theorem claimed_delivery_admitted_witness:
  "\<exists>raw e db3. to_wire (delivery_envelope [] 2000 sample_claim) = Inr raw \<and> from_wire 2100 raw = Inr e \<and>
    admit (django_store sample_zones False (\<lambda>_. 0) (\<lambda>_. [])) sample_policy 2200 e (c_queue sample_claim)
      (int (resolve_retry_count PNone (env_headers e))) 3 published_db = (Inr (Some PROCEED), db3)
    \<and> (\<exists>row \<in> set (jobs db3). j_id row = 5 \<and> j_state row = RUNNING)"
proof -
  have "\<exists>raw. to_wire (delivery_envelope [] 2000 sample_claim) = Inr raw"
    using wire_round_trip [OF delivery_envelope_wf [OF sample_claim_deliverable], of "[]" 2000 0]
      delivery_headers_wf(2) [OF sample_claim_deliverable] sample_claim_deliverable
    by (cases "to_wire (delivery_envelope [] 2000 sample_claim)")
       (simp_all add: delivery_envelope_fields [OF sample_claim_deliverable] deliverable_def del: serializable.simps(3))
  then obtain raw where raw: "to_wire (delivery_envelope [] 2000 sample_claim) = Inr raw" ..
  have step: "(db_step sample_zones)\<^sup>*\<^sup>* claimed_db published_db"
    unfolding published_db_def run_db_def by (auto split: sum.splits intro: db_step.mark_published)
  have row: "row_published \<in> set (jobs published_db)" "uuid_str (j_id row_published) = c_id sample_claim"
    "awaiting sample_claim row_published" "j_id row_published = 5" "j_max_retries row_published = None"
    by (simp_all add: published_db_rows sample_claim_def claimed_db_rows awaiting_def claim_from_record_def record_of_def
        claim_job_def new_job_def sample_draft_def)
  have all: "\<forall>m \<in> set (jobs published_db). j_id m < 2 ^ 128" "series published_db = []"
    using row(4) by (simp_all add: published_db_rows)
  show ?thesis
    using claimed_delivery_admitted [OF sample_reachable(1) sample_claim_next step row(1-3) _ sample_claim_deliverable all(1) _ raw,
        of 3 2100 False "\<lambda>_. 0" "\<lambda>_. []" sample_policy 2200] raw row(4,5) all(2) by auto
qed

end
