(* ===== verification/Dispatcher.thy ===== *)
theory Dispatcher
  imports Registry Effects Recurrence
begin

text \<open>
  dispatcher.py: decoding an envelope into the message its handlers receive, and dispatch to
  every registered handler in order. \<open>classes\<close> are the declared message classes.
\<close>

section \<open>Decoding\<close>

definition build_typed :: "(nat \<Rightarrow> typed_class) \<Rightarrow> nat \<Rightarrow> pyval \<Rightarrow> message res" where
  "build_typed classes c pl = (case pl of
     PDict d \<Rightarrow> (case construct_message (classes c) d of
         Inr fs \<Rightarrow> Inr (Typed c fs)
       | Inl x \<Rightarrow> if x = TypeError \<or> is_value_error x then Inl DeserializationError else Inl x)
   | _ \<Rightarrow> Inl DeserializationError)"

definition decode :: "(nat \<Rightarrow> typed_class) \<Rightarrow> codec \<Rightarrow> registry \<Rightarrow> message_envelope \<Rightarrow> message res" where
  "decode classes C R e =
     bind_res (message_class_for R (message_kind e) (message_type e)) (\<lambda>cls.
     case cls of
       Some c \<Rightarrow>
         if \<not> equals_int (tc_version (classes c)) (version e) then Inl InvalidMessageDefinitionError
         else
           bind_res (codec_decode C (headers e) PNone) (\<lambda>hs.
           bind_res (codec_decode C (payload e) hs) (build_typed classes c))
     | None \<Rightarrow>
         bind_res (message_class_for_kind (message_kind e)) (\<lambda>mc.
         bind_res (from_envelope C mc e) (\<lambda>b. Inr (Base b))))"

text \<open>The other arguments \<open>decode\<close> accepts: messages as they are, and dictionary forms of envelopes.\<close>

datatype dispatch_input = In_Message message | In_Envelope message_envelope | In_Dict "(string \<times> pyval) list" | In_Other

definition decode_any ::
    "(nat \<Rightarrow> typed_class) \<Rightarrow> codec \<Rightarrow> registry \<Rightarrow> instant \<Rightarrow> dispatch_input \<Rightarrow> message res" where
  "decode_any classes C R now inp = (case inp of
     In_Message (Base b) \<Rightarrow> Inr (Base b)
   | In_Message (Typed c fs) \<Rightarrow> Inl TypeError
   | In_Envelope e \<Rightarrow> decode classes C R e
   | In_Dict d \<Rightarrow> bind_res (from_dict now d) (decode classes C R)
   | In_Other \<Rightarrow> Inl TypeError)"

section \<open>Dispatch\<close>

text \<open>
  What a handler returned, as far as the code looks at it. Handlers are application code and
  act on the world \<open>'w\<close>.
\<close>

datatype handler_result =
    H_None | H_Continue continuation | H_Recurrence recurrence_result | H_Response base_message | H_Value pyval

fun msg_kind :: "(nat \<Rightarrow> typed_class) \<Rightarrow> message \<Rightarrow> pyval" where
  "msg_kind classes (Typed c fs) = PStr (tc_kind (classes c))"
| "msg_kind classes (Base b) = PStr (mc_kind (bm_class b))"

fun msg_type :: "(nat \<Rightarrow> typed_class) \<Rightarrow> message \<Rightarrow> pyval" where
  "msg_type classes (Typed c fs) = PStr (tc_type (classes c))"
| "msg_type classes (Base b) = bm_message_type b"

fun run_handlers ::
    "(handler \<Rightarrow> message \<Rightarrow> ('w, handler_result) prog) \<Rightarrow> message \<Rightarrow> handler list \<Rightarrow> ('w, handler_result list) prog" where
  "run_handlers handle m [] = ret []"
| "run_handlers handle m (h # hs) = seq (handle h m) (\<lambda>r. seq (run_handlers handle m hs) (\<lambda>rs. ret (r # rs)))"

definition dispatch ::
    "(nat \<Rightarrow> typed_class) \<Rightarrow> codec \<Rightarrow> registry \<Rightarrow> (handler \<Rightarrow> message \<Rightarrow> ('w, handler_result) prog) \<Rightarrow> instant
      \<Rightarrow> dispatch_input \<Rightarrow> ('w, handler_result list) prog" where
  "dispatch classes C R handle now inp =
     seq (lift_res (decode_any classes C R now inp)) (\<lambda>m.
     seq (lift_res (handlers_for R (msg_kind classes m) (msg_type classes m))) (\<lambda>hs.
     if hs = [] then raise HandlerNotFoundError else run_handlers handle m hs))"

section \<open>A declared message comes back\<close>

lemma lookup_key_str [simp]: "lookup_key (PStr k) (PStr t) = Inr (Some (k, t))"
  by (simp add: lookup_key_def)

lemma handlers_for_str [simp]: "handlers_for R (PStr k) (PStr t) = Inr (key_handlers R (k, t))"
  by (simp add: handlers_for_def)

lemma message_class_for_str [simp]: "message_class_for R (PStr k) (PStr t) = Inr (map_of (reg_classes R) (k, t))"
  by (simp add: message_class_for_def)

text \<open>
  An instance of a declared message class, encoded into an envelope of its class's kind, type
  and version, is decoded to the same instance wherever a handler for that class is registered.
\<close>

theorem decode_typed:
  assumes "types_reachable T" "map_of (reg_classes R) (tc_kind (classes c), tc_type (classes c)) = Some c"
    and "distinct (map fst (tc_fields (classes c)))" "construct_message (classes c) args = Inr fs"
    and "codec_ok T build (PDict fs)" "codec_ok T build hs"
    and "codec_encode (python_codec T build) hs PNone = Inr eh"
    and "codec_encode (python_codec T build) (PDict fs) hs = Inr ep"
    and "message_kind e = PStr (tc_kind (classes c))" "message_type e = PStr (tc_type (classes c))"
    and "headers e = eh" "payload e = ep"
  shows "decode classes (python_codec T build) R e =
    (if equals_int (tc_version (classes c)) (version e) then Inr (Typed c fs) else Inl InvalidMessageDefinitionError)"
proof -
  have ok: "types_ok T" using types_reachable_ok assms(1) .
  have "codec_decode (python_codec T build) eh PNone = Inr hs"
    using python.decode_encoded ok assms(6,7) by blast
  moreover have "codec_decode (python_codec T build) ep hs = Inr (PDict fs)"
    using python.decode_encoded ok assms(5,8) by blast
  moreover have "construct_message (classes c) fs = Inr fs" using construct_own_fields assms(3,4) .
  ultimately show ?thesis using assms(2,9-12) by (simp add: decode_def build_typed_def)
qed

definition sample_class :: typed_class where
  "sample_class = \<lparr>tc_kind = ''command'', tc_type = ''pay'', tc_version = 2, tc_queue = None,
     tc_fields = [(''amount'', None), (''note'', Some PNone)], tc_post_init = (\<lambda>fs. Inr ())\<rparr>"

definition sample_registry :: registry where
  "sample_registry = \<lparr>reg_handlers = [((''command'', ''pay''), [Function 1])], reg_classes = [((''command'', ''pay''), 7)]\<rparr>"

definition typed_envelope :: message_envelope where
  "typed_envelope = \<lparr>message_id = PStr ''m'', message_type = PStr ''pay'', message_kind = PStr ''command'',
     version = PInt 2, payload = PDict [(''amount'', PInt 5), (''note'', PNone)], headers = PDict [],
     created_at = PNone, correlation_id = PNone, causation_id = PNone, reply_to = PNone, expires_at = PNone,
     content_type = PNone, content_encoding = PNone\<rparr>"

theorem decode_typed_witness:
  "decode (\<lambda>c. sample_class) (python_codec empty_types (\<lambda>n fs. Inl TypeError)) sample_registry typed_envelope
    = Inr (Typed 7 [(''amount'', PInt 5), (''note'', PNone)])"
proof -
  let ?fs = "[(''amount'', PInt 5), (''note'', PNone)]" and ?b = "\<lambda>n fs. Inl TypeError"
  have "construct_message sample_class [(''amount'', PInt 5)] = Inr ?fs"
    by (simp add: construct_message_def sample_class_def field_value_def)
  moreover have "codec_ok empty_types ?b (PDict ?fs)" "codec_ok empty_types ?b (PDict [])"
    by (simp_all add: dict_wf_def tag_ok_def TYPE_KEY_def)
  moreover have "codec_encode (python_codec empty_types ?b) (PDict []) PNone = Inr (PDict [])"
    "codec_encode (python_codec empty_types ?b) (PDict ?fs) (PDict []) = Inr (PDict ?fs)"
    by (simp_all add: python_codec_def map_entries_def has_key_def CODEC_KEY_def)
  ultimately show ?thesis
    using decode_typed [OF types_empty, of sample_registry "\<lambda>c. sample_class" 7 "[(''amount'', PInt 5)]" ?fs ?b
      "PDict []" "PDict []" "PDict ?fs" typed_envelope]
    by (simp add: sample_registry_def sample_class_def typed_envelope_def)
qed

end
