(* ===== verification/Transport.thy ===== *)
theory Transport
  imports Effects Json
begin

text \<open>
  contracts.py and transports/memory.py: the transport protocol as a record of operations on a
  world \<open>'w\<close>, its FIFO contract, and the in-memory transport. A claimed message is its bytes
  and, where the transport tracks claims, a receipt.
\<close>

record raw_message =
  raw_bytes :: bytes
  raw_receipt :: "string option"

record 'w transport =
  tp_publish :: "string \<Rightarrow> bytes \<Rightarrow> ('w, unit) prog"
  tp_consume :: "string \<Rightarrow> int \<Rightarrow> ('w, raw_message option) prog"
  tp_ack :: "string \<Rightarrow> ('w, unit) prog"
  tp_nack :: "string \<Rightarrow> bool \<Rightarrow> ('w, unit) prog"
  tp_size :: "(string \<Rightarrow> ('w, nat) prog) option"
  tp_consume_many :: "(string \<Rightarrow> int \<Rightarrow> ('w, raw_message list) prog) option"

text \<open>\<open>base64.b64encode\<close>: three bytes make four characters, the last group is padded.\<close>

definition b64_char :: "nat \<Rightarrow> char" where
  "b64_char n = (if n < 26 then char_of (65 + n) else if n < 52 then char_of (71 + n)
     else if n < 62 then char_of (n - 4) else if n = 62 then CHR ''+'' else CHR ''/'')"

fun b64encode :: "bytes \<Rightarrow> string" where
  "b64encode [] = []"
| "b64encode [a] = (let x = (of_char a :: nat) in [b64_char (x div 4), b64_char (x mod 4 * 16), CHR ''='', CHR ''=''])"
| "b64encode [a, b] = (let x = (of_char a :: nat); y = of_char b in
     [b64_char (x div 4), b64_char (x mod 4 * 16 + y div 16), b64_char (y mod 16 * 4), CHR ''=''])"
| "b64encode (a # b # c # cs) = (let x = (of_char a :: nat); y = of_char b; z = of_char c in
     [b64_char (x div 4), b64_char (x mod 4 * 16 + y div 16), b64_char (y mod 16 * 4 + z div 64), b64_char (z mod 64)]
     @ b64encode cs)"

section \<open>The in-memory transport\<close>

type_synonym mem = "(string, bytes list) dict"

text \<open>A \<open>defaultdict\<close>: reading a channel creates its empty queue.\<close>

definition touch :: "string \<Rightarrow> mem \<Rightarrow> mem" where
  "touch c m = (if has_key m c then m else AList.update c [] m)"

definition mem_queue :: "mem \<Rightarrow> string \<Rightarrow> bytes list" where
  "mem_queue m c = (case map_of m c of None \<Rightarrow> [] | Some q \<Rightarrow> q)"

definition mem_publish :: "string \<Rightarrow> bytes \<Rightarrow> (mem, unit) prog" where
  "mem_publish c msg m = (Inr (), AList.update c (mem_queue m c @ [msg]) m)"

definition mem_consume :: "string \<Rightarrow> int \<Rightarrow> (mem, raw_message option) prog" where
  "mem_consume c timeout m =
     (let m1 = touch c m in
      case mem_queue m1 c of
        [] \<Rightarrow> (Inr None, m1)
      | b # bs \<Rightarrow> (Inr (Some \<lparr>raw_bytes = b, raw_receipt = None\<rparr>), AList.update c bs m1))"

definition mem_ack :: "string \<Rightarrow> (mem, unit) prog" where
  "mem_ack receipt m = (Inr (), m)"

definition mem_nack :: "string \<Rightarrow> bool \<Rightarrow> (mem, unit) prog" where
  "mem_nack receipt requeue m = (Inr (), m)"

definition mem_size :: "string \<Rightarrow> (mem, nat) prog" where
  "mem_size c m = (let m1 = touch c m in (Inr (length (mem_queue m1 c)), m1))"

text \<open>\<open>while queue and len(items) < limit\<close>.\<close>

fun take_items :: "bytes list \<Rightarrow> int \<Rightarrow> nat \<Rightarrow> bytes list \<times> bytes list" where
  "take_items [] limit n = ([], [])"
| "take_items (b # bs) limit n =
     (if int n < limit then (let (xs, rest) = take_items bs limit (n + 1) in (b # xs, rest)) else ([], b # bs))"

definition mem_consume_many :: "string \<Rightarrow> int \<Rightarrow> (mem, raw_message list) prog" where
  "mem_consume_many c limit m =
     (let m1 = touch c m; (items, rest) = take_items (mem_queue m1 c) limit 0 in
      (Inr (map (\<lambda>b. \<lparr>raw_bytes = b, raw_receipt = None\<rparr>) items), AList.update c rest m1))"

definition MemoryTransport :: "mem transport" where
  "MemoryTransport = \<lparr>tp_publish = mem_publish, tp_consume = mem_consume, tp_ack = mem_ack, tp_nack = mem_nack,
     tp_size = Some mem_size, tp_consume_many = Some mem_consume_many\<rparr>"

section \<open>The FIFO contract\<close>

text \<open>
  \<open>queue w c\<close> are the messages waiting on channel \<open>c\<close>, oldest first, for channel names that
  satisfy \<open>chan\<close>. Only what an operation did when it returned is promised.
\<close>

locale fifo_transport =
  fixes T :: "'w transport" and ok :: "'w \<Rightarrow> bool" and chan :: "string \<Rightarrow> bool"
    and queue :: "'w \<Rightarrow> string \<Rightarrow> bytes list"
  assumes publish: "ok w \<Longrightarrow> chan c \<Longrightarrow> tp_publish T c b w = (Inr u, w') \<Longrightarrow>
      ok w' \<and> queue w' c = queue w c @ [b] \<and> (\<forall>d. chan d \<longrightarrow> d \<noteq> c \<longrightarrow> queue w' d = queue w d)"
    and consume: "ok w \<Longrightarrow> chan c \<Longrightarrow> tp_consume T c t w = (Inr (Some raw), w') \<Longrightarrow>
      ok w' \<and> queue w c = raw_bytes raw # queue w' c \<and> (\<forall>d. chan d \<longrightarrow> d \<noteq> c \<longrightarrow> queue w' d = queue w d)"
    and consume_empty: "ok w \<Longrightarrow> chan c \<Longrightarrow> tp_consume T c t w = (Inr None, w') \<Longrightarrow>
      ok w' \<and> queue w c = [] \<and> (\<forall>d. chan d \<longrightarrow> queue w' d = queue w d)"
    and ack: "ok w \<Longrightarrow> tp_ack T r w = (Inr u, w') \<Longrightarrow> ok w' \<and> (\<forall>d. chan d \<longrightarrow> queue w' d = queue w d)"
begin

text \<open>Publishing a list of messages, and consuming a number of them.\<close>

fun publish_all :: "string \<Rightarrow> bytes list \<Rightarrow> ('w, unit) prog" where
  "publish_all c [] = ret ()"
| "publish_all c (b # bs) = seq (tp_publish T c b) (\<lambda>_. publish_all c bs)"

fun consume_n :: "string \<Rightarrow> int \<Rightarrow> nat \<Rightarrow> ('w, bytes list) prog" where
  "consume_n c t 0 = ret []"
| "consume_n c t (Suc n) = seq (tp_consume T c t) (\<lambda>r. case r of None \<Rightarrow> ret []
     | Some raw \<Rightarrow> seq (consume_n c t n) (\<lambda>bs. ret (raw_bytes raw # bs)))"

lemma publish_all_queue:
  "ok w \<Longrightarrow> chan c \<Longrightarrow> publish_all c bs w = (Inr u, w') \<Longrightarrow> ok w' \<and> queue w' c = queue w c @ bs"
proof (induction bs arbitrary: w)
  case (Cons b bs)
  then obtain w1 where "tp_publish T c b w = (Inr (), w1)" "publish_all c bs w1 = (Inr u, w')"
    by (auto simp: seq_def split: prod.splits sum.splits)
  with Cons publish [of w c b] show ?case by fastforce
qed auto

lemma consume_n_prefix:
  "ok w \<Longrightarrow> chan c \<Longrightarrow> consume_n c t n w = (Inr bs, w') \<Longrightarrow> ok w' \<and> bs = take n (queue w c) \<and> queue w' c = drop n (queue w c)"
proof (induction n arbitrary: w bs)
  case (Suc n)
  obtain r w1 where r: "tp_consume T c t w = (Inr r, w1)"
    using Suc.prems by (auto simp: seq_def split: prod.splits sum.splits)
  show ?case
  proof (cases r)
    case None
    then show ?thesis using Suc.prems r consume_empty [of w c t w1] by auto
  next
    case (Some raw)
    then obtain bs' where "consume_n c t n w1 = (Inr bs', w')" "bs = raw_bytes raw # bs'"
      using Suc.prems r by (auto simp: seq_def split: prod.splits sum.splits)
    then show ?thesis using Suc r Some consume [of w c t raw w1] by fastforce
  qed
qed auto

text \<open>First in, first out: what was published comes back in the order of publication.\<close>

lemma fifo:
  assumes "ok w" "chan c" "queue w c = []" "publish_all c bs w = (Inr u, w1)" "consume_n c t (length bs) w1 = (Inr bs', w2)"
  shows "bs' = bs \<and> queue w2 c = []"
  using publish_all_queue [OF assms(1,2,4)] consume_n_prefix [of w1 c t "length bs" bs' w2] assms(2,3,5) by simp

end

lemma mem_queue_touch [simp]: "mem_queue (touch c m) d = mem_queue m d"
  by (auto simp: touch_def mem_queue_def has_key_map_of split: option.splits)

lemma mem_queue_update [simp]: "mem_queue (AList.update c q m) d = (if d = c then q else mem_queue m d)"
  by (simp add: mem_queue_def)

interpretation memory: fifo_transport MemoryTransport "\<lambda>m. True" "\<lambda>c. True" mem_queue
  by unfold_locales
    (auto simp: MemoryTransport_def mem_publish_def mem_consume_def mem_ack_def Let_def split: list.splits)

text \<open>\<open>take_items\<close> takes the first \<open>limit\<close> items.\<close>

lemma take_items: "take_items q limit n = (take (nat (limit - int n)) q, drop (nat (limit - int n)) q)"
proof (induction q limit n rule: take_items.induct)
  case (2 b bs limit n)
  show ?case
  proof (cases "int n < limit")
    case True
    then have "nat (limit - int n) = Suc (nat (limit - int (n + 1)))" by simp
    then show ?thesis using True 2 by simp
  qed simp
qed simp

text \<open>The programs of the FIFO contract on the memory transport, written out.\<close>

definition mem_publish_all :: "string \<Rightarrow> bytes list \<Rightarrow> (mem, unit) prog" where
  "mem_publish_all c bs = for_each (\<lambda>b. tp_publish MemoryTransport c b) bs"

lemma mem_publish_all: "mem_publish_all c bs = memory.publish_all c bs"
  by (induction bs) (simp_all add: mem_publish_all_def)

text \<open>
  The in-memory transport delivers a channel's messages in the order they were published,
  each once, however many are claimed at a time.
\<close>

theorem memory_fifo:
  assumes "mem_queue m c = []" "mem_publish_all c bs m = (Inr (), m1)"
    and "mem_consume_many c limit m1 = (Inr raws, m2)"
  shows "map raw_bytes raws = take (nat limit) bs \<and> mem_queue m2 c = drop (nat limit) bs \<and> mem_size c m2 = (Inr (length bs - nat limit), touch c m2)"
proof -
  have "mem_queue m1 c = bs"
    using memory.publish_all_queue [OF TrueI TrueI assms(2) [unfolded mem_publish_all]] assms(1) by simp
  then show ?thesis
    using assms(3) by (auto simp: mem_consume_many_def mem_size_def take_items comp_def Let_def)
qed

theorem memory_fifo_witness:
  "\<exists>m1 raws m2. mem_publish_all ''q'' [''a'', ''b'', ''c''] [] = (Inr (), m1)
     \<and> mem_consume_many ''q'' 2 m1 = (Inr raws, m2) \<and> map raw_bytes raws = [''a'', ''b''] \<and> mem_queue m2 ''q'' = [''c'']"
proof -
  obtain m1 where m1: "mem_publish_all ''q'' [''a'', ''b'', ''c''] [] = (Inr (), m1)"
    by (simp add: mem_publish_all_def seq_def MemoryTransport_def mem_publish_def)
  obtain raws m2 where m2: "mem_consume_many ''q'' 2 m1 = (Inr raws, m2)"
    by (simp add: mem_consume_many_def Let_def take_items)
  show ?thesis using memory_fifo [OF _ m1 m2] m1 m2 by (simp add: mem_queue_def)
qed

end
