(* ===== verification/Queues.thy ===== *)
theory Queues
  imports Exceptions
begin

text \<open>
  The queue topology (queues.py): the three built-in queues, the extra declared queues, and
  the declaration and resolution operations.
\<close>

record QueueTopology =
  default_queue :: string
  slow_queue :: string
  dead_letter_queue :: string
  extra_queues :: "string list"

definition DEFAULT_QUEUE_NAME :: string where
  "DEFAULT_QUEUE_NAME = ''pybus.jobs''"

definition DEFAULT_SLOW_QUEUE_NAME :: string where
  "DEFAULT_SLOW_QUEUE_NAME = ''pybus.jobs.slow''"

definition DEFAULT_FAILED_QUEUE_NAME :: string where
  "DEFAULT_FAILED_QUEUE_NAME = ''pybus.jobs.failed''"

definition DEFAULT_QUEUE_TOPOLOGY :: QueueTopology where
  "DEFAULT_QUEUE_TOPOLOGY =
     \<lparr>default_queue = DEFAULT_QUEUE_NAME, slow_queue = DEFAULT_SLOW_QUEUE_NAME,
      dead_letter_queue = DEFAULT_FAILED_QUEUE_NAME, extra_queues = []\<rparr>"

text \<open>\<open>x or y\<close> on an optional string: the empty string is falsy too.\<close>

definition or_str :: "string option \<Rightarrow> string \<Rightarrow> string" where
  "or_str x y = (case x of None \<Rightarrow> y | Some s \<Rightarrow> if s = [] then y else s)"

definition with_queue_names ::
  "QueueTopology \<Rightarrow> string option \<Rightarrow> string option \<Rightarrow> string option \<Rightarrow> QueueTopology" where
  "with_queue_names t dq sq lq =
     t\<lparr>default_queue := or_str dq (default_queue t),
       slow_queue := or_str sq (slow_queue t),
       dead_letter_queue := or_str lq (dead_letter_queue t)\<rparr>"

definition queues :: "QueueTopology \<Rightarrow> string list" where
  "queues t = [default_queue t, slow_queue t, dead_letter_queue t] @ extra_queues t"

definition has_queue :: "QueueTopology \<Rightarrow> string \<Rightarrow> bool" where
  "has_queue t q \<longleftrightarrow> q \<in> set (queues t)"

fun declare_loop :: "QueueTopology \<Rightarrow> string list \<Rightarrow> string list \<Rightarrow> string list" where
  "declare_loop t extras [] = extras"
| "declare_loop t extras (q # qs) =
     (if has_queue t q \<or> q \<in> set extras then declare_loop t extras qs
      else declare_loop t (extras @ [q]) qs)"

definition declare_queues :: "QueueTopology \<Rightarrow> string list \<Rightarrow> QueueTopology" where
  "declare_queues t qs = t\<lparr>extra_queues := declare_loop t (extra_queues t) qs\<rparr>"

definition declare_queue :: "QueueTopology \<Rightarrow> string \<Rightarrow> QueueTopology" where
  "declare_queue t q = declare_queues t [q]"

definition resolve :: "QueueTopology \<Rightarrow> string option \<Rightarrow> string" where
  "resolve t q = or_str q (default_queue t)"

lemma or_str_nonempty: "y \<noteq> [] \<Longrightarrow> or_str x y \<noteq> []"
  by (auto simp: or_str_def split: option.splits)

lemma declare_loop_set:
  "set (declare_loop t extras qs) = set extras \<union> {q \<in> set qs. \<not> has_queue t q}"
  by (induction t extras qs rule: declare_loop.induct) auto

lemma declare_loop_distinct:
  "distinct extras \<Longrightarrow> distinct (declare_loop t extras qs)"
  by (induction t extras qs rule: declare_loop.induct) auto

lemma declare_loop_prefix: "\<exists>zs. declare_loop t extras qs = extras @ zs"
  by (induction t extras qs rule: declare_loop.induct) auto

lemma has_queue_declare_queues:
  "has_queue (declare_queues t qs) q \<longleftrightarrow> has_queue t q \<or> q \<in> set qs"
  by (auto simp: has_queue_def queues_def declare_queues_def declare_loop_set)

text \<open>
  Declaring queues makes exactly the named queues available besides those already
  present, keeps the built-in queues, leaves already declared queues in their order, and
  never lists an extra queue twice or under a built-in name.
\<close>

theorem declare_queues_spec:
  assumes "distinct (extra_queues t)"
    and "set (extra_queues t) \<inter> {default_queue t, slow_queue t, dead_letter_queue t} = {}"
  shows "(\<forall>q. has_queue (declare_queues t qs) q \<longleftrightarrow> has_queue t q \<or> q \<in> set qs)
    \<and> (\<exists>zs. queues (declare_queues t qs) = queues t @ zs)
    \<and> distinct (extra_queues (declare_queues t qs))
    \<and> set (extra_queues (declare_queues t qs))
        \<inter> {default_queue t, slow_queue t, dead_letter_queue t} = {}"
proof (intro conjI)
  show "\<forall>q. has_queue (declare_queues t qs) q \<longleftrightarrow> has_queue t q \<or> q \<in> set qs"
    by (simp add: has_queue_declare_queues)
  obtain zs where "declare_loop t (extra_queues t) qs = extra_queues t @ zs"
    using declare_loop_prefix by blast
  then have "queues (declare_queues t qs) = queues t @ zs"
    by (simp add: queues_def declare_queues_def)
  then show "\<exists>zs. queues (declare_queues t qs) = queues t @ zs" ..
  show "distinct (extra_queues (declare_queues t qs))"
    using assms(1) by (simp add: declare_queues_def declare_loop_distinct)
  show "set (extra_queues (declare_queues t qs))
      \<inter> {default_queue t, slow_queue t, dead_letter_queue t} = {}"
    using assms(2) by (auto simp: declare_queues_def declare_loop_set has_queue_def queues_def)
qed

theorem declare_queues_spec_witness:
  "has_queue (declare_queues DEFAULT_QUEUE_TOPOLOGY [''a'', ''pybus.jobs'', ''a'']) ''a''
   \<and> extra_queues (declare_queues DEFAULT_QUEUE_TOPOLOGY [''a'', ''pybus.jobs'', ''a'']) = [''a'']"
  using declare_queues_spec [of DEFAULT_QUEUE_TOPOLOGY "[''a'', ''pybus.jobs'', ''a'']"]
  by (simp add: DEFAULT_QUEUE_TOPOLOGY_def declare_queues_def has_queue_def queues_def
      DEFAULT_QUEUE_NAME_def DEFAULT_SLOW_QUEUE_NAME_def DEFAULT_FAILED_QUEUE_NAME_def)

end
