(* ===== verification/Listener.thy ===== *)
theory Listener
  imports Dispatcher Controller Transport Queues
begin

text \<open>
  listener.py: claiming a message, dispatching it to its handlers and settling the claim by
  acknowledging, requeueing, dead-lettering, continuing, buffering or answering it. Transport,
  durable store, handlers, observers, clocks and sleeping act on a common world \<open>'w\<close>. A clock
  reading that Python evaluates only when needed is taken in any case.

  \<open>history\<close> is a record of what the listener did, kept for the theorems; no operation reads it.
\<close>

section \<open>State and collaborators\<close>

datatype event =
    Claimed string raw_message
  | Published "string option" string bytes
  | Ran "string option" handler
  | Completed "string option"
  | Dropped "string option"
  | Acked string

record lstate =
  batch_started_at :: "(string, instant) dict"
  batch_retry_after :: "(string, instant) dict"
  history :: "event list"

type_synonym 'w lworld = "lstate \<times> 'w"

record 'w controller =
  ct_store :: "'w store_ops"
  ct_policy :: policy
  ct_now :: "'w \<Rightarrow> instant \<times> 'w"

record 'w listener =
  l_transport :: "'w transport"
  l_registry :: registry
  l_attrs :: attrs
  l_classes :: "nat \<Rightarrow> typed_class"
  l_codec :: codec
  l_retry_policy :: retry_policy
  l_dead_letter_channel :: string
  l_now :: "'w \<Rightarrow> instant \<times> 'w"
  l_utc_now :: "'w \<Rightarrow> instant \<times> 'w"
  l_uuid :: "'w \<Rightarrow> string \<times> 'w"
  l_topology :: "QueueTopology option"
  l_sleep :: "product \<Rightarrow> ('w, unit) prog"
  l_time_sleep :: "rat \<Rightarrow> 'w \<Rightarrow> 'w"
  l_observers :: "(outcome \<Rightarrow> ('w, unit) prog) list"
  l_controller :: "'w controller option"
  l_handle :: "handler \<Rightarrow> message \<Rightarrow> ('w, handler_result) prog"
  l_handle_batch :: "handler \<Rightarrow> message list \<Rightarrow> ('w, handler_result) prog"

text \<open>A call into the world, a draw from it (a clock, an id), and an entry of the history.\<close>

definition world :: "('w, 'a) prog \<Rightarrow> ('w lworld, 'a) prog" where
  "world m = (\<lambda>(l, w). let (r, w') = m w in (r, (l, w')))"

definition draw :: "('w \<Rightarrow> 'a \<times> 'w) \<Rightarrow> ('w lworld, 'a) prog" where
  "draw f = (\<lambda>(l, w). let (a, w') = f w in (Inr a, (l, w')))"

definition note_event :: "event \<Rightarrow> ('w lworld, unit) prog" where
  "note_event ev = modify (\<lambda>(l, w). (l\<lparr>history := history l @ [ev]\<rparr>, w))"

definition on_state :: "(lstate \<Rightarrow> lstate) \<Rightarrow> ('w lworld, unit) prog" where
  "on_state f = modify (\<lambda>(l, w). (f l, w))"

definition read_state :: "(lstate \<Rightarrow> 'a) \<Rightarrow> ('w lworld, 'a) prog" where
  "read_state f = get_state (\<lambda>(l, w). f l)"

definition MULTI_QUEUE_CONSUME_TIMEOUT :: int where "MULTI_QUEUE_CONSUME_TIMEOUT = 1"
definition DEFAULT_REPLY_QUEUE :: string where "DEFAULT_REPLY_QUEUE = ''pybus.responses''"

definition batched_buffer_key :: "string \<Rightarrow> string" where
  "batched_buffer_key event_type = ''batched:'' @ event_type"

section \<open>Settling a claim\<close>

definition settle_after_claim :: "('w lworld, 'a) prog \<Rightarrow> ('w lworld, 'a) prog" where
  "settle_after_claim m = wrap_errors (\<lambda>x. x = IndeterminateDeliveryError) IndeterminateDeliveryError m"

definition ack_claim :: "'w listener \<Rightarrow> string option \<Rightarrow> ('w lworld, unit) prog" where
  "ack_claim L receipt = (case receipt of
     None \<Rightarrow> ret ()
   | Some r \<Rightarrow> seq (settle_after_claim (world (tp_ack (l_transport L) r))) (\<lambda>_. note_event (Acked r)))"

text \<open>\<open>transport.publish(channel, serializer.dump(envelope))\<close>, on behalf of a claim.\<close>

definition publish_envelope ::
    "'w listener \<Rightarrow> string option \<Rightarrow> string \<Rightarrow> message_envelope \<Rightarrow> ('w lworld, unit) prog" where
  "publish_envelope L receipt channel e =
     seq (lift_res (to_wire e)) (\<lambda>b.
     seq (world (tp_publish (l_transport L) channel b)) (\<lambda>_.
     note_event (Published receipt channel b)))"

definition create_envelope :: "'w listener \<Rightarrow> message_envelope \<Rightarrow> ('w lworld, message_envelope) prog" where
  "create_envelope L e = seq (draw (l_uuid L)) (\<lambda>u. seq (draw (l_utc_now L)) (\<lambda>t. ret (create u t e)))"

definition restore_and_abort ::
    "'w listener \<Rightarrow> string \<Rightarrow> message_envelope \<Rightarrow> exn \<Rightarrow> string option \<Rightarrow> ('w lworld, 'a) prog" where
  "restore_and_abort L channel e err receipt =
     seq (settle_after_claim (publish_envelope L receipt channel e)) (\<lambda>_.
     seq (ack_claim L receipt) (\<lambda>_. raise err))"

section \<open>Retry state of an envelope\<close>

definition is_typed :: "'w listener \<Rightarrow> message_envelope \<Rightarrow> bool res" where
  "is_typed L e = bind_res (message_class_for (l_registry L) (message_kind e) (message_type e)) (\<lambda>c. Inr (c \<noteq> None))"

definition retry_payload :: "bool \<Rightarrow> message_envelope \<Rightarrow> pyval" where
  "retry_payload typed e = (if typed then PNone else payload e)"

definition retry_count :: "'w listener \<Rightarrow> message_envelope \<Rightarrow> nat res" where
  "retry_count L e = bind_res (is_typed L e) (\<lambda>typed. Inr (resolve_retry_count (retry_payload typed e) (env_headers e)))"

definition spec_for :: "'w listener \<Rightarrow> handler \<Rightarrow> handler_spec" where
  "spec_for L h = (case handler_spec_of (l_attrs L) h of
     Some s \<Rightarrow> s
   | None \<Rightarrow> \<lparr>hs_kind = [], hs_type = [], hs_class = None, hs_allow_multiple = None, hs_retry_limit = None,
       hs_delay = 0, hs_is_batched = False, hs_batch_size = 100, hs_max_wait = 10\<rparr>)"

definition max_retries_of :: "'w listener \<Rightarrow> handler_spec \<Rightarrow> int" where
  "max_retries_of L spec = (case hs_retry_limit spec of None \<Rightarrow> rp_max_retries (l_retry_policy L) | Some n \<Rightarrow> n)"

definition should_delay :: "'w listener \<Rightarrow> message_envelope \<Rightarrow> handler_spec \<Rightarrow> ('w lworld, bool) prog" where
  "should_delay L e spec =
     (if hs_delay spec \<le> 0 then ret False
      else seq (lift_res (is_typed L e)) (\<lambda>typed.
        case resolve_last_attempt (retry_payload typed e) (env_headers e) of
          None \<Rightarrow> ret False
        | Some t \<Rightarrow> seq (draw (l_now L)) (\<lambda>now. ret (now - utc_of t < hs_delay spec * us_second))))"

section \<open>Durable jobs and observers\<close>

definition command_delivery_outcome ::
    "message_envelope \<Rightarrow> delivery_status \<Rightarrow> string \<Rightarrow> string option \<Rightarrow> int \<Rightarrow> int \<Rightarrow> outcome" where
  "command_delivery_outcome e status source dest retries max_retries = \<lparr>
     o_status = status, o_message_id = message_id e, o_message_type = message_type e, o_version = version e,
     o_source = source, o_destination = dest, o_retry_count = retries, o_max_retries = max_retries,
     o_record_id = (case py_get (env_headers e) ''pybus_durable_record'' of PStr s \<Rightarrow> Some s | _ \<Rightarrow> None),
     o_generation = (case py_get (env_headers e) ''pybus_durable_generation'' of PInt g \<Rightarrow> Some g
        | PBool b \<Rightarrow> Some (if b then 1 else 0) | _ \<Rightarrow> None)\<rparr>"

fun notify_observers :: "(outcome \<Rightarrow> ('w, unit) prog) list \<Rightarrow> outcome \<Rightarrow> ('w lworld, bool) prog" where
  "notify_observers [] oc = ret False"
| "notify_observers (f # fs) oc =
     seq (failed (world (f oc))) (\<lambda>x. seq (notify_observers fs oc) (\<lambda>y. ret (x \<or> y)))"

definition notify_command_outcome ::
    "'w listener \<Rightarrow> message_envelope \<Rightarrow> delivery_status \<Rightarrow> string \<Rightarrow> string option \<Rightarrow> int \<Rightarrow> int \<Rightarrow> bool
      \<Rightarrow> ('w lworld, unit) prog" where
  "notify_command_outcome L e status source dest retries max_retries apply_durable =
     (if message_kind e \<noteq> PStr ''command'' then ret ()
      else let oc = command_delivery_outcome e status source dest retries max_retries in
        seq (case l_controller L of
               Some c \<Rightarrow> if apply_durable
                 then failed (seq (draw (ct_now c)) (\<lambda>t. world (controller_apply (ct_store c) (ct_policy c) t oc)))
                 else ret False
             | None \<Rightarrow> ret False) (\<lambda>x.
        seq (notify_observers (l_observers L) oc) (\<lambda>y.
        if x \<or> y then raise DeliveryObservationError else ret ())))"

definition checkpoint_durable_settlement ::
    "'w listener \<Rightarrow> message_envelope \<Rightarrow> delivery_status \<Rightarrow> string \<Rightarrow> string option \<Rightarrow> int \<Rightarrow> int \<Rightarrow> instant option
      \<Rightarrow> string option \<Rightarrow> ('w lworld, unit) prog" where
  "checkpoint_durable_settlement L e status source dest retries max_retries last_attempt receipt =
     (case l_controller L of
        None \<Rightarrow> ret ()
      | Some c \<Rightarrow> try_catch
          (seq (draw (ct_now c)) (\<lambda>t.
           world (checkpoint (ct_store c) (ct_policy c) t e status source dest retries max_retries last_attempt)))
          (\<lambda>_. restore_and_abort L source e WorkerAbortError receipt))"

definition verify_durable_configuration ::
    "'w listener \<Rightarrow> string \<Rightarrow> message_envelope \<Rightarrow> string option \<Rightarrow> ('w lworld, unit) prog" where
  "verify_durable_configuration L channel e receipt = (case identity e of
     Inl _ \<Rightarrow> restore_and_abort L channel e WorkerAbortError receipt
   | Inr None \<Rightarrow> ret ()
   | Inr (Some ident) \<Rightarrow>
       if l_controller L = None then restore_and_abort L channel e WorkerAbortError receipt
       else if message_kind e \<noteq> PStr ''command'' then restore_and_abort L channel e WorkerAbortError receipt
       else ret ())"

definition admit_durable_delivery ::
    "'w listener \<Rightarrow> string \<Rightarrow> message_envelope \<Rightarrow> int \<Rightarrow> string option \<Rightarrow> ('w lworld, bool) prog" where
  "admit_durable_delivery L channel e max_retries receipt = (case l_controller L of
     None \<Rightarrow> ret True
   | Some c \<Rightarrow>
       seq (try_catch
          (seq (lift_res (retry_count L e)) (\<lambda>n.
           seq (draw (ct_now c)) (\<lambda>t.
           world (admit (ct_store c) (ct_policy c) t e channel (int n) max_retries))))
          (\<lambda>_. restore_and_abort L channel e WorkerAbortError receipt)) (\<lambda>decision.
       if decision = None \<or> decision = Some PROCEED then ret True
       else if decision = Some DROP then seq (note_event (Dropped receipt)) (\<lambda>_. ret False)
       else restore_and_abort L channel e WorkerAbortError receipt))"

section \<open>Requeue, dead letter, continuation\<close>

definition retry_envelope :: "bool \<Rightarrow> nat \<Rightarrow> instant \<Rightarrow> message_envelope \<Rightarrow> message_envelope" where
  "retry_envelope typed retries now e = e\<lparr>
     payload := (if typed then payload e else (case payload e of
        PDict d \<Rightarrow> PDict (next_retry_payload d (at_utc now) (Some retries)) | v \<Rightarrow> v)),
     headers := PDict (AList.update ''last_attempt'' (PStr (isoformat (at_utc now)))
        (AList.update ''retries'' (PInt (int retries + 1)) (env_headers e)))\<rparr>"

definition requeue ::
    "'w listener \<Rightarrow> string \<Rightarrow> message_envelope \<Rightarrow> int \<Rightarrow> string option \<Rightarrow> ('w lworld, unit) prog" where
  "requeue L channel e max_retries receipt =
     seq (lift_res (retry_count L e)) (\<lambda>retries.
     seq (lift_res (next_delay (l_retry_policy L) retries)) (\<lambda>delay.
     seq (perform_if (positive delay) (world (l_sleep L delay))) (\<lambda>_.
     seq (draw (l_now L)) (\<lambda>now.
     seq (lift_res (is_typed L e)) (\<lambda>typed.
     seq (checkpoint_durable_settlement L e RETRY_SCHEDULED channel (Some channel) (int retries + 1) max_retries
        (Some now) receipt) (\<lambda>_.
     seq (settle_after_claim
        (seq (create_envelope L (retry_envelope typed retries now e)) (publish_envelope L receipt channel))) (\<lambda>_.
     seq (ack_claim L receipt) (\<lambda>_.
     notify_command_outcome L e RETRY_SCHEDULED channel (Some channel) (int retries + 1) max_retries True))))))))"

definition dead_letter_envelope :: "string \<Rightarrow> message_envelope \<Rightarrow> message_envelope" where
  "dead_letter_envelope channel e =
     e\<lparr>headers := PDict (AList.update ''dead_lettered_from'' (PStr channel) (env_headers e))\<rparr>"

definition dead_letter ::
    "'w listener \<Rightarrow> string \<Rightarrow> message_envelope \<Rightarrow> int \<Rightarrow> string option \<Rightarrow> ('w lworld, unit) prog" where
  "dead_letter L channel e max_retries receipt =
     seq (lift_res (retry_count L e)) (\<lambda>retries.
     seq (checkpoint_durable_settlement L e DEAD_LETTERED channel (Some (l_dead_letter_channel L)) (int retries)
        max_retries None receipt) (\<lambda>_.
     seq (settle_after_claim
        (seq (create_envelope L (dead_letter_envelope channel e))
          (publish_envelope L receipt (l_dead_letter_channel L)))) (\<lambda>_.
     seq (ack_claim L receipt) (\<lambda>_.
     notify_command_outcome L e DEAD_LETTERED channel (Some (l_dead_letter_channel L)) (int retries) max_retries True))))"

definition handle_failed_delivery ::
    "'w listener \<Rightarrow> string \<Rightarrow> message_envelope \<Rightarrow> handler_spec \<Rightarrow> string option \<Rightarrow> ('w lworld, unit) prog" where
  "handle_failed_delivery L channel e spec receipt =
     seq (lift_res (retry_count L e)) (\<lambda>n.
     if int n < max_retries_of L spec then
       seq (perform_if (0 < hs_delay spec) (draw (\<lambda>w. ((), l_time_sleep L (of_int (hs_delay spec)) w)))) (\<lambda>_.
       requeue L channel e (max_retries_of L spec) receipt)
     else dead_letter L channel e (max_retries_of L spec) receipt)"

definition target_queue :: "string \<Rightarrow> continuation \<Rightarrow> string" where
  "target_queue channel cont = or_str (cp_queue cont) channel"

definition continue_delivery ::
    "'w listener \<Rightarrow> string \<Rightarrow> message_envelope \<Rightarrow> continuation \<Rightarrow> int \<Rightarrow> string option \<Rightarrow> ('w lworld, unit) prog" where
  "continue_delivery L channel e cont max_retries receipt =
     (let target = target_queue channel cont in
      if target = l_dead_letter_channel L then raise ValueError
      else if cp_queue cont \<noteq> None \<and> target \<noteq> channel
          \<and> (case l_topology L of None \<Rightarrow> False | Some t \<Rightarrow> \<not> has_queue t target) then raise ValueError
      else
        seq (perform_if (0 < cp_delay cont)
           (wrap_errors (\<lambda>x. False) IndeterminateDeliveryError (world (l_sleep L (Finite (P_Float (cp_delay cont))))))) (\<lambda>_.
        seq (lift_res (retry_count L e)) (\<lambda>retries.
        seq (checkpoint_durable_settlement L e CONTINUED channel (Some target) (int retries) max_retries None receipt) (\<lambda>_.
        seq (settle_after_claim (publish_envelope L receipt target e)) (\<lambda>_.
        seq (ack_claim L receipt) (\<lambda>_.
        notify_command_outcome L e CONTINUED channel (Some target) (int retries) max_retries True))))))"

text \<open>The class name of an exception, as it appears in a poison message.\<close>

fun exn_name :: "exn \<Rightarrow> string" where
  "exn_name ValueError = ''ValueError''"
| "exn_name TypeError = ''TypeError''"
| "exn_name (KeyError k) = ''KeyError''"
| "exn_name AttributeError = ''AttributeError''"
| "exn_name DeserializationError = ''DeserializationError''"
| "exn_name InvalidMessageDefinitionError = ''InvalidMessageDefinitionError''"
| "exn_name RuntimeError = ''RuntimeError''"
| "exn_name OverflowError = ''OverflowError''"
| "exn_name SerializationError = ''SerializationError''"
| "exn_name HandlerNotFoundError = ''HandlerNotFoundError''"
| "exn_name MessageTimeoutError = ''MessageTimeoutError''"
| "exn_name (DuplicateMessageError m) = ''DuplicateMessageError''"
| "exn_name TransportError = ''TransportError''"
| "exn_name IndeterminateDeliveryError = ''IndeterminateDeliveryError''"
| "exn_name WorkerAbortError = ''WorkerAbortError''"
| "exn_name DeliveryObservationError = ''DeliveryObservationError''"
| "exn_name DurableJobsNotConfiguredError = ''DurableJobsNotConfiguredError''"
| "exn_name DurableJobConflictError = ''DurableJobConflictError''"
| "exn_name JobSeriesNotSupportedError = ''JobSeriesNotSupportedError''"
| "exn_name JobSeriesNotFoundError = ''JobSeriesNotFoundError''"
| "exn_name IntegrityError = ''IntegrityError''"
| "exn_name DoesNotExist = ''DoesNotExist''"
| "exn_name ValidationError = ''ValidationError''"
| "exn_name (AppError n) = n"

definition poison_envelope :: "string \<Rightarrow> bytes \<Rightarrow> string \<Rightarrow> message_envelope" where
  "poison_envelope channel raw error_type = \<lparr>message_id = PNone, message_type = PStr ''pybus.message.decode_failed'',
     message_kind = PStr ''event'', version = PInt 1,
     payload = PDict [(''raw_message'', PStr (b64encode raw)), (''raw_message_encoding'', PStr ''base64''),
       (''error_type'', PStr error_type)],
     headers = PDict [(''dead_lettered_from'', PStr channel)], created_at = PNone, correlation_id = PNone,
     causation_id = PNone, reply_to = PNone, expires_at = PNone, content_type = PNone, content_encoding = PNone\<rparr>"

definition dead_letter_undecodable :: "'w listener \<Rightarrow> string \<Rightarrow> raw_message \<Rightarrow> exn \<Rightarrow> ('w lworld, unit) prog" where
  "dead_letter_undecodable L channel raw err =
     seq (create_envelope L (poison_envelope channel (raw_bytes raw) (exn_name err))) (\<lambda>poison.
     seq (settle_after_claim (publish_envelope L (raw_receipt raw) (l_dead_letter_channel L) poison)) (\<lambda>_.
     ack_claim L (raw_receipt raw)))"

section \<open>Responses\<close>

definition response_envelope ::
    "codec \<Rightarrow> instant \<Rightarrow> message_envelope \<Rightarrow> string \<Rightarrow> base_message \<Rightarrow> message_envelope res" where
  "response_envelope C now request reply_queue response =
     bind_res (codec_encode C (bm_headers response) PNone) (\<lambda>encoded_headers.
     bind_res (codec_encode C (bm_payload response) (bm_headers response)) (\<lambda>encoded.
     Inr \<lparr>message_id = PNone, message_type = bm_message_type response,
       message_kind = PStr (mc_kind (bm_class response)), version = PInt (mc_version (bm_class response)),
       payload = encoded, headers = encoded_headers, created_at = PDateTime (at_utc now),
       correlation_id = correlation_id request, causation_id = message_id request, reply_to = PStr reply_queue,
       expires_at = bm_expires_at response, content_type = bm_content_type response,
       content_encoding = bm_content_encoding response\<rparr>))"

text \<open>A \<open>reply_to\<close> that is neither empty nor a string fails in the transport.\<close>

definition reply_queue_of :: "message_envelope \<Rightarrow> string res" where
  "reply_queue_of e = (case or_val (reply_to e) (PStr DEFAULT_REPLY_QUEUE) of PStr q \<Rightarrow> Inr q | _ \<Rightarrow> Inl TypeError)"

definition publish_response ::
    "'w listener \<Rightarrow> message_envelope \<Rightarrow> base_message \<Rightarrow> string option \<Rightarrow> ('w lworld, unit) prog" where
  "publish_response L request response receipt =
     seq (settle_after_claim
       (seq (lift_res (reply_queue_of request)) (\<lambda>q.
        seq (draw (l_utc_now L)) (\<lambda>now.
        seq (lift_res (response_envelope (l_codec L) now request q response)) (\<lambda>e.
        seq (create_envelope L e) (publish_envelope L receipt q)))))) (\<lambda>_.
     ack_claim L receipt)"

section \<open>Consuming\<close>

definition active_channels :: "'w listener \<Rightarrow> string list \<Rightarrow> string list" where
  "active_channels L channels = filter (\<lambda>c. c \<noteq> l_dead_letter_channel L) channels"

definition read_envelope :: "'w listener \<Rightarrow> bytes \<Rightarrow> ('w lworld, message_envelope) prog" where
  "read_envelope L raw = seq (draw (l_utc_now L)) (\<lambda>t. lift_res (from_wire t raw))"

text \<open>The first channel with a message; a message that cannot be read is dead-lettered at once.\<close>

fun consume_from ::
    "'w listener \<Rightarrow> int \<Rightarrow> string list \<Rightarrow> ('w lworld, (string \<times> message_envelope \<times> string option) option) prog" where
  "consume_from L timeout [] = ret None"
| "consume_from L timeout (c # cs) =
     seq (world (tp_consume (l_transport L) c timeout)) (\<lambda>raw.
     case raw of
       None \<Rightarrow> consume_from L timeout cs
     | Some m \<Rightarrow>
        seq (note_event (Claimed c m)) (\<lambda>_.
        seq (attempt (read_envelope L (raw_bytes m))) (\<lambda>r. case r of
            Inr e \<Rightarrow> ret (Some (c, e, raw_receipt m))
          | Inl err \<Rightarrow> seq (dead_letter_undecodable L c m err) (\<lambda>_. ret None))))"

section \<open>Batches\<close>

definition batch_in_backoff :: "'w listener \<Rightarrow> string \<Rightarrow> ('w lworld, bool) prog" where
  "batch_in_backoff L mtype =
     seq (read_state (\<lambda>l. map_of (batch_retry_after l) mtype)) (\<lambda>retry_at.
     case retry_at of None \<Rightarrow> ret False | Some t \<Rightarrow> seq (draw (l_now L)) (\<lambda>now. ret (now < t)))"

definition buffer_batched_message ::
    "'w listener \<Rightarrow> string \<Rightarrow> message_envelope \<Rightarrow> string option \<Rightarrow> ('w lworld, unit) prog" where
  "buffer_batched_message L mtype e receipt = (case tp_size (l_transport L) of
     None \<Rightarrow> ret ()
   | Some size_fn \<Rightarrow>
      (let key = batched_buffer_key mtype in
       seq (world (size_fn key)) (\<lambda>n.
       seq (perform_if (n = 0) (seq (draw (l_now L)) (\<lambda>now.
          on_state (\<lambda>l. l\<lparr>batch_started_at := AList.update mtype now (batch_started_at l)\<rparr>)))) (\<lambda>_.
       seq (settle_after_claim (publish_envelope L receipt key e)) (\<lambda>_.
       ack_claim L receipt)))))"

definition forget_batch :: "string \<Rightarrow> lstate \<Rightarrow> lstate" where
  "forget_batch mtype l = l\<lparr>batch_started_at := AList.delete mtype (batch_started_at l),
     batch_retry_after := AList.delete mtype (batch_retry_after l)\<rparr>"

fun read_batch ::
    "'w listener \<Rightarrow> string \<Rightarrow> raw_message list \<Rightarrow> ('w lworld, (message_envelope \<times> string option \<times> message) list) prog" where
  "read_batch L key [] = ret []"
| "read_batch L key (m # ms) =
     seq (attempt (seq (read_envelope L (raw_bytes m)) (\<lambda>e.
        seq (lift_res (decode (l_classes L) (l_codec L) (l_registry L) e)) (\<lambda>ev. ret (e, ev))))) (\<lambda>r.
     case r of
       Inr (e, ev) \<Rightarrow> seq (read_batch L key ms) (\<lambda>rest. ret ((e, raw_receipt m, ev) # rest))
     | Inl err \<Rightarrow> seq (dead_letter_undecodable L key m err) (\<lambda>_. read_batch L key ms))"

fun retry_batch ::
    "'w listener \<Rightarrow> string \<Rightarrow> int \<Rightarrow> (message_envelope \<times> string option \<times> message) list \<Rightarrow> ('w lworld, bool) prog" where
  "retry_batch L key max_retries [] = ret False"
| "retry_batch L key max_retries ((e, receipt, ev) # items) =
     seq (lift_res (retry_count L e)) (\<lambda>n.
     if int n < max_retries then
       seq (requeue L key e max_retries receipt) (\<lambda>_. seq (retry_batch L key max_retries items) (\<lambda>_. ret True))
     else seq (dead_letter L key e max_retries receipt) (\<lambda>_. retry_batch L key max_retries items))"

text \<open>What \<open>_flush_batch\<close> does with the messages it claimed.\<close>

definition process_batch ::
    "'w listener \<Rightarrow> string \<Rightarrow> handler \<Rightarrow> handler_spec \<Rightarrow> raw_message list \<Rightarrow> ('w lworld, unit) prog" where
  "process_batch L mtype h spec raws =
     (let key = batched_buffer_key mtype in
      seq (for_each (\<lambda>m. note_event (Claimed key m)) raws) (\<lambda>_.
      seq (read_batch L key raws) (\<lambda>items.
      if items = [] then on_state (forget_batch mtype)
      else
        seq (attempt (world (l_handle_batch L h (map (\<lambda>(e, r, ev). ev) items)))) (\<lambda>result.
        case result of
          Inl _ \<Rightarrow>
            seq (retry_batch L key (max_retries_of L spec) items) (\<lambda>requeued.
            if requeued then seq (draw (l_now L)) (\<lambda>now. on_state (\<lambda>l.
              l\<lparr>batch_retry_after := AList.update mtype (now + hs_max_wait spec * us_second) (batch_retry_after l)\<rparr>))
            else on_state (\<lambda>l. l\<lparr>batch_retry_after := AList.delete mtype (batch_retry_after l)\<rparr>))
        | Inr _ \<Rightarrow>
            seq (for_each (\<lambda>(e, r, ev). note_event (Completed r)) items) (\<lambda>_.
            seq (for_each (\<lambda>(e, r, ev). ack_claim L r) items) (\<lambda>_.
            on_state (forget_batch mtype)))))))"

definition flush_batch ::
    "'w listener \<Rightarrow> (string \<Rightarrow> int \<Rightarrow> ('w, raw_message list) prog) \<Rightarrow> string \<Rightarrow> handler \<Rightarrow> handler_spec \<Rightarrow> ('w lworld, unit) prog" where
  "flush_batch L consume_many mtype h spec =
     seq (world (consume_many (batched_buffer_key mtype) (hs_batch_size spec))) (\<lambda>raws.
     if raws = [] then ret () else process_batch L mtype h spec raws)"

definition flush_if_ready ::
    "'w listener \<Rightarrow> (string \<Rightarrow> ('w, nat) prog) \<Rightarrow> (string \<Rightarrow> int \<Rightarrow> ('w, raw_message list) prog)
      \<Rightarrow> string \<Rightarrow> handler \<Rightarrow> ('w lworld, unit) prog" where
  "flush_if_ready L size_fn consume_many mtype h =
     (let spec = spec_for L h in
      if \<not> hs_is_batched spec then ret ()
      else
        seq (batch_in_backoff L mtype) (\<lambda>waiting.
        if waiting then ret ()
        else
          seq (world (size_fn (batched_buffer_key mtype))) (\<lambda>n.
          if n = 0 then on_state (\<lambda>l. l\<lparr>batch_started_at := AList.delete mtype (batch_started_at l)\<rparr>)
          else
            seq (draw (l_now L)) (\<lambda>now.
            seq (read_state (\<lambda>l. map_of (batch_started_at l) mtype)) (\<lambda>known.
            let started = (case known of None \<Rightarrow> now | Some t \<Rightarrow> t) in
            seq (on_state (\<lambda>l. l\<lparr>batch_started_at := AList.update mtype started (batch_started_at l)\<rparr>)) (\<lambda>_.
            if hs_batch_size spec \<le> int n then flush_batch L consume_many mtype h spec
            else
              seq (draw (l_now L)) (\<lambda>later.
              perform_if (hs_max_wait spec * us_second \<le> later - started)
                (flush_batch L consume_many mtype h spec))))))))"

definition flush_ready_batches :: "'w listener \<Rightarrow> ('w lworld, unit) prog" where
  "flush_ready_batches L =
     (case (tp_size (l_transport L), tp_consume_many (l_transport L)) of
        (Some size_fn, Some consume_many) \<Rightarrow>
          for_each (\<lambda>((kind, mtype), hs).
            perform_if (kind = ''event'') (for_each (flush_if_ready L size_fn consume_many mtype) hs))
            (reg_items (l_registry L))
      | _ \<Rightarrow> ret ())"

section \<open>Dispatching a claim\<close>

datatype listen_result = L_None | L_One handler_result | L_Many "handler_result list"

datatype claim_result = Settled | Returned listen_result

definition is_recurrence :: "handler_result \<Rightarrow> bool" where
  "is_recurrence r = (case r of H_Recurrence x \<Rightarrow> True | _ \<Rightarrow> False)"

fun completion_of :: "handler_result \<Rightarrow> completion" where
  "completion_of H_None = R_None"
| "completion_of (H_Recurrence x) = R_Recurrence x"
| "completion_of r = R_Other"

definition first_limit :: "'w listener \<Rightarrow> handler list \<Rightarrow> int" where
  "first_limit L hs = (case hs of [] \<Rightarrow> rp_max_retries (l_retry_policy L) | h # _ \<Rightarrow> max_retries_of L (spec_for L h))"

text \<open>The announcement of a command before its handler runs.\<close>

definition start_command ::
    "'w listener \<Rightarrow> string \<Rightarrow> message_envelope \<Rightarrow> bool \<Rightarrow> handler list \<Rightarrow> string option \<Rightarrow> ('w lworld, unit) prog" where
  "start_command L channel e durable hs receipt =
     (if length hs \<noteq> 1 then restore_and_abort L channel e WorkerAbortError receipt
      else try_catch
        (seq (lift_res (retry_count L e)) (\<lambda>n.
         notify_command_outcome L e STARTED channel None (int n) (first_limit L hs) True))
        (\<lambda>x. if x = DeliveryObservationError then
           seq (case l_controller L of
                  Some c \<Rightarrow> if durable then wrap_errors (\<lambda>x. False) IndeterminateDeliveryError
                      (seq (draw (ct_now c)) (\<lambda>t. world (release_claim (ct_store c) (ct_policy c) t e)))
                    else ret ()
                | None \<Rightarrow> ret ()) (\<lambda>_.
           restore_and_abort L channel e DeliveryObservationError receipt)
         else raise x))"

text \<open>The handlers in order; \<open>None\<close> when one of them made the listener settle the claim itself.\<close>

fun handler_loop ::
    "'w listener \<Rightarrow> string \<Rightarrow> message_envelope \<Rightarrow> message \<Rightarrow> bool \<Rightarrow> string option \<Rightarrow> handler list
      \<Rightarrow> ('w lworld, handler_result list option) prog" where
  "handler_loop L channel e m durable receipt [] = ret (Some [])"
| "handler_loop L channel e m durable receipt (h # hs) =
     (let spec = spec_for L h in
      seq (should_delay L e spec) (\<lambda>d.
      seq (perform_if d (draw (\<lambda>w. ((), l_time_sleep L (of_int (hs_delay spec)) w)))) (\<lambda>_.
      seq (note_event (Ran receipt h)) (\<lambda>_.
      seq (attempt (world (l_handle L h m))) (\<lambda>result.
      case result of
        Inl _ \<Rightarrow> seq (handle_failed_delivery L channel e spec receipt) (\<lambda>_. ret None)
      | Inr (H_Continue cont) \<Rightarrow>
          seq (continue_delivery L channel e cont (max_retries_of L spec) receipt) (\<lambda>_. ret None)
      | Inr x \<Rightarrow>
          if is_recurrence x \<and> (message_kind e \<noteq> PStr ''command'' \<or> \<not> durable)
          then seq (handle_failed_delivery L channel e spec receipt) (\<lambda>_. ret None)
          else seq (handler_loop L channel e m durable receipt hs) (\<lambda>rest. ret (map_option (Cons x) rest)))))))"

text \<open>Success of a command: \<open>False\<close> when the durable store rejected the handler's result.\<close>

definition finish_command ::
    "'w listener \<Rightarrow> string \<Rightarrow> message_envelope \<Rightarrow> bool \<Rightarrow> handler list \<Rightarrow> handler_result \<Rightarrow> string option
      \<Rightarrow> ('w lworld, bool) prog" where
  "finish_command L channel e durable hs result receipt =
     seq (lift_res (retry_count L e)) (\<lambda>n.
     seq (case l_controller L of
            Some c \<Rightarrow>
              if durable then
                seq (draw (l_now L)) (\<lambda>completed_at.
                seq (attempt (seq (draw (ct_now c)) (\<lambda>t. world (complete_success (ct_store c) (ct_policy c) t
                  (command_delivery_outcome e SUCCEEDED channel None (int n) (first_limit L hs))
                  (completion_of result) completed_at)))) (\<lambda>r.
                case r of
                  Inr _ \<Rightarrow> ret True
                | Inl x \<Rightarrow> if x = InvalidMessageDefinitionError
                    then seq (handle_failed_delivery L channel e (spec_for L (hd hs)) receipt) (\<lambda>_. ret False)
                    else raise DeliveryObservationError))
              else ret True
          | None \<Rightarrow> ret True) (\<lambda>done_ok.
     if done_ok then
       seq (notify_command_outcome L e SUCCEEDED channel None (int n) (first_limit L hs) (\<not> durable)) (\<lambda>_. ret True)
     else ret False))"

text \<open>
  \<open>_dispatch\<close> in three parts: the handlers of a decoded message, what follows admission, and
  the whole.
\<close>

definition run_claim ::
    "'w listener \<Rightarrow> string \<Rightarrow> message_envelope \<Rightarrow> bool \<Rightarrow> bool \<Rightarrow> handler list \<Rightarrow> string option \<Rightarrow> message
      \<Rightarrow> ('w lworld, claim_result) prog" where
  "run_claim L channel e durable observed hs receipt m =
     seq (perform_if observed (start_command L channel e durable hs receipt)) (\<lambda>_.
     seq (handler_loop L channel e m durable receipt hs) (\<lambda>results.
     case results of
       None \<Rightarrow> ret Settled
     | Some rs \<Rightarrow>
         seq (if observed then finish_command L channel e durable hs (hd rs) receipt else ret True) (\<lambda>done_ok.
         if \<not> done_ok then ret Settled
         else
           seq (note_event (Completed receipt)) (\<lambda>_.
           ret (Returned (case rs of [r] \<Rightarrow> L_One r | _ \<Rightarrow> L_Many rs))))))"

definition dispatch_admitted ::
    "'w listener \<Rightarrow> string \<Rightarrow> message_envelope \<Rightarrow> bool \<Rightarrow> bool \<Rightarrow> handler list \<Rightarrow> string option
      \<Rightarrow> ('w lworld, claim_result) prog" where
  "dispatch_admitted L channel e durable observed hs receipt =
     (if hs = [] then raise HandlerNotFoundError
      else
        seq (lift_res (decode (l_classes L) (l_codec L) (l_registry L) e)) (\<lambda>m.
        if \<exists>h \<in> set hs. hs_is_batched (spec_for L h) then
          (case msg_type (l_classes L) m of
             PStr t \<Rightarrow>
               seq (buffer_batched_message L t e receipt) (\<lambda>_.
               seq (flush_ready_batches L) (\<lambda>_. ret Settled))
           | _ \<Rightarrow> raise TypeError)
        else run_claim L channel e durable observed hs receipt m))"

definition dispatch_claim ::
    "'w listener \<Rightarrow> string \<Rightarrow> message_envelope \<Rightarrow> string option \<Rightarrow> ('w lworld, claim_result) prog" where
  "dispatch_claim L channel e receipt =
     seq (lift_res (handlers_for (l_registry L) (message_kind e) (message_type e))) (\<lambda>hs.
     seq (lift_res (identity e)) (\<lambda>ident.
     let durable = (ident \<noteq> None); is_command = (message_kind e = PStr ''command'');
         observed = (is_command \<and> (l_observers L \<noteq> [] \<or> durable)) in
     seq (if is_command \<and> durable then
            (if 1 < length hs then restore_and_abort L channel e WorkerAbortError receipt
             else admit_durable_delivery L channel e (first_limit L hs) receipt)
          else ret True) (\<lambda>admitted.
     if \<not> admitted then ret (Returned L_None)
     else dispatch_admitted L channel e durable observed hs receipt)))"

definition failed_dispatch ::
    "'w listener \<Rightarrow> string \<Rightarrow> message_envelope \<Rightarrow> string option \<Rightarrow> exn \<Rightarrow> ('w lworld, unit) prog" where
  "failed_dispatch L channel e receipt x =
     (if is_fatal x then raise x
      else if x = HandlerNotFoundError then dead_letter L channel e (rp_max_retries (l_retry_policy L)) receipt
      else
        seq (lift_res (retry_count L e)) (\<lambda>n.
        if should_retry (l_retry_policy L) (int n)
        then requeue L channel e (rp_max_retries (l_retry_policy L)) receipt
        else dead_letter L channel e (rp_max_retries (l_retry_policy L)) receipt))"

definition settle_returned ::
    "'w listener \<Rightarrow> message_envelope \<Rightarrow> string option \<Rightarrow> listen_result \<Rightarrow> ('w lworld, unit) prog" where
  "settle_returned L e receipt result = (case result of
     L_One (H_Response m) \<Rightarrow>
       if message_kind e = PStr ''request'' then publish_response L e m receipt else ack_claim L receipt
   | _ \<Rightarrow> ack_claim L receipt)"

definition process_claim ::
    "'w listener \<Rightarrow> string \<Rightarrow> message_envelope \<Rightarrow> string option \<Rightarrow> ('w lworld, listen_result) prog" where
  "process_claim L channel e receipt =
     seq (verify_durable_configuration L channel e receipt) (\<lambda>_.
     seq (attempt (dispatch_claim L channel e receipt)) (\<lambda>d.
     case d of
       Inl x \<Rightarrow> seq (failed_dispatch L channel e receipt x) (\<lambda>_. ret L_None)
     | Inr Settled \<Rightarrow> ret L_None
     | Inr (Returned result) \<Rightarrow> seq (settle_returned L e receipt result) (\<lambda>_. ret result)))"

definition listen_once :: "'w listener \<Rightarrow> string list \<Rightarrow> ('w lworld, listen_result) prog" where
  "listen_once L channels =
     seq (flush_ready_batches L) (\<lambda>_.
     let active = active_channels L channels in
     if active = [] then ret L_None
     else
       seq (consume_from L (if length active = 1 then 5 else MULTI_QUEUE_CONSUME_TIMEOUT) active) (\<lambda>claimed.
       case claimed of
         None \<Rightarrow> ret L_None
       | Some (channel, e, receipt) \<Rightarrow> process_claim L channel e receipt))"

text \<open>
  \<open>listen\<close> repeats until a call returns \<open>None\<close> or \<open>max_messages\<close> results are collected;
  without a maximum it need not end.
\<close>

definition returned_none :: "listen_result \<Rightarrow> bool" where
  "returned_none r \<longleftrightarrow> r = L_None \<or> r = L_One H_None"

partial_function (option) listen_from ::
    "'w listener \<Rightarrow> string list \<Rightarrow> int option \<Rightarrow> listen_result list \<Rightarrow> 'w lworld
      \<Rightarrow> (listen_result list res \<times> 'w lworld) option" where
  "listen_from L channels max_messages results s =
     (if (case max_messages of None \<Rightarrow> False | Some n \<Rightarrow> n \<le> int (length results)) then Some (Inr results, s)
      else (case listen_once L channels s of
          (Inl e, s') \<Rightarrow> Some (Inl e, s')
        | (Inr r, s') \<Rightarrow> if returned_none r then Some (Inr results, s')
            else listen_from L channels max_messages (results @ [r]) s'))"

definition listen ::
    "'w listener \<Rightarrow> string list \<Rightarrow> int option \<Rightarrow> 'w lworld \<Rightarrow> (listen_result list res \<times> 'w lworld) option" where
  "listen L channels max_messages s = listen_from L channels max_messages [] s"

end
