(* ===== verification/ListenerSafety.thy ===== *)
theory ListenerSafety
  imports Listener
begin

text \<open>
  Settlement of claims. The history of a listener tells which messages it claimed, which it
  published on behalf of which claim, which handlers completed and which claims it
  acknowledged. Two facts hold of every call, whatever fails: a claim is acknowledged only
  after its message was published again, handled or dropped by the durable store; and a call
  that returns leaves no claim of its own open.
\<close>

section \<open>Histories\<close>

definition settled_by :: "string \<Rightarrow> event \<Rightarrow> bool" where
  "settled_by r ev \<longleftrightarrow> (\<exists>c b. ev = Published (Some r) c b) \<or> ev = Completed (Some r) \<or> ev = Dropped (Some r)"

definition evidence :: "string \<Rightarrow> event list \<Rightarrow> bool" where
  "evidence r H \<longleftrightarrow> (\<exists>ev \<in> set H. settled_by r ev)"

definition acks_ok :: "event list \<Rightarrow> bool" where
  "acks_ok H \<longleftrightarrow> (\<forall>xs r ys. H = xs @ Acked r # ys \<longrightarrow> evidence r xs)"

definition opens :: "event list \<Rightarrow> string set" where
  "opens H = {r. (\<exists>c m. Claimed c m \<in> set H \<and> raw_receipt m = Some r) \<and> Acked r \<notin> set H}"

lemma evidence_append [simp]: "evidence r (H @ H') \<longleftrightarrow> evidence r H \<or> evidence r H'"
  by (auto simp: evidence_def)

lemma acks_ok_Nil [simp]: "acks_ok []"
  by (simp add: acks_ok_def)

lemma acks_ok_snoc: "acks_ok (H @ [ev]) \<longleftrightarrow> acks_ok H \<and> (\<forall>r. ev = Acked r \<longrightarrow> evidence r H)"
proof -
  have split: "H @ [ev] = xs @ Acked r # ys \<longleftrightarrow> (ys = [] \<and> xs = H \<and> ev = Acked r) \<or> (\<exists>zs. ys = zs @ [ev] \<and> H = xs @ Acked r # zs)"
    for xs r ys by (cases ys rule: rev_cases) auto
  show ?thesis unfolding acks_ok_def split by blast
qed

section \<open>Assertions\<close>

abbreviation hist :: "'w lworld \<Rightarrow> event list" where
  "hist s \<equiv> history (fst s)"

text \<open>
  At most the claims of \<open>A\<close> are open, and for the claims of \<open>R\<close> there is a reason to
  acknowledge them. An exception that does not stop the worker leaves at most the claims of
  \<open>B\<close> open; the others may leave any claim open, but acknowledge none without a reason.
\<close>

definition Inv :: "string set \<Rightarrow> string set \<Rightarrow> string set \<Rightarrow> 'w lworld \<Rightarrow> bool" where
  "Inv B A R s \<longleftrightarrow> acks_ok (hist s) \<and> opens (hist s) \<subseteq> A \<and> A \<subseteq> B \<and> (\<forall>r \<in> R. evidence r (hist s))"

definition Exc :: "string set \<Rightarrow> exn \<Rightarrow> 'w lworld \<Rightarrow> bool" where
  "Exc B x s \<longleftrightarrow> acks_ok (hist s) \<and> (\<not> is_fatal x \<longrightarrow> opens (hist s) \<subseteq> B)"

lemma Inv_mono: "Inv B A R s \<Longrightarrow> A \<subseteq> A' \<Longrightarrow> A' \<subseteq> B \<Longrightarrow> R' \<subseteq> R \<Longrightarrow> Inv B A' R' s"
  by (auto simp: Inv_def)

lemma Inv_fewer: "Inv B A R s \<Longrightarrow> R' \<subseteq> R \<Longrightarrow> Inv B A R' s"
  by (auto simp: Inv_def)

lemma Inv_Exc: "Inv B A R s \<Longrightarrow> Exc B x s"
  by (auto simp: Inv_def Exc_def)

lemma Inv_narrow: "Inv B A R s \<Longrightarrow> Inv A A R s"
  by (simp add: Inv_def)

lemma Exc_fatal: "is_fatal x \<Longrightarrow> Exc B x s \<longleftrightarrow> Exc B' x s"
  by (simp add: Exc_def)

abbreviation safe ::
    "string set \<Rightarrow> string set \<Rightarrow> string set \<Rightarrow> ('w lworld, 'a) prog \<Rightarrow> string set \<Rightarrow> string set \<Rightarrow> bool" where
  "safe B A R m A' R' \<equiv> triple (Inv B A R) m (\<lambda>_. Inv B A' R') (Exc B)"

text \<open>Steps that leave the history alone.\<close>

definition quiet :: "('w lworld, 'a) prog \<Rightarrow> bool" where
  "quiet m \<longleftrightarrow> keeps hist m"

named_theorems quiet_rules "programs that leave the history alone"

lemma quiet_triple: "quiet m \<Longrightarrow> triple (Inv B A R) m (\<lambda>_. Inv B A R) (\<lambda>_. Inv B A R)"
  unfolding quiet_def Inv_def by (rule keeps_triple)

lemma safe_quiet: "quiet m \<Longrightarrow> safe B A R m A R"
  by (drule quiet_triple, erule triple_post) (auto intro: Inv_Exc)

lemma quiet_basic [quiet_rules]:
  "quiet (world m)" "quiet (draw f)" "quiet (read_state g)" "quiet (lift_res r)" "quiet (ret a)" "quiet (raise x)"
  by (simp_all add: quiet_def keeps_def world_def draw_def read_state_def split: prod.splits)

lemma quiet_seq [quiet_rules]: "quiet m \<Longrightarrow> (\<And>a. quiet (f a)) \<Longrightarrow> quiet (seq m f)"
  unfolding quiet_def by (rule keeps_seq)

lemma quiet_attempt [quiet_rules]: "quiet m \<Longrightarrow> quiet (attempt m)"
  unfolding quiet_def by (rule keeps_attempt)

lemma quiet_failed [quiet_rules]: "quiet m \<Longrightarrow> quiet (failed m)"
  unfolding failed_def by (intro quiet_rules)

lemma quiet_wrap_errors [quiet_rules]: "quiet m \<Longrightarrow> quiet (wrap_errors k x m)"
  unfolding quiet_def by (rule keeps_wrap_errors)

lemma quiet_perform_if [quiet_rules]: "(b \<Longrightarrow> quiet m) \<Longrightarrow> quiet (perform_if b m)"
  by (simp add: perform_if_def quiet_basic)

lemma quiet_on_state: "(\<And>l. history (f l) = history l) \<Longrightarrow> quiet (on_state f)"
  by (simp add: quiet_def keeps_def on_state_def split: prod.splits)

lemma quiet_notify_observers [quiet_rules]: "quiet (notify_observers fs oc)"
proof (induction fs)
  case (Cons f fs)
  then show ?case unfolding notify_observers.simps by (intro quiet_rules)
qed (simp only: notify_observers.simps quiet_rules)

lemma quiet_notify [quiet_rules]: "quiet (notify_command_outcome L e st src dst n mx b)"
  unfolding notify_command_outcome_def Let_def by (auto intro!: quiet_rules split: option.splits)

lemma quiet_should_delay [quiet_rules]: "quiet (should_delay L e spec)"
  unfolding should_delay_def by (auto intro!: quiet_rules split: option.splits)

lemma quiet_create [quiet_rules]: "quiet (create_envelope L e)"
  unfolding create_envelope_def by (intro quiet_rules)

lemma quiet_read_envelope [quiet_rules]: "quiet (read_envelope L b)"
  unfolding read_envelope_def by (intro quiet_rules)

lemma quiet_backoff [quiet_rules]: "quiet (batch_in_backoff L t)"
  unfolding batch_in_backoff_def by (auto intro!: quiet_rules split: option.splits)

lemma safe_perform_if: "(b \<Longrightarrow> safe B A R m A R) \<Longrightarrow> safe B A R (perform_if b m) A R"
  by (rule triple_perform_if)

text \<open>A quiet step before others.\<close>

lemma safe_after_quiet: "quiet m \<Longrightarrow> (\<And>a. triple (Inv B A R) (f a) Q (Exc B)) \<Longrightarrow> triple (Inv B A R) (seq m f) Q (Exc B)"
  by (rule triple_seq [OF safe_quiet])

lemma safe_ret: "safe B A R (ret a) A R"
  by (rule safe_quiet) (rule quiet_basic)

lemma safe_raise: "triple (Inv B A R) (raise e) Q (Exc B)"
  by (rule tripleI) (auto simp: Inv_Exc)

lemma safe_mono: "safe B A R m A' R' \<Longrightarrow> A' \<subseteq> C \<Longrightarrow> C \<subseteq> B \<Longrightarrow> S \<subseteq> R' \<Longrightarrow> safe B A R m C S"
  by (erule triple_post) (auto intro: Inv_mono)

lemma safe_attempt:
  assumes "triple P m Q E" shows "triple P (attempt m) (\<lambda>r s. case r of Inr a \<Rightarrow> Q a s | Inl e \<Rightarrow> E e s) E'"
  using assms by (intro tripleI) (auto simp: attempt_def split: prod.splits sum.splits dest: tripleD1 tripleD2)

section \<open>Publishing and acknowledging\<close>

lemma opens_snoc:
  "(\<And>c m. ev \<noteq> Claimed c m) \<Longrightarrow> opens (H @ [ev]) \<subseteq> opens H"
  "opens (H @ [Claimed c m]) \<subseteq> opens H \<union> set_option (raw_receipt m)"
  "opens (H @ [Acked r]) \<subseteq> opens H - {r}"
  by (auto simp: opens_def elem_set)

lemma safe_event:
  assumes "A \<subseteq> B \<Longrightarrow> A' \<subseteq> B"
    and "\<And>H. acks_ok H \<Longrightarrow> opens H \<subseteq> A \<Longrightarrow> \<forall>r \<in> R. evidence r H \<Longrightarrow>
      acks_ok (H @ [ev]) \<and> opens (H @ [ev]) \<subseteq> A' \<and> (\<forall>r \<in> R'. evidence r (H @ [ev]))"
  shows "safe B A R (note_event ev) A' R'"
proof (rule tripleI)
  fix s :: "'w lworld" and a s' assume "Inv B A R s" "note_event ev s = (Inr a, s')"
  then have "hist s' = hist s @ [ev]" by (auto simp: note_event_def split: prod.splits)
  with \<open>Inv B A R s\<close> assms show "Inv B A' R' s'" unfolding Inv_def by metis
qed (auto simp: note_event_def)

lemma safe_note:
  assumes "\<And>r. ev \<noteq> Acked r" "\<And>c m. ev \<noteq> Claimed c m"
  shows "safe B A R (note_event ev) A (R \<union> {r. settled_by r ev})"
proof (rule safe_event)
  fix H assume "acks_ok H" "opens H \<subseteq> A" "\<forall>r \<in> R. evidence r H"
  then show "acks_ok (H @ [ev]) \<and> opens (H @ [ev]) \<subseteq> A \<and> (\<forall>r \<in> R \<union> {r. settled_by r ev}. evidence r (H @ [ev]))"
    using assms opens_snoc(1) [of ev H] by (auto simp: acks_ok_snoc evidence_def)
qed auto

lemma settled_events [simp]:
  "{r. settled_by r (Published p c b)} = set_option p" "{r. settled_by r (Completed p)} = set_option p"
  "{r. settled_by r (Dropped p)} = set_option p" "{r. settled_by r (Ran p h)} = {}"
  by (auto simp: settled_by_def elem_set)

lemma safe_note_settling:
  "safe B A R (note_event (Published p c b)) A (R \<union> set_option p)"
  "safe B A R (note_event (Completed p)) A (R \<union> set_option p)"
  "safe B A R (note_event (Dropped p)) A (R \<union> set_option p)"
  "safe B A R (note_event (Ran p h)) A R"
  using safe_note [of "Published p c b" B A R] safe_note [of "Completed p" B A R] safe_note [of "Dropped p" B A R]
    safe_note [of "Ran p h" B A R] by simp_all

lemma safe_note_claimed:
  "safe UNIV A R (note_event (Claimed c m)) (A \<union> set_option (raw_receipt m)) R"
proof (rule safe_event)
  fix H assume "acks_ok H" "opens H \<subseteq> A" "\<forall>r \<in> R. evidence r H"
  then show "acks_ok (H @ [Claimed c m]) \<and> opens (H @ [Claimed c m]) \<subseteq> A \<union> set_option (raw_receipt m)
      \<and> (\<forall>r \<in> R. evidence r (H @ [Claimed c m]))"
    using opens_snoc(2) [of H c m] by (auto simp: acks_ok_snoc)
qed auto

lemma safe_note_acked: "r \<in> R \<Longrightarrow> safe B A R (note_event (Acked r)) (A - {r}) R"
proof (rule safe_event)
  fix H assume "r \<in> R" "acks_ok H" "opens H \<subseteq> A" "\<forall>r \<in> R. evidence r H"
  then show "acks_ok (H @ [Acked r]) \<and> opens (H @ [Acked r]) \<subseteq> A - {r} \<and> (\<forall>r' \<in> R. evidence r' (H @ [Acked r]))"
    using opens_snoc(3) [of H r] by (auto simp: acks_ok_snoc)
qed auto

lemma safe_settle: "safe B A R m A' R' \<Longrightarrow> safe B A R (settle_after_claim m) A' R'"
  unfolding settle_after_claim_def by (rule triple_wrap_errors, erule triple_post) (auto simp: Exc_def is_fatal_def)

lemma safe_ack:
  assumes "set_option p \<subseteq> R" shows "safe B A R (ack_claim L p) (A - set_option p) R"
proof (cases p)
  case (Some r)
  then show ?thesis using assms
    by (auto simp: ack_claim_def intro!: triple_seq [OF safe_settle [OF safe_quiet [OF quiet_basic(1)]]] safe_note_acked)
qed (simp add: ack_claim_def safe_ret)

lemma safe_publish: "safe B A R (publish_envelope L p c e) A (R \<union> set_option p)"
  unfolding publish_envelope_def
  by (intro safe_after_quiet quiet_rules safe_note_settling)

text \<open>Publishing on behalf of a claim and then acknowledging it closes the claim.\<close>

lemma safe_publish_ack:
  assumes "safe B A R m A (R \<union> set_option p)" "\<And>a. triple (Inv B (A - set_option p) R) (f a) Q (Exc B)"
  shows "triple (Inv B A R) (seq (settle_after_claim m) (\<lambda>_. seq (ack_claim L p) f)) Q (Exc B)"
proof (rule triple_seq [OF safe_settle [OF assms(1)]], rule triple_seq [OF safe_ack])
  show "triple (Inv B (A - set_option p) (R \<union> set_option p)) (f a) Q (Exc B)" for a
    by (rule triple_pre [OF assms(2)]) (erule Inv_fewer, simp)
qed simp

lemma safe_restore: "triple (Inv B A R) (restore_and_abort L c e x p) Q (Exc B)"
  unfolding restore_and_abort_def by (intro safe_publish_ack safe_publish safe_raise)

text \<open>The same when the published envelope is built inside the protected step.\<close>

lemma safe_build_publish:
  "quiet m \<Longrightarrow> safe B A R (seq m (\<lambda>e. publish_envelope L p (c e) e)) A (R \<union> set_option p)"
  by (intro safe_after_quiet safe_publish)

section \<open>Settling steps\<close>

lemma safe_checkpoint: "safe B A R (checkpoint_durable_settlement L e st src dst n mx la p) A R"
proof (cases "l_controller L")
  case (Some c)
  then show ?thesis unfolding checkpoint_durable_settlement_def
    by (auto intro!: triple_try_catch quiet_triple quiet_rules safe_restore)
qed (simp add: checkpoint_durable_settlement_def safe_ret)

lemma safe_then_checkpoint:
  "(\<And>a. triple (Inv B A R) (f a) Q (Exc B)) \<Longrightarrow>
    triple (Inv B A R) (seq (checkpoint_durable_settlement L e st src dst n mx la p) f) Q (Exc B)"
  by (rule triple_seq [OF safe_checkpoint])

lemma safe_requeue: "safe B A R (requeue L c e mx p) (A - set_option p) R"
  unfolding requeue_def
  by (intro safe_after_quiet safe_then_checkpoint safe_publish_ack safe_build_publish safe_quiet quiet_rules)

lemma safe_dead_letter: "safe B A R (dead_letter L c e mx p) (A - set_option p) R"
  unfolding dead_letter_def
  by (intro safe_after_quiet safe_then_checkpoint safe_publish_ack safe_build_publish safe_quiet quiet_rules)

lemma safe_failed_delivery: "safe B A R (handle_failed_delivery L c e spec p) (A - set_option p) R"
  unfolding handle_failed_delivery_def
  by (intro safe_after_quiet triple_if safe_requeue safe_dead_letter quiet_rules)

lemma safe_continue: "safe B A R (continue_delivery L c e cont mx p) (A - set_option p) R"
  unfolding continue_delivery_def Let_def
  by (intro triple_if safe_raise safe_after_quiet safe_then_checkpoint safe_publish_ack safe_publish safe_quiet quiet_rules)

lemma safe_publish_ack_last:
  assumes "safe B A R m A (R \<union> set_option p)"
  shows "safe B A R (seq (settle_after_claim m) (\<lambda>_. ack_claim L p)) (A - set_option p) R"
  by (rule triple_seq [OF safe_settle [OF assms]], rule triple_post [OF safe_ack]) (auto elim: Inv_fewer)

lemma safe_undecodable: "safe B A R (dead_letter_undecodable L c m x) (A - set_option (raw_receipt m)) R"
  unfolding dead_letter_undecodable_def
  by (rule safe_after_quiet [OF quiet_create]) (intro safe_publish_ack_last safe_publish)

lemma safe_response: "safe B A R (publish_response L e m p) (A - set_option p) R"
  unfolding publish_response_def
  by (rule safe_publish_ack_last) (intro safe_after_quiet safe_publish quiet_rules)

lemma safe_buffer:
  assumes "tp_size (l_transport L) \<noteq> None"
  shows "safe B A R (buffer_batched_message L t e p) (A - set_option p) R"
proof -
  have q: "quiet (perform_if b (seq (draw f) (\<lambda>now. on_state (\<lambda>l. l\<lparr>batch_started_at := g now l\<rparr>))))" for b f g
    by (intro quiet_rules quiet_on_state) simp
  show ?thesis using assms unfolding buffer_batched_message_def Let_def
    by (auto intro!: safe_after_quiet quiet_basic q safe_publish_ack_last safe_publish)
qed

section \<open>Batches\<close>

lemma safe_for_each:
  assumes "\<And>A x. x \<in> set xs \<Longrightarrow> safe UNIV A R (f x) (A - g x) R"
  shows "safe UNIV A R (for_each f xs) (A - (\<Union>x \<in> set xs. g x)) R"
  using assms
proof (induction xs arbitrary: A)
  case (Cons x xs)
  have "safe UNIV A R (seq (f x) (\<lambda>_. for_each f xs)) (A - g x - (\<Union>x \<in> set xs. g x)) R"
    using Cons by (intro triple_seq [OF Cons.prems]) auto
  then show ?case by (simp add: Diff_eq Int_assoc) 
qed (simp add: safe_ret)

lemma safe_claims: "safe UNIV A R (for_each (\<lambda>m. note_event (Claimed c m)) ms) (A \<union> (\<Union>m \<in> set ms. set_option (raw_receipt m))) R"
proof (induction ms arbitrary: A)
  case (Cons m ms)
  show ?case using triple_seq [OF safe_note_claimed [of A R c m] Cons.IH] by (simp add: Un_assoc)
qed (simp add: safe_ret)

abbreviation item_receipts :: "(message_envelope \<times> string option \<times> message) list \<Rightarrow> string set" where
  "item_receipts items \<equiv> (\<Union>(e, r, ev) \<in> set items. set_option r)"

text \<open>The messages of a batch that cannot be read are closed; the others are returned.\<close>

lemma safe_read_batch:
  "triple (Inv UNIV (A \<union> (\<Union>m \<in> set ms. set_option (raw_receipt m))) R) (read_batch L key ms)
     (\<lambda>items. Inv UNIV (A \<union> item_receipts items) R) (Exc UNIV)"
proof (induction ms arbitrary: A)
  case Nil
  show ?case by (rule tripleI) auto
next
  case (Cons m ms)
  let ?M = "\<Union>m \<in> set ms. set_option (raw_receipt m)" and ?r = "set_option (raw_receipt m)"
  have bad: "triple (Inv UNIV (A \<union> (?r \<union> ?M)) R) (seq (dead_letter_undecodable L key m err) (\<lambda>_. read_batch L key ms))
      (\<lambda>items. Inv UNIV (A \<union> item_receipts items) R) (Exc UNIV)" for err
  proof (rule triple_seq [OF _ Cons.IH])
    show "safe UNIV (A \<union> (?r \<union> ?M)) R (dead_letter_undecodable L key m err) (A \<union> ?M) R"
      by (rule safe_mono [OF safe_undecodable]) auto
  qed
  have good: "triple (Inv UNIV (A \<union> (?r \<union> ?M)) R) (seq (read_batch L key ms) (\<lambda>rest. ret ((e, raw_receipt m, ev) # rest)))
      (\<lambda>items. Inv UNIV (A \<union> item_receipts items) R) (Exc UNIV)" for e ev
  proof (rule triple_seq)
    show "triple (Inv UNIV (A \<union> (?r \<union> ?M)) R) (read_batch L key ms) (\<lambda>items. Inv UNIV ((A \<union> ?r) \<union> item_receipts items) R) (Exc UNIV)"
      using Cons.IH [of "A \<union> ?r"] by (simp add: Un_assoc)
  qed (rule tripleI, auto simp: Un_assoc)
  show ?case unfolding read_batch.simps
    by (intro safe_after_quiet quiet_rules) (use bad good in \<open>auto simp: split: sum.splits prod.splits\<close>)
qed

lemma safe_retry_batch: "safe UNIV A R (retry_batch L key mx items) (A - item_receipts items) R"
proof (induction items arbitrary: A)
  case (Cons it items)
  obtain e r ev where it: "it = (e, r, ev)" by (cases it)
  have tail: "triple (Inv UNIV (A - set_option r) R) (retry_batch L key mx items) (\<lambda>_. Inv UNIV (A - item_receipts (it # items)) R) (Exc UNIV)"
    by (rule safe_mono [OF Cons.IH]) (auto simp: it)
  have tail': "triple (Inv UNIV (A - set_option r) R) (seq (retry_batch L key mx items) (\<lambda>_. ret True))
      (\<lambda>_. Inv UNIV (A - item_receipts (it # items)) R) (Exc UNIV)"
    by (rule triple_seq [OF tail safe_ret])
  show ?case unfolding it retry_batch.simps
    by (intro safe_after_quiet quiet_rules triple_if triple_seq [OF safe_requeue] triple_seq [OF safe_dead_letter]
        tail [unfolded it] tail' [unfolded it])
qed (simp add: safe_ret)

lemma safe_finish_batch:
  assumes "item_receipts items \<subseteq> R'" "\<And>C. safe UNIV C R' m C R'"
  shows "safe UNIV (A \<union> item_receipts items) R' (seq (for_each (\<lambda>(e, r, ev). ack_claim L r) items) (\<lambda>_. m)) A R'"
proof (rule triple_seq)
  show "safe UNIV (A \<union> item_receipts items) R' (for_each (\<lambda>(e, r, ev). ack_claim L r) items)
      (A \<union> item_receipts items - (\<Union>x \<in> set items. (case x of (e, r, ev) \<Rightarrow> set_option r))) R'"
    using assms(1) by (intro safe_for_each) (auto intro!: safe_ack split: prod.splits)
  show "safe UNIV (A \<union> item_receipts items - (\<Union>x \<in> set items. (case x of (e, r, ev) \<Rightarrow> set_option r))) R' m A R'"
    by (rule safe_mono [OF assms(2)]) auto
qed

lemma safe_completions:
  "safe UNIV A R (for_each (\<lambda>(e, r, ev). note_event (Completed r)) items) A (R \<union> item_receipts items)"
proof (induction items arbitrary: R)
  case (Cons it items)
  obtain e r ev where "it = (e, r, ev)" by (cases it)
  then show ?case using triple_seq [OF safe_note_settling(2) [of UNIV A R r] Cons.IH] by (simp add: Un_assoc)
qed (simp add: safe_ret)

lemma quiet_forget [quiet_rules]: "quiet (on_state (forget_batch t))"
  by (rule quiet_on_state) (simp add: forget_batch_def)

lemma quiet_backoff_updates [quiet_rules]:
  "quiet (on_state (\<lambda>l. l\<lparr>batch_retry_after := f l\<rparr>))" "quiet (on_state (\<lambda>l. l\<lparr>batch_started_at := f l\<rparr>))"
  by (rule quiet_on_state, simp)+

lemma safe_process_batch: "safe UNIV A R (process_batch L t h spec raws) A R"
proof -
  have acked: "safe UNIV (A \<union> item_receipts items) R
      (seq (for_each (\<lambda>(e, r, ev). note_event (Completed r)) items) (\<lambda>_.
       seq (for_each (\<lambda>(e, r, ev). ack_claim L r) items) (\<lambda>_. on_state (forget_batch t)))) A R" for items
    by (rule safe_mono, rule triple_seq [OF safe_completions], rule safe_finish_batch)
      (auto intro: safe_quiet quiet_forget)
  have retried: "safe UNIV (A \<union> item_receipts items) R (seq (retry_batch L key mx items) (\<lambda>b.
       if b then seq (draw (l_now L)) (\<lambda>now. on_state (\<lambda>l. l\<lparr>batch_retry_after := f now l\<rparr>))
       else on_state (\<lambda>l. l\<lparr>batch_retry_after := g l\<rparr>))) A R" for items key mx f g
  proof (rule triple_seq)
    show "safe UNIV (A \<union> item_receipts items) R (retry_batch L key mx items) A R"
      by (rule safe_mono [OF safe_retry_batch]) auto
  qed (intro triple_if safe_quiet quiet_rules)
  have forget: "safe UNIV (A \<union> item_receipts []) R (on_state (forget_batch t)) A R"
    using safe_quiet [OF quiet_forget] by simp
  have run: "safe UNIV (A \<union> item_receipts items) R (seq (attempt (world n)) (\<lambda>result. case result of
        Inl x \<Rightarrow> seq (retry_batch L key mx items) (\<lambda>b.
          if b then seq (draw (l_now L)) (\<lambda>now. on_state (\<lambda>l. l\<lparr>batch_retry_after := f now l\<rparr>))
          else on_state (\<lambda>l. l\<lparr>batch_retry_after := g l\<rparr>))
      | Inr y \<Rightarrow> seq (for_each (\<lambda>(e, r, ev). note_event (Completed r)) items) (\<lambda>_.
          seq (for_each (\<lambda>(e, r, ev). ack_claim L r) items) (\<lambda>_. on_state (forget_batch t))))) A R"
    for items key mx f g and n :: "('a, handler_result) prog"
    by (rule safe_after_quiet) (use acked retried in \<open>auto split: sum.splits intro!: quiet_rules\<close>)
  have body: "safe UNIV (A \<union> item_receipts items) R (if items = [] then on_state (forget_batch t) else m) A R"
    if "safe UNIV (A \<union> item_receipts items) R m A R" for items m
    using that forget by auto
  show ?thesis unfolding process_batch_def Let_def
    by (intro triple_if triple_seq [OF safe_claims] triple_seq [OF safe_read_batch] body run)
qed

section \<open>Exceptions that stop the worker\<close>

text \<open>
  Once a batch is claimed, the only exceptions are those that stop the worker, provided that the
  pause before a retry raises nothing: the delay of every attempt below the retry limit of a
  handler can be computed, and the sleep function returns.
\<close>

definition only_fatal :: "('s, 'a) prog \<Rightarrow> bool" where
  "only_fatal m \<longleftrightarrow> (\<forall>s x s'. m s = (Inl x, s') \<longrightarrow> is_fatal x)"

definition sleep_returns :: "'w listener \<Rightarrow> bool" where
  "sleep_returns L \<longleftrightarrow> (\<forall>h n. int n < max_retries_of L (spec_for L h) \<longrightarrow>
     (\<exists>d. next_delay (l_retry_policy L) n = Inr d \<and> (positive d \<longrightarrow> (\<forall>w. \<exists>w'. l_sleep L d w = (Inr (), w')))))"

named_theorems fatal_rules "programs that raise only exceptions that stop the worker"

lemma fatal_basic [fatal_rules]:
  "only_fatal (ret a)" "only_fatal (draw f)" "only_fatal (on_state g)" "only_fatal (note_event ev)"
  "only_fatal (attempt m)" "only_fatal (lift_res (Inr b))"
  by (auto simp: only_fatal_def draw_def on_state_def note_event_def attempt_def split: prod.splits)

lemma fatal_lift: "only_fatal (f a) \<Longrightarrow> only_fatal (seq (lift_res (Inr a)) f)"
  by (simp add: only_fatal_def seq_def)

lemma fatal_raise: "is_fatal x \<Longrightarrow> only_fatal (raise x)"
  by (simp add: only_fatal_def)

lemma fatal_seq_post:
  assumes "only_fatal m" "\<And>s a s'. m s = (Inr a, s') \<Longrightarrow> P a" "\<And>a. P a \<Longrightarrow> only_fatal (f a)"
  shows "only_fatal (seq m f)"
  unfolding only_fatal_def
proof (intro allI impI)
  fix s x s' assume s: "seq m f s = (Inl x, s')"
  show "is_fatal x"
  proof (cases "m s")
    case (Pair r t)
    show ?thesis
    proof (cases r)
      case (Inl y)
      then show ?thesis using s Pair assms(1) by (auto simp: only_fatal_def)
    next
      case (Inr a)
      then show ?thesis using s Pair assms(2) [of s a t] assms(3) [of a] by (auto simp: only_fatal_def)
    qed
  qed
qed

lemma fatal_option [fatal_rules]:
  "only_fatal n \<Longrightarrow> (\<And>y. only_fatal (m y)) \<Longrightarrow> only_fatal (case z of None \<Rightarrow> n | Some y \<Rightarrow> m y)"
  by (cases z) simp_all

lemma fatal_exceptions [simp]:
  "is_fatal WorkerAbortError" "is_fatal DeliveryObservationError" "is_fatal IndeterminateDeliveryError"
  by (simp_all add: is_fatal_def is_worker_abort_def)

lemma fatal_seq [fatal_rules]: "only_fatal m \<Longrightarrow> (\<And>a. only_fatal (f a)) \<Longrightarrow> only_fatal (seq m f)"
  by (rule fatal_seq_post) auto

lemma fatal_if [fatal_rules]: "only_fatal m \<Longrightarrow> only_fatal n \<Longrightarrow> only_fatal (if b then m else n)"
  by simp

lemma fatal_for_each [fatal_rules]: "(\<And>x. x \<in> set xs \<Longrightarrow> only_fatal (f x)) \<Longrightarrow> only_fatal (for_each f xs)"
  by (induction xs) (auto intro: fatal_rules simp del: prog_simps)

lemma fatal_settle [fatal_rules]: "only_fatal (settle_after_claim m)"
  by (auto simp: only_fatal_def settle_after_claim_def wrap_errors_def try_catch_def is_fatal_def
      split: prod.splits sum.splits if_splits)

lemma fatal_ack [fatal_rules]: "only_fatal (ack_claim L p)"
  unfolding ack_claim_def by (intro fatal_rules)

lemma fatal_restore: "is_fatal x \<Longrightarrow> only_fatal (restore_and_abort L c e x p)"
  unfolding restore_and_abort_def by (intro fatal_rules fatal_raise)

lemma fatal_try: "(\<And>x. only_fatal (h x)) \<Longrightarrow> only_fatal (try_catch m h)"
  by (auto simp: only_fatal_def try_catch_def split: prod.splits sum.splits)

lemma fatal_create [fatal_rules]: "only_fatal (create_envelope L e)"
  unfolding create_envelope_def by (intro fatal_rules)

lemma fatal_checkpoint [fatal_rules]: "only_fatal (checkpoint_durable_settlement L e st src dst n mx la p)"
  unfolding checkpoint_durable_settlement_def
  by (intro fatal_rules fatal_try fatal_restore) simp

lemma fatal_failed [fatal_rules]: "only_fatal (failed m)"
  unfolding failed_def by (intro fatal_rules)

lemma fatal_observers [fatal_rules]: "only_fatal (notify_observers fs oc)"
proof (induction fs)
  case (Cons f fs)
  then show ?case unfolding notify_observers.simps by (intro fatal_rules)
qed (simp only: notify_observers.simps fatal_rules)

lemma fatal_notify [fatal_rules]: "only_fatal (notify_command_outcome L e st src dst n mx b)"
  unfolding notify_command_outcome_def Let_def by (intro fatal_rules fatal_raise) simp

lemma retry_count_decoded:
  "decode (l_classes L) (l_codec L) (l_registry L) e = Inr m \<Longrightarrow> \<exists>t n. is_typed L e = Inr t \<and> retry_count L e = Inr n"
  by (auto simp: decode_def is_typed_def retry_count_def res_simps)

lemma fatal_requeue:
  assumes "sleep_returns L" "is_typed L e = Inr t" "retry_count L e = Inr n" "int n < max_retries_of L (spec_for L h)"
  shows "only_fatal (requeue L c e mx p)"
proof -
  obtain d where d: "next_delay (l_retry_policy L) n = Inr d" "positive d \<longrightarrow> (\<forall>w. \<exists>w'. l_sleep L d w = (Inr (), w'))"
    using assms(1,4) unfolding sleep_returns_def by blast
  have "only_fatal (perform_if (positive d) (world (l_sleep L d)))"
    using d(2) by (auto simp: only_fatal_def perform_if_def world_def split: prod.splits if_splits)
      (metis prod.inject sum.distinct(1))
  then show ?thesis unfolding requeue_def assms(2,3)
    by (intro fatal_lift) (simp only: d(1), intro fatal_lift fatal_rules)
qed

lemma fatal_dead_letter: "retry_count L e = Inr n \<Longrightarrow> only_fatal (dead_letter L c e mx p)"
  unfolding dead_letter_def by (simp only:) (intro fatal_rules)

lemma read_batch_decoded:
  "read_batch L key ms s = (Inr items, s') \<Longrightarrow>
    \<forall>(e, r, ev) \<in> set items. decode (l_classes L) (l_codec L) (l_registry L) e = Inr ev"
proof (induction ms arbitrary: s items s')
  case (Cons m ms)
  let ?m = "seq (read_envelope L (raw_bytes m)) (\<lambda>e.
    seq (lift_res (decode (l_classes L) (l_codec L) (l_registry L) e)) (\<lambda>ev. ret (e, ev)))"
  obtain r s1 where r: "?m s = (r, s1)" by (cases "?m s")
  then have a: "attempt ?m s = (Inr r, s1)" by (simp add: attempt_def)
  have run: "(case r of Inr (e, ev) \<Rightarrow> seq (read_batch L key ms) (\<lambda>rest. ret ((e, raw_receipt m, ev) # rest))
      | Inl err \<Rightarrow> seq (dead_letter_undecodable L key m err) (\<lambda>_. read_batch L key ms)) s1 = (Inr items, s')"
    using Cons.prems unfolding read_batch.simps by (simp add: seq_def [of "attempt ?m"] a)
  show ?case
  proof (cases r)
    case (Inl x)
    then obtain s2 where "read_batch L key ms s2 = (Inr items, s')"
      using run by (auto simp: seq_def split: prod.splits sum.splits)
    then show ?thesis by (rule Cons.IH)
  next
    case (Inr p)
    obtain e ev where p: "p = (e, ev)" by (cases p)
    have "decode (l_classes L) (l_codec L) (l_registry L) e = Inr ev"
      using r Inr p by (auto simp: seq_def split: prod.splits sum.splits)
    moreover obtain rest s2 where "read_batch L key ms s1 = (Inr rest, s2)" "items = (e, raw_receipt m, ev) # rest"
      using run Inr p by (auto simp: seq_def split: prod.splits sum.splits)
    ultimately show ?thesis using Cons.IH by fastforce
  qed
qed simp

lemma fatal_read_batch: "only_fatal (read_batch L key ms)"
proof (induction ms)
  case (Cons m ms)
  have bad: "only_fatal (dead_letter_undecodable L key m x)" for x
    unfolding dead_letter_undecodable_def by (intro fatal_rules)
  show ?case unfolding read_batch.simps
  proof (rule fatal_seq [OF fatal_basic(5)])
    fix r :: "(message_envelope \<times> message) res"
    show "only_fatal (case r of Inr (e, ev) \<Rightarrow> seq (read_batch L key ms) (\<lambda>rest. ret ((e, raw_receipt m, ev) # rest))
        | Inl err \<Rightarrow> seq (dead_letter_undecodable L key m err) (\<lambda>_. read_batch L key ms))"
      using Cons bad by (cases r) (auto intro!: fatal_seq fatal_basic(1) split: prod.splits)
  qed
qed (simp only: read_batch.simps fatal_rules)

lemma fatal_retry_batch:
  assumes "sleep_returns L"
  shows "\<forall>(e, r, ev) \<in> set items. decode (l_classes L) (l_codec L) (l_registry L) e = Inr ev \<Longrightarrow>
    only_fatal (retry_batch L key (max_retries_of L (spec_for L h)) items)"
proof (induction items)
  case (Cons it items)
  obtain e r ev where it: "it = (e, r, ev)" by (cases it)
  obtain t n where n: "is_typed L e = Inr t" "retry_count L e = Inr n"
    using Cons.prems retry_count_decoded [of L e ev] it by auto
  have rest: "only_fatal (retry_batch L key (max_retries_of L (spec_for L h)) items)" using Cons by auto
  show ?case
  proof (cases "int n < max_retries_of L (spec_for L h)")
    case True
    show ?thesis unfolding it retry_batch.simps n(2)
      using rest by (intro fatal_lift) (simp only: True if_True, intro fatal_rules fatal_requeue [OF assms n True])
  next
    case False
    show ?thesis unfolding it retry_batch.simps n(2)
      using rest by (intro fatal_lift) (simp only: False if_False, intro fatal_rules fatal_dead_letter [OF n(2)])
  qed
qed (simp only: retry_batch.simps fatal_rules)

lemma fatal_process_batch: "sleep_returns L \<Longrightarrow> only_fatal (process_batch L t h (spec_for L h) raws)"
  unfolding process_batch_def Let_def
proof (rule fatal_seq [OF fatal_for_each [OF fatal_basic(4)]], rule fatal_seq_post [OF fatal_read_batch read_batch_decoded])
  fix items :: "(message_envelope \<times> string option \<times> message) list" assume s: "sleep_returns L"
    and d: "\<forall>(e, r, ev) \<in> set items. decode (l_classes L) (l_codec L) (l_registry L) e = Inr ev"
  have acks: "only_fatal (for_each (\<lambda>(e, r, ev). ack_claim L r) items)"
    "only_fatal (for_each (\<lambda>(e, r, ev). note_event (Completed r)) items)"
    by (auto intro!: fatal_for_each fatal_ack fatal_basic(4))
  show "only_fatal (if items = [] then on_state (forget_batch t)
      else seq (attempt (world (l_handle_batch L h (map (\<lambda>(e, r, ev). ev) items)))) (\<lambda>result. case result of
        Inl x \<Rightarrow> seq (retry_batch L (batched_buffer_key t) (max_retries_of L (spec_for L h)) items) (\<lambda>requeued.
            if requeued then seq (draw (l_now L)) (\<lambda>now. on_state (\<lambda>l.
              l\<lparr>batch_retry_after := AList.update t (now + hs_max_wait (spec_for L h) * us_second) (batch_retry_after l)\<rparr>))
            else on_state (\<lambda>l. l\<lparr>batch_retry_after := AList.delete t (batch_retry_after l)\<rparr>))
      | Inr y \<Rightarrow> seq (for_each (\<lambda>(e, r, ev). note_event (Completed r)) items) (\<lambda>_.
            seq (for_each (\<lambda>(e, r, ev). ack_claim L r) items) (\<lambda>_. on_state (forget_batch t)))))"
    using fatal_retry_batch [OF s d] acks
    by (intro fatal_if fatal_basic fatal_seq) (auto split: sum.splits intro!: fatal_seq fatal_basic)
qed

lemma safe_from_fatal:
  assumes "safe UNIV A R m A R" "only_fatal m" shows "safe B A R m A R"
proof (rule tripleI)
  fix s a s' assume s: "Inv B A R s" "m s = (Inr a, s')"
  then have "Inv UNIV A R s" by (simp add: Inv_def)
  from tripleD1 [OF assms(1) this s(2)] s(1) show "Inv B A R s'" by (simp add: Inv_def)
next
  fix s x s' assume s: "Inv B A R s" "m s = (Inl x, s')"
  then have "Inv UNIV A R s" by (simp add: Inv_def)
  from tripleD2 [OF assms(1) this s(2)] have "Exc UNIV x s'" .
  moreover have "is_fatal x" using assms(2) s(2) unfolding only_fatal_def by blast
  ultimately show "Exc B x s'" by (simp add: Exc_def)
qed

lemma safe_flush_batch: "sleep_returns L \<Longrightarrow> safe B A R (flush_batch L cm t h (spec_for L h)) A R"
  unfolding flush_batch_def
  by (intro safe_after_quiet quiet_basic triple_if safe_ret
      safe_from_fatal [OF safe_process_batch fatal_process_batch])

lemma safe_flush_if_ready: "sleep_returns L \<Longrightarrow> safe B A R (flush_if_ready L sz cm t h) A R"
  unfolding flush_if_ready_def Let_def
  by (intro triple_if safe_ret safe_after_quiet safe_perform_if safe_flush_batch safe_quiet quiet_rules)

lemma safe_flush: "sleep_returns L \<Longrightarrow> safe B A R (flush_ready_batches L) A R"
  unfolding flush_ready_batches_def
  by (auto intro!: safe_ret triple_for_each safe_perform_if safe_flush_if_ready split: option.splits prod.splits)

section \<open>Dispatch\<close>

lemma safe_verify: "safe B A R (verify_durable_configuration L c e p) A R"
  unfolding verify_durable_configuration_def by (auto intro!: safe_restore safe_ret split: sum.splits option.splits)

text \<open>An admission that is refused leaves a reason to acknowledge the delivery.\<close>

lemma safe_admit:
  "triple (Inv B A R) (admit_durable_delivery L c e mx p)
     (\<lambda>b. if b then Inv B A R else Inv B A (R \<union> set_option p)) (Exc B)"
proof (cases "l_controller L")
  case None
  then show ?thesis by (simp add: admit_durable_delivery_def) (rule tripleI; simp)
next
  case (Some ct)
  have ok: "triple (Inv B A R) (ret True) (\<lambda>b. if b then Inv B A R else Inv B A (R \<union> set_option p)) (Exc B)"
    by (rule tripleI) simp_all
  have drop: "triple (Inv B A R) (seq (note_event (Dropped p)) (\<lambda>_. ret False))
      (\<lambda>b. if b then Inv B A R else Inv B A (R \<union> set_option p)) (Exc B)"
    by (rule triple_seq [OF safe_note_settling(3)], rule tripleI) simp_all
  show ?thesis unfolding admit_durable_delivery_def Some option.case
    by (rule triple_seq, rule triple_try_catch, rule quiet_triple)
      (intro quiet_rules safe_restore triple_if ok drop)+
qed

lemma safe_start: "safe B A R (start_command L c e d hs p) A R"
proof -
  have release: "quiet (case l_controller L of Some ct \<Rightarrow> if d then wrap_errors (\<lambda>x. False) IndeterminateDeliveryError
      (seq (draw (ct_now ct)) (\<lambda>t. world (release_claim (ct_store ct) (ct_policy ct) t e))) else ret () | None \<Rightarrow> ret ())"
    by (cases "l_controller L"; cases d) (simp_all only: option.case if_True if_False, (intro quiet_rules)+)
  show ?thesis unfolding start_command_def
    by (intro triple_if safe_restore triple_try_catch [where R = "\<lambda>_. Inv B A R"] quiet_triple quiet_rules safe_raise
        safe_after_quiet [OF release])
qed

lemma safe_handler_loop:
  "triple (Inv B A R) (handler_loop L c e m d p hs)
     (\<lambda>r. case r of None \<Rightarrow> Inv B (A - set_option p) R | Some rs \<Rightarrow> Inv B A R) (Exc B)"
proof (induction hs)
  case Nil
  show ?case by (rule tripleI) auto
next
  case (Cons h hs)
  let ?Q = "\<lambda>r. case r of None \<Rightarrow> Inv B (A - set_option p) R | Some (rs :: handler_result list) \<Rightarrow> Inv B A R"
  have settled: "safe B A R n (A - set_option p) R \<Longrightarrow> triple (Inv B A R) (seq n (\<lambda>_. ret None)) ?Q (Exc B)" for n :: "('a lworld, unit) prog"
    by (erule triple_seq, rule tripleI) simp_all
  have rest: "triple (Inv B A R) (seq (handler_loop L c e m d p hs) (\<lambda>rest. ret (map_option (Cons x) rest))) ?Q (Exc B)" for x
    by (rule triple_seq [OF Cons.IH], rule tripleI) (auto split: option.splits)
  note cases = settled [OF safe_failed_delivery] settled [OF safe_continue] rest
  show ?case unfolding handler_loop.simps Let_def
  proof (rule safe_after_quiet [OF quiet_should_delay], rule safe_after_quiet [OF quiet_perform_if [OF quiet_basic(2)]],
      rule triple_seq [OF safe_note_settling(4)], rule safe_after_quiet [OF quiet_attempt [OF quiet_basic(1)]])
    fix result :: "handler_result res"
    show "triple (Inv B A R) (case result of
        Inl _ \<Rightarrow> seq (handle_failed_delivery L c e (spec_for L h) p) (\<lambda>_. ret None)
      | Inr (H_Continue cont) \<Rightarrow> seq (continue_delivery L c e cont (max_retries_of L (spec_for L h)) p) (\<lambda>_. ret None)
      | Inr x \<Rightarrow> if is_recurrence x \<and> (message_kind e \<noteq> PStr ''command'' \<or> \<not> d)
          then seq (handle_failed_delivery L c e (spec_for L h) p) (\<lambda>_. ret None)
          else seq (handler_loop L c e m d p hs) (\<lambda>rest. ret (map_option (Cons x) rest))) ?Q (Exc B)"
      using cases by (cases result) (simp_all split: handler_result.splits)
  qed
qed

lemma safe_finish:
  "triple (Inv B A R) (finish_command L c e d hs x p) (\<lambda>b. if b then Inv B A R else Inv B (A - set_option p) R) (Exc B)"
proof -
  let ?Q = "\<lambda>b. if b then Inv B A R else Inv B (A - set_option p) R"
  have true: "triple (Inv B A R) (ret True) ?Q (Exc B)" by (rule tripleI) simp_all
  have false: "triple (Inv B A R) (seq (handle_failed_delivery L c e s p) (\<lambda>_. ret False)) ?Q (Exc B)" for s
    by (rule triple_seq [OF safe_failed_delivery], rule tripleI) simp_all
  have complete: "triple (Inv B A R) (case l_controller L of Some ct \<Rightarrow> if d then
       seq (draw (l_now L)) (\<lambda>completed_at. seq (attempt (seq (draw (ct_now ct)) (\<lambda>t. world (f ct completed_at t)))) (\<lambda>r.
         case r of Inr u \<Rightarrow> ret True | Inl x \<Rightarrow> if x = InvalidMessageDefinitionError
           then seq (handle_failed_delivery L c e s p) (\<lambda>_. ret False) else raise DeliveryObservationError))
       else ret True | None \<Rightarrow> ret True) ?Q (Exc B)"
    for s and f :: "'a controller \<Rightarrow> instant \<Rightarrow> instant \<Rightarrow> ('a, unit) prog"
    using true false
    by (cases "l_controller L") (auto intro!: safe_after_quiet quiet_rules safe_raise split: sum.splits)
  show ?thesis unfolding finish_command_def
  proof (rule safe_after_quiet [OF quiet_basic(4)], rule triple_seq [OF complete])
    show "triple (if b then Inv B A R else Inv B (A - set_option p) R)
        (if b then seq (notify_command_outcome L e SUCCEEDED c None (int n) (first_limit L hs) (\<not> d)) (\<lambda>_. ret True)
         else ret False) ?Q (Exc B)" for b n
    proof (cases b)
      case True
      then show ?thesis using true by (simp only: if_True) (intro safe_after_quiet quiet_rules)
    qed (rule tripleI; simp)
  qed
qed

text \<open>
  After dispatch a claim is closed, or there is a reason to close it. The transport must be
  able to count its messages when a batched handler is registered.
\<close>

abbreviation dispatched :: "string set \<Rightarrow> string set \<Rightarrow> string set \<Rightarrow> string option \<Rightarrow> claim_result \<Rightarrow> 'w lworld \<Rightarrow> bool" where
  "dispatched B A R p res \<equiv>
     (case res of Settled \<Rightarrow> Inv B (A - set_option p) R | Returned x \<Rightarrow> Inv B A (R \<union> set_option p))"

lemma safe_settled: "triple (Inv B (A - set_option p) R) (ret Settled) (dispatched B A R p) (Exc B)"
  by (rule tripleI) auto

lemma safe_returned: "triple (Inv B A (R \<union> set_option p)) (ret (Returned x)) (dispatched B A R p) (Exc B)"
  by (rule tripleI) auto

lemma safe_run_claim: "triple (Inv B A R) (run_claim L c e d b hs p m) (dispatched B A R p) (Exc B)"
proof -
  have finish: "triple (Inv B A R)
      (seq (if b then finish_command L c e d hs x p else ret True) (\<lambda>done_ok. if \<not> done_ok then ret Settled
        else seq (note_event (Completed p)) (\<lambda>_. ret (Returned y)))) (dispatched B A R p) (Exc B)" for x y
  proof (rule triple_seq)
    show "triple (Inv B A R) (if b then finish_command L c e d hs x p else ret True)
        (\<lambda>b. if b then Inv B A R else Inv B (A - set_option p) R) (Exc B)"
      by (rule triple_if [OF safe_finish], rule tripleI) simp_all
    show "triple (if a then Inv B A R else Inv B (A - set_option p) R) (if \<not> a then ret Settled
        else seq (note_event (Completed p)) (\<lambda>_. ret (Returned y))) (dispatched B A R p) (Exc B)" for a
      using safe_settled triple_seq [OF safe_note_settling(2) safe_returned] by (cases a) simp_all
  qed
  show ?thesis unfolding run_claim_def
  proof (rule triple_seq [OF safe_perform_if [OF safe_start]], rule triple_seq [OF safe_handler_loop])
    show "triple (case results of None \<Rightarrow> Inv B (A - set_option p) R | Some rs \<Rightarrow> Inv B A R)
      (case results of None \<Rightarrow> ret Settled
       | Some rs \<Rightarrow> seq (if b then finish_command L c e d hs (hd rs) p else ret True) (\<lambda>done_ok.
            if \<not> done_ok then ret Settled
            else seq (note_event (Completed p)) (\<lambda>_. ret (Returned (case rs of [r] \<Rightarrow> L_One r | _ \<Rightarrow> L_Many rs)))))
      (dispatched B A R p) (Exc B)" for results
      using safe_settled finish by (cases results) simp_all
  qed
qed

lemma safe_dispatch_admitted:
  assumes "sleep_returns L" "tp_size (l_transport L) \<noteq> None"
  shows "triple (Inv B A R) (dispatch_admitted L c e d b hs p) (dispatched B A R p) (Exc B)"
proof -
  have "triple (Inv B A R) (case v of PStr t \<Rightarrow> seq (buffer_batched_message L t e p) (\<lambda>_.
      seq (flush_ready_batches L) (\<lambda>_. ret Settled)) | _ \<Rightarrow> raise TypeError) (dispatched B A R p) (Exc B)" for v
    by (cases v) (simp_all only: pyval.case, (intro safe_raise triple_seq [OF safe_buffer [OF assms(2)]]
        triple_seq [OF safe_flush [OF assms(1)]] safe_settled)+)
  then show ?thesis unfolding dispatch_admitted_def
    by (intro triple_if safe_raise safe_after_quiet quiet_basic safe_run_claim)
qed

lemma safe_dispatch:
  assumes "sleep_returns L" "tp_size (l_transport L) \<noteq> None"
  shows "triple (Inv B A R) (dispatch_claim L c e p) (dispatched B A R p) (Exc B)"
proof -
  have admit: "triple (Inv B A R) (if b then (if b' then restore_and_abort L c e WorkerAbortError p
      else admit_durable_delivery L c e mx p) else ret True)
      (\<lambda>ok. if ok then Inv B A R else Inv B A (R \<union> set_option p)) (Exc B)" for b b' mx
    by (intro triple_if safe_restore safe_admit) (rule tripleI; simp)
  have go: "triple (if ok then Inv B A R else Inv B A (R \<union> set_option p))
      (if \<not> ok then ret (Returned L_None) else dispatch_admitted L c e d b hs p) (dispatched B A R p) (Exc B)" for ok d b hs
    using safe_returned safe_dispatch_admitted [OF assms] by (cases ok) simp_all
  show ?thesis unfolding dispatch_claim_def Let_def
    by (rule safe_after_quiet [OF quiet_basic(4)], rule safe_after_quiet [OF quiet_basic(4)],
        rule triple_seq [OF admit go])
qed

section \<open>A call of the listener\<close>

lemma safe_failed_dispatch:
  "triple (Exc A x) (failed_dispatch L c e p x) (\<lambda>_. Inv A (A - set_option p) {}) (Exc A)"
proof (cases "is_fatal x")
  case True
  then show ?thesis by (simp add: failed_dispatch_def) (rule tripleI; auto)
next
  case False
  have "safe A A {} (failed_dispatch L c e p x) (A - set_option p) {}"
    using False unfolding failed_dispatch_def
    by (simp only: if_False) (intro triple_if safe_dead_letter safe_requeue safe_after_quiet quiet_basic)
  then show ?thesis by (rule triple_pre) (use False in \<open>simp add: Exc_def Inv_def\<close>)
qed

lemma safe_process_claim:
  assumes "sleep_returns L" "tp_size (l_transport L) \<noteq> None"
  shows "safe A A {} (process_claim L c e p) (A - set_option p) {}"
proof -
  have settle: "safe A A (set_option p) (settle_returned L e p x) (A - set_option p) {}" for x
    unfolding settle_returned_def
    by (auto split: listen_result.splits handler_result.splits intro!: triple_post [OF safe_ack]
        triple_post [OF safe_response] elim: Inv_fewer)
  have after: "triple (\<lambda>s. case d of Inr a \<Rightarrow> dispatched A A {} p a s | Inl x \<Rightarrow> Exc A x s)
      (case d of Inl x \<Rightarrow> seq (failed_dispatch L c e p x) (\<lambda>_. ret L_None)
       | Inr Settled \<Rightarrow> ret L_None
       | Inr (Returned result) \<Rightarrow> seq (settle_returned L e p result) (\<lambda>_. ret result))
      (\<lambda>_. Inv A (A - set_option p) {}) (Exc A)" for d
    by (cases d) (auto split: claim_result.splits intro!: triple_seq [OF safe_failed_dispatch] triple_seq [OF settle] safe_ret)
  show ?thesis unfolding process_claim_def
    by (rule triple_seq [OF safe_verify], rule triple_seq [OF safe_attempt [OF safe_dispatch [OF assms]] after])
qed

text \<open>Claiming: nothing more is open when no readable message was found, else just its claim.\<close>

lemma safe_consume:
  "triple (Inv UNIV A {}) (consume_from L t cs)
     (\<lambda>r. case r of None \<Rightarrow> Inv UNIV A {} | Some (c, e, p) \<Rightarrow> Inv UNIV (A \<union> set_option p) {}) (Exc UNIV)" (is "triple _ _ ?Q _")
proof (induction cs)
  case Nil
  show ?case by (rule tripleI) auto
next
  case (Cons c cs)
  have got: "triple (Inv UNIV (A \<union> set_option (raw_receipt m)) {})
      (case r of Inr e \<Rightarrow> ret (Some (c, e, raw_receipt m))
       | Inl err \<Rightarrow> seq (dead_letter_undecodable L c m err) (\<lambda>_. ret None)) ?Q (Exc UNIV)" for r m
  proof (cases r)
    case (Inl x)
    have none: "triple (Inv UNIV A {}) (ret None) ?Q (Exc UNIV)" by (rule tripleI) auto
    have "safe UNIV (A \<union> set_option (raw_receipt m)) {} (dead_letter_undecodable L c m x) A {}"
      by (rule safe_mono [OF safe_undecodable]) auto
    from triple_seq [OF this none] Inl show ?thesis by simp
  next
    case (Inr e)
    then show ?thesis by simp (rule tripleI; auto)
  qed
  have claimed: "triple (Inv UNIV A {}) (seq (note_event (Claimed c m)) (\<lambda>_.
      seq (attempt (read_envelope L (raw_bytes m))) (\<lambda>r. case r of Inr e \<Rightarrow> ret (Some (c, e, raw_receipt m))
       | Inl err \<Rightarrow> seq (dead_letter_undecodable L c m err) (\<lambda>_. ret None)))) ?Q (Exc UNIV)" for m
    by (rule triple_seq [OF safe_note_claimed]) (intro safe_after_quiet quiet_rules got)
  show ?case unfolding consume_from.simps
  proof (rule safe_after_quiet [OF quiet_basic(1)])
    fix raw :: "raw_message option"
    show "triple (Inv UNIV A {}) (case raw of None \<Rightarrow> consume_from L t cs
       | Some m \<Rightarrow> seq (note_event (Claimed c m)) (\<lambda>_.
          seq (attempt (read_envelope L (raw_bytes m))) (\<lambda>r. case r of Inr e \<Rightarrow> ret (Some (c, e, raw_receipt m))
           | Inl err \<Rightarrow> seq (dead_letter_undecodable L c m err) (\<lambda>_. ret None)))) ?Q (Exc UNIV)"
      using Cons claimed by (cases raw) simp_all
  qed
qed

lemma safe_listen_once:
  assumes "sleep_returns L" "tp_size (l_transport L) \<noteq> None"
  shows "safe UNIV A {} (listen_once L cs) A {}"
proof -
  have claim: "triple (Inv UNIV (A \<union> set_option p) {}) (process_claim L c e p) (\<lambda>_. Inv UNIV A {}) (Exc UNIV)" for c e p
    by (rule triple_weaken [OF safe_process_claim [OF assms, of "A \<union> set_option p"]])
      (auto simp: Inv_def Exc_def)
  show ?thesis unfolding listen_once_def Let_def
  proof (rule triple_seq [OF safe_flush [OF assms(1)]], rule triple_if [OF safe_ret], rule triple_seq [OF safe_consume])
    show "triple (case r of None \<Rightarrow> Inv UNIV A {} | Some (c, e, p) \<Rightarrow> Inv UNIV (A \<union> set_option p) {})
        (case r of None \<Rightarrow> ret L_None | Some (c, e, p) \<Rightarrow> process_claim L c e p) (\<lambda>_. Inv UNIV A {}) (Exc UNIV)" for r
      using claim safe_ret by (cases r) (auto split: prod.splits)
  qed
qed

text \<open>
  C3. Claims are settled safely. Whatever a call of the listener does and however it ends, it
  acknowledges a claim only after its message was published again (requeued, dead-lettered,
  continued, buffered, answered or restored), handled by all its handlers or dropped by the
  durable store; and when the call returns, every claim it took is acknowledged - provided the
  transport can count messages, and the pause before a retry of a batch raises nothing. Without
  a count, a call that buffers a batched message returns with its claim open.
\<close>

theorem listen_once_settles_claims:
  assumes "sleep_returns L" "tp_size (l_transport L) \<noteq> None" "history (fst s) = []"
    and "listen_once L channels s = (r, s')"
  shows "(\<forall>xs x ys. history (fst s') = xs @ Acked x # ys \<longrightarrow> (\<exists>ev \<in> set xs. settled_by x ev))
    \<and> (\<forall>res c m x. r = Inr res \<longrightarrow> Claimed c m \<in> set (history (fst s')) \<longrightarrow> raw_receipt m = Some x
          \<longrightarrow> Acked x \<in> set (history (fst s')))"
proof -
  have pre: "Inv UNIV {} {} s" using assms(3) by (simp add: Inv_def opens_def)
  note t = safe_listen_once [OF assms(1,2), of "{}" channels]
  have "acks_ok (history (fst s')) \<and> (\<forall>res. r = Inr res \<longrightarrow> opens (history (fst s')) = {})"
  proof (cases r)
    case (Inl x)
    then show ?thesis using tripleD2 [OF t pre] assms(4) by (auto simp: Exc_def)
  next
    case (Inr res)
    then show ?thesis using tripleD1 [OF t pre] assms(4) by (auto simp: Inv_def)
  qed
  then show ?thesis unfolding acks_ok_def evidence_def opens_def by blast
qed

section \<open>A sample listener\<close>

text \<open>The memory queues with a receipt for every claim.\<close>

definition receipted_transport :: "mem transport" where
  "receipted_transport = MemoryTransport\<lparr>tp_consume := (\<lambda>c t m. case mem_consume c t m of
     (Inr (Some raw), m') \<Rightarrow> (Inr (Some (raw\<lparr>raw_receipt := Some ''r1''\<rparr>)), m') | x \<Rightarrow> x)\<rparr>"

definition sample_listener_on :: "'w transport \<Rightarrow> 'w listener" where
  "sample_listener_on T = \<lparr>l_transport = T, l_registry = sample_registry, l_attrs = (\<lambda>f. None),
     l_classes = (\<lambda>c. sample_class), l_codec = python_codec empty_types (\<lambda>n fs. Inl TypeError),
     l_retry_policy = \<lparr>rp_max_retries = 3, rp_delay = P_Int 0, rp_backoff = P_Float 1\<rparr>, l_dead_letter_channel = ''dead'',
     l_now = (\<lambda>m. (0, m)), l_utc_now = (\<lambda>m. (63000000000000000, m)), l_uuid = (\<lambda>m. (''id'', m)), l_topology = None,
     l_sleep = (\<lambda>d m. (Inr (), m)), l_time_sleep = (\<lambda>d m. m), l_observers = [], l_controller = None,
     l_handle = (\<lambda>h msg m. (Inr H_None, m)), l_handle_batch = (\<lambda>h msgs m. (Inr H_None, m))\<rparr>"

text \<open>It never pauses: the delays of its policy are 0.0 up to its limit of three retries.\<close>

lemma sample_sleep_returns: "sleep_returns (sample_listener_on T)"
proof -
  have "handler_spec_of (\<lambda>f. None) h = None" for h by (cases h) (simp_all add: handler_spec_of_def)
  then have "max_retries_of (sample_listener_on T) (spec_for (sample_listener_on T) h) = 3" for h
    by (simp add: max_retries_of_def spec_for_def sample_listener_on_def)
  then show ?thesis
    unfolding sleep_returns_def by (auto simp: sample_listener_on_def intro!: exI next_delay_none)
qed

definition sample_listener :: "mem listener" where
  "sample_listener = sample_listener_on receipted_transport"

definition no_history :: lstate where
  "no_history = \<lparr>batch_started_at = [], batch_retry_after = [], history = []\<rparr>"

lemma poison_ok:
  assumes "fresh \<noteq> []" "in_range now"
  shows "wf_envelope (create fresh now (poison_envelope c raw x))"
    "serializable (payload (create fresh now (poison_envelope c raw x)))"
    "serializable (headers (create fresh now (poison_envelope c raw x)))"
  using assms
  by (simp_all add: poison_envelope_def create_def or_val_def wf_envelope_def valid_envelope_def reserved_types_def
      TYPE_KEY_def dict_wf_def valid_datetime_def at_utc_def)

lemma sample_unreadable: "from_wire t ''x'' = Inl DeserializationError"
  by code_simp

definition sample_world :: mem where
  "sample_world = [(''q'', [''x''])]"

lemma sample_run:
  "\<exists>s'. listen_once sample_listener [''q''] (no_history, sample_world) = (Inr L_None, s')
     \<and> Claimed ''q'' \<lparr>raw_bytes = ''x'', raw_receipt = Some ''r1''\<rparr> \<in> set (history (fst s'))"
proof -
  let ?e = "create ''id'' 63000000000000000 (poison_envelope ''q'' ''x'' ''DeserializationError'')"
  have "in_range 63000000000000000" by (simp add: in_range_def)
  then obtain b where b: "to_wire ?e = Inr b"
    using wire_round_trip [OF poison_ok, of "''id''" "63000000000000000" "''q''" "''x''" "''DeserializationError''" 0]
    by (cases "to_wire ?e") auto
  have flush: "flush_ready_batches sample_listener s = (Inr (), s)" for s
    by (simp add: flush_ready_batches_def sample_listener_def sample_listener_on_def receipted_transport_def MemoryTransport_def reg_items_def
        sample_registry_def seq_def perform_if_def)
  have consume: "tp_consume receipted_transport ''q'' 5 sample_world
      = (Inr (Some \<lparr>raw_bytes = ''x'', raw_receipt = Some ''r1''\<rparr>), [(''q'', [])])"
    by (simp add: receipted_transport_def MemoryTransport_def mem_consume_def sample_world_def touch_def has_key_def
        mem_queue_def)
  have ops: "tp_publish receipted_transport = mem_publish" "tp_ack receipted_transport = mem_ack"
    by (simp_all add: receipted_transport_def MemoryTransport_def)
  show ?thesis
    using b consume ops
    by (simp add: listen_once_def flush seq_def [of "flush_ready_batches sample_listener"] active_channels_def)
      (simp add: sample_listener_def sample_listener_on_def seq_def world_def note_event_def attempt_def read_envelope_def draw_def
        sample_unreadable dead_letter_undecodable_def create_envelope_def settle_after_claim_def wrap_errors_def
        try_catch_def publish_envelope_def ack_claim_def mem_publish_def mem_ack_def no_history_def)
qed

theorem listen_once_settles_claims_witness:
  "\<exists>s'. listen_once sample_listener [''q''] (no_history, sample_world) = (Inr L_None, s') \<and> Acked ''r1'' \<in> set (history (fst s'))"
proof -
  obtain s' where s: "listen_once sample_listener [''q''] (no_history, sample_world) = (Inr L_None, s')"
    and claimed: "Claimed ''q'' \<lparr>raw_bytes = ''x'', raw_receipt = Some ''r1''\<rparr> \<in> set (history (fst s'))"
    using sample_run by blast
  have "sleep_returns sample_listener" "tp_size (l_transport sample_listener) \<noteq> None"
    using sample_sleep_returns [of receipted_transport]
    by (simp_all add: sample_listener_def sample_listener_on_def receipted_transport_def MemoryTransport_def)
  from listen_once_settles_claims [OF this _ s] claimed s show ?thesis by (fastforce simp: no_history_def)
qed

end
