(* ===== verification/Worker.thy ===== *)
theory Worker
  imports ListenerSafety
begin

text \<open>
  worker.py: the blocking loop around a listener, with lifecycle hooks, cooperative stopping
  and error reporting. The stop event and the world \<open>'w\<close> are what hooks and the listener act
  on; the running flag and the log belong to the worker. \<open>calls\<close> records the lifecycle of the
  hooks for the theorems; no operation reads it.
\<close>

section \<open>State\<close>

datatype hook_call = Started nat | Polled | Stopping nat

record wstate =
  running :: bool
  log :: "(string \<times> exn) list"
  calls :: "hook_call list"

text \<open>The stop event, and the world the hooks and the listener act on.\<close>

type_synonym 'w outside = "bool \<times> 'w"

type_synonym 'w wworld = "wstate \<times> 'w outside"

record 'w hook =
  on_start :: "('w outside, unit) prog"
  before_poll :: "('w outside, unit) prog"
  after_poll :: "listen_result \<Rightarrow> ('w outside, unit) prog"
  on_error :: "exn \<Rightarrow> ('w outside, unit) prog"
  on_stop :: "('w outside, unit) prog"

text \<open>\<open>WorkerHook\<close>: every callback does nothing.\<close>

definition WorkerHook :: "'w hook" where
  "WorkerHook = \<lparr>on_start = ret (), before_poll = ret (), after_poll = (\<lambda>_. ret ()), on_error = (\<lambda>_. ret ()),
     on_stop = ret ()\<rparr>"

text \<open>
  \<open>wk_wait\<close> is \<open>Event.wait\<close>: time passes, and other threads may set the event meanwhile.
\<close>

record 'w worker =
  wk_channels :: "string list"
  wk_poll :: "string list \<Rightarrow> ('w outside, listen_result) prog"
  wk_hooks :: "'w hook list"
  wk_error_delay :: rat
  wk_wait :: "rat \<Rightarrow> 'w outside \<Rightarrow> 'w outside"

text \<open>The \<open>channel\<close> argument: one name or a sequence of names.\<close>

datatype channel_arg = One_Channel string | Channels "string list"

fun channels_of :: "channel_arg \<Rightarrow> string list" where
  "channels_of (One_Channel c) = [c]"
| "channels_of (Channels cs) = cs"

definition new_worker ::
    "string \<Rightarrow> (string list \<Rightarrow> ('w outside, listen_result) prog) \<Rightarrow> channel_arg \<Rightarrow> 'w hook list \<Rightarrow> number_arg
      \<Rightarrow> (rat \<Rightarrow> 'w outside \<Rightarrow> 'w outside) \<Rightarrow> 'w worker res" where
  "new_worker dead_letter_channel poll channel hooks error_delay wait =
     bind_res (non_negative_number error_delay) (\<lambda>delay.
     if channels_of channel = [] then Inl ValueError
     else if dead_letter_channel \<in> set (channels_of channel) then Inl ValueError
     else Inr \<lparr>wk_channels = channels_of channel, wk_poll = poll, wk_hooks = hooks, wk_error_delay = number_value delay,
       wk_wait = wait\<rparr>)"

section \<open>Operations\<close>

definition outside :: "('w outside, 'a) prog \<Rightarrow> ('w wworld, 'a) prog" where
  "outside m = (\<lambda>(k, w). let (r, w') = m w in (r, (k, w')))"

definition on_worker :: "(wstate \<Rightarrow> wstate) \<Rightarrow> ('w wworld, unit) prog" where
  "on_worker f = modify (\<lambda>(k, w). (f k, w))"

definition note_call :: "hook_call \<Rightarrow> ('w wworld, unit) prog" where
  "note_call c = on_worker (\<lambda>k. k\<lparr>calls := calls k @ [c]\<rparr>)"

definition is_set :: "'w wworld \<Rightarrow> bool" where
  "is_set s = fst (snd s)"

definition is_running :: "'w wworld \<Rightarrow> bool" where
  "is_running s = running (fst s)"

definition stop :: "('w wworld, unit) prog" where
  "stop = modify (\<lambda>(k, (ev, w)). (k, (True, w)))"

definition log_exception :: "string \<Rightarrow> exn \<Rightarrow> ('w wworld, unit) prog" where
  "log_exception msg e = on_worker (\<lambda>k. k\<lparr>log := log k @ [(msg, e)]\<rparr>)"

text \<open>\<open>max_iterations\<close>: \<open>None\<close> or a non-negative integer, which a bool is not.\<close>

fun validate_max_iterations :: "pyval \<Rightarrow> int option res" where
  "validate_max_iterations PNone = Inr None"
| "validate_max_iterations (PInt n) = (if n < 0 then Inl ValueError else Inr (Some n))"
| "validate_max_iterations v = Inl ValueError"

fun after_hooks :: "'w hook list \<Rightarrow> listen_result \<Rightarrow> exn option \<Rightarrow> ('w wworld, exn option) prog" where
  "after_hooks [] result err = ret err"
| "after_hooks (h # hs) result err =
     seq (attempt (outside (after_poll h result))) (\<lambda>r.
     case r of
       Inr _ \<Rightarrow> after_hooks hs result err
     | Inl x \<Rightarrow> (case err of
           None \<Rightarrow> after_hooks hs result (Some x)
         | Some _ \<Rightarrow> seq (log_exception ''Worker after-poll hook failed'' x) (\<lambda>_. after_hooks hs result err)))"

text \<open>One cycle; its exception is returned, not raised.\<close>

definition run_cycle :: "'w worker \<Rightarrow> ('w wworld, exn option) prog" where
  "run_cycle W =
     seq (attempt (for_each (\<lambda>h. outside (before_poll h)) (wk_hooks W))) (\<lambda>b.
     case b of
       Inl x \<Rightarrow> ret (Some x)
     | Inr _ \<Rightarrow>
         seq (get_state is_set) (\<lambda>stopped.
         if stopped then ret None
         else
           seq (note_call Polled) (\<lambda>_.
           seq (attempt (outside (wk_poll W (wk_channels W)))) (\<lambda>r.
           case r of
             Inl x \<Rightarrow> after_hooks (wk_hooks W) L_None (Some x)
           | Inr result \<Rightarrow> after_hooks (wk_hooks W) result None))))"

definition report_error :: "'w worker \<Rightarrow> exn \<Rightarrow> ('w wworld, unit) prog" where
  "report_error W e =
     seq (log_exception ''Worker cycle failed'' e) (\<lambda>_.
     for_each (\<lambda>h. try_catch (outside (on_error h e)) (log_exception ''Worker error hook failed'')) (wk_hooks W))"

definition wait :: "'w worker \<Rightarrow> ('w wworld, unit) prog" where
  "wait W = modify (\<lambda>(k, w). (k, wk_wait W (wk_error_delay W) w))"

text \<open>The body of the loop: it raises exactly when the worker stops with an error.\<close>

definition iterate :: "'w worker \<Rightarrow> ('w wworld, unit) prog" where
  "iterate W =
     seq (run_cycle W) (\<lambda>err.
     case err of
       None \<Rightarrow> ret ()
     | Some x \<Rightarrow>
         seq (report_error W x) (\<lambda>_.
         if is_fatal x then raise x else wait W))"

partial_function (option) work_loop ::
    "'w worker \<Rightarrow> int option \<Rightarrow> int \<Rightarrow> 'w wworld \<Rightarrow> (unit res \<times> 'w wworld) option" where
  "work_loop W max_iterations iterations s =
     (if is_set s \<or> (case max_iterations of None \<Rightarrow> False | Some m \<Rightarrow> m \<le> iterations) then Some (Inr (), s)
      else (case iterate W s of
          (Inl e, s') \<Rightarrow> Some (Inl e, s')
        | (Inr _, s') \<Rightarrow> work_loop W max_iterations (iterations + 1) s'))"

text \<open>Starting the hooks: those started, numbered, and the exception of the first that failed.\<close>

fun start_hooks :: "(nat \<times> 'w hook) list \<Rightarrow> ('w wworld, (nat \<times> 'w hook) list \<times> exn option) prog" where
  "start_hooks [] = ret ([], None)"
| "start_hooks ((i, h) # hs) =
     seq (attempt (outside (on_start h))) (\<lambda>r.
     case r of
       Inl x \<Rightarrow> ret ([], Some x)
     | Inr _ \<Rightarrow>
         seq (note_call (Started i)) (\<lambda>_.
         seq (start_hooks hs) (\<lambda>(started, err). ret ((i, h) # started, err))))"

fun stop_hooks :: "(nat \<times> 'w hook) list \<Rightarrow> ('w wworld, exn list) prog" where
  "stop_hooks [] = ret []"
| "stop_hooks ((i, h) # hs) =
     seq (note_call (Stopping i)) (\<lambda>_.
     seq (attempt (outside (on_stop h))) (\<lambda>r.
     case r of
       Inr _ \<Rightarrow> stop_hooks hs
     | Inl x \<Rightarrow>
         seq (log_exception ''Worker stop hook failed'' x) (\<lambda>_.
         seq (stop_hooks hs) (\<lambda>xs. ret (x # xs)))))"

text \<open>
  The \<open>finally\<close> block of \<open>run\<close>. \<open>handling\<close> says that the caller of \<open>run\<close> is itself handling an
  exception, which \<open>sys.exc_info\<close> then reports although the body did not raise.
\<close>

definition finish_run :: "bool \<Rightarrow> (nat \<times> 'w hook) list \<Rightarrow> unit res \<Rightarrow> ('w wworld, unit) prog" where
  "finish_run handling started body =
     seq (stop_hooks (rev started)) (\<lambda>errors.
     seq (on_worker (\<lambda>k. k\<lparr>running := False\<rparr>)) (\<lambda>_.
     case body of
       Inl e \<Rightarrow> raise e
     | Inr _ \<Rightarrow> (case errors of x # xs \<Rightarrow> if handling then ret () else raise x | [] \<Rightarrow> ret ())))"

definition set_running :: "'w wworld \<Rightarrow> 'w wworld" where
  "set_running s = ((fst s)\<lparr>running := True\<rparr>, snd s)"

text \<open>\<open>start_hooks\<close> returns the exception of a hook, so its own error case never occurs.\<close>

definition run :: "'w worker \<Rightarrow> bool \<Rightarrow> pyval \<Rightarrow> 'w wworld \<Rightarrow> (unit res \<times> 'w wworld) option" where
  "run W handling max_iterations s = (case validate_max_iterations max_iterations of
     Inl e \<Rightarrow> Some (Inl e, s)
   | Inr limit \<Rightarrow>
       if is_running s then Some (Inl RuntimeError, s)
       else (case start_hooks (enumerate 0 (wk_hooks W)) (set_running s) of
           (Inl e, s1) \<Rightarrow> Some (Inl e, s1)
         | (Inr (started, err), s1) \<Rightarrow>
             (case (case err of Some x \<Rightarrow> Some (Inl x, s1) | None \<Rightarrow> work_loop W limit 0 s1) of
                None \<Rightarrow> None
              | Some (body, s2) \<Rightarrow> Some (finish_run handling started body s2))))"

section \<open>The loop\<close>

lemma work_loop_step:
  "work_loop W limit n s =
     (if is_set s \<or> (case limit of None \<Rightarrow> False | Some m \<Rightarrow> m \<le> n) then Some (Inr (), s)
      else (case iterate W s of
          (Inl e, s') \<Rightarrow> Some (Inl e, s')
        | (Inr _, s') \<Rightarrow> work_loop W limit (n + 1) s'))"
  by (rule work_loop.simps)

text \<open>What every pass of the loop keeps holds when the loop ends, and it ends for a reason.\<close>

lemma work_loop_rule:
  assumes "work_loop W limit n s = Some (r, s')" "triple I (iterate W) (\<lambda>_. I) E" "I s"
  shows "(\<forall>a. r = Inr a \<longrightarrow> I s' \<and> (is_set s' \<or> limit \<noteq> None)) \<and> (\<forall>e. r = Inl e \<longrightarrow> E e s')"
proof -
  have "W = W \<longrightarrow> I s \<longrightarrow> (\<forall>a. fst (r, s') = Inr a \<longrightarrow> I (snd (r, s')) \<and> (is_set (snd (r, s')) \<or> limit \<noteq> None))
      \<and> (\<forall>e. fst (r, s') = Inl e \<longrightarrow> E e (snd (r, s')))"
    using assms(1)
  proof (rule work_loop.raw_induct [where P = "\<lambda>W' limit n s y. W' = W \<longrightarrow> I s \<longrightarrow>
      (\<forall>a. fst y = Inr a \<longrightarrow> I (snd y) \<and> (is_set (snd y) \<or> limit \<noteq> None)) \<and> (\<forall>e. fst y = Inl e \<longrightarrow> E e (snd y))", rotated])
    fix f W' limit n s and y :: "unit res \<times> 'a wworld"
    assume IH: "\<And>W' limit n s y. f W' limit n s = Some y \<Longrightarrow> W' = W \<longrightarrow> I s \<longrightarrow>
        (\<forall>a. fst y = Inr a \<longrightarrow> I (snd y) \<and> (is_set (snd y) \<or> limit \<noteq> None)) \<and> (\<forall>e. fst y = Inl e \<longrightarrow> E e (snd y))"
      and y: "(if is_set s \<or> (case limit of None \<Rightarrow> False | Some m \<Rightarrow> m \<le> n) then Some (Inr (), s)
        else (case iterate W' s of (Inl e, s') \<Rightarrow> Some (Inl e, s') | (Inr _, s') \<Rightarrow> f W' limit (n + 1) s')) = Some y"
    show "W' = W \<longrightarrow> I s \<longrightarrow>
        (\<forall>a. fst y = Inr a \<longrightarrow> I (snd y) \<and> (is_set (snd y) \<or> limit \<noteq> None)) \<and> (\<forall>e. fst y = Inl e \<longrightarrow> E e (snd y))"
    proof (intro impI)
      assume W: "W' = W" and I: "I s"
      obtain x t where it: "iterate W s = (x, t)" by (cases "iterate W s")
      show "(\<forall>a. fst y = Inr a \<longrightarrow> I (snd y) \<and> (is_set (snd y) \<or> limit \<noteq> None)) \<and> (\<forall>e. fst y = Inl e \<longrightarrow> E e (snd y))"
        using y W I it IH [of W limit "n + 1" t y] tripleD1 [OF assms(2) I, of "()" t] tripleD2 [OF assms(2) I, of _ t]
        by (cases x) (auto split: if_splits option.splits)
    qed
  qed
  then show ?thesis using assms(3) by simp
qed

lemma work_loop_returns: "work_loop W (Some m) n s \<noteq> None"
proof (induction "nat (m - n)" arbitrary: n s)
  case 0
  then show ?case by (simp add: work_loop_step)
next
  case (Suc k)
  then have "k = nat (m - (n + 1))" by simp
  from Suc.hyps(1) [OF this] show ?case
    by (cases s; cases "iterate W s") (auto simp: work_loop_step [of W "Some m" n] split: sum.splits)
qed

section \<open>Hooks\<close>

lemma start_hooks_spec:
  "start_hooks (enumerate i hs) s = (r, s') \<Longrightarrow>
    \<exists>k \<le> length hs. \<exists>err. r = Inr (take k (enumerate i hs), err) \<and> (err = None \<longleftrightarrow> k = length hs)
      \<and> (\<forall>x. err = Some x \<longrightarrow> (\<exists>h \<in> set hs. \<exists>w. fst (on_start h w) = Inl x))
      \<and> running (fst s') = running (fst s) \<and> log (fst s') = log (fst s)
      \<and> calls (fst s') = calls (fst s) @ map Started [i..<i + k]"
proof (induction hs arbitrary: i s r s')
  case Nil
  then show ?case by simp
next
  case (Cons h hs)
  obtain st w where s: "s = (st, w)" by (cases s)
  obtain x w1 where x: "on_start h w = (x, w1)" by (cases "on_start h w")
  show ?case
  proof (cases x)
    case (Inl e)
    then have "r = Inr ([], Some e)" "s' = (st, w1)"
      using Cons.prems s x by (simp_all add: seq_def attempt_def outside_def)
    then show ?thesis
      using s x Inl by (intro exI [of _ 0] exI [of _ "Some e"]) (auto, metis fst_conv surj_pair)
  next
    case (Inr u)
    define t where "t = (st\<lparr>calls := calls st @ [Started i]\<rparr>, w1)"
    obtain q s1 where q: "start_hooks (enumerate (Suc i) hs) t = (q, s1)" by (cases "start_hooks (enumerate (Suc i) hs) t")
    obtain k err where k: "k \<le> length hs" "q = Inr (take k (enumerate (Suc i) hs), err)" "err = None \<longleftrightarrow> k = length hs"
      "\<forall>x. err = Some x \<longrightarrow> (\<exists>h \<in> set hs. \<exists>w. fst (on_start h w) = Inl x)"
      "running (fst s1) = running st" "log (fst s1) = log st" "calls (fst s1) = calls st @ Started i # map Started [Suc i..<Suc i + k]"
      using Cons.IH [OF q] by (auto simp: t_def)
    have "r = Inr ((i, h) # take k (enumerate (Suc i) hs), err)" "s' = s1"
      using Cons.prems s x Inr q k(2)
      by (simp_all add: seq_def attempt_def outside_def note_call_def on_worker_def t_def)
    moreover have "map Started [i..<i + Suc k] = Started i # map Started [Suc i..<Suc i + k]"
      by (simp add: upt_rec [of i])
    ultimately show ?thesis
      using k s by (intro exI [of _ "Suc k"] exI [of _ err]) (auto simp del: upt_Suc)
  qed
qed

lemma stop_hooks_spec:
  "stop_hooks hs s = (r, s') \<Longrightarrow>
    \<exists>xs. r = Inr xs \<and> calls (fst s') = calls (fst s) @ map (Stopping \<circ> fst) hs
      \<and> (\<exists>ys. log (fst s') = log (fst s) @ ys)
      \<and> (\<forall>x \<in> set xs. (''Worker stop hook failed'', x) \<in> set (log (fst s'))
           \<and> (\<exists>h \<in> snd ` set hs. \<exists>w. fst (on_stop h w) = Inl x))"
proof (induction hs arbitrary: s r s')
  case (Cons p hs)
  obtain i h where p: "p = (i, h)" by (cases p)
  obtain st w where s: "s = (st, w)" by (cases s)
  obtain x w1 where x: "on_stop h w = (x, w1)" by (cases "on_stop h w")
  define t where "t = (st\<lparr>calls := calls st @ [Stopping i], log := log st @
    (case x of Inl e \<Rightarrow> [(''Worker stop hook failed'', e)] | Inr u \<Rightarrow> [])\<rparr>, w1)"
  obtain q s1 where q: "stop_hooks hs t = (q, s1)" by (cases "stop_hooks hs t")
  obtain ys where ys: "q = Inr ys" "calls (fst s1) = calls st @ Stopping i # map (Stopping \<circ> fst) hs"
    "\<forall>x \<in> set ys. (''Worker stop hook failed'', x) \<in> set (log (fst s1)) \<and> (\<exists>h \<in> snd ` set hs. \<exists>w. fst (on_stop h w) = Inl x)"
    "\<exists>zs. log (fst s1) = log (fst t) @ zs"
    using Cons.IH [OF q] by (auto simp: t_def)
  have "r = Inr ((case x of Inl e \<Rightarrow> [e] | Inr u \<Rightarrow> []) @ ys)" "s' = s1"
    using Cons.prems p s x q ys(1)
    by (cases x; simp add: seq_def attempt_def outside_def note_call_def on_worker_def log_exception_def t_def)+
  moreover have "\<exists>w. fst (on_stop h w) = Inl e" if "x = Inl e" for e
    using x that by (intro exI [of _ w]) simp
  moreover have "(''Worker stop hook failed'', e) \<in> set (log (fst s1))" if "x = Inl e" for e
    using ys(4) that by (auto simp: t_def)
  moreover have "\<exists>zs. log (fst s1) = log st @ zs" using ys(4) by (auto simp: t_def)
  ultimately show ?case using ys(2,3) p s by (auto split: sum.splits)
qed simp

text \<open>What a pass of the loop leaves alone: the running flag and the starts and stops of hooks.\<close>

definition lifecycle :: "'w wworld \<Rightarrow> bool \<times> hook_call list" where
  "lifecycle s = (running (fst s), filter (\<lambda>c. c \<noteq> Polled) (calls (fst s)))"

lemma keeps_outside: "keeps (\<lambda>s. f (fst s)) (outside m)"
  by (simp add: keeps_def outside_def split: prod.splits)

lemma keeps_worker_steps:
  "keeps lifecycle (outside m)" "keeps lifecycle (log_exception msg x)" "keeps lifecycle (note_call Polled)"
  "keeps lifecycle (wait W)"
  by (auto simp: keeps_def lifecycle_def outside_def log_exception_def note_call_def on_worker_def wait_def split: prod.splits)

lemma keeps_after_hooks: "keeps lifecycle (after_hooks hs result err)"
proof (induction hs arbitrary: err)
  case (Cons h hs)
  then show ?case unfolding after_hooks.simps by (intro keeping keeps_worker_steps)
qed (simp only: after_hooks.simps keeping)

lemma keeps_iterate: "keeps lifecycle (iterate W)"
  unfolding iterate_def run_cycle_def report_error_def by (intro keeping keeps_worker_steps keeps_after_hooks)






text \<open>Log entries stay, and the error that ends the loop is logged.\<close>

abbreviation logged :: "string \<times> exn \<Rightarrow> 'w wworld \<Rightarrow> bool" where
  "logged x s \<equiv> x \<in> set (log (fst s))"




lemma iterate_triple: "triple (\<lambda>s. lifecycle s = c) (iterate W) (\<lambda>_ s. lifecycle s = c) (\<lambda>_ s. lifecycle s = c)"
  by (rule keeps_triple [OF keeps_iterate])

text \<open>How a run that starts is put together.\<close>

lemma run_cases:
  assumes "run W handling v s = Some (r, s')" "\<not> is_running s" "validate_max_iterations v = Inr limit"
  obtains k err body s1 s2 where
    "start_hooks (enumerate 0 (wk_hooks W)) (set_running s) = (Inr (take k (enumerate 0 (wk_hooks W)), err), s1)"
    "k \<le> length (wk_hooks W)" "err = None \<longleftrightarrow> k = length (wk_hooks W)"
    "calls (fst s1) = calls (fst s) @ map Started [0..<k]" "running (fst s1)"
    "\<And>x. err = Some x \<Longrightarrow> body = Inl x \<and> s2 = s1 \<and> (\<exists>h \<in> set (wk_hooks W). \<exists>w. fst (on_start h w) = Inl x)"
    "err = None \<Longrightarrow> work_loop W limit 0 s1 = Some (body, s2)"
    "finish_run handling (take k (enumerate 0 (wk_hooks W))) body s2 = (r, s')"
proof -
  obtain q s1 where q: "start_hooks (enumerate 0 (wk_hooks W)) (set_running s) = (q, s1)"
    by (cases "start_hooks (enumerate 0 (wk_hooks W)) (set_running s)")
  from start_hooks_spec [OF q] obtain k err where k: "k \<le> length (wk_hooks W)" "err = None \<longleftrightarrow> k = length (wk_hooks W)"
    "q = Inr (take k (enumerate 0 (wk_hooks W)), err)" "running (fst s1)" "calls (fst s1) = calls (fst s) @ map Started [0..<k]"
    "\<And>x. err = Some x \<Longrightarrow> \<exists>h \<in> set (wk_hooks W). \<exists>w. fst (on_start h w) = Inl x"
    by (auto simp: set_running_def)
  obtain body s2 where body: "(case err of Some x \<Rightarrow> Some (Inl x, s1) | None \<Rightarrow> work_loop W limit 0 s1) = Some (body, s2)"
    "finish_run handling (take k (enumerate 0 (wk_hooks W))) body s2 = (r, s')"
    using assms q k(3) by (auto simp: run_def split: option.splits)
  show ?thesis
    by (rule that [OF q [unfolded k(3)] k(1,2) k(5) k(4) _ _ body(2)]) (use body(1) k(6) in auto)
qed

lemma finish_run_spec:
  assumes "finish_run handling started body s = (r, s')"
  shows "\<not> is_running s'" "calls (fst s') = calls (fst s) @ map (Stopping \<circ> fst) (rev started)"
    "\<And>e. r = Inl e \<Longrightarrow> body = Inl e \<or> logged (''Worker stop hook failed'', e) s'
      \<and> (\<exists>h \<in> snd ` set started. \<exists>w. fst (on_stop h w) = Inl e)"
    "\<And>e. body = Inl e \<Longrightarrow> r = Inl e" "\<And>x. logged x s \<Longrightarrow> logged x s'"
proof -
  obtain q s1 where q: "stop_hooks (rev started) s = (q, s1)" by (cases "stop_hooks (rev started) s")
  then obtain xs where xs: "q = Inr xs" "calls (fst s1) = calls (fst s) @ map (Stopping \<circ> fst) (rev started)"
    "\<forall>x \<in> set xs. (''Worker stop hook failed'', x) \<in> set (log (fst s1))
       \<and> (\<exists>h \<in> snd ` set started. \<exists>w. fst (on_stop h w) = Inl x)" "\<exists>ys. log (fst s1) = log (fst s) @ ys"
    using stop_hooks_spec [OF q] by auto
  have s': "s' = ((fst s1)\<lparr>running := False\<rparr>, snd s1)"
    using assms q xs(1) by (cases s1) (auto simp: finish_run_def on_worker_def split: sum.splits list.splits if_splits)
  then show "\<not> is_running s'" "calls (fst s') = calls (fst s) @ map (Stopping \<circ> fst) (rev started)"
    using xs(2) by (simp_all add: is_running_def)
  show "logged x s'" if "logged x s" for x using that xs(4) s' by auto
  have "body = Inl e \<or> e \<in> set xs" if "r = Inl e" for e
    using that assms q xs(1)
    by (cases s1) (auto simp: finish_run_def on_worker_def split: sum.splits list.splits if_splits)
  moreover have "log (fst s') = log (fst s1)" using s' by simp
  ultimately show "body = Inl e \<or> logged (''Worker stop hook failed'', e) s'
      \<and> (\<exists>h \<in> snd ` set started. \<exists>w. fst (on_stop h w) = Inl e)" if "r = Inl e" for e
    using that xs(3) by (metis (no_types, lifting))
  show "r = Inl e" if "body = Inl e" for e
    using that assms q xs(1) by (cases s1) (auto simp: finish_run_def on_worker_def)
qed



section \<open>Properties\<close>

text \<open>
  C34. A run with an iteration limit ends, whatever the hooks and the listener do.
\<close>

theorem run_returns:
  assumes "0 \<le> n"
  shows "\<exists>r s'. run W handling (PInt n) s = Some (r, s')"
proof (cases "is_running s")
  case False
  obtain q s1 where q: "start_hooks (enumerate 0 (wk_hooks W)) (set_running s) = (q, s1)"
    by (cases "start_hooks (enumerate 0 (wk_hooks W)) (set_running s)")
  obtain started err where "q = Inr (started, err)" using start_hooks_spec [OF q] by blast
  then have "run W handling (PInt n) s \<noteq> None"
    using assms False q work_loop_returns [of W n 0 s1] by (auto simp: run_def simp del: not_None_eq split: option.splits)
  then show ?thesis by (cases "run W handling (PInt n) s") auto
next
  case True
  then have "run W handling (PInt n) s = Some (Inl RuntimeError, s)" using assms by (simp add: run_def)
  then show ?thesis by blast
qed

theorem run_returns_witness:
  "\<exists>r s'. run \<lparr>wk_channels = [''q''], wk_poll = (\<lambda>cs w. (Inr L_None, w)), wk_hooks = [WorkerHook], wk_error_delay = 1,
      wk_wait = (\<lambda>d w. w)\<rparr> False (PInt 3) (\<lparr>running = False, log = [], calls = []\<rparr>, False, ()) = Some (r, s')"
  by (rule run_returns) simp

text \<open>
  C27. Every hook that was started is stopped, once and in the reverse order, and no other;
  this holds of every run that ends, also with an exception, and afterwards the worker is not
  running.
\<close>

theorem run_brackets_hooks:
  assumes "run W handling v s = Some (r, s')" "\<not> is_running s" "validate_max_iterations v = Inr limit" "calls (fst s) = []"
  shows "\<exists>k \<le> length (wk_hooks W). (k < length (wk_hooks W) \<longrightarrow> (\<exists>e. r = Inl e)) \<and> \<not> is_running s'
    \<and> filter (\<lambda>c. c \<noteq> Polled) (calls (fst s')) = map Started [0..<k] @ map Stopping (rev [0..<k])"
proof (rule run_cases [OF assms(1-3)])
  fix k err body s1 s2
  assume k: "k \<le> length (wk_hooks W)" "err = None \<longleftrightarrow> k = length (wk_hooks W)"
    and s1: "calls (fst s1) = calls (fst s) @ map Started [0..<k]"
    and err: "\<And>x. err = Some x \<Longrightarrow> body = Inl x \<and> s2 = s1 \<and> (\<exists>h \<in> set (wk_hooks W). \<exists>w. fst (on_start h w) = Inl x)"
    and loop: "err = None \<Longrightarrow> work_loop W limit 0 s1 = Some (body, s2)"
    and fin: "finish_run handling (take k (enumerate 0 (wk_hooks W))) body s2 = (r, s')"
  have same: "lifecycle s2 = lifecycle s1"
    using err work_loop_rule [OF loop iterate_triple refl] by (cases err; cases body) auto
  have "map fst (take k (enumerate 0 (wk_hooks W))) = [0..<k]"
    using k(1) by (simp add: take_map [symmetric] del: take_map)
  then have stops: "map (Stopping \<circ> fst) (rev (take k (enumerate 0 (wk_hooks W)))) = map Stopping (rev [0..<k])"
    by (metis map_map rev_map)
  moreover have "r = Inl e" if "err = Some e" for e
    using finish_run_spec(4) [OF fin] err [OF that] by blast
  moreover have "\<not> is_running s'" "calls (fst s') = calls (fst s2) @ map Stopping (rev [0..<k])"
    using finish_run_spec(1,2) [OF fin] stops by simp_all
  ultimately show ?thesis
    using k s1 same assms(4) by (intro exI [of _ k]) (auto simp: lifecycle_def filter_id_conv)
qed

definition sample_worker :: "exn \<Rightarrow> unit worker" where
  "sample_worker e = \<lparr>wk_channels = [''q''], wk_poll = (\<lambda>cs w. (Inl e, w)), wk_hooks = [WorkerHook, WorkerHook],
     wk_error_delay = 1, wk_wait = (\<lambda>d (ev, w). (True, w))\<rparr>"

definition idle :: "unit wworld" where
  "idle = (\<lparr>running = False, log = [], calls = []\<rparr>, False, ())"

lemma sample_run_fatal:
  "run (sample_worker WorkerAbortError) False PNone idle = Some (Inl WorkerAbortError,
     (\<lparr>running = False, log = [(''Worker cycle failed'', WorkerAbortError)],
       calls = [Started 0, Started 1, Polled, Stopping 1, Stopping 0]\<rparr>, False, ()))"
  by (simp add: run_def idle_def sample_worker_def set_running_def is_running_def WorkerHook_def seq_def attempt_def
      outside_def note_call_def on_worker_def work_loop.simps is_set_def iterate_def run_cycle_def report_error_def
      log_exception_def finish_run_def try_catch_def)

theorem run_brackets_hooks_witness:
  "\<exists>k \<le> 2. \<exists>s'. run (sample_worker WorkerAbortError) False PNone idle = Some (Inl WorkerAbortError, s')
     \<and> filter (\<lambda>c. c \<noteq> Polled) (calls (fst s')) = map Started [0..<k] @ map Stopping (rev [0..<k])"
proof -
  have "\<not> is_running idle" "calls (fst idle) = []" "length (wk_hooks (sample_worker WorkerAbortError)) = 2"
    by (simp_all add: idle_def is_running_def sample_worker_def)
  then show ?thesis
    using run_brackets_hooks [OF sample_run_fatal, of None] sample_run_fatal by fastforce
qed



end
