(* ===== verification/WorkerClaims.thy ===== *)
theory WorkerClaims
  imports Worker
begin

text \<open>
  The worker around a listener: over a whole run, with all its failing and recovering cycles,
  the listener acknowledges claims only with a reason, and a run without a logged error leaves
  no claim open.
\<close>

section \<open>The worker of a listener\<close>

text \<open>\<open>listen_once\<close> as the worker calls it; the stop event is in the listener's world.\<close>

definition listener_poll :: "(bool \<times> 'v) listener \<Rightarrow> string list \<Rightarrow> ((lstate \<times> 'v) outside, listen_result) prog" where
  "listener_poll L channels = (\<lambda>(ev, (l, v)). case listen_once L channels (l, (ev, v)) of
     (r, (l', (ev', v'))) \<Rightarrow> (r, (ev', (l', v'))))"

abbreviation whist :: "(lstate \<times> 'v) outside \<Rightarrow> event list" where
  "whist w \<equiv> history (fst (snd w))"

text \<open>Hooks and waiting that leave the listener's record of its claims alone.\<close>

definition hook_quiet :: "(lstate \<times> 'v) hook \<Rightarrow> bool" where
  "hook_quiet h \<longleftrightarrow> keeps whist (on_start h) \<and> keeps whist (before_poll h) \<and> (\<forall>x. keeps whist (after_poll h x))
     \<and> (\<forall>e. keeps whist (on_error h e)) \<and> keeps whist (on_stop h)"

abbreviation hist_of :: "(lstate \<times> 'v) wworld \<Rightarrow> event list" where
  "hist_of s \<equiv> whist (snd s)"

lemma keeps_hist_outside: "keeps whist m \<Longrightarrow> keeps hist_of (outside m)"
  by (auto simp: keeps_def outside_def split: prod.splits) (metis snd_conv fst_conv)

lemma keeps_hist_worker: "keeps hist_of (log_exception msg x)" "keeps hist_of (note_call c)" "keeps hist_of (on_worker f)"
  by (auto simp: keeps_def log_exception_def note_call_def on_worker_def split: prod.splits)

lemma keeps_hist_after:
  "(\<And>h. h \<in> set hs \<Longrightarrow> hook_quiet h) \<Longrightarrow> keeps hist_of (after_hooks hs result err)"
proof (induction hs arbitrary: err)
  case (Cons h hs)
  then show ?case unfolding after_hooks.simps
    by (intro keeping keeps_hist_worker keeps_hist_outside) (auto simp: hook_quiet_def)
qed (simp only: after_hooks.simps keeping)

text \<open>Acknowledgements are justified, and as long as nothing was logged no claim is open.\<close>

definition claims_ok :: "(lstate \<times> 'v) wworld \<Rightarrow> bool" where
  "claims_ok s \<longleftrightarrow> acks_ok (hist_of s) \<and> (log (fst s) = [] \<longrightarrow> opens (hist_of s) = {})"

definition cycle_ok :: "exn option \<Rightarrow> (lstate \<times> 'v) wworld \<Rightarrow> bool" where
  "cycle_ok err s \<longleftrightarrow> acks_ok (hist_of s) \<and> (log (fst s) = [] \<and> err = None \<longrightarrow> opens (hist_of s) = {})"

lemma claims_cycle: "claims_ok s \<longleftrightarrow> cycle_ok None s" "cycle_ok None s \<Longrightarrow> cycle_ok x s"
  by (auto simp: claims_ok_def cycle_ok_def)

lemma claims_quiet: "keeps whist m \<Longrightarrow> triple (cycle_ok e) (outside m) (\<lambda>_. cycle_ok e) (\<lambda>_. cycle_ok e)"
  using keepsD [of whist m] by (intro tripleI) (auto simp: cycle_ok_def outside_def split: prod.splits)

lemma claims_steps:
  "triple (cycle_ok e) (log_exception msg x) (\<lambda>_. cycle_ok e) E"
  "triple (cycle_ok e) (log_exception msg x) (\<lambda>_. claims_ok) E"
  "triple (cycle_ok e) (note_call c) (\<lambda>_. cycle_ok e) E"
  by (auto simp: triple_def cycle_ok_def claims_ok_def log_exception_def note_call_def on_worker_def split: prod.splits)

lemma claims_attempt:
  "triple P m (\<lambda>_. Q) (\<lambda>_. Q) \<Longrightarrow> triple P (attempt m) (\<lambda>_. Q) E"
  unfolding triple_def attempt_def by (auto split: prod.splits sum.splits)

lemma claims_for_each:
  "(\<And>x. x \<in> set xs \<Longrightarrow> triple I (f x) (\<lambda>_. I) (\<lambda>_. I)) \<Longrightarrow> triple I (for_each f xs) (\<lambda>_. I) (\<lambda>_. I)"
  by (rule triple_for_each)

lemma claims_after:
  "(\<And>h. h \<in> set hs \<Longrightarrow> hook_quiet h) \<Longrightarrow> triple (cycle_ok err) (after_hooks hs result err) cycle_ok E"
proof (induction hs arbitrary: err)
  case Nil
  show ?case by (rule tripleI) auto
next
  case (Cons h hs)
  have "triple (cycle_ok err) (attempt (outside (after_poll h result))) (\<lambda>_. cycle_ok err) E"
    using Cons.prems by (intro claims_attempt claims_quiet) (simp add: hook_quiet_def)
  moreover have "triple (cycle_ok err) (case r of Inr _ \<Rightarrow> after_hooks hs result err
     | Inl x \<Rightarrow> (case err of None \<Rightarrow> after_hooks hs result (Some x)
         | Some _ \<Rightarrow> seq (log_exception ''Worker after-poll hook failed'' x) (\<lambda>_. after_hooks hs result err))) cycle_ok E" for r
  proof -
    have "triple (cycle_ok err) (after_hooks hs result e) cycle_ok E" if "err = None \<or> err = e" for e
      by (rule triple_pre [OF Cons.IH]) (use that claims_cycle(2) Cons.prems in auto)
    then show ?thesis using triple_seq [OF claims_steps(1) Cons.IH] Cons.prems by (cases r; cases err) auto
  qed
  ultimately show ?case unfolding after_hooks.simps by (rule triple_seq)
qed

lemma claims_poll:
  assumes "sleep_returns L" "tp_size (l_transport L) \<noteq> None"
  shows "triple (cycle_ok None) (attempt (outside (listener_poll L cs)))
     (\<lambda>r. case r of Inl x \<Rightarrow> cycle_ok (Some x) | Inr _ \<Rightarrow> cycle_ok None) E"
proof (rule tripleI)
  fix s a s' assume s: "cycle_ok None s" "attempt (outside (listener_poll L cs)) s = (Inr a, s')"
  obtain k ev l v where k: "s = (k, (ev, (l, v)))" by (metis surj_pair)
  obtain r l' ev' v' where r: "listen_once L cs (l, (ev, v)) = (r, (l', (ev', v')))" by (metis surj_pair)
  have s': "a = r" "s' = (k, (ev', (l', v')))"
    using s(2) k r by (auto simp: attempt_def outside_def listener_poll_def)
  define A where "A = (if log k = [] then {} else (UNIV :: string set))"
  have "Inv UNIV A {} (l, (ev, v))" using s(1) k by (auto simp: cycle_ok_def Inv_def A_def)
  then have "case r of Inr x \<Rightarrow> Inv UNIV A {} (l', (ev', v')) | Inl x \<Rightarrow> Exc UNIV x (l', (ev', v'))"
    using tripleD1 [OF safe_listen_once [OF assms, of A cs]] tripleD2 [OF safe_listen_once [OF assms, of A cs]] r
    by (cases r) fastforce+
  then show "(case a of Inl x \<Rightarrow> cycle_ok (Some x) | Inr _ \<Rightarrow> cycle_ok None) s'"
    using s' by (auto simp: cycle_ok_def Inv_def Exc_def A_def split: sum.splits if_splits)
qed (simp add: attempt_def split: prod.splits)

lemma claims_run_cycle:
  assumes "sleep_returns L" "tp_size (l_transport L) \<noteq> None" "wk_poll W = listener_poll L"
    and "\<And>h. h \<in> set (wk_hooks W) \<Longrightarrow> hook_quiet h"
  shows "triple (cycle_ok None) (run_cycle W) cycle_ok E"
proof -
  have polled: "triple (case r of Inl x \<Rightarrow> cycle_ok (Some x) | Inr _ \<Rightarrow> cycle_ok None)
      (case r of Inl x \<Rightarrow> after_hooks (wk_hooks W) L_None (Some x) | Inr result \<Rightarrow> after_hooks (wk_hooks W) result None) cycle_ok E"
    for r using claims_after assms(4) by (cases r) auto
  have skip: "triple (cycle_ok None) (ret e) cycle_ok E" for e
    using claims_cycle(2) by (intro tripleI) auto
  have go: "triple (cycle_ok None) (if b then ret None else seq (note_call Polled) (\<lambda>_.
      seq (attempt (outside (wk_poll W (wk_channels W)))) (\<lambda>r. case r of Inl x \<Rightarrow> after_hooks (wk_hooks W) L_None (Some x)
           | Inr result \<Rightarrow> after_hooks (wk_hooks W) result None))) cycle_ok E" for b
    unfolding assms(3)
    by (rule triple_if [OF skip triple_seq [OF claims_steps(3) triple_seq [OF claims_poll [OF assms(1,2)] polled]]])
  have after: "triple (cycle_ok None) (case b of Inl x \<Rightarrow> ret (Some x) | Inr _ \<Rightarrow> seq (get_state is_set) (\<lambda>stopped.
      if stopped then ret None else seq (note_call Polled) (\<lambda>_.
      seq (attempt (outside (wk_poll W (wk_channels W)))) (\<lambda>r. case r of Inl x \<Rightarrow> after_hooks (wk_hooks W) L_None (Some x)
           | Inr result \<Rightarrow> after_hooks (wk_hooks W) result None)))) cycle_ok E" for b :: "unit res"
    using skip by (cases b) (auto intro!: triple_seq [OF triple_get_state [where Q = "\<lambda>_. cycle_ok None"] go] simp del: prog_simps)
  have before: "triple (cycle_ok None) (attempt (for_each (\<lambda>h. outside (before_poll h)) (wk_hooks W))) (\<lambda>_. cycle_ok None) E"
    by (intro claims_attempt claims_for_each claims_quiet) (use assms(4) in \<open>auto simp: hook_quiet_def\<close>)
  show ?thesis unfolding run_cycle_def by (rule triple_seq [OF before after])
qed

lemma claims_report:
  assumes "\<And>h. h \<in> set (wk_hooks W) \<Longrightarrow> hook_quiet h"
  shows "triple (cycle_ok e) (report_error W x) (\<lambda>_. claims_ok) E"
proof -
  have "triple claims_ok (try_catch (outside (on_error h x)) (log_exception msg)) (\<lambda>_. claims_ok) E"
    if "h \<in> set (wk_hooks W)" for h msg
  proof (rule triple_try_catch)
    show "triple claims_ok (outside (on_error h x)) (\<lambda>_. claims_ok) (\<lambda>_. claims_ok)"
      unfolding claims_cycle(1) [abs_def] by (rule claims_quiet) (use assms that in \<open>auto simp: hook_quiet_def\<close>)
    show "triple claims_ok (log_exception msg y) (\<lambda>_. claims_ok) E" for y
      unfolding claims_cycle(1) [abs_def] by (rule claims_steps(1))
  qed
  then show ?thesis unfolding report_error_def by (intro triple_seq [OF claims_steps(2)] triple_for_each)
qed

lemma claims_iterate:
  assumes "sleep_returns L" "tp_size (l_transport L) \<noteq> None" "wk_poll W = listener_poll L"
    and "\<And>h. h \<in> set (wk_hooks W) \<Longrightarrow> hook_quiet h" "\<And>d w. whist (wk_wait W d w) = whist w"
  shows "triple claims_ok (iterate W) (\<lambda>_. claims_ok) (\<lambda>_. claims_ok)"
proof -
  have w: "triple claims_ok (if is_fatal x then raise x else wait W) (\<lambda>_. claims_ok) (\<lambda>_. claims_ok)" for x
    using assms(5) by (auto simp: triple_def wait_def claims_ok_def split: prod.splits)
  have "triple (cycle_ok err) (case err of None \<Rightarrow> ret () | Some x \<Rightarrow> seq (report_error W x)
      (\<lambda>_. if is_fatal x then raise x else wait W)) (\<lambda>_. claims_ok) (\<lambda>_. claims_ok)" for err
  proof (cases err)
    case None
    then show ?thesis by (simp only: option.case claims_cycle(1) [abs_def]) (rule tripleI; simp)
  next
    case (Some x)
    then show ?thesis by (simp only: option.case) (rule triple_seq [OF claims_report [OF assms(4)] w])
  qed
  then show ?thesis unfolding iterate_def claims_cycle(1) [abs_def]
    by (intro triple_seq [OF claims_run_cycle [OF assms(1-4)]])
qed

text \<open>Starting and stopping the hooks.\<close>

lemma claims_start:
  "(\<And>h. h \<in> snd ` set hs \<Longrightarrow> hook_quiet h) \<Longrightarrow> triple claims_ok (start_hooks hs) (\<lambda>_. claims_ok) (\<lambda>_. claims_ok)"
proof (induction hs)
  case Nil
  show ?case by (rule tripleI) auto
next
  case (Cons p hs)
  obtain i h where p: "p = (i, h)" by (cases p)
  have first: "triple claims_ok (attempt (outside (on_start h))) (\<lambda>_. claims_ok) (\<lambda>_. claims_ok)"
    unfolding claims_cycle(1) [abs_def] using Cons.prems p by (intro claims_attempt claims_quiet) (simp add: hook_quiet_def)
  have note_started: "triple claims_ok (note_call (Started i)) (\<lambda>_. claims_ok) (\<lambda>_. claims_ok)"
    unfolding claims_cycle(1) [abs_def] by (rule claims_steps(3))
  have "triple claims_ok (case x of (started, err) \<Rightarrow> ret ((i, h) # started, err)) (\<lambda>_. claims_ok) (\<lambda>_. claims_ok)" for x
    by (cases x) (rule tripleI; auto)
  then have rest: "triple claims_ok (seq (note_call (Started i)) (\<lambda>_. seq (start_hooks hs)
      (\<lambda>(started, err). ret ((i, h) # started, err)))) (\<lambda>_. claims_ok) (\<lambda>_. claims_ok)"
    using Cons by (intro triple_seq [OF note_started] triple_seq [OF Cons.IH]) auto
  have "triple claims_ok (case r of Inl x \<Rightarrow> ret ([], Some x) | Inr _ \<Rightarrow> seq (note_call (Started i)) (\<lambda>_. seq (start_hooks hs)
      (\<lambda>(started, err). ret ((i, h) # started, err)))) (\<lambda>_. claims_ok) (\<lambda>_. claims_ok)" for r :: "unit res"
    using rest by (cases r) (auto intro!: tripleI)
  with first show ?case unfolding p start_hooks.simps by (rule triple_seq)
qed

lemma claims_stop:
  "(\<And>h. h \<in> snd ` set hs \<Longrightarrow> hook_quiet h) \<Longrightarrow> triple claims_ok (stop_hooks hs) (\<lambda>_. claims_ok) (\<lambda>_. claims_ok)"
proof (induction hs)
  case Nil
  show ?case by (rule tripleI) auto
next
  case (Cons p hs)
  obtain i h where p: "p = (i, h)" by (cases p)
  have first: "triple claims_ok (attempt (outside (on_stop h))) (\<lambda>_. claims_ok) (\<lambda>_. claims_ok)"
    unfolding claims_cycle(1) [abs_def] using Cons.prems p by (intro claims_attempt claims_quiet) (simp add: hook_quiet_def)
  have steps: "triple claims_ok (note_call c) (\<lambda>_. claims_ok) (\<lambda>_. claims_ok)"
    "triple claims_ok (log_exception msg y) (\<lambda>_. claims_ok) (\<lambda>_. claims_ok)" for c msg y
    unfolding claims_cycle(1) [abs_def] by (rule claims_steps)+
  have rest: "triple claims_ok (stop_hooks hs) (\<lambda>_. claims_ok) (\<lambda>_. claims_ok)" using Cons by simp
  have "triple claims_ok (seq (stop_hooks hs) (\<lambda>xs. ret (x # xs))) (\<lambda>_. claims_ok) (\<lambda>_. claims_ok)" for x
    by (rule triple_seq [OF rest]) (rule tripleI; auto)
  from triple_seq [OF steps(2) this]
  have "triple claims_ok (case r of Inr _ \<Rightarrow> stop_hooks hs
     | Inl x \<Rightarrow> seq (log_exception ''Worker stop hook failed'' x) (\<lambda>_. seq (stop_hooks hs) (\<lambda>xs. ret (x # xs))))
      (\<lambda>_. claims_ok) (\<lambda>_. claims_ok)" for r :: "unit res"
    using rest by (cases r) auto
  then show ?case unfolding p stop_hooks.simps by (intro triple_seq [OF steps(1)] triple_seq [OF first])
qed

lemma claims_finish:
  assumes "finish_run handling started body s = (r, s')" "claims_ok s" "\<And>h. h \<in> snd ` set started \<Longrightarrow> hook_quiet h"
  shows "claims_ok s'"
proof -
  obtain q s1 where q: "stop_hooks (rev started) s = (q, s1)" by (cases "stop_hooks (rev started) s")
  moreover obtain xs where "q = Inr xs" using stop_hooks_spec [OF q] by blast
  moreover have "claims_ok s1"
    using tripleD1 [OF claims_stop assms(2), of "rev started" xs s1] assms(3) q \<open>q = Inr xs\<close> by simp
  ultimately show ?thesis using assms(1)
    by (cases s1) (auto simp: finish_run_def on_worker_def claims_ok_def split: sum.splits list.splits if_splits)
qed

text \<open>
  C4. Over a whole run of a worker, however its cycles fail and whatever ends it, the listener
  acknowledges a claim only after its message was published again, handled or dropped; and if
  the run logged no error, every claim it took is acknowledged - provided hooks and waiting do not
  touch the claims, the transport can count messages (else a buffered message stays claimed), and
  the pause before a retry of a batch raises nothing.
\<close>

theorem worker_settles_claims:
  assumes "sleep_returns L" "tp_size (l_transport L) \<noteq> None" "wk_poll W = listener_poll L"
    and "\<And>h. h \<in> set (wk_hooks W) \<Longrightarrow> hook_quiet h" "\<And>d w. whist (wk_wait W d w) = whist w"
    and "run W handling v s = Some (r, s')" "history (fst (snd (snd s))) = []"
  shows "(\<forall>xs x ys. history (fst (snd (snd s'))) = xs @ Acked x # ys \<longrightarrow> (\<exists>ev \<in> set xs. settled_by x ev))
    \<and> (\<forall>c m x. log (fst s') = [] \<longrightarrow> Claimed c m \<in> set (history (fst (snd (snd s')))) \<longrightarrow> raw_receipt m = Some x
          \<longrightarrow> Acked x \<in> set (history (fst (snd (snd s')))))"
proof -
  have start: "claims_ok s" using assms(7) by (auto simp: claims_ok_def opens_def)
  have "claims_ok s'"
  proof (cases "is_running s \<or> (\<exists>e. validate_max_iterations v = Inl e)")
    case True
    then have "s' = s" using assms(6) by (auto simp: run_def split: sum.splits)
    then show ?thesis using start by simp
  next
    case False
    then obtain limit where limit: "validate_max_iterations v = Inr limit" "\<not> is_running s"
      by (cases "validate_max_iterations v") auto
    show ?thesis
    proof (rule run_cases [OF assms(6) limit(2,1)])
      fix k err body s1 s2
      assume st: "start_hooks (enumerate 0 (wk_hooks W)) (set_running s) = (Inr (take k (enumerate 0 (wk_hooks W)), err), s1)"
        and err: "\<And>x. err = Some x \<Longrightarrow> body = Inl x \<and> s2 = s1 \<and> (\<exists>h \<in> set (wk_hooks W). \<exists>w. fst (on_start h w) = Inl x)"
        and loop: "err = None \<Longrightarrow> work_loop W limit 0 s1 = Some (body, s2)"
        and fin: "finish_run handling (take k (enumerate 0 (wk_hooks W))) body s2 = (r, s')"
      have hooks: "hook_quiet h" if "h \<in> snd ` set (enumerate 0 (wk_hooks W))" for h
        using that assms(4) by (force simp: enumerate_eq_zip dest: set_zip_rightD)
      have "claims_ok (set_running s)" using start by (simp add: set_running_def claims_ok_def)
      from tripleD1 [OF claims_start this st] hooks have s1: "claims_ok s1" by blast
      have "claims_ok s2"
        using err s1 work_loop_rule [OF loop claims_iterate [OF assms(1-5)] s1] by (cases err; cases body) auto
      then show ?thesis by (rule claims_finish [OF fin]) (use hooks in \<open>auto dest: in_set_takeD\<close>)
    qed
  qed
  then show ?thesis unfolding claims_ok_def acks_ok_def evidence_def opens_def by blast
qed

section \<open>A sample run\<close>

text \<open>A queue of messages with a receipt for every claim.\<close>

definition line_transport :: "(bool \<times> bytes list) transport" where
  "line_transport = \<lparr>tp_publish = (\<lambda>c b. ret ()),
     tp_consume = (\<lambda>c t (ev, bs). case bs of [] \<Rightarrow> (Inr None, (ev, [])) | b # bs' \<Rightarrow>
       (Inr (Some \<lparr>raw_bytes = b, raw_receipt = Some ''r1''\<rparr>), (ev, bs'))),
     tp_ack = (\<lambda>r. ret ()), tp_nack = (\<lambda>r q. ret ()), tp_size = Some (\<lambda>c. get_state (length \<circ> snd)), tp_consume_many = None\<rparr>"

definition line_worker :: "(lstate \<times> bytes list) worker" where
  "line_worker = \<lparr>wk_channels = [''q''], wk_poll = listener_poll (sample_listener_on line_transport),
     wk_hooks = [WorkerHook], wk_error_delay = 1, wk_wait = (\<lambda>d w. w)\<rparr>"

definition line_start :: "(lstate \<times> bytes list) wworld" where
  "line_start = (\<lparr>running = False, log = [], calls = []\<rparr>, (False, (no_history, [''x''])))"

lemma line_poll:
  "\<exists>l'. listener_poll (sample_listener_on line_transport) [''q''] (False, (no_history, [''x''])) = (Inr L_None, (False, (l', [])))
     \<and> Claimed ''q'' \<lparr>raw_bytes = ''x'', raw_receipt = Some ''r1''\<rparr> \<in> set (history l')"
proof -
  let ?e = "create ''id'' 63000000000000000 (poison_envelope ''q'' ''x'' ''DeserializationError'')"
  have "in_range 63000000000000000" by (simp add: in_range_def)
  then obtain b where b: "to_wire ?e = Inr b"
    using wire_round_trip [OF poison_ok, of "''id''" "63000000000000000" "''q''" "''x''" "''DeserializationError''" 0]
    by (cases "to_wire ?e") auto
  have flush: "flush_ready_batches (sample_listener_on line_transport) s = (Inr (), s)" for s
    by (simp add: flush_ready_batches_def sample_listener_on_def line_transport_def)
  have size: "tp_consume line_transport c t (ev, [''x'']) = (Inr (Some \<lparr>raw_bytes = ''x'', raw_receipt = Some ''r1''\<rparr>), (ev, []))"
    "tp_publish line_transport c r = ret ()" "tp_ack line_transport r = ret ()" for c t ev r
    by (simp_all add: line_transport_def)
  show ?thesis
    using b size
    by (simp add: listener_poll_def listen_once_def flush seq_def [of "flush_ready_batches (sample_listener_on line_transport)"]
        active_channels_def)
      (simp add: sample_listener_on_def seq_def world_def note_event_def attempt_def read_envelope_def draw_def
        sample_unreadable dead_letter_undecodable_def create_envelope_def settle_after_claim_def wrap_errors_def
        try_catch_def publish_envelope_def ack_claim_def no_history_def)
qed

lemma line_run:
  "\<exists>s'. run line_worker False (PInt 1) line_start = Some (Inr (), s') \<and> log (fst s') = []
     \<and> Claimed ''q'' \<lparr>raw_bytes = ''x'', raw_receipt = Some ''r1''\<rparr> \<in> set (history (fst (snd (snd s'))))"
proof -
  obtain l' where "listener_poll (sample_listener_on line_transport) [''q''] (False, (no_history, [''x''])) = (Inr L_None, (False, (l', [])))"
    "Claimed ''q'' \<lparr>raw_bytes = ''x'', raw_receipt = Some ''r1''\<rparr> \<in> set (history l')"
    using line_poll by blast
  then show ?thesis
    by (simp add: run_def line_start_def line_worker_def set_running_def is_running_def WorkerHook_def seq_def attempt_def
      outside_def note_call_def on_worker_def work_loop.simps [of _ _ 0] work_loop.simps [of _ _ 1] is_set_def iterate_def
      run_cycle_def finish_run_def)
qed

theorem worker_settles_claims_witness:
  "\<exists>s'. run line_worker False (PInt 1) line_start = Some (Inr (), s') \<and> Acked ''r1'' \<in> set (history (fst (snd (snd s'))))"
proof -
  obtain s' where s: "run line_worker False (PInt 1) line_start = Some (Inr (), s')" "log (fst s') = []"
    "Claimed ''q'' \<lparr>raw_bytes = ''x'', raw_receipt = Some ''r1''\<rparr> \<in> set (history (fst (snd (snd s'))))"
    using line_run by blast
  have L: "tp_size (l_transport (sample_listener_on line_transport)) \<noteq> None"
    "wk_poll line_worker = listener_poll (sample_listener_on line_transport)"
    "\<And>h. h \<in> set (wk_hooks line_worker) \<Longrightarrow> hook_quiet h" "\<And>d w. whist (wk_wait line_worker d w) = whist w"
    "history (fst (snd (snd line_start))) = []"
    by (auto simp: sample_listener_on_def line_transport_def line_worker_def hook_quiet_def WorkerHook_def
        line_start_def no_history_def intro: keeping simp del: prog_simps)
  from worker_settles_claims [OF sample_sleep_returns L(1-4) s(1) L(5)] s show ?thesis by fastforce
qed

end
