(* ===== verification/Bus.thy ===== *)
theory Bus
  imports RequestResponse DurableFlow WorkerClaims
begin

text \<open>
  bus.py: the \<open>Pybus\<close> object, which validates and publishes messages, schedules durable
  commands, sends requests and waits for their responses, and builds workers. The world of a
  bus has the durable store's state \<open>'s\<close>, the rest of the outside \<open>'p\<close> (transport, clocks, ids),
  the listener's state and the coordinator's tables. The serializer is \<open>JsonSerializer\<close>.
\<close>

section \<open>The world of a bus\<close>

type_synonym ('s, 'p) bworld = "coordinator \<times> lstate \<times> 's \<times> 'p"

definition on_store :: "('s, 'a) prog \<Rightarrow> ('s \<times> 'p, 'a) prog" where
  "on_store m = (\<lambda>(s, p). let (r, s') = m s in (r, (s', p)))"

definition on_rest :: "('p, 'a) prog \<Rightarrow> ('s \<times> 'p, 'a) prog" where
  "on_rest m = (\<lambda>(s, p). let (r, p') = m p in (r, (s, p')))"

definition draw_rest :: "('p \<Rightarrow> 'a \<times> 'p) \<Rightarrow> 's \<times> 'p \<Rightarrow> 'a \<times> 's \<times> 'p" where
  "draw_rest f = (\<lambda>(s, p). let (a, p') = f p in (a, (s, p')))"

definition in_rest :: "('p, 'a) prog \<Rightarrow> (('s, 'p) bworld, 'a) prog" where
  "in_rest m = (\<lambda>(co, l, s, p). let (r, p') = m p in (r, (co, l, s, p')))"

definition in_bus :: "('s \<times> 'p, 'a) prog \<Rightarrow> (('s, 'p) bworld, 'a) prog" where
  "in_bus m = (\<lambda>(co, l, w). let (r, w') = m w in (r, (co, l, w')))"

definition in_listener :: "(lstate \<times> 's \<times> 'p, 'a) prog \<Rightarrow> (('s, 'p) bworld, 'a) prog" where
  "in_listener m = (\<lambda>(co, lw). let (r, lw') = m lw in (r, (co, lw')))"

definition on_coordinator :: "(coordinator, 'a) prog \<Rightarrow> (('s, 'p) bworld, 'a) prog" where
  "on_coordinator m = (\<lambda>(co, lw). let (r, co') = m co in (r, (co', lw)))"

text \<open>The store's and the transport's operations, in the world they share with the listener.\<close>

definition lift_store :: "'s store_ops \<Rightarrow> ('s \<times> 'p) store_ops" where
  "lift_store S = \<lparr>
     so_schedule = (\<lambda>d. on_store (so_schedule S d)),
     so_claim = (\<lambda>w now lease. on_store (so_claim S w now lease)),
     so_mark_published = (\<lambda>c now t. on_store (so_mark_published S c now t)),
     so_mark_publish_indeterminate = (\<lambda>c now t. on_store (so_mark_publish_indeterminate S c now t)),
     so_admit_delivery = (\<lambda>now a. on_store (so_admit_delivery S now a)),
     so_checkpoint_settlement = (\<lambda>now st. on_store (so_checkpoint_settlement S now st)),
     so_release_delivery = (\<lambda>now rid g t. on_store (so_release_delivery S now rid g t)),
     so_apply_outcome = (\<lambda>now oc t. on_store (so_apply_outcome S now oc t)),
     so_complete_recurring = map_option (\<lambda>f oc r t. on_store (f oc r t)) (so_complete_recurring S)\<rparr>"

definition lift_transport :: "'p transport \<Rightarrow> ('s \<times> 'p) transport" where
  "lift_transport T = \<lparr>
     tp_publish = (\<lambda>c b. on_rest (tp_publish T c b)),
     tp_consume = (\<lambda>c t. on_rest (tp_consume T c t)),
     tp_ack = (\<lambda>r. on_rest (tp_ack T r)),
     tp_nack = (\<lambda>r q. on_rest (tp_nack T r q)),
     tp_size = map_option (\<lambda>f c. on_rest (f c)) (tp_size T),
     tp_consume_many = map_option (\<lambda>f c n. on_rest (f c n)) (tp_consume_many T)\<rparr>"

section \<open>The bus\<close>

text \<open>
  A durable store, with the operations of \<open>JobSeriesStore\<close> where it has them; a value of the
  class a check asks for or another one.
\<close>

record 's series_ops =
  ss_schedule :: "series_draft \<Rightarrow> ('s, series_record \<times> job_record) prog"
  ss_cancel :: "string \<Rightarrow> instant \<Rightarrow> ('s, series_record) prog"

record 's job_backend =
  jb_ops :: "'s store_ops"
  jb_series :: "'s series_ops option"

datatype 'a checked = Proper 'a | Improper

datatype 'a supplied = Unset | Supplied 'a

record dispatcher =
  dp_registry :: registry
  dp_codec :: codec

text \<open>The application and the interpreter around it: classes, handlers, clocks, ids.\<close>

record ('s, 'p) bus_env =
  be_transport :: "'p transport"
  be_attrs :: attrs
  be_members :: "handler \<Rightarrow> handler list"
  be_classes :: "nat \<Rightarrow> typed_class"
  be_build :: "string \<Rightarrow> (string, pyval) dict \<Rightarrow> pyval res"
  be_handle :: "handler \<Rightarrow> message \<Rightarrow> ('s \<times> 'p, handler_result) prog"
  be_handle_batch :: "handler \<Rightarrow> message list \<Rightarrow> ('s \<times> 'p, handler_result) prog"
  be_utc_now :: "'p \<Rightarrow> instant \<times> 'p"
  be_uuid :: "'p \<Rightarrow> string \<times> 'p"
  be_monotonic :: "'p \<Rightarrow> rat \<times> 'p"
  be_sleep :: "rat \<Rightarrow> 'p \<Rightarrow> 'p"

text \<open>A hook factory is what calling it gives: a hook, another object, or an exception.\<close>

record ('s, 'p, 'h) pybus =
  b_env :: "('s, 'p) bus_env"
  b_dispatcher :: dispatcher
  b_topology :: QueueTopology
  b_listener :: "('s \<times> 'p) listener"
  b_reply_queue :: string
  b_hook_factories :: "'h hook checked res list"
  b_observers :: "(outcome \<Rightarrow> ('s \<times> 'p, unit) prog) list"
  b_job_store :: "'s job_backend option"
  b_job_policy :: policy

record ('s, 'p, 'h) bus_args =
  ba_dispatcher :: "dispatcher option"
  ba_topology :: "QueueTopology option"
  ba_handler_targets :: "target list"
  ba_payload_codec :: "codec option"
  ba_hook_factories :: "'h hook checked res checked list"
  ba_observers :: "(outcome \<Rightarrow> ('s \<times> 'p, unit) prog) checked list"
  ba_job_store :: "'s job_backend option supplied"
  ba_job_policy :: "policy checked option supplied"
  ba_command_store :: "'s job_backend option supplied"
  ba_command_policy :: "policy checked option supplied"

definition default_policy :: policy where
  "default_policy = \<lparr>lease_duration = 30 * us_second, reconciliation_delay = 300 * us_second\<rparr>"

definition default_retry_policy :: retry_policy where
  "default_retry_policy = \<lparr>rp_max_retries = 10, rp_delay = P_Int 0, rp_backoff = P_Float 1\<rparr>"

text \<open>One of two spellings of an argument.\<close>

definition either_argument :: "'a option supplied \<Rightarrow> 'a option supplied \<Rightarrow> 'a option res" where
  "either_argument x y = (case (x, y) of
     (Supplied _, Supplied _) \<Rightarrow> Inl TypeError
   | (Supplied a, Unset) \<Rightarrow> Inr a
   | (Unset, Supplied a) \<Rightarrow> Inr a
   | (Unset, Unset) \<Rightarrow> Inr None)"

definition check_policy :: "policy checked option \<Rightarrow> policy res" where
  "check_policy p = (case p of None \<Rightarrow> Inr default_policy | Some (Proper q) \<Rightarrow> Inr q | Some Improper \<Rightarrow> Inl TypeError)"

definition all_proper :: "'a checked list \<Rightarrow> 'a list res" where
  "all_proper xs = map_res (\<lambda>x. case x of Proper a \<Rightarrow> Inr a | Improper \<Rightarrow> Inl TypeError) xs"

definition bus_controller :: "('s, 'p) bus_env \<Rightarrow> 's job_backend option \<Rightarrow> policy \<Rightarrow> ('s \<times> 'p) controller option" where
  "bus_controller E store pol = map_option
     (\<lambda>S. \<lparr>ct_store = lift_store (jb_ops S), ct_policy = pol, ct_now = draw_rest (be_utc_now E)\<rparr>) store"

definition bus_listener ::
    "('s, 'p) bus_env \<Rightarrow> dispatcher \<Rightarrow> QueueTopology \<Rightarrow> (outcome \<Rightarrow> ('s \<times> 'p, unit) prog) list
      \<Rightarrow> ('s \<times> 'p) controller option \<Rightarrow> ('s \<times> 'p) listener" where
  "bus_listener E D topology observers ctrl = \<lparr>
     l_transport = lift_transport (be_transport E), l_registry = dp_registry D, l_attrs = be_attrs E,
     l_classes = be_classes E, l_codec = dp_codec D, l_retry_policy = default_retry_policy,
     l_dead_letter_channel = dead_letter_queue topology, l_now = draw_rest (be_utc_now E),
     l_utc_now = draw_rest (be_utc_now E), l_uuid = draw_rest (be_uuid E), l_topology = Some topology,
     l_sleep = (\<lambda>d. case d of Finite x \<Rightarrow> on_rest (modify (be_sleep E (number_value x))) | Infinite \<Rightarrow> raise OverflowError),
     l_time_sleep = (\<lambda>x (s, p). (s, be_sleep E x p)),
     l_observers = observers, l_controller = ctrl, l_handle = be_handle E, l_handle_batch = be_handle_batch E\<rparr>"

text \<open>
  \<open>Pybus.__init__\<close>. The handlers are registered last, in the registry of the dispatcher, which
  is returned because it may be shared; \<open>fresh\<close> names the reply queue.
\<close>

definition configured_bus ::
    "('s, 'p) bus_env \<Rightarrow> string \<Rightarrow> ('s, 'p, 'h) bus_args \<Rightarrow> ('s, 'p, 'h) pybus res" where
  "configured_bus E fresh a =
     bind_res (either_argument (ba_job_store a) (ba_command_store a)) (\<lambda>store.
     bind_res (either_argument (ba_job_policy a) (ba_command_policy a)) (\<lambda>supplied_policy.
     bind_res (check_policy supplied_policy) (\<lambda>pol.
     if ba_dispatcher a \<noteq> None \<and> ba_payload_codec a \<noteq> None then Inl ValueError
     else
       (let D = (case ba_dispatcher a of Some D \<Rightarrow> D
              | None \<Rightarrow> \<lparr>dp_registry = empty_registry, dp_codec = resolve_payload_codec (be_build E) (ba_payload_codec a)\<rparr>);
            topology = (case ba_topology a of Some t \<Rightarrow> t | None \<Rightarrow> DEFAULT_QUEUE_TOPOLOGY) in
       bind_res (all_proper (ba_observers a)) (\<lambda>observers.
       bind_res (all_proper (ba_hook_factories a)) (\<lambda>factories.
       Inr \<lparr>b_env = E, b_dispatcher = D, b_topology = topology,
         b_listener = bus_listener E D topology observers (bus_controller E store pol),
         b_reply_queue = default_reply_queue_name fresh, b_hook_factories = factories, b_observers = observers,
         b_job_store = store, b_job_policy = pol\<rparr>))))))"

definition with_registry :: "registry \<Rightarrow> ('s, 'p, 'h) pybus \<Rightarrow> ('s, 'p, 'h) pybus" where
  "with_registry R B = B\<lparr>b_dispatcher := (b_dispatcher B)\<lparr>dp_registry := R\<rparr>,
     b_listener := (b_listener B)\<lparr>l_registry := R\<rparr>\<rparr>"

definition new_pybus ::
    "('s, 'p) bus_env \<Rightarrow> string \<Rightarrow> ('s, 'p, 'h) bus_args \<Rightarrow> ('s, 'p, 'h) pybus res \<times> registry option" where
  "new_pybus E fresh a = (case configured_bus E fresh a of
     Inl e \<Rightarrow> (Inl e, map_option dp_registry (ba_dispatcher a))
   | Inr B \<Rightarrow>
       (case register_handlers (be_attrs E) (be_members E) (ba_handler_targets a) (dp_registry (b_dispatcher B)) of
          (Inl e, R) \<Rightarrow> (Inl e, Some R)
        | (Inr _, R) \<Rightarrow> (Inr (with_registry R B), Some R)))"

section \<open>The durable store of a bus\<close>

definition refresh_durable_job_controller :: "('s, 'p, 'h) pybus \<Rightarrow> ('s, 'p, 'h) pybus" where
  "refresh_durable_job_controller B = B\<lparr>b_listener := (b_listener B)
     \<lparr>l_controller := bus_controller (b_env B) (b_job_store B) (b_job_policy B)\<rparr>\<rparr>"

definition set_durable_job_store :: "'s job_backend option \<Rightarrow> ('s, 'p, 'h) pybus \<Rightarrow> ('s, 'p, 'h) pybus" where
  "set_durable_job_store v B = refresh_durable_job_controller (B\<lparr>b_job_store := v\<rparr>)"

definition set_durable_job_policy :: "policy checked \<Rightarrow> ('s, 'p, 'h) pybus \<Rightarrow> ('s, 'p, 'h) pybus res" where
  "set_durable_job_policy v B = (case v of
     Proper pol \<Rightarrow> Inr (refresh_durable_job_controller (B\<lparr>b_job_policy := pol\<rparr>))
   | Improper \<Rightarrow> Inl TypeError)"

definition set_durable_command_store :: "'s job_backend option \<Rightarrow> ('s, 'p, 'h) pybus \<Rightarrow> ('s, 'p, 'h) pybus" where
  "set_durable_command_store v B = set_durable_job_store v B"

definition set_durable_command_policy :: "policy checked \<Rightarrow> ('s, 'p, 'h) pybus \<Rightarrow> ('s, 'p, 'h) pybus res" where
  "set_durable_command_policy v B = set_durable_job_policy v B"

section \<open>Preparing messages\<close>

definition MAX_MESSAGE_ID_LENGTH :: nat where "MAX_MESSAGE_ID_LENGTH = 255"

definition FRAMEWORK_DELIVERY_HEADERS :: "string list" where
  "FRAMEWORK_DELIVERY_HEADERS = [''dead_lettered_from'', ''last_attempt'', ''pybus_durable_generation'',
     ''pybus_durable_record'', ''retries'']"

definition validate_message_id :: "pyval \<Rightarrow> pyval res" where
  "validate_message_id mid = (case mid of
     PNone \<Rightarrow> Inr PNone
   | PStr s \<Rightarrow>
       if strip s = [] then Inl InvalidMessageDefinitionError
       else if MAX_MESSAGE_ID_LENGTH < length s then Inl InvalidMessageDefinitionError
       else if \<exists>c \<in> set s. is_control c then Inl InvalidMessageDefinitionError
       else Inr (PStr s)
   | _ \<Rightarrow> Inl InvalidMessageDefinitionError)"

text \<open>The \<open>headers\<close> argument: none, a mapping with any keys, or something else.\<close>

datatype headers_arg = No_Headers | Mapping_Headers "(pyval \<times> pyval) list" | Other_Headers

definition string_key :: "pyval \<times> pyval \<Rightarrow> (string \<times> pyval) res" where
  "string_key = (\<lambda>(k, v). case k of PStr s \<Rightarrow> Inr (s, v) | _ \<Rightarrow> Inl InvalidMessageDefinitionError)"

definition copy_headers :: "headers_arg \<Rightarrow> (string, pyval) dict res" where
  "copy_headers h = (case h of
     No_Headers \<Rightarrow> Inr []
   | Other_Headers \<Rightarrow> Inl InvalidMessageDefinitionError
   | Mapping_Headers d \<Rightarrow> bind_res (map_res string_key d) (\<lambda>copied.
       if \<exists>k \<in> set FRAMEWORK_DELIVERY_HEADERS. k \<in> fst ` set copied then Inl InvalidMessageDefinitionError
       else Inr copied))"

text \<open>What may be published: a message, or any object with its \<open>message_kind\<close>, if it has one.\<close>

datatype outgoing = Out message | Out_Other pyval

fun outgoing_kind :: "(nat \<Rightarrow> typed_class) \<Rightarrow> outgoing \<Rightarrow> pyval" where
  "outgoing_kind classes (Out m) = msg_kind classes m"
| "outgoing_kind classes (Out_Other k) = k"

fun dict_items :: "pyval \<Rightarrow> (string, pyval) dict" where
  "dict_items (PDict d) = d"
| "dict_items v = []"

text \<open>\<open>fresh\<close> and \<open>now\<close> are the id and the time \<open>MessageEnvelope.create\<close> draws.\<close>

definition prepare_base :: "codec \<Rightarrow> string \<Rightarrow> instant \<Rightarrow> pyval \<Rightarrow> (string, pyval) dict \<Rightarrow> base_message \<Rightarrow> message_envelope res" where
  "prepare_base C fresh now mid supplied m =
     bind_res (message_validate m) (\<lambda>_.
     (let merged = dict_merge (dict_items (bm_headers m)) supplied in
     bind_res (codec_encode C (bm_payload m) (PDict merged)) (\<lambda>encoded.
     bind_res (codec_encode C (PDict merged) PNone) (\<lambda>encoded_headers.
     Inr (create fresh now \<lparr>message_id = mid, message_type = bm_message_type m,
       message_kind = PStr (mc_kind (bm_class m)), version = PInt (mc_version (bm_class m)),
       payload = encoded, headers = encoded_headers, created_at = PNone,
       correlation_id = bm_correlation_id m, causation_id = bm_causation_id m, reply_to = bm_reply_to m,
       expires_at = bm_expires_at m, content_type = bm_content_type m,
       content_encoding = bm_content_encoding m\<rparr>)))))"

definition prepare_typed ::
    "(nat \<Rightarrow> typed_class) \<Rightarrow> registry \<Rightarrow> codec \<Rightarrow> string \<Rightarrow> instant \<Rightarrow> pyval \<Rightarrow> (string, pyval) dict \<Rightarrow> nat
      \<Rightarrow> (string, pyval) dict \<Rightarrow> message_envelope res" where
  "prepare_typed classes R C fresh now mid supplied c fs =
     bind_res (message_class_for R (PStr (tc_kind (classes c))) (PStr (tc_type (classes c)))) (\<lambda>registered.
     if registered \<noteq> None \<and> registered \<noteq> Some c then Inl InvalidMessageDefinitionError
     else
       bind_res (codec_encode C (PDict fs) (PDict supplied)) (\<lambda>encoded.
       bind_res (codec_encode C (PDict supplied) PNone) (\<lambda>encoded_headers.
       Inr (create fresh now \<lparr>message_id = mid, message_type = PStr (tc_type (classes c)),
         message_kind = PStr (tc_kind (classes c)), version = PInt (tc_version (classes c)),
         payload = encoded, headers = encoded_headers, created_at = PNone, correlation_id = PNone,
         causation_id = PNone, reply_to = PNone, expires_at = PNone, content_type = PNone,
         content_encoding = PNone\<rparr>))))"

definition prepare_message ::
    "(nat \<Rightarrow> typed_class) \<Rightarrow> dispatcher \<Rightarrow> string \<Rightarrow> instant \<Rightarrow> outgoing \<Rightarrow> string \<Rightarrow> pyval \<Rightarrow> headers_arg
      \<Rightarrow> message_envelope res" where
  "prepare_message classes D fresh now msg expected_kind mid hs =
     bind_res (validate_message_id mid) (\<lambda>resolved_id.
     bind_res (copy_headers hs) (\<lambda>supplied.
     if outgoing_kind classes msg \<noteq> PStr expected_kind then Inl InvalidMessageDefinitionError
     else (case msg of
        Out (Base m) \<Rightarrow> prepare_base (dp_codec D) fresh now resolved_id supplied m
      | Out (Typed c fs) \<Rightarrow> prepare_typed classes (dp_registry D) (dp_codec D) fresh now resolved_id supplied c fs
      | Out_Other k \<Rightarrow> Inl InvalidMessageDefinitionError)))"

section \<open>Publishing\<close>

definition declared_queue :: "QueueTopology \<Rightarrow> pyval \<Rightarrow> string res" where
  "declared_queue t q = bind_res (validate_queue_name q) (\<lambda>name.
     if has_queue t name then Inr name else Inl InvalidMessageDefinitionError)"

definition resolve_publication_queue ::
    "(nat \<Rightarrow> typed_class) \<Rightarrow> QueueTopology \<Rightarrow> outgoing \<Rightarrow> pyval \<Rightarrow> string res" where
  "resolve_publication_queue classes t msg queue = declared_queue t
     (if queue \<noteq> PNone then queue
      else case msg of
        Out (Typed c fs) \<Rightarrow> (case tc_queue (classes c) of None \<Rightarrow> PStr (default_queue t) | Some q \<Rightarrow> PStr q)
      | _ \<Rightarrow> PStr (default_queue t))"

definition resolve_prepared_queue :: "QueueTopology \<Rightarrow> pyval \<Rightarrow> string res" where
  "resolve_prepared_queue t queue = declared_queue t (or_val queue (PStr (default_queue t)))"

definition validate_prepared_envelope :: "message_envelope \<Rightarrow> unit res" where
  "validate_prepared_envelope e =
     bind_res (validate e) (\<lambda>_. bind_res (validate_message_id (message_id e)) (\<lambda>_. Inr ()))"

definition bus_publish_envelope ::
    "('s, 'p, 'h) pybus \<Rightarrow> message_envelope \<Rightarrow> string \<Rightarrow> ('p, message_envelope) prog" where
  "bus_publish_envelope B e queue =
     seq (lift_res (to_wire e)) (\<lambda>raw.
     seq (tp_publish (be_transport (b_env B)) (or_str (Some queue) (default_queue (b_topology B))) raw) (\<lambda>_.
     ret e))"

definition bus_prepare ::
    "('s, 'p, 'h) pybus \<Rightarrow> outgoing \<Rightarrow> string \<Rightarrow> pyval \<Rightarrow> headers_arg \<Rightarrow> ('p, message_envelope) prog" where
  "bus_prepare B msg expected_kind mid hs =
     seq (take_reading (be_uuid (b_env B))) (\<lambda>fresh.
     seq (take_reading (be_utc_now (b_env B))) (\<lambda>now.
     lift_res (prepare_message (be_classes (b_env B)) (b_dispatcher B) fresh now msg expected_kind mid hs)))"

definition bus_publish ::
    "('s, 'p, 'h) pybus \<Rightarrow> outgoing \<Rightarrow> string \<Rightarrow> pyval \<Rightarrow> pyval \<Rightarrow> headers_arg \<Rightarrow> ('p, message_envelope) prog" where
  "bus_publish B msg expected_kind queue mid hs =
     seq (bus_prepare B msg expected_kind mid hs) (\<lambda>e.
     seq (lift_res (resolve_publication_queue (be_classes (b_env B)) (b_topology B) msg queue)) (\<lambda>target.
     bus_publish_envelope B e target))"

definition publish_event where
  "publish_event B msg queue mid hs = bus_publish B msg ''event'' queue mid hs"

definition send_command where
  "send_command B msg queue mid hs = bus_publish B msg ''command'' queue mid hs"

definition prepare_event where
  "prepare_event B msg mid hs = bus_prepare B msg ''event'' mid hs"

definition prepare_command where
  "prepare_command B msg mid hs = bus_prepare B msg ''command'' mid hs"

definition publish_prepared ::
    "('s, 'p, 'h) pybus \<Rightarrow> message_envelope \<Rightarrow> pyval \<Rightarrow> ('p, message_envelope) prog" where
  "publish_prepared B e queue =
     seq (lift_res (validate_prepared_envelope e)) (\<lambda>_.
     seq (lift_res (resolve_prepared_queue (b_topology B) queue)) (\<lambda>target.
     bus_publish_envelope B e target))"

section \<open>Durable commands\<close>

definition cadence_value :: "cadence \<Rightarrow> string" where
  "cadence_value c = (case c of DAILY \<Rightarrow> ''daily'' | WEEKLY \<Rightarrow> ''weekly'' | MONTHLY \<Rightarrow> ''monthly'')"

definition opt_stamp :: "instant option \<Rightarrow> pyval" where
  "opt_stamp t = (case t of None \<Rightarrow> PNone | Some i \<Rightarrow> PStr (isoformat (at_utc i)))"

definition validate_idempotency_key :: "pyval \<Rightarrow> string option res" where
  "validate_idempotency_key key = (case key of
     PNone \<Rightarrow> Inr None
   | PStr s \<Rightarrow> if strip s = [] \<or> 255 < length s then Inl InvalidMessageDefinitionError else Inr (Some s)
   | _ \<Rightarrow> Inl InvalidMessageDefinitionError)"

definition validate_run_at :: "pyval \<Rightarrow> datetime option res" where
  "validate_run_at v = (case v of
     PNone \<Rightarrow> Inr None
   | PDateTime d \<Rightarrow> if is_aware d then Inr (Some d) else Inl InvalidMessageDefinitionError
   | _ \<Rightarrow> Inl InvalidMessageDefinitionError)"

definition opt_instant :: "datetime option \<Rightarrow> instant option res" where
  "opt_instant d = (case d of None \<Rightarrow> Inr None | Some t \<Rightarrow> bind_res (instant_of t) (\<lambda>i. Inr (Some i)))"

text \<open>
  What identifies a scheduled command: contents, queue and, where given, run time and
  recurrence. The run time and the end of a series are UTC instants.
\<close>

definition command_fingerprint ::
    "message_envelope \<Rightarrow> string \<Rightarrow> instant option \<Rightarrow> (recurrence \<times> instant option) option \<Rightarrow> string res" where
  "command_fingerprint e queue run_at rec = dumps (PDict (
     [(''message_type'', message_type e), (''version'', version e), (''payload'', payload e), (''headers'', headers e),
      (''queue'', PStr queue)]
     @ (case run_at of None \<Rightarrow> [] | Some t \<Rightarrow> [(''run_at'', PStr (isoformat (at_utc t)))])
     @ (case rec of None \<Rightarrow> []
        | Some (r, ends) \<Rightarrow> [(''recurrence'', PDict [(''cadence'', PStr (cadence_value (rc_cadence r))),
            (''timezone'', PStr (rc_timezone r)), (''ends_at'', opt_stamp ends), (''run_at'', opt_stamp run_at)])])))"

text \<open>The draft takes its text fields from the envelope of a declared command.\<close>

definition command_draft ::
    "message_envelope \<Rightarrow> instant \<Rightarrow> string \<Rightarrow> string \<Rightarrow> string option \<Rightarrow> draft res" where
  "command_draft e available queue fp key =
     (case (message_id e, message_type e, version e, headers e, created_at e) of
        (PStr mid, PStr mtype, PInt ver, PDict hs, PDateTime created) \<Rightarrow>
          Inr \<lparr>d_message_id = mid, d_message_type = mtype, d_version = ver, d_payload = payload e, d_headers = hs,
            d_created_at = utc_of created, d_available_at = available, d_queue = queue, d_fingerprint = fp,
            d_idempotency_key = key\<rparr>
      | _ \<Rightarrow> Inl TypeError)"

definition is_declared :: "outgoing \<Rightarrow> bool" where
  "is_declared msg = (case msg of Out (Typed c fs) \<Rightarrow> True | _ \<Rightarrow> False)"

text \<open>The end of a series, and the test that the first run comes before it.\<close>

definition normalized_end :: "recurrence checked option \<Rightarrow> instant \<Rightarrow> (recurrence \<times> instant option) option res" where
  "normalized_end rec run_at = (case rec of
     Some (Proper r) \<Rightarrow> bind_res (opt_instant (rc_ends_at r)) (\<lambda>ends.
       if (case ends of None \<Rightarrow> False | Some t \<Rightarrow> t \<le> run_at) then Inl InvalidMessageDefinitionError
       else Inr (Some (r, ends)))
   | _ \<Rightarrow> Inr None)"

definition store_scheduled ::
    "'s job_backend \<Rightarrow> draft \<Rightarrow> (recurrence \<times> instant option) option \<Rightarrow> instant \<Rightarrow> ('s, job_record) prog" where
  "store_scheduled S d rec run_at = (case rec of
     None \<Rightarrow> so_schedule (jb_ops S) d
   | Some (r, ends) \<Rightarrow> (case jb_series S of
        None \<Rightarrow> raise JobSeriesNotSupportedError
      | Some ops \<Rightarrow> seq (ss_schedule ops \<lparr>sd_first = d, sd_recurrence = r, sd_starts_at = at_utc run_at,
            sd_fingerprint = d_fingerprint d, sd_idempotency_key = d_idempotency_key d\<rparr>) (\<lambda>(q, record). ret record)))"

definition schedule_command ::
    "('s, 'p, 'h) pybus \<Rightarrow> outgoing \<Rightarrow> pyval \<Rightarrow> recurrence checked option \<Rightarrow> pyval \<Rightarrow> ('s \<times> 'p, handle) prog" where
  "schedule_command B msg run_at rec idempotency_key = (case b_job_store B of
     None \<Rightarrow> raise DurableJobsNotConfiguredError
   | Some S \<Rightarrow>
      if \<not> is_declared msg then raise InvalidMessageDefinitionError
      else
        seq (lift_res (validate_idempotency_key idempotency_key)) (\<lambda>key.
        seq (lift_res (validate_run_at run_at)) (\<lambda>stamp.
        if rec = Some Improper then raise InvalidMessageDefinitionError
        else
          seq (on_rest (prepare_command B msg PNone No_Headers)) (\<lambda>e.
          seq (lift_res (resolve_publication_queue (be_classes (b_env B)) (b_topology B) msg PNone)) (\<lambda>queue.
          seq (lift_res (opt_instant stamp)) (\<lambda>given.
          (let due = (case given of Some t \<Rightarrow> t | None \<Rightarrow> (case created_at e of PDateTime d \<Rightarrow> utc_of d | _ \<Rightarrow> 0)) in
          seq (lift_res (normalized_end rec due)) (\<lambda>series.
          seq (lift_res (command_fingerprint e queue given series)) (\<lambda>fp.
          seq (lift_res (command_draft e due queue fp key)) (\<lambda>d.
          seq (on_store (store_scheduled S d series due)) (\<lambda>record.
          ret (handle_from_record record))))))))))))"

definition cancel_recurring_command :: "('s, 'p, 'h) pybus \<Rightarrow> pyval \<Rightarrow> ('s \<times> 'p, series_handle) prog" where
  "cancel_recurring_command B series_id = (case b_job_store B of
     None \<Rightarrow> raise DurableJobsNotConfiguredError
   | Some S \<Rightarrow> (case jb_series S of
        None \<Rightarrow> raise JobSeriesNotSupportedError
      | Some ops \<Rightarrow> (case series_id of
           PStr i \<Rightarrow>
             if strip i = [] then raise InvalidMessageDefinitionError
             else seq (on_rest (take_reading (be_utc_now (b_env B)))) (\<lambda>now.
                  seq (on_store (ss_cancel ops i now)) (\<lambda>record. ret (series_handle_from_record record)))
         | _ \<Rightarrow> raise InvalidMessageDefinitionError)))"

text \<open>The Django store, which supports series.\<close>

definition django_backend :: "zones \<Rightarrow> bool \<Rightarrow> (db \<Rightarrow> nat) \<Rightarrow> (db \<Rightarrow> string) \<Rightarrow> db job_backend" where
  "django_backend zones in_atomic fresh fresh_message = \<lparr>
     jb_ops = django_store zones in_atomic fresh fresh_message,
     jb_series = Some \<lparr>
       ss_schedule = (\<lambda>d db. atomic_op (schedule_recurring zones (fresh db) (fresh db + 1) d) db),
       ss_cancel = (\<lambda>i t. atomic_op (cancel_recurring i t))\<rparr>\<rparr>"

end
