(* ===== verification/BusCalls.thy ===== *)
theory BusCalls
  imports Bus
begin

text \<open>
  bus.py continued: requests and the loop that waits for their response, listening, the
  workers a bus builds, and the default bus of the module.
\<close>

section \<open>Requests\<close>

definition text_queue :: "pyval \<Rightarrow> string res" where
  "text_queue q = (case q of PStr s \<Rightarrow> Inr s | _ \<Rightarrow> Inl TypeError)"

definition check_deadline :: "('s, 'p, 'h) pybus \<Rightarrow> rat option \<Rightarrow> (('s, 'p) bworld, unit) prog" where
  "check_deadline B deadline = (case deadline of
     None \<Rightarrow> ret ()
   | Some d \<Rightarrow> seq (in_rest (take_reading (be_monotonic (b_env B)))) (\<lambda>t.
       if d \<le> t then raise MessageTimeoutError else ret ()))"

text \<open>How long to poll and to sleep: short slices near the deadline.\<close>

definition poll_plan :: "('s, 'p, 'h) pybus \<Rightarrow> rat option \<Rightarrow> (('s, 'p) bworld, int \<times> rat) prog" where
  "poll_plan B deadline = (case deadline of
     None \<Rightarrow> ret (1, 1 / 100)
   | Some d \<Rightarrow> seq (in_rest (take_reading (be_monotonic (b_env B)))) (\<lambda>t.
       let remaining = d - t in
       if remaining \<le> 0 then raise MessageTimeoutError
       else if remaining < 1 then ret (0, min (1 / 100) remaining)
       else ret (1, 1 / 100)))"

definition receive_reply :: "('s, 'p, 'h) pybus \<Rightarrow> pyval \<Rightarrow> int \<times> rat \<Rightarrow> (('s, 'p) bworld, unit) prog" where
  "receive_reply B reply_queue plan =
     seq (lift_res (text_queue reply_queue)) (\<lambda>q.
     seq (in_rest (tp_consume (be_transport (b_env B)) q (fst plan))) (\<lambda>raw. case raw of
         None \<Rightarrow> in_rest (modify (be_sleep (b_env B) (snd plan)))
       | Some m \<Rightarrow>
           seq (in_rest (take_reading (be_utc_now (b_env B)))) (\<lambda>read_at.
           seq (lift_res (from_wire read_at (raw_bytes m))) (\<lambda>e.
           seq (in_rest (take_reading (be_utc_now (b_env B)))) (\<lambda>now.
           on_coordinator (store_response now e))))))"

text \<open>One pass of the loop: the response, or \<open>None\<close> to go on.\<close>

definition await_step ::
    "('s, 'p, 'h) pybus \<Rightarrow> pyval \<Rightarrow> rat option \<Rightarrow> pyval \<Rightarrow> (('s, 'p) bworld, message_envelope option) prog" where
  "await_step B cid deadline reply_queue =
     seq (on_coordinator (take_response cid)) (\<lambda>buffered. case buffered of
         Some e \<Rightarrow> ret (Some e)
       | None \<Rightarrow>
           seq (check_deadline B deadline) (\<lambda>_.
           seq (poll_plan B deadline) (\<lambda>plan.
           seq (receive_reply B reply_queue plan) (\<lambda>_. ret None))))"

partial_function (option) await_loop ::
    "('s, 'p, 'h) pybus \<Rightarrow> pyval \<Rightarrow> rat option \<Rightarrow> pyval \<Rightarrow> ('s, 'p) bworld
      \<Rightarrow> (message_envelope res \<times> ('s, 'p) bworld) option" where
  "await_loop B cid deadline reply_queue s =
     (case await_step B cid deadline reply_queue s of
        (Inl x, s') \<Rightarrow> Some (Inl x, s')
      | (Inr (Some e), s') \<Rightarrow> Some (Inr e, s')
      | (Inr None, s') \<Rightarrow> await_loop B cid deadline reply_queue s')"

definition await_response ::
    "('s, 'p, 'h) pybus \<Rightarrow> pyval \<Rightarrow> rat option \<Rightarrow> pyval \<Rightarrow> ('s, 'p) bworld
      \<Rightarrow> (message_envelope res \<times> ('s, 'p) bworld) option" where
  "await_response B cid timeout reply_queue s = (case timeout of
     None \<Rightarrow> await_loop B cid None reply_queue s
   | Some x \<Rightarrow> (case in_rest (take_reading (be_monotonic (b_env B))) s of
       (Inl e, s') \<Rightarrow> Some (Inl e, s')
     | (Inr t, s') \<Rightarrow> await_loop B cid (Some (t + x)) reply_queue s'))"

definition reply_queue_for :: "('s, 'p, 'h) pybus \<Rightarrow> base_message \<Rightarrow> string option \<Rightarrow> pyval" where
  "reply_queue_for B req reply_arg = or_val (opt_str reply_arg) (or_val (bm_reply_to req) (PStr (b_reply_queue B)))"

definition send_request ::
    "('s, 'p, 'h) pybus \<Rightarrow> base_message \<Rightarrow> rat option \<Rightarrow> string option \<Rightarrow> string option \<Rightarrow> ('p, ticket) prog" where
  "send_request B req timeout queue reply_arg =
     seq (take_reading (be_utc_now (b_env B))) (\<lambda>now.
     seq (take_reading (be_uuid (b_env B))) (\<lambda>fresh_request.
     seq (take_reading (be_uuid (b_env B))) (\<lambda>fresh_correlation.
     seq (lift_res (prepare_request (dp_codec (b_dispatcher B)) fresh_request fresh_correlation now req timeout PNone
        (reply_queue_for B req reply_arg) None)) (\<lambda>(e, t).
     seq (lift_res (to_wire e)) (\<lambda>raw.
     seq (tp_publish (be_transport (b_env B)) (or_str queue (default_queue (b_topology B))) raw) (\<lambda>_.
     ret t))))))"

definition read_response :: "('s, 'p, 'h) pybus \<Rightarrow> message_envelope \<Rightarrow> base_message res" where
  "read_response B e = bind_res (message_class_for_kind (message_kind e))
     (\<lambda>cls. from_envelope (dp_codec (b_dispatcher B)) cls e)"

definition request ::
    "('s, 'p, 'h) pybus \<Rightarrow> base_message \<Rightarrow> rat option \<Rightarrow> string option \<Rightarrow> string option \<Rightarrow> ('s, 'p) bworld
      \<Rightarrow> (base_message res \<times> ('s, 'p) bworld) option" where
  "request B req timeout queue reply_arg s = (case in_rest (send_request B req timeout queue reply_arg) s of
     (Inl x, s') \<Rightarrow> Some (Inl x, s')
   | (Inr t, s') \<Rightarrow> (case await_response B (tk_correlation_id t) timeout (reply_queue_for B req reply_arg) s' of
        None \<Rightarrow> None
      | Some (Inl x, s'') \<Rightarrow> Some (Inl x, s'')
      | Some (Inr e, s'') \<Rightarrow> Some (read_response B e, s'')))"

section \<open>Listening and workers\<close>

definition bus_listen_once :: "('s, 'p, 'h) pybus \<Rightarrow> string list \<Rightarrow> (('s, 'p) bworld, listen_result) prog" where
  "bus_listen_once B channels = in_listener (listen_once (b_listener B) channels)"

definition bus_listen ::
    "('s, 'p, 'h) pybus \<Rightarrow> string list \<Rightarrow> int option \<Rightarrow> ('s, 'p) bworld
      \<Rightarrow> (listen_result list res \<times> ('s, 'p) bworld) option" where
  "bus_listen B channels max_messages = (\<lambda>(co, lw).
     map_option (\<lambda>(r, lw'). (r, (co, lw'))) (listen (b_listener B) channels max_messages lw))"

text \<open>
  The stop event of a worker is part of the outside, where handlers can reach it; the hooks
  act on the event and on everything else.
\<close>

type_synonym ('s, 'q) worker_bus = "('s, bool \<times> 'q, lstate \<times> 's \<times> 'q) pybus"

definition resolve_hooks :: "('s, 'p, 'h) pybus \<Rightarrow> 'h hook checked list option \<Rightarrow> 'h hook list res" where
  "resolve_hooks B hooks =
     bind_res (case hooks of None \<Rightarrow> map_res (\<lambda>f. f) (b_hook_factories B) | Some hs \<Rightarrow> Inr hs) all_proper"

definition bus_poll ::
    "('s, 'q) worker_bus \<Rightarrow> string list \<Rightarrow> ((lstate \<times> 's \<times> 'q) outside, listen_result) prog" where
  "bus_poll B channels = (\<lambda>(ev, (l, s, q)). case listen_once (b_listener B) channels (l, (s, (ev, q))) of
     (r, (l', (s', (ev', q')))) \<Rightarrow> (r, (ev', (l', s', q'))))"

definition create_worker ::
    "('s, 'q) worker_bus \<Rightarrow> channel_arg option \<Rightarrow> (lstate \<times> 's \<times> 'q) hook checked list option \<Rightarrow> number_arg
      \<Rightarrow> (rat \<Rightarrow> (lstate \<times> 's \<times> 'q) outside \<Rightarrow> (lstate \<times> 's \<times> 'q) outside) \<Rightarrow> (lstate \<times> 's \<times> 'q) worker res" where
  "create_worker B channel hooks error_delay wait_fn =
     bind_res (resolve_hooks B hooks) (\<lambda>hs.
     new_worker (l_dead_letter_channel (b_listener B)) (bus_poll B)
       (case channel of None \<Rightarrow> One_Channel (default_queue (b_topology B)) | Some c \<Rightarrow> c) hs error_delay wait_fn)"

text \<open>The claim a durable poll returns, as the value the after-poll hooks get.\<close>

definition claim_value :: "claim \<Rightarrow> pyval" where
  "claim_value c = PData ''DurableJobClaim''
     [(''id'', PStr (c_id c)), (''message_id'', PStr (c_message_id c)), (''message_type'', PStr (c_message_type c)),
      (''version'', PInt (c_version c)), (''payload'', c_payload c), (''headers'', PDict (c_headers c)),
      (''created_at'', PDateTime (at_utc (c_created_at c))), (''queue'', PStr (c_queue c)),
      (''generation'', PInt (c_generation c)), (''retry_count'', PInt (c_retry_count c))]"

text \<open>The publisher of the runner: publication of a prepared envelope on this bus.\<close>

definition durable_publisher :: "('s, 'p, 'h) pybus \<Rightarrow> 'p publisher" where
  "durable_publisher B e queue p = (case publish_prepared B e (PStr queue) p of
     (Inl x, p') \<Rightarrow> (Inl x, p') | (Inr _, p') \<Rightarrow> (Inr (), p'))"

definition durable_poll ::
    "('s, 'q) worker_bus \<Rightarrow> 's job_backend \<Rightarrow> policy \<Rightarrow> string \<Rightarrow> rat
      \<Rightarrow> (rat \<Rightarrow> (lstate \<times> 's \<times> 'q) outside \<Rightarrow> (lstate \<times> 's \<times> 'q) outside) \<Rightarrow> string list
      \<Rightarrow> ((lstate \<times> 's \<times> 'q) outside, listen_result) prog" where
  "durable_poll B S pol worker_id idle_delay wait_fn channels = (\<lambda>(ev, (l, s, q)).
     (let (fresh, p1) = be_uuid (b_env B) (ev, q);
          (now, p2) = be_utc_now (b_env B) p1;
          (later, p3) = be_utc_now (b_env B) p2 in
      case run_once (jb_ops S) (durable_publisher B) pol worker_id fresh now later (s, p3) of
        (r, (s', (ev', q'))) \<Rightarrow>
          (case r of
             Inl x \<Rightarrow> (Inl x, (ev', (l, s', q')))
           | Inr None \<Rightarrow> (Inr L_None, wait_fn idle_delay (ev', (l, s', q')))
           | Inr (Some c) \<Rightarrow> (Inr (L_One (H_Value (claim_value c))), (ev', (l, s', q'))))))"

definition create_durable_job_worker ::
    "('s, 'q) worker_bus \<Rightarrow> string \<Rightarrow> (lstate \<times> 's \<times> 'q) hook checked list option \<Rightarrow> number_arg \<Rightarrow> policy option \<Rightarrow> number_arg
      \<Rightarrow> (rat \<Rightarrow> (lstate \<times> 's \<times> 'q) outside \<Rightarrow> (lstate \<times> 's \<times> 'q) outside) \<Rightarrow> (lstate \<times> 's \<times> 'q) worker res" where
  "create_durable_job_worker B worker_id hooks error_delay pol idle_delay wait_fn = (case b_job_store B of
     None \<Rightarrow> Inl DurableJobsNotConfiguredError
   | Some S \<Rightarrow>
       bind_res (resolve_hooks B hooks) (\<lambda>hs.
       bind_res (non_negative_number idle_delay) (\<lambda>idle.
       new_worker ''__pybus_durable_terminal__''
         (durable_poll B S (case pol of None \<Rightarrow> b_job_policy B | Some p \<Rightarrow> p) worker_id (number_value idle) wait_fn)
         (One_Channel ''__pybus_durable_commands__'') hs error_delay wait_fn)))"

section \<open>The default bus\<close>

text \<open>The module's functions act on the bus configured last.\<close>

definition get_bus :: "('s, 'p, 'h) pybus option \<Rightarrow> ('s, 'p, 'h) pybus res" where
  "get_bus dflt = of_option RuntimeError dflt"

definition configure_transport ::
    "('s, 'p) bus_env \<Rightarrow> string \<Rightarrow> ('s, 'p, 'h) bus_args \<Rightarrow> ('s, 'p, 'h) pybus option
      \<Rightarrow> ('s, 'p, 'h) pybus res \<times> ('s, 'p, 'h) pybus option" where
  "configure_transport E fresh a dflt =
     (let args = a\<lparr>ba_hook_factories := [], ba_job_store := Unset, ba_job_policy := Unset,
        ba_command_store := Unset, ba_command_policy := Unset\<rparr> in
      case fst (new_pybus E fresh args) of Inl e \<Rightarrow> (Inl e, dflt) | Inr B \<Rightarrow> (Inr B, Some B))"

definition on_default :: "('s, 'p, 'h) pybus option \<Rightarrow> (('s, 'p, 'h) pybus \<Rightarrow> ('w, 'a) prog) \<Rightarrow> ('w, 'a) prog" where
  "on_default dflt f = seq (lift_res (get_bus dflt)) f"

definition default_publish_event where
  "default_publish_event dflt msg queue mid hs = on_default dflt (\<lambda>B. publish_event B msg queue mid hs)"

definition default_send_command where
  "default_send_command dflt msg queue mid hs = on_default dflt (\<lambda>B. send_command B msg queue mid hs)"

definition default_schedule_command where
  "default_schedule_command dflt msg run_at rec key = on_default dflt (\<lambda>B. schedule_command B msg run_at rec key)"

definition default_cancel_recurring_command where
  "default_cancel_recurring_command dflt sid = on_default dflt (\<lambda>B. cancel_recurring_command B sid)"

definition default_prepare_event where
  "default_prepare_event dflt msg mid hs = on_default dflt (\<lambda>B. prepare_event B msg mid hs)"

definition default_prepare_command where
  "default_prepare_command dflt msg mid hs = on_default dflt (\<lambda>B. prepare_command B msg mid hs)"

definition default_publish_prepared where
  "default_publish_prepared dflt e queue = on_default dflt (\<lambda>B. publish_prepared B e queue)"

definition default_request where
  "default_request dflt req timeout queue reply_arg s = (case get_bus dflt of
     Inl x \<Rightarrow> Some (Inl x, s) | Inr B \<Rightarrow> request B req timeout queue reply_arg s)"

end
