(* ===== verification/BusProps.thy ===== *)
theory BusProps
  imports BusCalls
begin

text \<open>
  What publication, scheduling and requests of a bus guarantee: only valid envelopes leave, for
  declared queues; a scheduled command is one job; a request gets its own response, in time.
\<close>

section \<open>Publication\<close>

text \<open>The draws of \<open>MessageEnvelope.create\<close>, after which the transport is called.\<close>

definition fresh_id :: "('s, 'p) bus_env \<Rightarrow> 'p \<Rightarrow> string" where
  "fresh_id E p = fst (be_uuid E p)"

definition fresh_time :: "('s, 'p) bus_env \<Rightarrow> 'p \<Rightarrow> instant" where
  "fresh_time E p = fst (be_utc_now E (snd (be_uuid E p)))"

definition after_draws :: "('s, 'p) bus_env \<Rightarrow> 'p \<Rightarrow> 'p" where
  "after_draws E p = snd (be_utc_now E (snd (be_uuid E p)))"

lemma bus_prepare_eq:
  "bus_prepare B msg kind mid hs p =
     (prepare_message (be_classes (b_env B)) (b_dispatcher B) (fresh_id (b_env B) p) (fresh_time (b_env B) p) msg kind mid hs,
      after_draws (b_env B) p)"
  by (simp add: bus_prepare_def seq_def take_reading_def fresh_id_def fresh_time_def after_draws_def
      split: prod.split)

lemma or_str_name: "strip q \<noteq> [] \<Longrightarrow> or_str (Some q) d = q"
  by (auto simp: or_str_def strip_def)

lemma declared_queue_ok: "declared_queue t v = Inr q \<Longrightarrow> v = PStr q \<and> strip q \<noteq> [] \<and> has_queue t q"
  by (auto simp: declared_queue_def validate_queue_name_def res_simps split: pyval.splits if_splits)

lemma to_wire_valid: "to_wire e = Inr raw \<Longrightarrow> valid_envelope e"
  by (auto simp: to_wire_def to_dict_def validate_eq res_simps split: if_splits)

lemma prepare_message_kind:
  "prepare_message classes D fresh now msg kind mid hs = Inr e \<Longrightarrow>
     message_kind e = PStr kind \<and> (\<exists>m. msg = Out m)
     \<and> (mid = PNone \<and> message_id e = PStr fresh \<or> validate_message_id mid = Inr (message_id e))"
  by (auto simp: prepare_message_def prepare_base_def prepare_typed_def create_def or_val_def validate_message_id_def
      res_simps Let_def strip_def split: if_splits outgoing.splits message.splits pyval.splits)

lemma bus_publish_envelope_cases:
  assumes "strip q \<noteq> []" "bus_publish_envelope B e q p = (r, p')"
  shows "(\<exists>x. to_wire e = Inl x \<and> r = Inl x \<and> p' = p) \<or>
    (\<exists>raw y. to_wire e = Inr raw \<and> tp_publish (be_transport (b_env B)) q raw p = (y, p')
       \<and> r = bind_res y (\<lambda>_. Inr e))"
  using assms by (cases "to_wire e") (auto simp: bus_publish_envelope_def seq_def or_str_name split: prod.splits sum.splits)

lemma bus_publish_cases:
  assumes "bus_publish B msg kind queue mid hs p = (r, p')"
  shows "(\<exists>x. r = Inl x \<and> p' = after_draws (b_env B) p) \<or>
    (\<exists>e q raw y. prepare_message (be_classes (b_env B)) (b_dispatcher B) (fresh_id (b_env B) p) (fresh_time (b_env B) p)
         msg kind mid hs = Inr e
       \<and> resolve_publication_queue (be_classes (b_env B)) (b_topology B) msg queue = Inr q
       \<and> to_wire e = Inr raw \<and> tp_publish (be_transport (b_env B)) q raw (after_draws (b_env B) p) = (y, p')
       \<and> r = bind_res y (\<lambda>_. Inr e))"
proof -
  let ?prep = "prepare_message (be_classes (b_env B)) (b_dispatcher B) (fresh_id (b_env B) p) (fresh_time (b_env B) p) msg kind mid hs"
  let ?queue = "resolve_publication_queue (be_classes (b_env B)) (b_topology B) msg queue"
  show ?thesis
  proof (cases "\<exists>e q. ?prep = Inr e \<and> ?queue = Inr q")
    case True
    then obtain e q where eq: "?prep = Inr e" "?queue = Inr q" by blast
    have "strip q \<noteq> []" using declared_queue_ok eq(2) unfolding resolve_publication_queue_def by blast
    moreover have "bus_publish_envelope B e q (after_draws (b_env B) p) = (r, p')"
      using assms eq by (simp add: bus_publish_def seq_def bus_prepare_eq)
    ultimately show ?thesis
      by (rule bus_publish_envelope_cases [THEN disjE]) (use eq in blast)+
  next
    case False
    obtain x y where xy: "?prep = x" "?queue = y" by blast
    show ?thesis
      using assms False unfolding bus_publish_def seq_def bus_prepare_eq xy
      by (cases x; cases y) (auto simp: seq_def)
  qed
qed

text \<open>
  C20. Publishing sends at most one message, and what is sent is well-formed: the transport is
  called once or not at all; it gets the bytes of an envelope that validates, of the kind that
  was asked for, with the caller's checked id or a fresh one, for a queue the topology declares;
  the caller gets that envelope, or the exception.
\<close>

theorem bus_publish_well_formed:
  assumes "bus_publish B msg kind queue mid hs p = (r, p')"
  shows "(\<exists>x. r = Inl x \<and> p' = after_draws (b_env B) p) \<or>
    (\<exists>e q raw y. to_wire e = Inr raw \<and> valid_envelope e \<and> message_kind e = PStr kind
       \<and> (mid = PNone \<and> message_id e = PStr (fresh_id (b_env B) p) \<or> validate_message_id mid = Inr (message_id e))
       \<and> has_queue (b_topology B) q \<and> strip q \<noteq> []
       \<and> tp_publish (be_transport (b_env B)) q raw (after_draws (b_env B) p) = (y, p')
       \<and> r = bind_res y (\<lambda>_. Inr e))"
  using bus_publish_cases [OF assms]
proof (elim disjE exE conjE)
  fix e q raw y
  assume e: "prepare_message (be_classes (b_env B)) (b_dispatcher B) (fresh_id (b_env B) p) (fresh_time (b_env B) p)
         msg kind mid hs = Inr e"
    and q: "resolve_publication_queue (be_classes (b_env B)) (b_topology B) msg queue = Inr q"
    and raw: "to_wire e = Inr raw" and sent: "tp_publish (be_transport (b_env B)) q raw (after_draws (b_env B) p) = (y, p')"
    and r: "r = bind_res y (\<lambda>_. Inr e)"
  show ?thesis
    using prepare_message_kind [OF e] to_wire_valid [OF raw] declared_queue_ok [OF q [unfolded resolve_publication_queue_def]]
      raw sent r by blast
qed blast

section \<open>Waiting for a response\<close>

lemma keeps_in_rest: "keeps fst (in_rest m)"
  by (auto simp: keeps_def in_rest_def split: prod.splits)

lemma triple_in_rest: "triple (\<lambda>s. I (fst s)) (in_rest m) (\<lambda>_ s. I (fst s)) (\<lambda>_ s. I (fst s))"
  using keeps_triple [OF keeps_in_rest] .

lemma triple_on_coordinator:
  assumes "\<And>co r co'. I co \<Longrightarrow> m co = (r, co') \<Longrightarrow> (case r of Inl e \<Rightarrow> J co' | Inr a \<Rightarrow> Q a co')"
  shows "triple (\<lambda>s. I (fst s)) (on_coordinator m) (\<lambda>a s. Q a (fst s)) (\<lambda>_ s. J (fst s))"
proof (rule tripleI)
  fix s a s' assume "I (fst s)" "on_coordinator m s = (Inr a, s')"
  then show "Q a (fst s')" using assms [of "fst s" "Inr a" "fst s'"]
    by (cases s) (auto simp: on_coordinator_def split: prod.splits)
next
  fix s x s' assume "I (fst s)" "on_coordinator m s = (Inl x, s')"
  then show "J (fst s')" using assms [of "fst s" "Inl x" "fst s'"]
    by (cases s) (auto simp: on_coordinator_def split: prod.splits)
qed

text \<open>What each pass of the loop keeps holds at the end of the loop.\<close>

lemma await_loop_rule:
  assumes "await_loop B cid deadline q s = Some (r, s')" "I s"
    and step: "triple I (await_step B cid deadline q) (\<lambda>x s. case x of None \<Rightarrow> I s | Some e \<Rightarrow> Q e s) X"
  shows "case r of Inl e \<Rightarrow> X e s' | Inr e \<Rightarrow> Q e s'"
proof -
  have "B = B \<longrightarrow> cid = cid \<longrightarrow> deadline = deadline \<longrightarrow> q = q \<longrightarrow> I s \<longrightarrow>
      (case fst (r, s') of Inl e \<Rightarrow> X e (snd (r, s')) | Inr e \<Rightarrow> Q e (snd (r, s')))"
    using assms(1)
  proof (rule await_loop.raw_induct [where P = "\<lambda>B' c d q' s y. B' = B \<longrightarrow> c = cid \<longrightarrow> d = deadline \<longrightarrow> q' = q \<longrightarrow> I s \<longrightarrow>
      (case fst y of Inl e \<Rightarrow> X e (snd y) | Inr e \<Rightarrow> Q e (snd y))", rotated])
    fix f B' c d q' s and y :: "message_envelope res \<times> ('a, 'b) bworld"
    assume IH: "\<And>B' c d q' s y. f B' c d q' s = Some y \<Longrightarrow> B' = B \<longrightarrow> c = cid \<longrightarrow> d = deadline \<longrightarrow> q' = q \<longrightarrow> I s \<longrightarrow>
        (case fst y of Inl e \<Rightarrow> X e (snd y) | Inr e \<Rightarrow> Q e (snd y))"
      and y: "(case await_step B' c d q' s of (Inl x, s') \<Rightarrow> Some (Inl x, s') | (Inr (Some e), s') \<Rightarrow> Some (Inr e, s')
        | (Inr None, s') \<Rightarrow> f B' c d q' s') = Some y"
    show "B' = B \<longrightarrow> c = cid \<longrightarrow> d = deadline \<longrightarrow> q' = q \<longrightarrow> I s \<longrightarrow>
        (case fst y of Inl e \<Rightarrow> X e (snd y) | Inr e \<Rightarrow> Q e (snd y))"
    proof (intro impI)
      assume eq: "B' = B" "c = cid" "d = deadline" "q' = q" and I: "I s"
      obtain x t where x: "await_step B cid deadline q s = (x, t)" by (cases "await_step B cid deadline q s")
      show "case fst y of Inl e \<Rightarrow> X e (snd y) | Inr e \<Rightarrow> Q e (snd y)"
        using y x eq IH [of B cid deadline q t y] tripleD2 [OF step I] tripleD1 [OF step I]
        by (cases x) (fastforce split: option.splits)+
    qed
  qed
  then show ?thesis using assms(2) by (cases r) simp_all
qed

text \<open>
  The responses of other requests stay: as long as no deadline is registered, a pass removes
  nothing but the awaited response.
\<close>

definition others_kept :: "coordinator \<Rightarrow> pyval \<Rightarrow> coordinator \<Rightarrow> bool" where
  "others_kept co0 cid co \<longleftrightarrow> co_ok co \<and> (co_deadlines co0 = [] \<longrightarrow> co_deadlines co = []
     \<and> (\<forall>k. k \<noteq> cid \<longrightarrow> map_of (co_responses co0) k \<noteq> None \<longrightarrow> map_of (co_responses co) k \<noteq> None))"

lemma evict_nothing: "co_deadlines co = [] \<Longrightarrow> evict_expired now co = co"
  by (simp add: evict_expired_def)

lemma others_kept_store:
  assumes "others_kept co0 cid co" "store_response now e co = (r, co')" shows "others_kept co0 cid co'"
proof -
  have "co_ok co'" using co_ok_store [of co now e] assms by (simp add: others_kept_def)
  then show ?thesis
    using assms evict_nothing [of co now] by (auto simp: others_kept_def store_response_def Let_def split: if_splits)
qed

lemma others_kept_take:
  assumes "others_kept co0 cid co" "take_response cid co = (r, co')"
  shows "case r of Inl x \<Rightarrow> others_kept co0 cid co' | Inr None \<Rightarrow> others_kept co0 cid co'
     | Inr (Some e) \<Rightarrow> others_kept co0 cid co' \<and> correlation_id e = cid \<and> map_of (co_responses co') cid = None"
proof -
  have ok: "co_ok co" using assms(1) by (simp add: others_kept_def)
  have "co_ok co'" using co_ok_take [OF ok, of cid] assms(2) by simp
  moreover have "co_deadlines co = [] \<Longrightarrow> co_deadlines co' = []" using assms(2) by (auto simp: take_response_def split: if_splits)
  ultimately have "others_kept co0 cid co'"
    using assms(1) take_response_map [OF assms(2)] by (simp add: others_kept_def)
  moreover have "correlation_id e = cid \<and> map_of (co_responses co') cid = None" if "r = Inr (Some e)" for e
    using that take_response_own [OF ok, of cid e co'] assms(2) by (auto simp: take_response_def split: if_splits)
  ultimately show ?thesis by (auto split: sum.split option.split)
qed

lemma triple_store_reply:
  "triple (\<lambda>s. others_kept co0 cid (fst s)) (on_coordinator (store_response now e))
     (\<lambda>_ s. others_kept co0 cid (fst s)) (\<lambda>_ s. others_kept co0 cid (fst s))"
  by (rule triple_on_coordinator) (auto dest: others_kept_store split: sum.split)

lemma triple_receive_reply:
  "triple (\<lambda>s. others_kept co0 cid (fst s)) (receive_reply B q plan)
     (\<lambda>_ s. others_kept co0 cid (fst s)) (\<lambda>_ s. others_kept co0 cid (fst s))"
proof -
  let ?I = "\<lambda>s. others_kept co0 cid (fst s)"
  have lift: "triple ?I (lift_res r) (\<lambda>_. ?I) (\<lambda>_. ?I)" for r :: "'x res"
    by (auto simp: triple_def split: sum.splits)
  show ?thesis
    unfolding receive_reply_def
    by (intro triple_seq [where R = "\<lambda>_. ?I"] lift triple_in_rest)
      (auto split: option.split intro!: triple_seq [where R = "\<lambda>_. ?I"] lift triple_in_rest triple_store_reply)
qed

lemma triple_await_step:
  "triple (\<lambda>s. others_kept co0 cid (fst s)) (await_step B cid deadline q)
     (\<lambda>x s. case x of None \<Rightarrow> others_kept co0 cid (fst s)
        | Some e \<Rightarrow> others_kept co0 cid (fst s) \<and> correlation_id e = cid \<and> map_of (co_responses (fst s)) cid = None)
     (\<lambda>_ s. others_kept co0 cid (fst s))"
proof -
  let ?I = "\<lambda>s. others_kept co0 cid (fst s)"
  let ?R = "\<lambda>x s. case x of None \<Rightarrow> ?I s
     | Some e \<Rightarrow> ?I s \<and> correlation_id e = cid \<and> map_of (co_responses (fst s)) cid = None"
  have take: "triple ?I (on_coordinator (take_response cid)) ?R (\<lambda>_. ?I)"
    using others_kept_take by (intro triple_on_coordinator) (auto split: sum.splits option.splits)
  have check: "triple ?I (check_deadline B deadline) (\<lambda>_. ?I) (\<lambda>_. ?I)"
    unfolding check_deadline_def
    by (cases deadline) (auto intro!: triple_ret triple_seq [where R = "\<lambda>_. ?I"] triple_in_rest triple_raise)
  have plan: "triple ?I (poll_plan B deadline) (\<lambda>_. ?I) (\<lambda>_. ?I)"
    unfolding poll_plan_def Let_def
    by (cases deadline) (auto intro!: triple_ret triple_seq [where R = "\<lambda>_. ?I"] triple_in_rest triple_raise)
  have go_on: "triple ?I (seq (check_deadline B deadline) (\<lambda>_. seq (poll_plan B deadline) (\<lambda>plan.
      seq (receive_reply B q plan) (\<lambda>_. ret None)))) ?R (\<lambda>_. ?I)"
    by (intro triple_seq [where R = "\<lambda>_. ?I"] check plan triple_receive_reply) (simp add: triple_def)
  show ?thesis
    unfolding await_step_def
  proof (rule triple_seq [OF take])
    show "triple (?R x) (case x of None \<Rightarrow> seq (check_deadline B deadline) (\<lambda>_. seq (poll_plan B deadline) (\<lambda>plan.
      seq (receive_reply B q plan) (\<lambda>_. ret None))) | Some e \<Rightarrow> ret (Some e)) ?R (\<lambda>_. ?I)" for x
      using go_on by (cases x) (simp_all add: triple_def)
  qed
qed

lemma await_response_own:
  assumes "await_response B cid timeout q s = Some (Inr e, s')" "co_ok (fst s)"
  shows "others_kept (fst s) cid (fst s') \<and> correlation_id e = cid \<and> map_of (co_responses (fst s')) cid = None"
proof -
  have start: "others_kept (fst s) cid (fst s)" using assms(2) by (simp add: others_kept_def)
  obtain d t where "await_loop B cid d q t = Some (Inr e, s')" "others_kept (fst s) cid (fst t)"
  proof (cases timeout)
    case None
    then show ?thesis using that assms(1) start by (simp add: await_response_def)
  next
    case (Some x)
    obtain r t where r: "in_rest (take_reading (be_monotonic (b_env B))) s = (r, t)" by (metis surj_pair)
    then have "fst t = fst s" using keepsD [OF keeps_in_rest r] by simp
    then show ?thesis using that assms(1) start Some r by (auto simp: await_response_def split: sum.splits)
  qed
  then show ?thesis using await_loop_rule [OF _ _ triple_await_step, of B cid d q t "Inr e" s' "fst s"] by simp
qed

lemma prepare_request_cid:
  "prepare_request C f g now req timeout mid reply created = Inr (e, t) \<Longrightarrow> tk_correlation_id t = correlation_id e"
  by (auto simp: prepare_request_def create_def Let_def res_simps)

text \<open>
  The preparation of the request a call sends, with the time and the two ids it draws from the
  outside, and the outside after these draws.
\<close>

definition prepared_request ::
    "('s, 'p, 'h) pybus \<Rightarrow> base_message \<Rightarrow> rat option \<Rightarrow> string option \<Rightarrow> 'p \<Rightarrow> (message_envelope \<times> ticket) res \<times> 'p" where
  "prepared_request B req timeout reply_arg p =
     (let (now, p1) = be_utc_now (b_env B) p; (f, p2) = be_uuid (b_env B) p1; (g, p3) = be_uuid (b_env B) p2
      in (prepare_request (dp_codec (b_dispatcher B)) f g now req timeout PNone (reply_queue_for B req reply_arg) None, p3))"

lemma send_request_cases:
  assumes "send_request B req timeout queue reply_arg p = (Inr t, p')"
  shows "\<exists>e raw p1. prepared_request B req timeout reply_arg p = (Inr (e, t), p1) \<and> to_wire e = Inr raw
    \<and> tp_publish (be_transport (b_env B)) (or_str queue (default_queue (b_topology B))) raw p1 = (Inr (), p')"
  using assms
  by (simp add: send_request_def prepared_request_def seq_def take_reading_def split: prod.splits sum.splits)

lemma prepared_request_cid:
  "prepared_request B req timeout reply_arg p = (Inr (e, t), p1) \<Longrightarrow> tk_correlation_id t = correlation_id e"
  by (auto simp: prepared_request_def dest: prepare_request_cid split: prod.splits)

text \<open>
  C22. A request is answered by its own response: it prepares one envelope, with the time and the
  ids it draws, and publishes that; what it returns is read from an envelope with the correlation
  id of the published one, and that response is gone from the coordinator. As long as no
  deadlines are registered, no response that waits for another request is lost.
\<close>

theorem request_gets_its_response:
  assumes "co_ok (fst s)" "request B req timeout queue reply_arg s = Some (Inr m, s')"
  shows "\<exists>e t raw p1 p2 response.
    prepared_request B req timeout reply_arg (snd (snd (snd s))) = (Inr (e, t), p1)
    \<and> to_wire e = Inr raw
    \<and> tp_publish (be_transport (b_env B)) (or_str queue (default_queue (b_topology B))) raw p1 = (Inr (), p2)
    \<and> correlation_id response = correlation_id e \<and> read_response B response = Inr m
    \<and> map_of (co_responses (fst s')) (correlation_id e) = None
    \<and> (co_deadlines (fst s) = [] \<longrightarrow> (\<forall>k. k \<noteq> correlation_id e \<longrightarrow> map_of (co_responses (fst s)) k \<noteq> None
         \<longrightarrow> map_of (co_responses (fst s')) k \<noteq> None))"
proof -
  obtain x s1 where x: "in_rest (send_request B req timeout queue reply_arg) s = (x, s1)" by (metis surj_pair)
  then have co: "fst s1 = fst s" using keepsD [OF keeps_in_rest x] by simp
  obtain t response where t: "x = Inr t" and r: "await_response B (tk_correlation_id t) timeout (reply_queue_for B req reply_arg) s1
      = Some (Inr response, s')" "read_response B response = Inr m"
    using assms(2) x by (auto simp: request_def split: sum.splits option.splits prod.splits)
  have "send_request B req timeout queue reply_arg (snd (snd (snd s))) = (Inr t, snd (snd (snd s1)))"
    using x t by (cases s) (auto simp: in_rest_def split: prod.splits)
  from send_request_cases [OF this] obtain e raw p1 where e:
    "prepared_request B req timeout reply_arg (snd (snd (snd s))) = (Inr (e, t), p1)"
    "to_wire e = Inr raw"
    "tp_publish (be_transport (b_env B)) (or_str queue (default_queue (b_topology B))) raw p1 = (Inr (), snd (snd (snd s1)))"
    by blast
  have cid: "tk_correlation_id t = correlation_id e" using prepared_request_cid [OF e(1)] .
  have "others_kept (fst s) (correlation_id e) (fst s') \<and> correlation_id response = correlation_id e
      \<and> map_of (co_responses (fst s')) (correlation_id e) = None"
    using await_response_own [OF r(1)] assms(1) unfolding co cid by blast
  then show ?thesis using e r(2) unfolding others_kept_def by blast
qed

section \<open>A request ends\<close>

text \<open>
  A clock \<open>clk\<close> of the outside: reading it and polling never turn it back, a message takes some
  time \<open>tick\<close> to receive and sleeping takes at least the time asked for.
\<close>

definition clocked :: "('s, 'p) bus_env \<Rightarrow> ('p \<Rightarrow> rat) \<Rightarrow> rat \<Rightarrow> bool" where
  "clocked E clk tick \<longleftrightarrow> 0 < tick
     \<and> (\<forall>p. fst (be_monotonic E p) = clk p \<and> clk p \<le> clk (snd (be_monotonic E p)))
     \<and> (\<forall>p. clk p \<le> clk (snd (be_utc_now E p)))
     \<and> (\<forall>c n p. clk p \<le> clk (snd (tp_consume (be_transport E) c n p)))
     \<and> (\<forall>c n p m. fst (tp_consume (be_transport E) c n p) = Inr (Some m)
          \<longrightarrow> clk p + tick \<le> clk (snd (tp_consume (be_transport E) c n p)))
     \<and> (\<forall>x p. clk p + x \<le> clk (be_sleep E x p))"

lemma check_deadline_passed:
  assumes "clocked (b_env B) clk tick" "check_deadline B (Some d) (co, l, st, p) = (Inr u, s')"
  shows "\<exists>p'. s' = (co, l, st, p') \<and> clk p < d \<and> clk p \<le> clk p'"
proof -
  obtain t p' where m: "be_monotonic (b_env B) p = (t, p')" by fastforce
  have "t = clk p \<and> clk p \<le> clk p'" using assms(1) m unfolding clocked_def by (metis fst_conv snd_conv)
  then show ?thesis
    using assms(2) m by (auto simp: check_deadline_def seq_def in_rest_def take_reading_def split: if_splits)
qed

lemma poll_plan_passed:
  assumes "clocked (b_env B) clk tick" "poll_plan B (Some d) (co, l, st, p) = (Inr plan, s')"
  shows "\<exists>p'. s' = (co, l, st, p') \<and> clk p \<le> clk p' \<and> (1 / 100 \<le> snd plan \<or> d - clk p \<le> snd plan)"
proof -
  obtain t p' where m: "be_monotonic (b_env B) p = (t, p')" by fastforce
  have "t = clk p \<and> clk p \<le> clk p'" using assms(1) m unfolding clocked_def by (metis fst_conv snd_conv)
  then show ?thesis
    using assms(2) m by (auto simp: poll_plan_def seq_def in_rest_def take_reading_def Let_def split: if_splits)
qed

lemma receive_reply_passed:
  assumes "clocked (b_env B) clk tick" "receive_reply B q plan (co, l, st, p) = (Inr u, s')"
  shows "clk p + min tick (snd plan) \<le> clk (snd (snd (snd s')))"
proof -
  obtain c where c: "text_queue q = Inr c" using assms(2) by (cases "text_queue q") (auto simp: receive_reply_def seq_def)
  obtain x p1 where x: "tp_consume (be_transport (b_env B)) c (fst plan) p = (x, p1)" by fastforce
  have p1: "clk p \<le> clk p1" using assms(1) x unfolding clocked_def by (metis snd_conv)
  have utc: "clk v \<le> clk (snd (be_utc_now (b_env B) v))" for v using assms(1) unfolding clocked_def by blast
  obtain raw where raw: "x = Inr raw" using assms(2) c x by (cases x) (auto simp: receive_reply_def seq_def in_rest_def)
  show ?thesis
  proof (cases raw)
    case None
    then have "s' = (co, l, st, be_sleep (b_env B) (snd plan) p1)"
      using assms(2) c x raw by (simp add: receive_reply_def seq_def in_rest_def)
    moreover have "clk p1 + snd plan \<le> clk (be_sleep (b_env B) (snd plan) p1)" using assms(1) unfolding clocked_def by blast
    ultimately show ?thesis using p1 by simp
  next
    case (Some m)
    have "clk p + tick \<le> clk p1" using assms(1) x raw Some unfolding clocked_def by (metis fst_conv snd_conv)
    moreover have "clk p1 \<le> clk (snd (snd (snd s')))"
      using assms(2) c x raw Some utc [of p1] utc [of "snd (be_utc_now (b_env B) p1)"]
      by (auto simp: receive_reply_def seq_def in_rest_def take_reading_def on_coordinator_def split: prod.splits sum.splits)
    ultimately show ?thesis by simp
  qed
qed

text \<open>A pass that goes on started before the deadline and took a slice of time, or up to the deadline.\<close>

lemma await_step_advances:
  assumes "clocked (b_env B) clk tick" "await_step B cid (Some d) q s = (Inr None, s')"
  shows "clk (snd (snd (snd s))) < d \<and>
    (clk (snd (snd (snd s))) + min tick (1 / 100) \<le> clk (snd (snd (snd s'))) \<or> d \<le> clk (snd (snd (snd s'))))"
proof -
  obtain co l st p where s: "s = (co, l, st, p)" by (cases s)
  obtain r co1 where r: "take_response cid co = (r, co1)" by fastforce
  then have "r = Inr None" and rest: "seq (check_deadline B (Some d)) (\<lambda>_. seq (poll_plan B (Some d)) (\<lambda>plan.
      seq (receive_reply B q plan) (\<lambda>_. ret (None :: message_envelope option)))) (co1, l, st, p) = (Inr None, s')"
    using assms(2) s by (auto simp: await_step_def seq_def on_coordinator_def split: sum.splits option.splits)
  then obtain s1 where s1: "check_deadline B (Some d) (co1, l, st, p) = (Inr (), s1)"
    and rest1: "seq (poll_plan B (Some d)) (\<lambda>plan. seq (receive_reply B q plan) (\<lambda>_. ret (None :: message_envelope option))) s1
      = (Inr None, s')"
    by (auto simp: seq_def split: prod.splits sum.splits)
  obtain p1 where p1: "s1 = (co1, l, st, p1)" "clk p < d" "clk p \<le> clk p1"
    using check_deadline_passed [OF assms(1) s1] by blast
  obtain plan s2 where s2: "poll_plan B (Some d) (co1, l, st, p1) = (Inr plan, s2)"
    and rest2: "seq (receive_reply B q plan) (\<lambda>_. ret (None :: message_envelope option)) s2 = (Inr None, s')"
    using rest1 p1(1) by (auto simp: seq_def split: prod.splits sum.splits)
  obtain p2 where p2: "s2 = (co1, l, st, p2)" "clk p1 \<le> clk p2" "1 / 100 \<le> snd plan \<or> d - clk p1 \<le> snd plan"
    using poll_plan_passed [OF assms(1) s2] by blast
  obtain s3 where "receive_reply B q plan (co1, l, st, p2) = (Inr (), s3)" "s' = s3"
    using rest2 p2(1) by (auto simp: seq_def split: prod.splits sum.splits)
  from receive_reply_passed [OF assms(1) this(1)] this(2)
  have "clk p2 + min tick (snd plan) \<le> clk (snd (snd (snd s')))" by simp
  then show ?thesis using s p1 p2 by (auto simp: min_def split: if_splits)
qed

lemma await_loop_ends:
  assumes "clocked (b_env B) clk tick"
  shows "d - clk (snd (snd (snd s))) \<le> of_nat n * min tick (1 / 100) \<Longrightarrow> await_loop B cid (Some d) q s \<noteq> None"
proof (induction n arbitrary: s)
  case 0
  then have "d \<le> clk (snd (snd (snd s)))" by simp
  then have "fst (await_step B cid (Some d) q s) \<noteq> Inr None"
    using await_step_advances [OF assms, of cid d q s] by (cases "await_step B cid (Some d) q s") auto
  then show ?case by (subst await_loop.simps) (auto split: prod.split sum.split option.split)
next
  case (Suc n)
  have pos: "0 < min tick (1 / 100)" using assms by (simp add: clocked_def)
  obtain r s' where r: "await_step B cid (Some d) q s = (r, s')" by (metis surj_pair)
  have "await_loop B cid (Some d) q s' \<noteq> None" if "r = Inr None"
  proof (rule Suc.IH)
    have "clk (snd (snd (snd s))) + min tick (1 / 100) \<le> clk (snd (snd (snd s'))) \<or> d \<le> clk (snd (snd (snd s')))"
      using await_step_advances [OF assms] r that by blast
    moreover have "0 \<le> of_nat n * min tick (1 / 100)" using pos by simp
    ultimately show "d - clk (snd (snd (snd s'))) \<le> of_nat n * min tick (1 / 100)"
      using Suc.prems by (auto simp: algebra_simps)
  qed
  then show ?case
    using r by (subst await_loop.simps) (auto simp del: not_None_eq split: prod.split sum.split option.split)
qed

text \<open>
  C23. A request with a timeout ends: as long as time passes while the bus sleeps and while it
  receives messages, it returns a response or raises, however many other messages arrive on its
  reply queue.
\<close>

theorem request_ends:
  assumes "clocked (b_env B) clk tick"
  shows "request B req (Some x) queue reply_arg s \<noteq> None"
proof -
  have "await_loop B cid (Some d) q t \<noteq> None" for cid d q t
  proof -
    have "0 < min tick (1 / 100)" using assms by (simp add: clocked_def)
    then obtain n where "d - clk (snd (snd (snd t))) < of_nat n * min tick (1 / 100)"
      using reals_Archimedean3 ex_less_of_nat_mult by blast
    then show ?thesis using await_loop_ends [OF assms, of d t n] by simp
  qed
  then have ends: "await_response B cid (Some x) q t \<noteq> None" for cid q t
    by (auto simp: await_response_def split: prod.split sum.split)
  show ?thesis
    unfolding request_def by (simp add: ends del: not_None_eq split: prod.split sum.split option.split)
qed

end
