(* ===== verification/BusJobs.thy ===== *)
theory BusJobs
  imports BusProps
begin

text \<open>
  Durable commands through a bus: what \<open>schedule_command\<close> leaves in the job store.
\<close>

lemma on_store_eq: "on_store m (s, p) = (r, (s', p')) \<longleftrightarrow> p' = p \<and> m s = (r, s')"
  by (auto simp: on_store_def split: prod.splits)

lemma on_rest_eq: "on_rest m (s, p) = (r, (s', p')) \<longleftrightarrow> s' = s \<and> m p = (r, p')"
  by (auto simp: on_rest_def split: prod.splits)

lemma seq_lift_cases:
  assumes "seq (lift_res x) f s = (r, s')"
  shows "(\<exists>e. x = Inl e \<and> r = Inl e \<and> s' = s) \<or> (\<exists>a. x = Inr a \<and> f a s = (r, s'))"
  using assms by (cases x) (auto simp: seq_def)

text \<open>The preparation of the command a call schedules.\<close>

definition scheduled_envelope :: "('s, 'p, 'h) pybus \<Rightarrow> 'p \<Rightarrow> outgoing \<Rightarrow> message_envelope res" where
  "scheduled_envelope B p msg = prepare_message (be_classes (b_env B)) (b_dispatcher B) (fresh_id (b_env B) p)
     (fresh_time (b_env B) p) msg ''command'' PNone No_Headers"

lemma scheduled_envelope_fields:
  assumes "scheduled_envelope B p (Out (Typed c fs)) = Inr e"
  shows "message_id e = PStr (fresh_id (b_env B) p)" "message_type e = PStr (tc_type (be_classes (b_env B) c))"
    "version e = PInt (tc_version (be_classes (b_env B) c))" "created_at e = PDateTime (at_utc (fresh_time (b_env B) p))"
  using assms
  by (auto simp: scheduled_envelope_def prepare_message_def prepare_typed_def validate_message_id_def copy_headers_def
      create_def or_val_def res_simps split: if_splits)

lemma improper_recurrence:
  assumes "b_job_store B = Some S" "schedule_command B msg run_at (Some Improper) idempotency_key (s, p) = (r, (s', p'))"
  shows "\<exists>x. r = Inl x \<and> s' = s"
  using assms by (cases "is_declared msg"; cases "validate_idempotency_key idempotency_key"; cases "validate_run_at run_at")
    (auto simp: schedule_command_def seq_def)

lemma schedule_command_cases:
  assumes "b_job_store B = Some S" "schedule_command B msg run_at rec idempotency_key (s, p) = (r, (s', p'))"
  shows "(\<exists>x. r = Inl x \<and> s' = s) \<or>
    (\<exists>key given e q due series fp d y. validate_idempotency_key idempotency_key = Inr key
       \<and> bind_res (validate_run_at run_at) opt_instant = Inr given \<and> is_declared msg
       \<and> scheduled_envelope B p msg = Inr e
       \<and> resolve_publication_queue (be_classes (b_env B)) (b_topology B) msg PNone = Inr q
       \<and> (case given of Some t \<Rightarrow> due = t | None \<Rightarrow> due = fresh_time (b_env B) p)
       \<and> normalized_end rec due = Inr series
       \<and> command_fingerprint e q given series = Inr fp \<and> command_draft e due q fp key = Inr d
       \<and> store_scheduled S d series due s = (y, s') \<and> r = bind_res y (\<lambda>rec. Inr (handle_from_record rec)))"
proof (cases "is_declared msg \<and> rec \<noteq> Some Improper")
  case False
  then consider "\<not> is_declared msg" | "rec = Some Improper" by blast
  then show ?thesis
  proof cases
    case 1
    then show ?thesis using assms by (auto simp: schedule_command_def)
  next
    case 2
    then show ?thesis using improper_recurrence [OF assms(1)] assms(2) by simp
  qed
next
  case True
  then obtain c fs where msg: "msg = Out (Typed c fs)"
    by (auto simp: is_declared_def split: outgoing.splits message.splits)
  let ?E = "scheduled_envelope B p msg" and ?Q = "resolve_publication_queue (be_classes (b_env B)) (b_topology B) msg PNone"
  have prep: "on_rest (prepare_command B msg PNone No_Headers) (s, p) = (?E, (s, after_draws (b_env B) p))"
    by (simp add: on_rest_def prepare_command_def bus_prepare_eq scheduled_envelope_def)
  show ?thesis
  proof (cases "validate_idempotency_key idempotency_key")
    case (Inr key)
    note key = this
    show ?thesis
    proof (cases "bind_res (validate_run_at run_at) opt_instant")
      case (Inr given)
      then obtain stamp where stamp: "validate_run_at run_at = Inr stamp" "opt_instant stamp = Inr given"
        by (auto simp: res_simps)
      show ?thesis
      proof (cases ?E)
        case (Inr e)
        note e = this
        show ?thesis
        proof (cases ?Q)
          case (Inr q)
          have created: "created_at e = PDateTime (at_utc (fresh_time (b_env B) p))"
            by (rule scheduled_envelope_fields(4) [OF e [unfolded msg]])
          define due where "due = (case given of Some t \<Rightarrow> t | None \<Rightarrow> fresh_time (b_env B) p)"
          have due': "case given of Some t \<Rightarrow> due = t | None \<Rightarrow> due = fresh_time (b_env B) p"
            by (simp add: due_def split: option.split)
          have run: "seq (lift_res (normalized_end rec due)) (\<lambda>series.
              seq (lift_res (command_fingerprint e q given series)) (\<lambda>fp.
              seq (lift_res (command_draft e due q fp key)) (\<lambda>d.
              seq (on_store (store_scheduled S d series due)) (\<lambda>record. ret (handle_from_record record)))))
              (s, after_draws (b_env B) p) = (r, (s', p'))"
            using assms True key stamp e Inr prep created due_def
            by (cases given) (simp_all add: schedule_command_def seq_def Let_def)
          show ?thesis
          proof (cases "\<exists>series fp d. normalized_end rec due = Inr series \<and> command_fingerprint e q given series = Inr fp
              \<and> command_draft e due q fp key = Inr d")
            case False
            then show ?thesis using run
              by (cases "normalized_end rec due"; cases "command_fingerprint e q given (projr (normalized_end rec due))")
                 (auto simp: seq_def split: sum.splits)
          next
            case True
            then obtain series fp d where fp: "normalized_end rec due = Inr series" "command_fingerprint e q given series = Inr fp"
              "command_draft e due q fp key = Inr d" by blast
            obtain y s1 where y: "store_scheduled S d series due s = (y, s1)" by (metis surj_pair)
            have "s1 = s' \<and> r = bind_res y (\<lambda>rec. Inr (handle_from_record rec))"
              using run fp y by (cases y) (auto simp: seq_def on_store_def)
            moreover have "bind_res (validate_run_at run_at) opt_instant = Inr given" using stamp by simp
            ultimately show ?thesis using key e \<open>?Q = Inr q\<close> fp y \<open>is_declared msg \<and> rec \<noteq> Some Improper\<close> due' by blast
          qed
        qed (use assms True key stamp e prep in \<open>auto simp: schedule_command_def seq_def\<close>)
      qed (use assms True key stamp prep in \<open>auto simp: schedule_command_def seq_def\<close>)
    qed (use assms True key prep in \<open>cases ?E; cases ?Q; auto simp: schedule_command_def seq_def res_simps\<close>)
  qed (use assms True in \<open>auto simp: schedule_command_def seq_def\<close>)
qed

lemma command_draft_fields:
  assumes "command_draft e t q fp key = Inr d"
  shows "d_queue d = q" "d_available_at d = t" "d_payload d = payload e" "d_fingerprint d = fp" "d_idempotency_key d = key"
    "message_id e = PStr (d_message_id d)" "message_type e = PStr (d_message_type d)" "version e = PInt (d_version d)"
    "headers e = PDict (d_headers d)"
  using assms by (auto simp: command_draft_def split: pyval.splits)

lemma schedule_outcome:
  assumes "schedule fresh d db = Inr (r, db')"
  shows "\<exists>j. r = record_of j \<and> j_fingerprint j = d_fingerprint d \<and> j_idempotency_key j = d_idempotency_key d
    \<and> (db' = db\<lparr>jobs := jobs db @ [j]\<rparr> \<and> j = new_job fresh d None None
       \<or> db' = db \<and> j \<in> set (jobs db) \<and> d_idempotency_key d \<noteq> None)"
proof (cases "insert_job (new_job fresh d None None) db")
  case (Inl x)
  obtain k where k: "d_idempotency_key d = Some k"
    using assms Inl by (cases "d_idempotency_key d") (simp_all add: schedule_def)
  obtain m where m: "find_job (\<lambda>r. j_idempotency_key r = Some k) db = Some m"
    using assms Inl k by (cases "find_job (\<lambda>r. j_idempotency_key r = Some k) db") (simp_all add: schedule_def)
  have eq: "j_fingerprint m = d_fingerprint d" "r = record_of m" "db' = db"
    using assms Inl k m by (simp_all add: schedule_def split: if_splits)
  have "m \<in> set (jobs db) \<and> j_idempotency_key m = Some k" using find_job_SomeD [OF m] .
  then show ?thesis using k eq by (intro exI [of _ m]) simp
next
  case (Inr db1)
  then have "r = record_of (new_job fresh d None None)" "db' = db\<lparr>jobs := jobs db @ [new_job fresh d None None]\<rparr>"
    using assms by (auto simp: schedule_def insert_job_def Let_def split: if_splits)
  then show ?thesis by (auto simp: new_job_def)
qed

text \<open>The same for a recurring command: a new series with its first occurrence, or the stored one.\<close>

lemma schedule_recurring_outcome:
  assumes "schedule_recurring zones fs fj d db = Inr ((sr, rec), db')"
  shows "\<exists>q0 j. rec = record_of j \<and> q_fingerprint q0 = sd_fingerprint d \<and> q_idempotency_key q0 = sd_idempotency_key d
    \<and> j_series j = Some (q_id q0) \<and> j_occurrence j = Some (q_latest q0)
    \<and> (db' = \<lparr>jobs = jobs db @ [j], series = series db @ [q0]\<rparr>
         \<and> (\<exists>z. zones (rc_timezone (sd_recurrence d)) = Some z \<and> new_series fs z d = Inr q0)
         \<and> j = new_job fj (sd_first d) (Some fs) (Some 1)
       \<or> db' = db \<and> j \<in> set (jobs db) \<and> q0 \<in> set (series db) \<and> sd_idempotency_key d \<noteq> None)"
proof -
  obtain z q where zq: "zones (rc_timezone (sd_recurrence d)) = Some z" "new_series fs z d = Inr q"
    using assms by (auto simp: schedule_recurring_def res_simps of_option_def split: option.splits)
  have qf: "q_id q = fs" "q_latest q = 1" "q_fingerprint q = sd_fingerprint d" "q_idempotency_key q = sd_idempotency_key d"
    using zq(2) by (auto simp: new_series_def res_simps Let_def)
  let ?occ = "new_job fj (sd_first d) (Some fs) (Some 1)"
  show ?thesis
  proof (cases "bind_res (insert_series q db) (insert_job ?occ)")
    case (Inr db1)
    then have "rec = record_of ?occ" "db' = db1" using assms zq by (simp_all add: schedule_recurring_def of_option_def Let_def)
    moreover have "db1 = \<lparr>jobs = jobs db @ [?occ], series = series db @ [q]\<rparr>"
      using Inr by (auto simp: res_simps insert_series_def insert_job_def split: if_splits)
    moreover have "j_series ?occ = Some fs" "j_occurrence ?occ = Some 1" by (simp_all add: new_job_def)
    ultimately show ?thesis using zq qf by (intro exI [of _ q] exI [of _ ?occ]) simp
  next
    case (Inl x)
    note fail = assms zq Inl
    obtain k where k: "sd_idempotency_key d = Some k"
      using fail by (cases "sd_idempotency_key d") (simp_all add: schedule_recurring_def of_option_def Let_def)
    obtain q0 where q0: "find (\<lambda>s. q_idempotency_key s = Some k) (series db) = Some q0"
      using fail k by (cases "find (\<lambda>s. q_idempotency_key s = Some k) (series db)")
        (simp_all add: schedule_recurring_def of_option_def Let_def)
    obtain j where j: "find_job (\<lambda>r. j_series r = Some (q_id q0) \<and> j_occurrence r = Some (q_latest q0)) db = Some j"
      using fail k q0 by (cases "find_job (\<lambda>r. j_series r = Some (q_id q0) \<and> j_occurrence r = Some (q_latest q0)) db")
        (simp_all add: schedule_recurring_def of_option_def Let_def split: if_splits)
    have "q_fingerprint q0 = sd_fingerprint d" "rec = record_of j" "db' = db"
      using fail k q0 j by (simp_all add: schedule_recurring_def of_option_def Let_def split: if_splits)
    moreover have "q0 \<in> set (series db)" "q_idempotency_key q0 = Some k" using q0 by (auto simp: find_Some_iff)
    ultimately show ?thesis using k find_job_SomeD [OF j] by (intro exI [of _ q0] exI [of _ j]) simp
  qed
qed

text \<open>The new job holds the command as it was prepared, waiting for its time.\<close>

definition scheduled_job :: "message_envelope \<Rightarrow> string \<Rightarrow> instant \<Rightarrow> job_row \<Rightarrow> bool" where
  "scheduled_job e q start j \<longleftrightarrow> j_state j = PENDING \<and> j_generation j = 0 \<and> j_queue j = q \<and> j_available_at j = start
     \<and> message_id e = PStr (j_message_id j) \<and> message_type e = PStr (j_message_type j)
     \<and> version e = PInt (j_version j) \<and> payload e = j_payload j \<and> headers e = PDict (j_headers j)"

lemma scheduled_new_job:
  "command_draft e t q fp key = Inr d \<Longrightarrow> scheduled_job e q t (new_job i d s n)"
  using command_draft_fields by (fastforce simp: scheduled_job_def new_job_def)

text \<open>
  C21. Scheduling a command stores one job or none: a failing call leaves the job store as it was;
  a successful one returns the handle of a job that is either a new pending job at the end of
  the table, with the command's prepared contents, a declared queue, and due at the requested
  time or when it was created, or the job stored before under the same idempotency key with
  the same fingerprint. A command with a recurrence adds one active series with that job as its
  first occurrence, or returns the latest occurrence of the series stored under the key.
\<close>

theorem schedule_command_one_job:
  assumes "b_job_store B = Some (django_backend zones in_atomic fresh fm)"
    and "schedule_command B msg run_at rec idempotency_key (db, p) = (r, (db', p'))"
  shows "(\<exists>x. r = Inl x \<and> db' = db) \<or>
    (\<exists>e q given start fp j. scheduled_envelope B p msg = Inr e \<and> has_queue (b_topology B) q
       \<and> resolve_publication_queue (be_classes (b_env B)) (b_topology B) msg PNone = Inr q
       \<and> bind_res (validate_run_at run_at) opt_instant = Inr given
       \<and> start = (case given of Some t \<Rightarrow> t | None \<Rightarrow> fresh_time (b_env B) p)
       \<and> r = Inr (handle_from_record (record_of j))
       \<and> (case rec of
            None \<Rightarrow> command_fingerprint e q given None = Inr fp \<and> j_fingerprint j = fp
              \<and> (db' = db\<lparr>jobs := jobs db @ [j]\<rparr> \<and> scheduled_job e q start j \<and> j_series j = None
                 \<or> db' = db \<and> j \<in> set (jobs db)
                   \<and> (\<exists>key. idempotency_key = PStr key \<and> j_idempotency_key j = Some key))
          | Some Improper \<Rightarrow> False
          | Some (Proper rc) \<Rightarrow> (\<exists>ends q0. opt_instant (rc_ends_at rc) = Inr ends \<and> (\<forall>t. ends = Some t \<longrightarrow> start < t)
              \<and> command_fingerprint e q given (Some (rc, ends)) = Inr fp \<and> q_fingerprint q0 = fp
              \<and> j_series j = Some (q_id q0) \<and> j_occurrence j = Some (q_latest q0)
              \<and> (db' = \<lparr>jobs = jobs db @ [j], series = series db @ [q0]\<rparr> \<and> scheduled_job e q start j
                   \<and> q_state q0 = S_ACTIVE \<and> q_latest q0 = 1 \<and> q_starts_at q0 = start \<and> q_queue q0 = q
                   \<and> q_cadence q0 = rc_cadence rc \<and> q_timezone q0 = rc_timezone rc \<and> q_payload q0 = payload e
                 \<or> db' = db \<and> j \<in> set (jobs db) \<and> q0 \<in> set (series db)
                   \<and> (\<exists>key. idempotency_key = PStr key \<and> q_idempotency_key q0 = Some key)))))"
  using schedule_command_cases [OF assms]
proof (elim disjE exE conjE)
  fix key given e q due0 ser fp d y
  assume key: "validate_idempotency_key idempotency_key = Inr key"
    and given: "bind_res (validate_run_at run_at) opt_instant = Inr given"
    and e: "scheduled_envelope B p msg = Inr e"
    and q: "resolve_publication_queue (be_classes (b_env B)) (b_topology B) msg PNone = Inr q"
    and due: "case given of Some t \<Rightarrow> due0 = t | None \<Rightarrow> due0 = fresh_time (b_env B) p"
    and ser: "normalized_end rec due0 = Inr ser"
    and fp: "command_fingerprint e q given ser = Inr fp" and d: "command_draft e due0 q fp key = Inr d"
    and y: "store_scheduled (django_backend zones in_atomic fresh fm) d ser due0 db = (y, db')"
    and r: "r = bind_res y (\<lambda>rec. Inr (handle_from_record rec))"
  note df = command_draft_fields [OF d]
  have due': "due0 = (case given of Some t \<Rightarrow> t | None \<Rightarrow> fresh_time (b_env B) p)" using due by (simp split: option.splits)
  have q': "has_queue (b_topology B) q" using declared_queue_ok q unfolding resolve_publication_queue_def by blast
  have kj: "\<exists>k. idempotency_key = PStr k \<and> key = Some k" if "key \<noteq> None"
    using that key by (auto simp: validate_idempotency_key_def split: pyval.splits if_splits)
  show ?thesis
  proof (cases rec)
    case None
    then have [simp]: "ser = None" using ser by (simp add: normalized_end_def)
    show ?thesis
    proof (cases "schedule (fresh db) d db")
      case (Inl x)
      then have "y = Inl x" "db' = db"
        using y by (auto simp: store_scheduled_def django_backend_def django_store_def atomic_op_def)
      then show ?thesis using r by simp
    next
      case (Inr z)
      then obtain rc where z: "schedule (fresh db) d db = Inr (rc, db')" and yr: "y = Inr rc"
        using y by (cases z) (auto simp: store_scheduled_def django_backend_def django_store_def atomic_op_def)
      from schedule_outcome [OF z] obtain j where j: "rc = record_of j" "j_fingerprint j = d_fingerprint d"
        "j_idempotency_key j = d_idempotency_key d"
        "db' = db\<lparr>jobs := jobs db @ [j]\<rparr> \<and> j = new_job (fresh db) d None None
           \<or> db' = db \<and> j \<in> set (jobs db) \<and> d_idempotency_key d \<noteq> None" by blast
      have "db' = db\<lparr>jobs := jobs db @ [j]\<rparr> \<and> scheduled_job e q due0 j \<and> j_series j = None
           \<or> db' = db \<and> j \<in> set (jobs db) \<and> (\<exists>key. idempotency_key = PStr key \<and> j_idempotency_key j = Some key)"
        using j(4)
      proof
        assume "db' = db\<lparr>jobs := jobs db @ [j]\<rparr> \<and> j = new_job (fresh db) d None None"
        moreover have "j_series (new_job (fresh db) d None None) = None" by (simp add: new_job_def)
        ultimately show ?thesis using scheduled_new_job [OF d] by metis
      qed (use j(3) kj df(5) in auto)
      then show ?thesis using e q q' given due' fp r yr j(1,2) df(4) None
        by (intro disjI2 exI [of _ e] exI [of _ q] exI [of _ given] exI [of _ due0] exI [of _ fp] exI [of _ j]) simp
    qed
  next
    case (Some ck)
    show ?thesis
    proof (cases ck)
      case Improper
      then show ?thesis using improper_recurrence [OF assms(1)] assms(2) Some by blast
    next
      case (Proper rc)
      then obtain ends where ends: "opt_instant (rc_ends_at rc) = Inr ends" "ser = Some (rc, ends)"
        "\<forall>t. ends = Some t \<longrightarrow> due0 < t"
        using ser Some that by (cases "opt_instant (rc_ends_at rc)") (auto simp: normalized_end_def split: option.splits if_splits)
      let ?d = "\<lparr>sd_first = d, sd_recurrence = rc, sd_starts_at = at_utc due0,
            sd_fingerprint = d_fingerprint d, sd_idempotency_key = d_idempotency_key d\<rparr>"
      show ?thesis
      proof (cases "schedule_recurring zones (fresh db) (fresh db + 1) ?d db")
        case (Inl x)
        then have "y = Inl x" "db' = db"
          using y ends by (auto simp: store_scheduled_def django_backend_def atomic_op_def seq_def)
        then show ?thesis using r by simp
      next
        case (Inr z)
        then obtain sr rj where z: "schedule_recurring zones (fresh db) (fresh db + 1) ?d db = Inr ((sr, rj), db')" and yr: "y = Inr rj"
          using y ends by (cases z) (auto simp: store_scheduled_def django_backend_def atomic_op_def seq_def)
        from schedule_recurring_outcome [OF z] obtain q0 j where j: "rj = record_of j" "q_fingerprint q0 = d_fingerprint d"
          "q_idempotency_key q0 = d_idempotency_key d" "j_series j = Some (q_id q0)" "j_occurrence j = Some (q_latest q0)"
          "db' = \<lparr>jobs = jobs db @ [j], series = series db @ [q0]\<rparr> \<and> (\<exists>z. new_series (fresh db) z ?d = Inr q0)
              \<and> j = new_job (fresh db + 1) d (Some (fresh db)) (Some 1)
           \<or> db' = db \<and> j \<in> set (jobs db) \<and> q0 \<in> set (series db) \<and> d_idempotency_key d \<noteq> None" by auto
        have "db' = \<lparr>jobs = jobs db @ [j], series = series db @ [q0]\<rparr> \<and> scheduled_job e q due0 j
             \<and> q_state q0 = S_ACTIVE \<and> q_latest q0 = 1 \<and> q_starts_at q0 = due0 \<and> q_queue q0 = q
             \<and> q_cadence q0 = rc_cadence rc \<and> q_timezone q0 = rc_timezone rc \<and> q_payload q0 = payload e
           \<or> db' = db \<and> j \<in> set (jobs db) \<and> q0 \<in> set (series db)
             \<and> (\<exists>key. idempotency_key = PStr key \<and> q_idempotency_key q0 = Some key)"
          using j(6)
        proof
          assume new: "db' = \<lparr>jobs = jobs db @ [j], series = series db @ [q0]\<rparr> \<and> (\<exists>z. new_series (fresh db) z ?d = Inr q0)
              \<and> j = new_job (fresh db + 1) d (Some (fresh db)) (Some 1)"
          then obtain z where "new_series (fresh db) z ?d = Inr q0" by blast
          then have "q_state q0 = S_ACTIVE \<and> q_latest q0 = 1 \<and> q_starts_at q0 = due0 \<and> q_queue q0 = q
             \<and> q_cadence q0 = rc_cadence rc \<and> q_timezone q0 = rc_timezone rc \<and> q_payload q0 = payload e"
            using df(1,3) by (auto simp: new_series_def res_simps Let_def)
          then show ?thesis using new scheduled_new_job [OF d] by blast
        qed (use kj df(5) j(3) in auto)
        then show ?thesis using e q q' given due' fp r yr j(1,2,4,5) df(4) Some Proper ends
          by (intro disjI2 exI [of _ e] exI [of _ q] exI [of _ given] exI [of _ due0] exI [of _ fp] exI [of _ j]) auto
      qed
    qed
  qed
qed blast

end
