(* ===== verification/BusSamples.thy ===== *)
theory BusSamples
  imports BusJobs
begin

text \<open>
  A concrete bus on the in-memory transport, with the Django job store and a clock that advances
  when the bus sleeps or receives, on which the theorems about buses are applied.
\<close>

definition ticking_transport :: "(rat \<times> mem) transport" where
  "ticking_transport = \<lparr>tp_publish = (\<lambda>c b. on_rest (mem_publish c b)),
     tp_consume = (\<lambda>c t (clk, m). let (r, m') = mem_consume c t m in (r, (clk + 1, m'))),
     tp_ack = (\<lambda>r. on_rest (mem_ack r)), tp_nack = (\<lambda>r q. on_rest (mem_nack r q)),
     tp_size = None, tp_consume_many = None\<rparr>"

definition no_dataclass :: "string \<Rightarrow> (string, pyval) dict \<Rightarrow> pyval res" where
  "no_dataclass n fs = Inl TypeError"

definition sample_env :: "(db, rat \<times> mem) bus_env" where
  "sample_env = \<lparr>be_transport = ticking_transport, be_attrs = (\<lambda>f. None), be_members = (\<lambda>h. []),
     be_classes = (\<lambda>c. sample_class), be_build = no_dataclass,
     be_handle = (\<lambda>h m. ret H_None), be_handle_batch = (\<lambda>h ms. ret H_None),
     be_utc_now = (\<lambda>p. (63000000000000000, p)), be_uuid = (\<lambda>p. (''u1'', p)),
     be_monotonic = (\<lambda>(clk, m). (clk, (clk, m))), be_sleep = (\<lambda>x (clk, m). (clk + x, m))\<rparr>"

definition sample_bus :: "(db, rat \<times> mem, unit) pybus" where
  "sample_bus =
     (let D = \<lparr>dp_registry = empty_registry, dp_codec = python_codec empty_types no_dataclass\<rparr>;
          store = Some (django_backend sample_zones False (\<lambda>db. length (jobs db)) (\<lambda>db. [])) in
      \<lparr>b_env = sample_env, b_dispatcher = D, b_topology = DEFAULT_QUEUE_TOPOLOGY,
       b_listener = bus_listener sample_env D DEFAULT_QUEUE_TOPOLOGY [] (bus_controller sample_env store default_policy),
       b_reply_queue = default_reply_queue_name ''r1'', b_hook_factories = [], b_observers = [],
       b_job_store = store, b_job_policy = default_policy\<rparr>)"

lemma sample_bus_is_new:
  "configured_bus sample_env ''r1'' \<lparr>ba_dispatcher = None, ba_topology = None, ba_handler_targets = [],
     ba_payload_codec = None, ba_hook_factories = [], ba_observers = [],
     ba_job_store = Supplied (Some (django_backend sample_zones False (\<lambda>db. length (jobs db)) (\<lambda>db. []))),
     ba_job_policy = Unset, ba_command_store = Unset, ba_command_policy = Unset\<rparr> = Inr sample_bus"
  by (simp add: configured_bus_def either_argument_def check_policy_def all_proper_def sample_bus_def Let_def
      resolve_payload_codec_def) (simp add: sample_env_def)

definition sample_command :: outgoing where
  "sample_command = Out (Typed 7 [(''amount'', PInt 5), (''note'', PNone)])"

lemma sample_fields [simp]:
  "b_env sample_bus = sample_env" "b_topology sample_bus = DEFAULT_QUEUE_TOPOLOGY"
  "dp_codec (b_dispatcher sample_bus) = python_codec empty_types no_dataclass"
  "dp_registry (b_dispatcher sample_bus) = empty_registry" "be_classes sample_env = (\<lambda>c. sample_class)"
  "be_transport sample_env = ticking_transport" "be_utc_now sample_env = (\<lambda>p. (63000000000000000, p))"
  "be_uuid sample_env = (\<lambda>p. (''u1'', p))" "fresh_id sample_env p = ''u1''"
  "fresh_time sample_env p = 63000000000000000" "after_draws sample_env p = p"
  by (simp_all add: sample_bus_def sample_env_def fresh_id_def fresh_time_def after_draws_def Let_def)

definition sent_envelope :: message_envelope where
  "sent_envelope = \<lparr>message_id = PStr ''u1'', message_type = PStr ''pay'', message_kind = PStr ''command'',
     version = PInt 2, payload = PDict [(''amount'', PInt 5), (''note'', PNone)], headers = PDict [],
     created_at = PDateTime (at_utc 63000000000000000), correlation_id = PNone, causation_id = PNone, reply_to = PNone,
     expires_at = PNone, content_type = PNone, content_encoding = PNone\<rparr>"

lemma sample_prepared:
  "prepare_message (\<lambda>c. sample_class) (b_dispatcher sample_bus) ''u1'' 63000000000000000 sample_command ''command'' PNone
     No_Headers = Inr sent_envelope"
  by (simp add: prepare_message_def validate_message_id_def copy_headers_def sample_command_def prepare_typed_def
      sample_class_def empty_registry_def python_codec_def map_entries_def has_key_def CODEC_KEY_def create_def or_val_def
      sent_envelope_def)

lemma sent_envelope_wire: "\<exists>raw. to_wire sent_envelope = Inr raw"
proof -
  have "wf_envelope sent_envelope" "serializable (payload sent_envelope)" "serializable (headers sent_envelope)"
    by (simp_all add: sent_envelope_def wf_envelope_def valid_envelope_def reserved_types_def TYPE_KEY_def
        dict_wf_def valid_datetime_def at_utc_def in_range_def)
  from wire_round_trip [OF this, of 0] show ?thesis by (cases "to_wire sent_envelope") auto
qed

lemma sample_queue:
  "resolve_publication_queue (\<lambda>c. sample_class) DEFAULT_QUEUE_TOPOLOGY sample_command PNone = Inr DEFAULT_QUEUE_NAME"
proof -
  have "strip DEFAULT_QUEUE_NAME \<noteq> []" by code_simp
  then show ?thesis
    by (simp add: resolve_publication_queue_def sample_command_def sample_class_def declared_queue_def validate_queue_name_def
        has_queue_def queues_def DEFAULT_QUEUE_TOPOLOGY_def)
qed

theorem bus_publish_well_formed_witness:
  "\<exists>raw. bus_publish sample_bus sample_command ''command'' PNone PNone No_Headers (0, [])
      = (Inr sent_envelope, (0, [(DEFAULT_QUEUE_NAME, [raw])]))
    \<and> to_wire sent_envelope = Inr raw \<and> valid_envelope sent_envelope"
proof -
  obtain raw where raw: "to_wire sent_envelope = Inr raw" using sent_envelope_wire by blast
  obtain r p' where run: "bus_publish sample_bus sample_command ''command'' PNone PNone No_Headers (0, []) = (r, p')"
    by (metis surj_pair)
  have q: "or_str (Some DEFAULT_QUEUE_NAME) d = DEFAULT_QUEUE_NAME" for d by (simp add: or_str_def DEFAULT_QUEUE_NAME_def)
  have eq: "r = Inr sent_envelope" "p' = (0, [(DEFAULT_QUEUE_NAME, [raw])])"
    using run by (auto simp: bus_publish_def seq_def bus_prepare_eq sample_prepared sample_queue bus_publish_envelope_def raw q
        ticking_transport_def on_rest_def mem_publish_def mem_queue_def)
  from bus_publish_well_formed [OF run] have "valid_envelope sent_envelope"
    unfolding eq(1) by (auto simp: res_simps eq_commute [of "Inr sent_envelope"])
  then show ?thesis using run raw eq by auto
qed

definition sample_request :: base_message where
  "sample_request = \<lparr>bm_class = RequestMessage, bm_message_type = PStr ''quote'', bm_payload = PDict [],
     bm_headers = PDict [], bm_correlation_id = PNone, bm_causation_id = PNone, bm_reply_to = PNone,
     bm_expires_at = PNone, bm_content_type = PNone, bm_content_encoding = PNone\<rparr>"

text \<open>A response that already waits in the coordinator, and one for another request.\<close>

definition buffered_response :: "string \<Rightarrow> message_envelope" where
  "buffered_response cid = \<lparr>message_id = PStr ''m9'', message_type = PStr ''quote'', message_kind = PStr ''response'',
     version = PInt 1, payload = PInt 42, headers = PDict [], created_at = PNone, correlation_id = PStr cid,
     causation_id = PNone, reply_to = PNone, expires_at = PNone, content_type = PNone, content_encoding = PNone\<rparr>"

definition waiting_world :: "(db, rat \<times> mem) bworld" where
  "waiting_world = (\<lparr>co_responses = [(PStr ''u1'', buffered_response ''u1''), (PStr ''u2'', buffered_response ''u2'')],
     co_deadlines = []\<rparr>, \<lparr>batch_started_at = [], batch_retry_after = [], history = []\<rparr>, empty_db, (0, []))"

definition request_envelope :: message_envelope where
  "request_envelope = \<lparr>message_id = PStr ''u1'', message_type = PStr ''quote'', message_kind = PStr ''request'',
     version = PInt 1, payload = PDict [], headers = PDict [], created_at = PDateTime (at_utc 63000000000000000),
     correlation_id = PStr ''u1'', causation_id = PNone, reply_to = PStr ''pybus.responses.r1'',
     expires_at = PDateTime (at_utc 63000000005000000), content_type = PNone, content_encoding = PNone\<rparr>"

lemma request_envelope_wire: "\<exists>raw. to_wire request_envelope = Inr raw"
proof -
  have "wf_envelope request_envelope" "serializable (payload request_envelope)" "serializable (headers request_envelope)"
    by (simp_all add: request_envelope_def wf_envelope_def valid_envelope_def reserved_types_def TYPE_KEY_def
        dict_wf_def valid_datetime_def at_utc_def in_range_def)
  from wire_round_trip [OF this, of 0] show ?thesis by (cases "to_wire request_envelope") auto
qed

lemma sample_prepared_request:
  "prepare_request (python_codec empty_types no_dataclass) ''u1'' ''u1'' 63000000000000000 sample_request (Some 5) PNone
     (reply_queue_for sample_bus sample_request None) None = Inr (request_envelope,
     \<lparr>tk_correlation_id = PStr ''u1'', tk_request_id = PStr ''u1'', tk_reply_to = PStr ''pybus.responses.r1'',
      tk_expires_at = PDateTime (at_utc 63000000005000000)\<rparr>)"
  by (simp add: prepare_request_def sample_request_def reply_queue_for_def opt_str_def sample_bus_def Let_def or_val_def
      default_reply_queue_name_def plus_seconds_def seconds_def half_even_def at_utc_def in_range_def python_codec_def
      map_entries_def has_key_def CODEC_KEY_def create_def request_envelope_def RequestMessage_def)

theorem request_gets_its_response_witness:
  "\<exists>m s' response. request sample_bus sample_request (Some 5) None None waiting_world = Some (Inr m, s')
    \<and> bm_payload m = PInt 42 \<and> correlation_id (response :: message_envelope) = PStr ''u1''
    \<and> read_response sample_bus response = Inr m"
proof -
  obtain raw where raw: "to_wire request_envelope = Inr raw" using request_envelope_wire by blast
  let ?m = "\<lparr>bm_class = ResponseMessage, bm_message_type = PStr ''quote'', bm_payload = PInt 42, bm_headers = PDict [],
     bm_correlation_id = PStr ''u1'', bm_causation_id = PNone, bm_reply_to = PNone, bm_expires_at = PNone,
     bm_content_type = PNone, bm_content_encoding = PNone\<rparr>"
  have read: "read_response sample_bus (buffered_response ''u1'') = Inr ?m"
    by (simp add: read_response_def buffered_response_def message_class_for_kind_def MESSAGE_KIND_TO_CLASS_def
        EventMessage_def CommandMessage_def RequestMessage_def ResponseMessage_def from_envelope_def python_codec_def
        value_kind_def has_key_def py_get_def map_entries_def message_validate_def reserved_types_def)
  have ok: "co_ok (fst waiting_world)" by (simp add: co_ok_def waiting_world_def dict_wf_def buffered_response_def)
  obtain x s1 where x: "in_rest (send_request sample_bus sample_request (Some 5) None None) waiting_world = (x, s1)"
    by (metis surj_pair)
  have "x = Inr \<lparr>tk_correlation_id = PStr ''u1'', tk_request_id = PStr ''u1'', tk_reply_to = PStr ''pybus.responses.r1'',
      tk_expires_at = PDateTime (at_utc 63000000005000000)\<rparr> \<and> fst s1 = fst waiting_world"
    using x by (auto simp: in_rest_def waiting_world_def send_request_def seq_def take_reading_def sample_prepared_request raw
        ticking_transport_def on_rest_def mem_publish_def)
  then obtain s2 where await: "await_response sample_bus (PStr ''u1'') (Some 5)
      (reply_queue_for sample_bus sample_request None) s1 = Some (Inr (buffered_response ''u1''), s2)"
    by (cases s1) (auto simp: await_response_def in_rest_def take_reading_def sample_env_def waiting_world_def
        await_loop.simps await_step_def on_coordinator_def seq_def take_response_def split: prod.splits)
  have run: "request sample_bus sample_request (Some 5) None None waiting_world = Some (Inr ?m, s2)"
    using x \<open>x = _ \<and> _\<close> await read by (simp add: request_def)
  obtain e t p1 response where own: "prepared_request sample_bus sample_request (Some 5) None (snd (snd (snd waiting_world)))
        = (Inr (e, t), p1)" "correlation_id response = correlation_id e" "read_response sample_bus response = Inr ?m"
    using request_gets_its_response [OF ok run] by blast
  have "correlation_id e = PStr ''u1''"
    using own(1) by (auto simp: prepared_request_def waiting_world_def sample_prepared_request request_envelope_def)
  then show ?thesis using run own(2,3) by (intro exI [of _ ?m] exI [of _ s2] exI [of _ response]) simp
qed

lemma sample_clocked: "clocked sample_env fst 1"
  by (auto simp: clocked_def sample_env_def ticking_transport_def split: prod.splits)

theorem request_ends_witness:
  "request sample_bus sample_request (Some 5) None None (new_coordinator, \<lparr>batch_started_at = [], batch_retry_after = [],
     history = []\<rparr>, empty_db, (0, [])) \<noteq> None"
  by (rule request_ends [of _ fst 1]) (simp add: sample_clocked)

theorem schedule_command_one_job_witness:
  "\<exists>h j. schedule_command sample_bus sample_command PNone None (PStr ''k'') (empty_db, (0, []))
      = (Inr h, (\<lparr>jobs = [j], series = []\<rparr>, (0, []))) \<and> j_state j = PENDING \<and> j_queue j = DEFAULT_QUEUE_NAME"
proof -
  have "serializable (PDict ([(''message_type'', message_type sent_envelope), (''version'', version sent_envelope),
      (''payload'', payload sent_envelope), (''headers'', headers sent_envelope), (''queue'', PStr DEFAULT_QUEUE_NAME)]))"
    by (simp add: sent_envelope_def dict_wf_def)
  then obtain fp where fp: "command_fingerprint sent_envelope DEFAULT_QUEUE_NAME None None = Inr fp"
    using dumps_serializable unfolding command_fingerprint_def by fastforce
  obtain r db' p' where run: "schedule_command sample_bus sample_command PNone None (PStr ''k'') (empty_db, (0, []))
      = (r, (db', p'))" by (metis surj_pair)
  have key: "validate_idempotency_key (PStr ''k'') = Inr (Some ''k'')"
    by (simp add: validate_idempotency_key_def) code_simp
  have store: "b_job_store sample_bus = Some (django_backend sample_zones False (\<lambda>db. length (jobs db)) (\<lambda>db. []))"
    by (simp add: sample_bus_def Let_def)
  define d where "d = \<lparr>d_message_id = ''u1'', d_message_type = ''pay'', d_version = 2, d_payload = payload sent_envelope,
     d_headers = [], d_created_at = 63000000000000000, d_available_at = 63000000000000000, d_queue = DEFAULT_QUEUE_NAME,
     d_fingerprint = fp, d_idempotency_key = Some ''k''\<rparr>"
  have draft: "command_draft sent_envelope 63000000000000000 DEFAULT_QUEUE_NAME fp (Some ''k'') = Inr d"
    by (simp add: command_draft_def sent_envelope_def d_def)
  have prep: "on_rest (prepare_command sample_bus sample_command PNone No_Headers) (empty_db, (0, [])) = (Inr sent_envelope, (empty_db, (0, [])))"
    by (simp add: on_rest_def prepare_command_def bus_prepare_eq sample_prepared)
  have declared: "is_declared sample_command" by (simp add: is_declared_def sample_command_def)
  have created: "created_at sent_envelope = PDateTime (at_utc 63000000000000000)" by (simp add: sent_envelope_def)
  let ?S = "django_backend sample_zones False (\<lambda>db. length (jobs db)) (\<lambda>db. [])"
  have stored: "so_schedule (jb_ops ?S) d empty_db
      = (Inr (record_of (new_job 0 d None None)), \<lparr>jobs = [new_job 0 d None None], series = []\<rparr>)"
    by (simp add: django_backend_def django_store_def atomic_op_def schedule_def insert_job_def empty_db_def Let_def)
  have run': "r = Inr (handle_from_record (record_of (new_job 0 d None None)))" "p' = (0, [])"
      "db' = \<lparr>jobs = [new_job 0 d None None], series = []\<rparr>"
    using run by (auto simp: schedule_command_def store declared key validate_run_at_def prep seq_def created
        opt_instant_def sample_queue fp draft normalized_end_def store_scheduled_def on_store_def stored Let_def)
  from schedule_command_one_job [OF store run] obtain j where j:
      "db' = empty_db\<lparr>jobs := jobs empty_db @ [j]\<rparr>" "j_state j = PENDING" "j_queue j = DEFAULT_QUEUE_NAME"
    using run' by (auto simp: sample_queue empty_db_def scheduled_job_def)
  then have "\<exists>h. schedule_command sample_bus sample_command PNone None (PStr ''k'') (empty_db, (0, []))
      = (Inr h, (\<lparr>jobs = [j], series = []\<rparr>, (0, [])))"
    using run run' by (simp add: empty_db_def)
  then show ?thesis using j by blast
qed

end
