(* ===== verification/Delivery.thy ===== *)
theory Delivery
  imports Travel BusSamples
begin

text \<open>
  From the sender to the handler: what one call of the bus publishes, one call of the listener
  hands to the registered handler, through the codec, the envelope, JSON and the transport.
\<close>

section \<open>The envelope of a declared message\<close>









section \<open>The listener hands it over\<close>









section \<open>From the sender to the handler\<close>













end
