(* ===== verification/RetryLimit.thy ===== *)
theory RetryLimit
  imports ListenerSafety DurableFlow
begin

text \<open>
  The retry limit holds across deliveries: the count a failed delivery raises is the one the
  next listener reads from the wire, so a message whose deliveries keep failing is sent again a
  bounded number of times and then dead-lettered.
\<close>

section \<open>What a failed delivery sends\<close>

text \<open>An envelope the wire carries, of which the listener can read the retry count.\<close>

definition countable :: "'w listener \<Rightarrow> message_envelope \<Rightarrow> nat \<Rightarrow> bool" where
  "countable L e n \<longleftrightarrow> wf_envelope e \<and> serializable (payload e) \<and> serializable (headers e) \<and> retry_count L e = Inr n"

text \<open>The parts of a message that no redelivery changes.\<close>

definition same_delivery :: "message_envelope \<Rightarrow> message_envelope \<Rightarrow> bool" where
  "same_delivery e e' \<longleftrightarrow> message_id e' = message_id e \<and> message_type e' = message_type e
     \<and> message_kind e' = message_kind e \<and> version e' = version e \<and> created_at e' = created_at e
     \<and> correlation_id e' = correlation_id e \<and> causation_id e' = causation_id e \<and> reply_to e' = reply_to e
     \<and> expires_at e' = expires_at e"

text \<open>What \<open>history\<close> records of a message that was sent and then acknowledged.\<close>

definition sent_once :: "string option \<Rightarrow> string \<Rightarrow> bytes \<Rightarrow> event list" where
  "sent_once receipt channel b = Published receipt channel b # (case receipt of None \<Rightarrow> [] | Some r \<Rightarrow> [Acked r])"

definition records :: "('w lworld, 'a) prog \<Rightarrow> ('a \<Rightarrow> event list \<Rightarrow> bool) \<Rightarrow> bool" where
  "records m P \<longleftrightarrow> (\<forall>s a s'. m s = (Inr a, s') \<longrightarrow> (\<exists>evs. history (fst s') = history (fst s) @ evs \<and> P a evs))"

lemma records_seq:
  assumes "records m P" "\<And>a evs. P a evs \<Longrightarrow> records (f a) (\<lambda>b evs'. Q b (evs @ evs'))"
  shows "records (seq m f) Q"
  unfolding records_def
proof (intro allI impI)
  fix s b s' assume "seq m f s = (Inr b, s')"
  then obtain a t where a: "m s = (Inr a, t)" "f a t = (Inr b, s')" by (auto simp: seq_def split: prod.splits sum.splits)
  obtain evs where evs: "history (fst t) = history (fst s) @ evs" "P a evs" using assms(1) a(1) unfolding records_def by blast
  obtain evs' where "history (fst s') = history (fst t) @ evs'" "Q b (evs @ evs')"
    using assms(2) [OF evs(2)] a(2) unfolding records_def by blast
  then show "\<exists>evs. history (fst s') = history (fst s) @ evs \<and> Q b evs" using evs(1) by auto
qed

lemma records_quiet: "quiet m \<Longrightarrow> records m (\<lambda>_ evs. evs = [])"
proof -
  assume "quiet m"
  then have "history (fst s') = history (fst s)" if "m s = (r, s')" for s r s'
    using keepsD [of hist m s r s'] that by (simp add: quiet_def)
  then show ?thesis by (simp add: records_def)
qed

lemma records_lift: "records (lift_res r) (\<lambda>a evs. r = Inr a \<and> evs = [])"
  by (simp add: records_def)

lemma records_note: "records (note_event ev) (\<lambda>_ evs. evs = [ev])"
  by (auto simp: records_def note_event_def)

lemma records_weaken: "records m P \<Longrightarrow> (\<And>a evs. P a evs \<Longrightarrow> Q a evs) \<Longrightarrow> records m Q"
  unfolding records_def by blast

lemma records_settle: "records m P \<Longrightarrow> records (settle_after_claim m) P"
proof -
  assume m: "records m P"
  have "m s = (Inr a, s')" if "settle_after_claim m s = (Inr a, s')" for s a s'
    using that by (auto simp: settle_after_claim_def wrap_errors_def try_catch_def split: prod.splits sum.splits)
  then show ?thesis using m unfolding records_def by blast
qed

lemma records_checkpoint: "records (checkpoint_durable_settlement L e st src dst n mx la p) (\<lambda>_ evs. evs = [])"
proof (cases "l_controller L")
  case None
  then show ?thesis by (simp add: checkpoint_durable_settlement_def records_def)
next
  case (Some ct)
  let ?m = "seq (draw (ct_now ct)) (\<lambda>t. world (checkpoint (ct_store ct) (ct_policy ct) t e st src dst n mx la))"
  have "quiet ?m" by (intro quiet_rules)
  then have "records ?m (\<lambda>_ evs. evs = [])" by (rule records_quiet)
  moreover have "fst (restore_and_abort L src e WorkerAbortError p s) \<noteq> Inr a" for s and a :: unit
    by (auto simp: restore_and_abort_def seq_def split: prod.splits sum.splits)
  ultimately show ?thesis
    using Some unfolding checkpoint_durable_settlement_def records_def try_catch_def
    by (auto split: prod.splits sum.splits) (metis fst_conv)
qed

lemma records_ack: "records (ack_claim L receipt) (\<lambda>_ evs. evs = (case receipt of None \<Rightarrow> [] | Some r \<Rightarrow> [Acked r]))"
proof (cases receipt)
  case (Some r)
  have "records (settle_after_claim (world (tp_ack (l_transport L) r))) (\<lambda>_ evs. evs = [])"
    by (intro records_settle records_quiet quiet_rules)
  then show ?thesis unfolding ack_claim_def Some option.case
    by (rule records_seq) (auto intro: records_weaken [OF records_note])
qed (simp add: ack_claim_def records_def)

lemma create_valid: "valid_envelope e \<Longrightarrow> is_stamp (created_at e) \<Longrightarrow> create u t e = e"
  by (cases "headers e") (auto simp: create_def or_val_def valid_envelope_def is_stamp_iff split: if_splits)

lemma records_send:
  assumes "wf_envelope e"
  shows "records (settle_after_claim (seq (create_envelope L e) (publish_envelope L receipt channel)))
    (\<lambda>_ evs. \<exists>b. to_wire e = Inr b \<and> evs = [Published receipt channel b])"
proof -
  have same: "create u t e = e" for u t using assms by (simp add: create_valid wf_envelope_def)
  have create: "records (create_envelope L e) (\<lambda>x evs. x = e \<and> evs = [])"
    unfolding create_envelope_def same records_def by (auto simp: seq_def draw_def split: prod.splits)
  have "records (publish_envelope L receipt channel e) (\<lambda>_ evs. \<exists>b. to_wire e = Inr b \<and> evs = [Published receipt channel b])"
    unfolding publish_envelope_def
    by (rule records_seq [OF records_lift], rule records_seq [OF records_quiet [OF quiet_basic(1)]])
       (auto intro: records_weaken [OF records_note])
  then show ?thesis by (intro records_settle records_seq [OF create]) auto
qed

lemma settled_twice:
  assumes "wf_envelope e"
  shows "records (seq (settle_after_claim (seq (create_envelope L e) (publish_envelope L receipt channel))) (\<lambda>_.
     seq (ack_claim L receipt) (\<lambda>_. notify_command_outcome L e' st src dst n mx b)))
    (\<lambda>_ evs. \<exists>b. to_wire e = Inr b \<and> evs = sent_once receipt channel b)"
  by (rule records_seq [OF records_send [OF assms]], rule records_seq [OF records_ack])
     (auto simp: sent_once_def intro: records_weaken [OF records_quiet [OF quiet_notify]])

section \<open>The envelope that is sent\<close>

lemma serializable_canon: "serializable v \<Longrightarrow> serializable (canon v)"
proof (induction v)
  case (PDict d)
  then have "dict_wf (map (\<lambda>(k, v). (k, canon v)) d)" by (simp add: dict_wf_def comp_def case_prod_beta)
  then have "dict_wf (sort_key fst (map (\<lambda>(k, v). (k, canon v)) d))" by (simp only: dict_wf_sort_key)
  then show ?case using PDict by fastforce
qed auto

lemma env_headers_dict: "wf_envelope e \<Longrightarrow> headers e = PDict (env_headers e)"
  by (auto simp: wf_envelope_def valid_envelope_def env_headers_def is_dict_iff)

lemma retry_envelope_ok:
  assumes "wf_envelope e" "serializable (payload e)" "serializable (headers e)"
  shows "wf_envelope (retry_envelope typed n t e)" "serializable (payload (retry_envelope typed n t e))"
    "serializable (headers (retry_envelope typed n t e))"
proof -
  let ?e = "retry_envelope typed n t e"
  have keys: "''retries'' \<noteq> TYPE_KEY" "''last_attempt'' \<noteq> TYPE_KEY" by (simp_all add: TYPE_KEY_def)
  have up: "wf_value (PDict (AList.update ''last_attempt'' (PStr a) (AList.update ''retries'' (PInt i) d)))"
    "serializable (PDict (AList.update ''last_attempt'' (PStr a) (AList.update ''retries'' (PInt i) d)))"
    if "wf_value (PDict d)" "serializable (PDict d)" for d i a
    using that keys by (auto intro!: wf_value_update serializable_update simp del: wf_value.simps(5) serializable.simps(3))
  have h: "wf_value (PDict (env_headers e))" "serializable (PDict (env_headers e))"
    using assms env_headers_dict [OF assms(1)] by (auto simp: wf_envelope_def)
  have hd: "wf_value (headers ?e)" "serializable (headers ?e)" "is_dict (headers ?e)"
    using up [OF h] by (simp_all add: retry_envelope_def del: wf_value.simps(5) serializable.simps(3))
  have pl: "wf_value (payload ?e)" "serializable (payload ?e)"
  proof -
    have p: "wf_value (payload e)" using assms(1) by (simp add: wf_envelope_def)
    consider d where "\<not> typed" "payload e = PDict d" "payload ?e = PDict (next_retry_payload d (at_utc t) (Some n))"
      | "payload ?e = payload e" by (cases typed; cases "payload e") (simp_all add: retry_envelope_def)
    then have "wf_value (payload ?e) \<and> serializable (payload ?e)"
    proof cases
      case 1
      then show ?thesis using up [of d] p assms(2)
        by (simp add: next_retry_payload_def del: wf_value.simps(5) serializable.simps(3))
    qed (use p assms(2) in simp)
    then show "wf_value (payload ?e)" "serializable (payload ?e)" by simp_all
  qed
  show "wf_envelope ?e" using assms(1) hd pl by (simp add: wf_envelope_def valid_envelope_def retry_envelope_def)
  show "serializable (payload ?e)" "serializable (headers ?e)" by (rule pl hd)+
qed

lemma header_canon:
  assumes "wf_envelope e" shows "py_get (env_headers (canon_envelope e)) k = canon (py_get (env_headers e) k)"
proof -
  have d: "is_dict (headers e)" using assms by (simp add: wf_envelope_def valid_envelope_def)
  have "wf_value (headers e)" using assms by (simp add: wf_envelope_def)
  then have "dict_wf (env_headers e)" by (subst (asm) env_headers_dict [OF assms]) (simp only: wf_value.simps)
  with d show ?thesis by (simp add: env_headers_canon [OF refl] py_get_canon)
qed

lemma same_type:
  "message_kind e' = message_kind e \<Longrightarrow> message_type e' = message_type e \<Longrightarrow> is_typed L e' = is_typed L e"
  by (simp add: is_typed_def)

lemma retry_count_next:
  assumes "countable L e n"
  shows "countable L (canon_envelope (retry_envelope typed n t e)) (n + 1)"
    "same_delivery e (canon_envelope (retry_envelope typed n t e))"
proof -
  let ?r = "retry_envelope typed n t e"
  note ok = retry_envelope_ok [of e typed n t]
  have e: "wf_envelope e" "serializable (payload e)" "serializable (headers e)" "retry_count L e = Inr n"
    using assms by (simp_all add: countable_def)
  obtain ty where ty: "is_typed L e = Inr ty" using e(4) by (auto simp: retry_count_def res_simps)
  have "py_get (env_headers (canon_envelope ?r)) ''retries'' = PInt (int (n + 1))"
    by (simp add: header_canon [OF ok(1) [OF e(1-3)]]) (simp add: retry_envelope_def env_headers_def py_get_def update_conv')
  moreover have "is_typed L (canon_envelope ?r) = Inr ty"
    using ty by (subst same_type [of _ e]) (simp_all add: canon_envelope_def retry_envelope_def)
  ultimately have "retry_count L (canon_envelope ?r) = Inr (n + 1)"
    by (simp add: retry_count_def resolve_retry_count_header)
  then show "countable L (canon_envelope ?r) (n + 1)"
    using ok [OF e(1-3)] wf_canon_envelope serializable_canon by (simp add: countable_def) (simp add: canon_envelope_def)
  show "same_delivery e (canon_envelope ?r)" by (simp add: same_delivery_def canon_envelope_def retry_envelope_def)
qed

text \<open>The same for the dead letter, which names the channel it failed on and keeps the count.\<close>

lemma dead_letter_next:
  assumes "countable L e n"
  shows "wf_envelope (dead_letter_envelope channel e)" "serializable (payload (dead_letter_envelope channel e))"
    "serializable (headers (dead_letter_envelope channel e))"
    "py_get (env_headers (canon_envelope (dead_letter_envelope channel e))) ''dead_lettered_from'' = PStr channel"
    "retry_count L (canon_envelope (dead_letter_envelope channel e)) = Inr n"
    "same_delivery e (canon_envelope (dead_letter_envelope channel e))"
proof -
  let ?r = "dead_letter_envelope channel e"
  have e: "wf_envelope e" "serializable (payload e)" "serializable (headers e)" "retry_count L e = Inr n"
    using assms by (simp_all add: countable_def)
  have h: "wf_value (PDict (env_headers e))" "serializable (PDict (env_headers e))"
    using e env_headers_dict [OF e(1)] by (auto simp: wf_envelope_def)
  have hd: "wf_value (headers ?r)" "serializable (headers ?r)"
    using h by (auto simp: dead_letter_envelope_def intro!: wf_value_update serializable_update
        simp del: wf_value.simps(5) serializable.simps(3))
  show wf: "wf_envelope ?r" using e(1) hd(1) by (simp add: wf_envelope_def valid_envelope_def dead_letter_envelope_def)
  show "serializable (payload ?r)" "serializable (headers ?r)" using e(2) hd(2) by (simp_all add: dead_letter_envelope_def)
  show "py_get (env_headers (canon_envelope ?r)) ''dead_lettered_from'' = PStr channel"
    by (simp add: header_canon [OF wf]) (simp add: dead_letter_envelope_def env_headers_def py_get_def update_conv')
  have same: "valid_retry_count (py_get (env_headers (canon_envelope ?r)) ''retries'') = valid_retry_count (py_get (env_headers e) ''retries'')"
    by (simp add: header_canon [OF wf]) (cases "py_get (env_headers e) ''retries''";
        simp add: dead_letter_envelope_def env_headers_def py_get_def update_conv')
  obtain ty where ty: "is_typed L e = Inr ty" using e(4) by (auto simp: retry_count_def res_simps)
  moreover have "is_typed L (canon_envelope ?r) = Inr ty"
    using ty by (subst same_type [of _ e]) (simp_all add: canon_envelope_def dead_letter_envelope_def)
  moreover have "resolve_retry_count (retry_payload ty (canon_envelope ?r)) (env_headers (canon_envelope ?r))
      = resolve_retry_count (retry_payload ty e) (env_headers e)"
  proof -
    have "valid_retry_count (py_get (sort_key fst (map (\<lambda>(k, v). (k, canon v)) d)) ''retries'') = valid_retry_count (py_get d ''retries'')"
      if "payload e = PDict d" for d
    proof -
      have "wf_value (payload e)" using e(1) by (simp add: wf_envelope_def)
      then have "dict_wf d" using that by simp
      then show ?thesis unfolding py_get_canon [OF \<open>dict_wf d\<close>] by (cases "py_get d ''retries''") simp_all
    qed
    then show ?thesis unfolding resolve_retry_count_def same
      by (cases ty; cases "payload e") (simp_all add: retry_payload_def canon_envelope_def dead_letter_envelope_def
          del: sort_key_fst_map split: option.split)
  qed
  ultimately show "retry_count L (canon_envelope ?r) = Inr n" using e(4) by (simp add: retry_count_def)
  show "same_delivery e (canon_envelope ?r)" by (simp add: same_delivery_def canon_envelope_def dead_letter_envelope_def)
qed

section \<open>A failed delivery\<close>

lemma wire_read:
  "wf_envelope e \<Longrightarrow> serializable (payload e) \<Longrightarrow> serializable (headers e) \<Longrightarrow> to_wire e = Inr b \<Longrightarrow>
    from_wire t b = Inr (canon_envelope e)"
  using wire_round_trip [of e t] by simp

lemma failed_delivery_records:
  assumes "countable L e n"
  shows "records (handle_failed_delivery L channel e spec receipt) (\<lambda>_ evs. \<exists>b e'. (\<forall>t. from_wire t b = Inr e') \<and> same_delivery e e'
    \<and> (if int n < max_retries_of L spec then evs = sent_once receipt channel b \<and> countable L e' (n + 1)
       else evs = sent_once receipt (l_dead_letter_channel L) b \<and> retry_count L e' = Inr n
         \<and> payload e' = canon (payload e) \<and> py_get (env_headers e') ''dead_lettered_from'' = PStr channel))"
proof (cases "int n < max_retries_of L spec")
  case True
  have e: "wf_envelope e" "serializable (payload e)" "serializable (headers e)" "retry_count L e = Inr n"
    using assms by (simp_all add: countable_def)
  let ?Q = "\<lambda>_ :: unit. \<lambda>evs. \<exists>b e'. (\<forall>t. from_wire t b = Inr e') \<and> same_delivery e e'
    \<and> evs = sent_once receipt channel b \<and> countable L e' (n + 1)"
  have send: "records (seq (settle_after_claim (seq (create_envelope L (retry_envelope typed n now e)) (publish_envelope L receipt channel)))
      (\<lambda>_. seq (ack_claim L receipt) (\<lambda>_. notify_command_outcome L e RETRY_SCHEDULED channel (Some channel) (int n + 1) mx True))) ?Q"
    for typed now mx
    using retry_envelope_ok [OF e(1-3)] retry_count_next [OF assms] wire_read
    by (intro records_weaken [OF settled_twice]) blast+
  have "records (requeue L channel e mx receipt) ?Q" for mx
    unfolding requeue_def
    apply (rule records_seq [OF records_lift])
    apply (rule records_seq [OF records_lift])
    apply (rule records_seq [OF records_quiet], intro quiet_rules)
    apply (rule records_seq [OF records_quiet], intro quiet_rules)
    apply (rule records_seq [OF records_lift])
    apply (rule records_seq [OF records_checkpoint])
    using e(4) send by auto
  then have "records (handle_failed_delivery L channel e spec receipt) ?Q"
    unfolding handle_failed_delivery_def e(4) using True
    by (intro records_seq [OF records_lift]) (auto intro!: records_seq [OF records_quiet [OF quiet_perform_if [OF quiet_basic(2)]]])
  then show ?thesis using True by simp
next
  case False
  have e: "wf_envelope e" "retry_count L e = Inr n" using assms by (simp_all add: countable_def)
  let ?Q = "\<lambda>_ :: unit. \<lambda>evs. \<exists>b e'. (\<forall>t. from_wire t b = Inr e') \<and> same_delivery e e'
    \<and> evs = sent_once receipt (l_dead_letter_channel L) b \<and> retry_count L e' = Inr n \<and> payload e' = canon (payload e)
    \<and> py_get (env_headers e') ''dead_lettered_from'' = PStr channel"
  note d = dead_letter_next [OF assms, of channel]
  have pl: "payload (canon_envelope (dead_letter_envelope channel e)) = canon (payload e)"
    by (simp add: canon_envelope_def dead_letter_envelope_def)
  have send: "records (seq (settle_after_claim (seq (create_envelope L (dead_letter_envelope channel e))
        (publish_envelope L receipt (l_dead_letter_channel L))))
      (\<lambda>_. seq (ack_claim L receipt) (\<lambda>_. notify_command_outcome L e DEAD_LETTERED channel (Some (l_dead_letter_channel L)) (int n) mx True))) ?Q"
    for mx
    using d pl wire_read by (intro records_weaken [OF settled_twice [OF d(1)]]) blast
  have "records (dead_letter L channel e mx receipt) ?Q" for mx
    unfolding dead_letter_def
    apply (rule records_seq [OF records_lift])
    apply (rule records_seq [OF records_checkpoint])
    using e(2) send by auto
  then have "records (handle_failed_delivery L channel e spec receipt) ?Q"
    unfolding handle_failed_delivery_def e(2) using False
    by (intro records_seq [OF records_lift]) auto
  then show ?thesis using False by simp
qed

text \<open>
  A message whose deliveries keep failing: each one was sent to the channel again, and the next
  delivery is what a listener reads there.
\<close>

inductive redelivered :: "'w listener \<Rightarrow> string \<Rightarrow> handler_spec \<Rightarrow> nat \<Rightarrow> message_envelope \<Rightarrow> message_envelope \<Rightarrow> bool"
  for L channel spec where
  first: "redelivered L channel spec 0 e e"
| again: "redelivered L channel spec k e e1 \<Longrightarrow> handle_failed_delivery L channel e1 spec receipt s = (Inr (), s') \<Longrightarrow>
     history (fst s') = history (fst s) @ sent_once receipt channel b \<Longrightarrow> from_wire t b = Inr e2 \<Longrightarrow>
     redelivered L channel spec (Suc k) e e2"

lemma redelivered_count:
  assumes "redelivered L channel spec k e e'" "countable L e n" "channel \<noteq> l_dead_letter_channel L"
  shows "countable L e' (n + k) \<and> same_delivery e e' \<and> (0 < k \<longrightarrow> int (n + k) \<le> max_retries_of L spec)"
  using assms(1,2)
proof (induction rule: redelivered.induct)
  case (first e)
  then show ?case by (simp add: same_delivery_def)
next
  case (again k e e1 receipt s s' b t e2)
  then have e1: "countable L e1 (n + k)" "same_delivery e e1" by auto
  from failed_delivery_records [OF e1(1), of channel spec receipt] again.hyps(2) obtain evs b' e' where
    evs: "history (fst s') = history (fst s) @ evs" "\<forall>t. from_wire t b' = Inr e'" "same_delivery e1 e'"
      "if int (n + k) < max_retries_of L spec then evs = sent_once receipt channel b' \<and> countable L e' (n + k + 1)
       else evs = sent_once receipt (l_dead_letter_channel L) b' \<and> retry_count L e' = Inr (n + k)
         \<and> payload e' = canon (payload e1) \<and> py_get (env_headers e') ''dead_lettered_from'' = PStr channel"
    unfolding records_def by blast
  have "evs = sent_once receipt channel b" using evs(1) again.hyps(3) by simp
  then have "int (n + k) < max_retries_of L spec" "b' = b" "countable L e' (n + k + 1)"
    using evs(4) assms(3) by (auto simp: sent_once_def split: if_splits)
  moreover have "e' = e2" using evs(2) \<open>b' = b\<close> again.hyps(4) by simp
  ultimately show ?case using e1(2) evs(3) by (auto simp: same_delivery_def)
qed

text \<open>
  C39. Retries end. However often the deliveries of a message have failed, the count read from
  the wire is the number of its redeliveries on top of its first count, and it never exceeds the
  retry limit. The next failed delivery that is settled sends the message exactly once more and
  then acknowledges it: to its own channel with the count raised by one while the limit is not
  reached, and else to the dead-letter channel, with its payload and the channel it failed on.
  The message is one that JSON carries unchanged.
\<close>

theorem retries_end:
  assumes "countable L e n" "channel \<noteq> l_dead_letter_channel L" "redelivered L channel spec k e e'"
    and "handle_failed_delivery L channel e' spec receipt s = (Inr (), s')"
  shows "same_delivery e e' \<and> retry_count L e' = Inr (n + k) \<and> (0 < k \<longrightarrow> int (n + k) \<le> max_retries_of L spec)
    \<and> (\<exists>b e''. (\<forall>t. from_wire t b = Inr e'') \<and> same_delivery e e''
         \<and> (if int (n + k) < max_retries_of L spec
            then history (fst s') = history (fst s) @ sent_once receipt channel b \<and> retry_count L e'' = Inr (n + k + 1)
            else history (fst s') = history (fst s) @ sent_once receipt (l_dead_letter_channel L) b
              \<and> payload e'' = canon (payload e') \<and> py_get (env_headers e'') ''dead_lettered_from'' = PStr channel))"
proof -
  note e' = redelivered_count [OF assms(3,1,2)]
  then have "countable L e' (n + k)" by blast
  from failed_delivery_records [OF this, of channel spec receipt] assms(4) obtain evs b e'' where
    "history (fst s') = history (fst s) @ evs" "\<forall>t. from_wire t b = Inr e''" "same_delivery e' e''"
      "if int (n + k) < max_retries_of L spec then evs = sent_once receipt channel b \<and> countable L e'' (n + k + 1)
       else evs = sent_once receipt (l_dead_letter_channel L) b \<and> retry_count L e'' = Inr (n + k)
         \<and> payload e'' = canon (payload e') \<and> py_get (env_headers e'') ''dead_lettered_from'' = PStr channel"
    unfolding records_def by blast
  then show ?thesis using e' by (intro conjI exI [of _ b] exI [of _ e'']) (auto simp: same_delivery_def countable_def split: if_splits)
qed

section \<open>A message that fails twice\<close>

definition one_retry :: handler_spec where
  "one_retry = \<lparr>hs_kind = ''command'', hs_type = ''send'', hs_class = None, hs_allow_multiple = None,
     hs_retry_limit = Some 1, hs_delay = 0, hs_is_batched = False, hs_batch_size = 100, hs_max_wait = 10\<rparr>"

lemma sample_countable: "countable sample_listener sample_envelope 0"
  using sample_envelope_ok
  by (simp add: countable_def) (simp add: retry_count_def is_typed_def sample_listener_def sample_listener_on_def
      message_class_for_def lookup_key_def sample_envelope_def sample_registry_def resolve_retry_count_def retry_payload_def
      env_headers_def py_get_def or_zero_def res_simps)

lemma wire_written:
  assumes "wf_envelope e" "serializable (payload e)" "serializable (headers e)" shows "\<exists>b. to_wire e = Inr b"
  using wire_round_trip [OF assms] by (cases "to_wire e") auto

lemma sample_settles:
  assumes "wf_envelope e" "serializable (payload e)" "serializable (headers e)"
  shows "\<exists>s'. seq (settle_after_claim (seq (create_envelope sample_listener e) (publish_envelope sample_listener receipt channel))) (\<lambda>_.
     seq (ack_claim sample_listener receipt) (\<lambda>_. notify_command_outcome sample_listener e' st src dst n mx b)) s = (Inr (), s')"
proof -
  obtain raw where raw: "to_wire e = Inr raw" using wire_written [OF assms] by blast
  have same: "create u t e = e" for u t using assms(1) by (simp add: create_valid wf_envelope_def)
  have ops: "tp_publish receipted_transport = mem_publish" "tp_ack receipted_transport = mem_ack"
    by (simp_all add: receipted_transport_def MemoryTransport_def)
  show ?thesis
    by (cases s; cases receipt) (simp_all add: sample_listener_def sample_listener_on_def seq_def settle_after_claim_def
        wrap_errors_def try_catch_def create_envelope_def draw_def same publish_envelope_def raw world_def ops mem_publish_def
        mem_ack_def note_event_def ack_claim_def notify_command_outcome_def Let_def)
qed

lemma sample_fails_again:
  assumes "countable sample_listener e n" "int n < 2 ^ 53"
  shows "\<exists>s'. handle_failed_delivery sample_listener channel e spec receipt s = (Inr (), s')"
proof -
  have e: "wf_envelope e" "serializable (payload e)" "serializable (headers e)" "retry_count sample_listener e = Inr n"
    using assms(1) by (simp_all add: countable_def)
  obtain ty where ty: "is_typed sample_listener e = Inr ty" using e(4) by (auto simp: retry_count_def res_simps)
  have lists: "next_delay (l_retry_policy sample_listener) n = Inr (Finite (P_Float 0))" "l_controller sample_listener = None"
    using assms(2) by (simp_all add: sample_listener_def sample_listener_on_def next_delay_none)
  have d: "wf_envelope (dead_letter_envelope channel e)" "serializable (payload (dead_letter_envelope channel e))"
    "serializable (headers (dead_letter_envelope channel e))" using dead_letter_next [OF assms(1)] by blast+
  have retry: "\<exists>s'. requeue sample_listener channel e mx receipt s = (Inr (), s')" for mx s
    using sample_settles [OF retry_envelope_ok [OF e(1-3)]]
    by (simp add: requeue_def e(4) lists perform_if_def ty checkpoint_durable_settlement_def seq_def [of "lift_res _"]
        seq_def [of "draw _"] seq_def [of "ret _"]) (simp add: draw_def split: prod.split)
  have dead: "\<exists>s'. dead_letter sample_listener channel e mx receipt s = (Inr (), s')" for mx s
    using sample_settles [OF d]
    by (simp add: dead_letter_def e(4) lists checkpoint_durable_settlement_def seq_def [of "lift_res _"] seq_def [of "ret _"])
  show ?thesis
    using retry dead by (simp add: handle_failed_delivery_def e(4) perform_if_def seq_def [of "lift_res _"]
        seq_def [of "draw _"]) (simp add: draw_def split: prod.split)
qed

text \<open>With a limit of one, the second failure is the last.\<close>

theorem retries_end_witness:
  "\<exists>e1 s s'. redelivered sample_listener ''q'' one_retry 1 sample_envelope e1 \<and> retry_count sample_listener e1 = Inr 1
    \<and> handle_failed_delivery sample_listener ''q'' e1 one_retry (Some ''r1'') s = (Inr (), s')
    \<and> (\<exists>b. history (fst s') = history (fst s) @ [Published (Some ''r1'') ''dead'' b, Acked ''r1''])"
proof -
  have ch: "''q'' \<noteq> l_dead_letter_channel sample_listener" "l_dead_letter_channel sample_listener = ''dead''"
    by (simp_all add: sample_listener_def sample_listener_on_def)
  have limit: "max_retries_of sample_listener one_retry = 1" by (simp add: max_retries_of_def one_retry_def)
  let ?s = "(no_history, sample_world)"
  obtain s1 where s1: "handle_failed_delivery sample_listener ''q'' sample_envelope one_retry (Some ''r1'') ?s = (Inr (), s1)"
    using sample_fails_again [OF sample_countable, of "''q''" one_retry "Some ''r1''" ?s] by (auto simp del: split_paired_Ex)
  from failed_delivery_records [OF sample_countable, of "''q''" one_retry "Some ''r1''"] s1 limit obtain b e1 where
    e1: "history (fst s1) = history (fst ?s) @ sent_once (Some ''r1'') ''q'' b" "\<forall>t. from_wire t b = Inr e1"
      "countable sample_listener e1 (0 + 1)"
    unfolding records_def by fastforce
  have chain: "redelivered sample_listener ''q'' one_retry (Suc 0) sample_envelope e1"
    using redelivered.again [OF redelivered.first s1 e1(1) spec [OF e1(2), of 0]] .
  obtain s2 where s2: "handle_failed_delivery sample_listener ''q'' e1 one_retry (Some ''r1'') ?s = (Inr (), s2)"
    using sample_fails_again [OF e1(3), of "''q''" one_retry "Some ''r1''" ?s] by (auto simp del: split_paired_Ex)
  from retries_end [OF sample_countable ch(1) chain s2] limit ch(2) chain s2 show ?thesis
    by (fastforce simp: sent_once_def)
qed

end
