(* ===== verification/Scheduler.thy ===== *)
theory Scheduler
  imports Worker
begin

text \<open>
  scheduling.py: the in-process scheduler. Tasks are registered under stable identities, become
  due at intervals or at wall-clock times, run with retries and backoff, and their state is
  written to a store as JSON. Task functions, the store, the clock and sleeping act on the
  outside, which has the flag that \<open>stop\<close> sets. Datetimes have a fixed offset. The log holds
  message and identity; \<open>sc_calls\<close> records the calls of task functions for the theorems, no
  operation reads it.
\<close>

section \<open>State\<close>

record schedule_state =
  ps_last_run :: "datetime option"
  ps_due :: "datetime option"
  ps_failures :: int
  ps_last_failure :: "datetime option"

text \<open>A function with the attributes the scheduler reads.\<close>

record 'w task_func =
  tf_module :: string
  tf_qualname :: string
  tf_name :: string
  tf_call :: "('w outside, unit) prog"

record 'w task =
  t_name :: string
  t_func :: "'w task_func"
  t_due :: datetime
  t_interval :: "int option"
  t_days :: "int list option"
  t_hour :: "int option"
  t_minute :: "int option"
  t_options :: "(string, pyval) dict"
  t_failures :: int
  t_last_failure :: "datetime option"
  t_last_run :: "datetime option"
  t_identity :: "string option"

record 'w sched =
  sc_tasks :: "(string, 'w task) dict"
  sc_log :: "(string \<times> string) list"
  sc_calls :: "string list"

type_synonym 'w sworld = "'w sched \<times> 'w outside"

record 'w sched_env =
  se_get :: "string \<Rightarrow> ('w, string option) prog"
  se_set :: "string \<Rightarrow> string \<Rightarrow> ('w, unit) prog"
  se_now :: "'w \<Rightarrow> datetime \<times> 'w"
  se_sleep :: "int \<Rightarrow> 'w outside \<Rightarrow> 'w outside"

definition new_scheduler :: "'w sched" where
  "new_scheduler = \<lparr>sc_tasks = [], sc_log = [], sc_calls = []\<rparr>"

definition act :: "('w outside, 'a) prog \<Rightarrow> ('w sworld, 'a) prog" where
  "act m = (\<lambda>(k, w). let (r, w') = m w in (r, (k, w')))"

definition ask :: "('w, 'a) prog \<Rightarrow> ('w sworld, 'a) prog" where
  "ask m = (\<lambda>(k, (ev, w)). let (r, w') = m w in (r, (k, (ev, w'))))"

definition on_sched :: "('w sched \<Rightarrow> 'w sched) \<Rightarrow> ('w sworld, unit) prog" where
  "on_sched f = modify (\<lambda>(k, w). (f k, w))"

definition log_entry :: "string \<Rightarrow> string \<Rightarrow> ('w sworld, unit) prog" where
  "log_entry msg i = on_sched (\<lambda>k. k\<lparr>sc_log := sc_log k @ [(msg, i)]\<rparr>)"

text \<open>Tasks are objects: assigning an attribute changes the task under its identity.\<close>

definition set_task :: "string \<Rightarrow> 'w task \<Rightarrow> ('w sworld, unit) prog" where
  "set_task i t = on_sched (\<lambda>k. k\<lparr>sc_tasks := AList.update i t (sc_tasks k)\<rparr>)"

section \<open>The in-memory store\<close>

definition memory_state_get :: "string \<Rightarrow> ((string, string) dict, string option) prog" where
  "memory_state_get k m = (Inr (map_of m k), m)"

definition memory_state_set :: "string \<Rightarrow> string \<Rightarrow> ((string, string) dict, unit) prog" where
  "memory_state_set k v m = (Inr (), AList.update k v m)"

section \<open>Due times\<close>

definition plus :: "datetime \<Rightarrow> int \<Rightarrow> datetime res" where
  "plus d us = bind_res (ranged (dt_local d + us)) (\<lambda>l. Inr (d\<lparr>dt_local := l\<rparr>))"

definition require_offset :: "datetime \<Rightarrow> datetime res" where
  "require_offset d = (if is_aware d then Inr d else Inl ValueError)"

text \<open>\<open>d.replace(hour=h, minute=m, second=0, microsecond=0)\<close>.\<close>

definition at_clock :: "datetime \<Rightarrow> int \<Rightarrow> int \<Rightarrow> datetime res" where
  "at_clock d h m =
     (if 0 \<le> h \<and> h < 24 \<and> 0 \<le> m \<and> m < 60
      then Inr (d\<lparr>dt_local := date_of d * us_day + (h * 60 + m) * 60 * us_second\<rparr>) else Inl ValueError)"

fun pick_day :: "int list \<Rightarrow> nat \<Rightarrow> datetime \<Rightarrow> datetime \<Rightarrow> datetime res" where
  "pick_day days 0 start cand = Inr start"
| "pick_day days (Suc n) start cand =
     (if weekday cand \<in> set days then Inr cand
      else bind_res (plus cand us_day) (pick_day days n start))"

definition has_run_today :: "datetime \<Rightarrow> datetime option \<Rightarrow> bool" where
  "has_run_today current last_run = (case last_run of None \<Rightarrow> False | Some l \<Rightarrow> date_of current \<le> date_of l)"

definition or_zero :: "int option \<Rightarrow> int" where
  "or_zero x = (case x of None \<Rightarrow> 0 | Some n \<Rightarrow> n)"

definition cron_due_time ::
    "datetime \<Rightarrow> datetime option \<Rightarrow> int list option \<Rightarrow> int option \<Rightarrow> int option \<Rightarrow> datetime res" where
  "cron_due_time current last_run days hour minute =
     bind_res (at_clock current (or_zero hour) (or_zero minute)) (\<lambda>today.
     bind_res (if has_run_today current last_run \<or> utc_of today \<le> utc_of current then plus today us_day else Inr today) (\<lambda>start.
     case days of
       None \<Rightarrow> Inr start
     | Some ds \<Rightarrow> if ds = [] then Inr start else pick_day ds 8 start start))"

definition initial_due_time ::
    "datetime \<Rightarrow> int option \<Rightarrow> int list option \<Rightarrow> int option \<Rightarrow> int option \<Rightarrow> datetime option \<Rightarrow> datetime res" where
  "initial_due_time current interval days hour minute last_run = (case interval of
     Some n \<Rightarrow> plus (case last_run of Some l \<Rightarrow> l | None \<Rightarrow> current) (n * us_second)
   | None \<Rightarrow> cron_due_time current last_run days hour minute)"

definition next_due_time :: "'w task \<Rightarrow> datetime \<Rightarrow> datetime res" where
  "next_due_time t now = (case t_interval t of
     Some n \<Rightarrow> plus now (n * us_second)
   | None \<Rightarrow> cron_due_time now (Some now) (t_days t) (t_hour t) (t_minute t))"

section \<open>Persisted state\<close>

definition SCHEDULE_STATE_VERSION :: int where "SCHEDULE_STATE_VERSION = 1"

definition state_key :: "string \<Rightarrow> string" where
  "state_key i = ''pybus.scheduler.state:'' @ i"

definition parse_datetime :: "pyval \<Rightarrow> datetime option res" where
  "parse_datetime v = (case v of
     PNone \<Rightarrow> Inr None
   | PStr s \<Rightarrow> (case fromisoformat s of None \<Rightarrow> Inl ValueError
       | Some d \<Rightarrow> if is_aware d then Inr (Some d) else Inl ValueError)
   | _ \<Rightarrow> Inl ValueError)"

definition format_datetime :: "datetime option \<Rightarrow> pyval res" where
  "format_datetime d = (case d of None \<Rightarrow> Inr PNone
     | Some t \<Rightarrow> bind_res (require_offset t) (\<lambda>t. Inr (PStr (isoformat t))))"

text \<open>Reading: whatever is wrong with the stored text is a \<open>ValueError\<close>.\<close>

definition decode_state :: "(string, pyval) dict \<Rightarrow> schedule_state res" where
  "decode_state d =
     (if py_get d ''version'' \<noteq> PInt SCHEDULE_STATE_VERSION then Inl ValueError
      else bind_res (py_item d ''failures'') (\<lambda>f.
        case f of
          PInt n \<Rightarrow>
            if n < 0 then Inl ValueError
            else
              bind_res (bind_res (py_item d ''last_run'') parse_datetime) (\<lambda>last_run.
              bind_res (bind_res (py_item d ''due'') parse_datetime) (\<lambda>due.
              bind_res (bind_res (py_item d ''last_failure'') parse_datetime) (\<lambda>last_failure.
              if n = 0 \<and> last_failure \<noteq> None then Inl ValueError
              else if 0 < n \<and> (last_failure = None \<or> due = None) then Inl ValueError
              else Inr \<lparr>ps_last_run = last_run, ps_due = due, ps_failures = n, ps_last_failure = last_failure\<rparr>)))
        | _ \<Rightarrow> Inl ValueError))"

definition parse_state :: "string \<Rightarrow> schedule_state res" where
  "parse_state raw = (case json_parse raw of
     Some (PDict d) \<Rightarrow> (case decode_state d of Inl e \<Rightarrow> Inl ValueError | Inr s \<Rightarrow> Inr s)
   | _ \<Rightarrow> Inl ValueError)"

definition read_state :: "'w sched_env \<Rightarrow> string \<Rightarrow> ('w, schedule_state option) prog" where
  "read_state E i =
     seq (wrap_errors (\<lambda>_. False) RuntimeError (se_get E (state_key i))) (\<lambda>raw. case raw of
         None \<Rightarrow> ret None
       | Some text \<Rightarrow> seq (lift_res (parse_state text)) (\<lambda>s. ret (Some s)))"

definition format_state :: "schedule_state \<Rightarrow> string res" where
  "format_state s =
     bind_res (format_datetime (ps_due s)) (\<lambda>due.
     bind_res (format_datetime (ps_last_failure s)) (\<lambda>last_failure.
     bind_res (format_datetime (ps_last_run s)) (\<lambda>last_run.
     json_text (PDict [(''due'', due), (''failures'', PInt (ps_failures s)), (''last_failure'', last_failure),
       (''last_run'', last_run), (''version'', PInt SCHEDULE_STATE_VERSION)]))))"

definition write_state :: "'w sched_env \<Rightarrow> string \<Rightarrow> schedule_state \<Rightarrow> ('w, unit) prog" where
  "write_state E i s = seq (lift_res (format_state s)) (\<lambda>text. se_set E (state_key i) text)"

section \<open>Registration\<close>

definition resolve_identity :: "'w task_func \<Rightarrow> string option \<Rightarrow> string res" where
  "resolve_identity f explicit = (case explicit of
     Some i \<Rightarrow> if strip i = [] then Inl ValueError else Inr i
   | None \<Rightarrow> Inr (tf_module f @ '':'' @ tf_qualname f))"

definition registered_due ::
    "datetime \<Rightarrow> int option \<Rightarrow> int list option \<Rightarrow> int option \<Rightarrow> int option \<Rightarrow> schedule_state option \<Rightarrow> datetime res" where
  "registered_due current interval days hour minute persisted = (case persisted of
     None \<Rightarrow> initial_due_time current interval days hour minute None
   | Some s \<Rightarrow> (case ps_due s of
        Some d \<Rightarrow> if 0 < ps_failures s then Inr d
          else initial_due_time current interval days hour minute (ps_last_run s)
      | None \<Rightarrow> initial_due_time current interval days hour minute (ps_last_run s)))"

definition scheduled ::
    "'w sched_env \<Rightarrow> int option \<Rightarrow> int list option \<Rightarrow> int option \<Rightarrow> int option \<Rightarrow> string option \<Rightarrow> (string, pyval) dict
      \<Rightarrow> 'w task_func \<Rightarrow> ('w sworld, 'w task_func) prog" where
  "scheduled E interval days hour minute explicit options f =
     seq (lift_res (resolve_identity f explicit)) (\<lambda>i.
     seq (get_state (\<lambda>(k, w). has_key (sc_tasks k) i)) (\<lambda>taken.
     if taken then raise ValueError
     else
       seq (ask (read_state E i)) (\<lambda>persisted.
       seq (ask (take_reading (se_now E))) (\<lambda>now.
       seq (lift_res (require_offset now)) (\<lambda>current.
       seq (lift_res (registered_due current interval days hour minute persisted)) (\<lambda>due.
       seq (set_task i \<lparr>t_name = tf_name f, t_func = f, t_due = due, t_interval = interval, t_days = days,
          t_hour = hour, t_minute = minute, t_options = options,
          t_failures = (case persisted of None \<Rightarrow> 0 | Some s \<Rightarrow> ps_failures s),
          t_last_failure = (case persisted of None \<Rightarrow> None | Some s \<Rightarrow> ps_last_failure s),
          t_last_run = (case persisted of None \<Rightarrow> None | Some s \<Rightarrow> ps_last_run s), t_identity = Some i\<rparr>) (\<lambda>_.
       ret f)))))))"

section \<open>Running\<close>

definition current_time :: "'w sched_env \<Rightarrow> datetime option \<Rightarrow> ('w sworld, datetime) prog" where
  "current_time E now =
     seq (case now of Some d \<Rightarrow> ret d | None \<Rightarrow> ask (take_reading (se_now E))) (\<lambda>d. lift_res (require_offset d))"

definition due_tasks :: "datetime \<Rightarrow> 'w sched \<Rightarrow> (string \<times> 'w task) list" where
  "due_tasks current k = filter (\<lambda>(i, t). utc_of (t_due t) \<le> utc_of current) (sc_tasks k)"

definition get_due_tasks :: "'w sched_env \<Rightarrow> datetime option \<Rightarrow> ('w sworld, (string \<times> 'w task) list) prog" where
  "get_due_tasks E now = seq (current_time E now) (\<lambda>current. get_state (\<lambda>(k, w). due_tasks current k))"

definition backoff :: "int \<Rightarrow> int" where
  "backoff failures = 60 * 2 ^ nat (min failures 10)"

definition failure_state :: "'w task \<Rightarrow> schedule_state" where
  "failure_state t = \<lparr>ps_last_run = t_last_run t, ps_due = Some (t_due t), ps_failures = t_failures t,
     ps_last_failure = t_last_failure t\<rparr>"

definition handle_task_failure :: "'w sched_env \<Rightarrow> string \<Rightarrow> 'w task \<Rightarrow> datetime \<Rightarrow> ('w sworld, unit) prog" where
  "handle_task_failure E i t now =
     (let t1 = t\<lparr>t_failures := t_failures t + 1, t_last_failure := Some now\<rparr> in
      seq (set_task i t1) (\<lambda>_.
      seq (lift_res (plus now (backoff (t_failures t1) * us_second))) (\<lambda>due.
      let t2 = t1\<lparr>t_due := due\<rparr> in
      seq (set_task i t2) (\<lambda>_.
      seq (try_catch (ask (write_state E i (failure_state t2)))
         (\<lambda>_. log_entry ''Unable to persist failure state'' i)) (\<lambda>_.
      log_entry ''Task failed'' i)))))"

definition handle_task_success :: "'w sched_env \<Rightarrow> string \<Rightarrow> 'w task \<Rightarrow> datetime \<Rightarrow> ('w sworld, unit) prog" where
  "handle_task_success E i t now =
     seq (lift_res (next_due_time t now)) (\<lambda>next_due.
     seq (ask (write_state E i \<lparr>ps_last_run = Some now, ps_due = Some next_due, ps_failures = 0, ps_last_failure = None\<rparr>)) (\<lambda>_.
     set_task i (t\<lparr>t_failures := 0, t_last_failure := None, t_last_run := Some now, t_due := next_due\<rparr>)))"

definition call_task :: "string \<Rightarrow> 'w task \<Rightarrow> ('w sworld, unit) prog" where
  "call_task i t = seq (on_sched (\<lambda>k. k\<lparr>sc_calls := sc_calls k @ [i]\<rparr>)) (\<lambda>_. act (tf_call (t_func t)))"

text \<open>
  The attempts of one task; \<open>n\<close> retries are left. \<open>transient\<close> tells which exceptions are
  instances of \<open>transient_exceptions\<close>.
\<close>

definition fail_task :: "'w sched_env \<Rightarrow> string \<Rightarrow> 'w task \<Rightarrow> datetime \<Rightarrow> exn \<Rightarrow> ('w sworld, unit) prog" where
  "fail_task E i t now e = seq (handle_task_failure E i t now) (\<lambda>_. raise e)"

fun attempts :: "'w sched_env \<Rightarrow> (exn \<Rightarrow> bool) \<Rightarrow> string \<Rightarrow> 'w task \<Rightarrow> datetime \<Rightarrow> nat \<Rightarrow> ('w sworld, unit) prog" where
  "attempts E transient i t now n =
     seq (attempt (call_task i t)) (\<lambda>r. case r of
         Inl e \<Rightarrow>
           if transient e \<and> 0 < n
           then seq (log_entry ''Transient error during task'' i) (\<lambda>_. attempts E transient i t now (n - 1))
           else fail_task E i t now e
       | Inr _ \<Rightarrow>
           seq (attempt (handle_task_success E i t now)) (\<lambda>x. case x of
               Inl e \<Rightarrow> fail_task E i t now e
             | Inr _ \<Rightarrow> ret ()))"

declare attempts.simps [simp del]

fun run_tasks ::
    "'w sched_env \<Rightarrow> (exn \<Rightarrow> bool) \<Rightarrow> nat \<Rightarrow> datetime \<Rightarrow> (string \<times> 'w task) list \<Rightarrow> exn option \<Rightarrow> ('w sworld, exn option) prog" where
  "run_tasks E transient n now [] err = ret err"
| "run_tasks E transient n now ((i, t) # ts) err =
     seq (attempt (attempts E transient i t now n)) (\<lambda>r. case r of
         Inr _ \<Rightarrow> run_tasks E transient n now ts err
       | Inl e \<Rightarrow> seq (log_entry ''Scheduled task failed'' i) (\<lambda>_.
           run_tasks E transient n now ts (case err of None \<Rightarrow> Some e | Some x \<Rightarrow> Some x)))"

definition run_due_tasks :: "'w sched_env \<Rightarrow> datetime option \<Rightarrow> int \<Rightarrow> (exn \<Rightarrow> bool) \<Rightarrow> ('w sworld, unit) prog" where
  "run_due_tasks E now retries transient =
     seq (current_time E now) (\<lambda>current.
     seq (get_due_tasks E (Some current)) (\<lambda>ts.
     seq (run_tasks E transient (nat retries) current ts None) (\<lambda>err.
     case err of None \<Rightarrow> ret () | Some e \<Rightarrow> raise e)))"

section \<open>The loop\<close>

definition disabled :: "'w sworld \<Rightarrow> bool" where
  "disabled s = fst (snd s)"

definition stop_scheduler :: "('w sworld, unit) prog" where
  "stop_scheduler = modify (\<lambda>(k, (ev, w)). (k, (True, w)))"

definition scheduler_pass :: "'w sched_env \<Rightarrow> int \<Rightarrow> int \<Rightarrow> (exn \<Rightarrow> bool) \<Rightarrow> ('w sworld, unit) prog" where
  "scheduler_pass E poll_interval retries transient =
     seq (try_catch (run_due_tasks E None retries transient) (\<lambda>_. log_entry ''Scheduler pass failed'' [])) (\<lambda>_.
     modify (\<lambda>(k, w). (k, se_sleep E poll_interval w)))"

partial_function (option) start_loop ::
    "'w sched_env \<Rightarrow> int \<Rightarrow> int \<Rightarrow> (exn \<Rightarrow> bool) \<Rightarrow> 'w sworld \<Rightarrow> 'w sworld option" where
  "start_loop E poll_interval retries transient s =
     (if disabled s then Some s
      else start_loop E poll_interval retries transient (snd (scheduler_pass E poll_interval retries transient s)))"

definition scheduler_start :: "'w sched_env \<Rightarrow> int \<Rightarrow> int \<Rightarrow> (exn \<Rightarrow> bool) \<Rightarrow> 'w sworld \<Rightarrow> 'w sworld option" where
  "scheduler_start E poll_interval retries transient = (\<lambda>(k, (ev, w)).
     map_option (\<lambda>s. snd (log_entry ''Scheduler stopping'' [] s))
       (start_loop E poll_interval retries transient (snd (log_entry ''Scheduler started'' [] (k, (False, w))))))"

end
