(* ===== verification/Defaults.thy ===== *)
theory Defaults
  imports BusCalls Scheduler
begin

text \<open>
  Functions of the package that act on its default objects: handlers are bound to the registry of
  the default bus when none is named (handlers.py), and tasks to the default scheduler
  (scheduling.py).
\<close>

section \<open>Binding handlers\<close>

text \<open>A positional argument is a registry or something to register; a registry is shared, so the result returns it.\<close>

datatype bind_target = B_Registry registry | B_Target target

text \<open>A registry that is not the first argument is searched like any object, and has no decorated methods.\<close>

fun as_target :: "bind_target \<Rightarrow> target" where
  "as_target (B_Target t) = t"
| "as_target (B_Registry R) = T_Object []"

definition resolve_registry ::
    "('s, 'p, 'h) pybus option \<Rightarrow> bind_target list \<Rightarrow> registry option \<Rightarrow> (registry \<times> target list) res" where
  "resolve_registry dflt targets given = (case given of
     Some R \<Rightarrow> Inr (R, map as_target targets)
   | None \<Rightarrow> (case targets of
       B_Registry R # ts \<Rightarrow> Inr (R, map as_target ts)
     | _ \<Rightarrow> bind_res (get_bus dflt) (\<lambda>B. Inr (dp_registry (b_dispatcher B), map as_target targets))))"

definition bind_handlers ::
    "attrs \<Rightarrow> (handler \<Rightarrow> handler list) \<Rightarrow> ('s, 'p, 'h) pybus option \<Rightarrow> bind_target list \<Rightarrow> registry option
      \<Rightarrow> handler list res \<times> registry option" where
  "bind_handlers attrs members dflt targets given = (case resolve_registry dflt targets given of
     Inl e \<Rightarrow> (Inl e, None)
   | Inr (R, ts) \<Rightarrow> (case register_handlers attrs members ts R of (r, R') \<Rightarrow> (r, Some R')))"

section \<open>The default scheduler\<close>

text \<open>The default scheduler with its collaborators, its tasks and whether it was stopped, and the world.\<close>

type_synonym 'w default_world = "('w sched_env \<times> 'w sched \<times> bool) \<times> 'w"

text \<open>The collaborators are those given or, where none is, those of a new scheduler.\<close>

definition configure_scheduler :: "'w sched_env \<Rightarrow> 'w default_world \<Rightarrow> 'w default_world" where
  "configure_scheduler E = (\<lambda>(dflt, w). ((E, new_scheduler, False), w))"

definition on_default_scheduler :: "('w sched_env \<Rightarrow> ('w sworld, 'a) prog) \<Rightarrow> ('w default_world, 'a) prog" where
  "on_default_scheduler m = (\<lambda>((E, k, ev), w). let (r, (k', (ev', w'))) = m E (k, (ev, w)) in (r, ((E, k', ev'), w')))"

definition default_scheduled ::
    "int option \<Rightarrow> int list option \<Rightarrow> int option \<Rightarrow> int option \<Rightarrow> string option \<Rightarrow> (string, pyval) dict
      \<Rightarrow> 'w task_func \<Rightarrow> ('w default_world, 'w task_func) prog" where
  "default_scheduled interval days hour minute explicit options f =
     on_default_scheduler (\<lambda>E. scheduled E interval days hour minute explicit options f)"

section \<open>Registries stay well-formed\<close>

lemma register_spec_ok: "registry_ok attrs R \<Longrightarrow> register_spec attrs s h R = (r, R') \<Longrightarrow> registry_ok attrs R'"
  unfolding register_spec_def by (rule register_ok)

lemma register_members_ok: "registry_ok attrs R \<Longrightarrow> register_members attrs hs R = (r, R') \<Longrightarrow> registry_ok attrs R'"
proof (induction hs arbitrary: R r R')
  case (Cons h hs)
  show ?case
  proof (cases "handler_spec_of attrs h")
    case None
    then show ?thesis using Cons by simp
  next
    case (Some s)
    obtain x R1 where x: "register_spec attrs s h R = (x, R1)" by (metis surj_pair)
    have R1: "registry_ok attrs R1" using register_spec_ok Cons.prems(1) x .
    obtain y R2 where y: "register_members attrs hs R1 = (y, R2)" by (metis surj_pair)
    have "registry_ok attrs R2" using Cons.IH R1 y .
    then show ?thesis using Cons.prems(2) R1 Some x y by (auto split: sum.splits)
  qed
qed simp

lemma register_target_ok:
  assumes ok: "registry_ok attrs R" and reg: "register_target_handlers attrs members t R = (r, R')"
  shows "registry_ok attrs R'"
proof (cases t)
  case (T_Object hs)
  then show ?thesis using reg register_members_ok [OF ok] by (simp add: register_target_handlers_def)
next
  case (T_Handler h)
  show ?thesis
  proof (cases "handler_spec_of attrs h")
    case None
    then show ?thesis using T_Handler reg register_members_ok [OF ok] by (simp add: register_target_handlers_def)
  next
    case (Some s)
    obtain x R1 where x: "register_spec attrs s h R = (x, R1)" by (metis surj_pair)
    have "R' = R1" using reg T_Handler Some x by (auto simp: register_target_handlers_def split: sum.splits)
    then show ?thesis using register_spec_ok [OF ok x] by simp
  qed
qed

text \<open>However a registration of many targets ends, the registry keeps its invariant.\<close>

lemma register_handlers_ok:
  "registry_ok attrs R \<Longrightarrow> register_handlers attrs members ts R = (r, R') \<Longrightarrow> registry_ok attrs R'"
proof (induction ts arbitrary: R r R')
  case (Cons t ts)
  obtain x R1 where x: "register_target_handlers attrs members t R = (x, R1)" by (metis surj_pair)
  have R1: "registry_ok attrs R1" using register_target_ok Cons.prems(1) x .
  obtain y R2 where y: "register_handlers attrs members ts R1 = (y, R2)" by (metis surj_pair)
  have "registry_ok attrs R2" using Cons.IH R1 y .
  then show ?case using Cons.prems(2) R1 x y by (auto split: sum.splits)
qed simp

definition bus_registry_ok :: "('s, 'p, 'h) pybus \<Rightarrow> bool" where
  "bus_registry_ok B \<longleftrightarrow> registry_ok (be_attrs (b_env B)) (dp_registry (b_dispatcher B))
     \<and> l_registry (b_listener B) = dp_registry (b_dispatcher B)"

text \<open>A new bus dispatches by the registry its listener uses, and that registry is well-formed.\<close>

lemma new_bus_registry_ok:
  assumes "new_pybus E fresh a = (Inr B, R)"
    and "\<And>D. ba_dispatcher a = Some D \<Longrightarrow> registry_ok (be_attrs E) (dp_registry D)"
  shows "bus_registry_ok B"
proof -
  obtain C where C: "configured_bus E fresh a = Inr C" using assms(1) by (auto simp: new_pybus_def split: sum.splits)
  have env: "b_env C = E"
    using C by (auto simp: configured_bus_def res_simps Let_def split: if_splits)
  have "registry_ok (be_attrs E) (dp_registry (b_dispatcher C))"
    using C assms(2)
    by (auto simp: configured_bus_def res_simps Let_def registry_ok_empty split: if_splits option.splits)
  moreover obtain r R' where reg: "register_handlers (be_attrs E) (be_members E) (ba_handler_targets a) (dp_registry (b_dispatcher C)) = (r, R')"
    by (metis surj_pair)
  ultimately have "registry_ok (be_attrs E) R'" using register_handlers_ok by blast
  moreover have "B = with_registry R' C" using assms(1) C reg by (auto simp: new_pybus_def split: sum.splits)
  ultimately show ?thesis by (simp add: bus_registry_ok_def with_registry_def env)
qed

text \<open>Handlers bound to the default bus keep that.\<close>

lemma bind_handlers_ok:
  assumes "bind_handlers attrs members dflt targets given = (r, Some R')" "resolve_registry dflt targets given = Inr (R, ts)"
    and "registry_ok attrs R"
  shows "registry_ok attrs R'"
  using assms register_handlers_ok by (fastforce simp: bind_handlers_def split: prod.splits)

section \<open>A new default scheduler starts empty\<close>

text \<open>
  After \<open>configure_scheduler\<close> no task of the scheduler before is left, so its identities can be
  registered again; what was registered is persisted in the state store only.
\<close>

lemma configured_scheduler_empty:
  assumes "configure_scheduler E d = ((E', k, ev), w)"
  shows "due_tasks now k = []" "\<not> has_key (sc_tasks k) i" "E' = E" "\<not> ev" "w = snd d"
  using assms by (auto simp: configure_scheduler_def due_tasks_def new_scheduler_def has_key_def split: prod.splits)

end
