(* ===== verification/Migrations.thy ===== *)
theory Migrations
  imports JobProps "HOL-Library.Multiset"
begin

text \<open>
  The tables of the durable jobs: what models.py declares, what the migrations 0001 to 0003 build,
  and that the two agree with each other and with the constraints of the job store's model. What
  an operation of a migration does to the schema is Django's; it is the parameter \<open>step\<close> of the
  locale \<open>migration_state\<close>, whose laws are the behaviour Django documents.
\<close>

section \<open>Columns, tables and operations\<close>

datatype field_type = UUIDField | CharField nat | TextField | PositiveIntegerField | PositiveBigIntegerField
  | JSONField | DateTimeField | ForeignKey string string

text \<open>
  A foreign key holds its target table and the name of its reverse relation; both protect the rows
  they refer to. \<open>serialize=False\<close>, which Django gives every primary key, is left out.
\<close>

record column =
  f_type :: field_type
  f_null :: bool
  f_unique :: bool
  f_primary_key :: bool
  f_editable :: bool
  f_auto_now :: bool
  f_default :: "pyval option"

definition field :: "field_type \<Rightarrow> column" where
  "field t = \<lparr>f_type = t, f_null = False, f_unique = False, f_primary_key = False, f_editable = True,
     f_auto_now = False, f_default = None\<rparr>"

definition null_field :: "field_type \<Rightarrow> column" where
  "null_field t = (field t)\<lparr>f_null := True\<rparr>"

definition default_field :: "field_type \<Rightarrow> pyval \<Rightarrow> column" where
  "default_field t v = (field t)\<lparr>f_default := Some v\<rparr>"

definition id_field :: column where
  "id_field = (field UUIDField)\<lparr>f_primary_key := True, f_editable := False\<rparr>"

definition key_field :: column where
  "key_field = (null_field (CharField 255))\<lparr>f_unique := True\<rparr>"

definition updated_field :: column where
  "updated_field = (field DateTimeField)\<lparr>f_auto_now := True\<rparr>"

text \<open>A unique constraint over some columns, of the rows in some states only when there is a condition.\<close>

record unique_constraint =
  u_name :: string
  u_fields :: "string list"
  u_states :: "string list option"

record model_state =
  m_fields :: "(string \<times> column) list"
  m_table :: string
  m_indexes :: "(string \<times> string list) list"
  m_constraints :: "unique_constraint list"

text \<open>The models of the application by name, in lower case.\<close>

type_synonym schema = "string \<rightharpoonup> model_state"

datatype operation =
    CreateModel string "(string \<times> column) list" string
  | AddIndex string string "string list"
  | AddField string string column
  | AddConstraint string unique_constraint
  | RenameModel string string
  | RunPython "db \<Rightarrow> unit res"

lemmas field_simps_model = field_def null_field_def default_field_def id_field_def key_field_def updated_field_def

section \<open>The models\<close>

definition series_state_value :: "series_state \<Rightarrow> string" where
  "series_state_value s = (case s of S_ACTIVE \<Rightarrow> ''active'' | S_COMPLETED \<Rightarrow> ''completed''
     | S_FAILED \<Rightarrow> ''failed'' | S_CANCELLED \<Rightarrow> ''cancelled'')"

definition job_state_value :: "job_state \<Rightarrow> string" where
  "job_state_value s = (case s of PENDING \<Rightarrow> ''pending'' | CLAIMED \<Rightarrow> ''claimed'' | PUBLISHED \<Rightarrow> ''published''
     | RUNNING \<Rightarrow> ''running'' | SETTLING \<Rightarrow> ''settling'' | INDETERMINATE \<Rightarrow> ''indeterminate''
     | J_SUCCEEDED \<Rightarrow> ''succeeded'' | J_DEAD_LETTERED \<Rightarrow> ''dead_lettered'' | CANCELLED \<Rightarrow> ''cancelled'')"

definition JobSeries_model :: model_state where
  "JobSeries_model = \<lparr>m_fields = [
     (''id'', id_field), (''message_type'', field (CharField 255)), (''version'', field PositiveIntegerField),
     (''payload'', field JSONField), (''headers'', default_field JSONField (PDict [])),
     (''queue'', field (CharField 255)), (''cadence'', field (CharField 16)), (''timezone'', field (CharField 255)),
     (''starts_at'', field DateTimeField), (''anchor_local'', field (CharField 32)), (''ends_at'', null_field DateTimeField),
     (''fingerprint'', field TextField), (''idempotency_key'', key_field),
     (''state'', default_field (CharField 32) (PStr (series_state_value S_ACTIVE))),
     (''latest_occurrence_number'', default_field PositiveBigIntegerField (PInt 1)), (''created_at'', field DateTimeField),
     (''finished_at'', null_field DateTimeField), (''updated_at'', updated_field)],
   m_table = ''pybus_recurring_command_series'', m_indexes = [], m_constraints = []\<rparr>"

definition claim_index :: "string \<times> string list" where
  "claim_index = (''pybus_durable_claim_idx'', [''state'', ''lease_expires_at''])"

definition recon_index :: "string \<times> string list" where
  "recon_index = (''pybus_durable_recon_idx'', [''state'', ''reconciliation_due_at''])"

definition occurrence_unique :: unique_constraint where
  "occurrence_unique = \<lparr>u_name = ''pybus_series_occurrence_uniq'', u_fields = [''series'', ''occurrence_number''], u_states = None\<rparr>"

definition active_unique :: unique_constraint where
  "active_unique = \<lparr>u_name = ''pybus_series_active_occurrence_uniq'', u_fields = [''series''],
     u_states = Some (map job_state_value [PENDING, CLAIMED, PUBLISHED, RUNNING, SETTLING, INDETERMINATE])\<rparr>"

definition DurableJob_model :: model_state where
  "DurableJob_model = \<lparr>m_fields = [
     (''id'', id_field), (''message_id'', (field (CharField 255))\<lparr>f_unique := True\<rparr>),
     (''message_type'', field (CharField 255)), (''version'', field PositiveIntegerField),
     (''payload'', field JSONField), (''headers'', default_field JSONField (PDict [])),
     (''created_at'', field DateTimeField), (''available_at'', field DateTimeField), (''queue'', field (CharField 255)),
     (''fingerprint'', field TextField), (''idempotency_key'', key_field),
     (''series'', null_field (ForeignKey ''jobseries'' ''occurrences'')), (''occurrence_number'', null_field PositiveBigIntegerField),
     (''state'', default_field (CharField 32) (PStr (job_state_value PENDING))),
     (''generation'', default_field PositiveBigIntegerField (PInt 0)), (''retry_count'', default_field PositiveIntegerField (PInt 0)),
     (''max_retries'', null_field PositiveIntegerField), (''lease_owner'', null_field (CharField 255)),
     (''lease_expires_at'', null_field DateTimeField), (''reconciliation_due_at'', null_field DateTimeField),
     (''indeterminate_reason'', null_field (CharField 32)), (''settlement_status'', null_field (CharField 32)),
     (''settlement_source'', null_field (CharField 255)), (''settlement_destination'', null_field (CharField 255)),
     (''last_attempt_at'', null_field DateTimeField), (''started_at'', null_field DateTimeField),
     (''finished_at'', null_field DateTimeField), (''updated_at'', updated_field)],
   m_table = ''pybus_durable_command'', m_indexes = [claim_index, recon_index],
   m_constraints = [occurrence_unique, active_unique]\<rparr>"

definition models :: schema where
  "models = [''jobseries'' \<mapsto> JobSeries_model, ''durablejob'' \<mapsto> DurableJob_model]"

section \<open>The migrations\<close>

text \<open>The functions that guard the way back; the rows of the tables are those of the job store's model.\<close>

definition refuse_nonempty_reverse :: "db \<Rightarrow> unit res" where
  "refuse_nonempty_reverse db = (if jobs db \<noteq> [] then Inl RuntimeError else Inr ())"

definition refuse_recurrence_reverse :: "db \<Rightarrow> unit res" where
  "refuse_recurrence_reverse db =
     (if series db \<noteq> [] \<or> (\<exists>r \<in> set (jobs db). j_series r \<noteq> None) then Inl RuntimeError else Inr ())"

definition initial_operations :: "operation list" where
  "initial_operations = [
     CreateModel ''DurableCommand'' [
       (''id'', id_field), (''message_id'', (field (CharField 255))\<lparr>f_unique := True\<rparr>),
       (''message_type'', field (CharField 255)), (''version'', field PositiveIntegerField),
       (''payload'', field JSONField), (''headers'', default_field JSONField (PDict [])),
       (''created_at'', field DateTimeField), (''available_at'', field DateTimeField), (''queue'', field (CharField 255)),
       (''fingerprint'', field TextField), (''idempotency_key'', key_field),
       (''state'', default_field (CharField 32) (PStr ''pending'')),
       (''generation'', default_field PositiveBigIntegerField (PInt 0)), (''retry_count'', default_field PositiveIntegerField (PInt 0)),
       (''max_retries'', null_field PositiveIntegerField), (''lease_owner'', null_field (CharField 255)),
       (''lease_expires_at'', null_field DateTimeField), (''reconciliation_due_at'', null_field DateTimeField),
       (''indeterminate_reason'', null_field (CharField 32)), (''settlement_status'', null_field (CharField 32)),
       (''settlement_source'', null_field (CharField 255)), (''settlement_destination'', null_field (CharField 255)),
       (''last_attempt_at'', null_field DateTimeField), (''started_at'', null_field DateTimeField),
       (''finished_at'', null_field DateTimeField), (''updated_at'', updated_field)] ''pybus_durable_command'',
     AddIndex ''durablecommand'' ''pybus_durable_claim_idx'' [''state'', ''lease_expires_at''],
     AddIndex ''durablecommand'' ''pybus_durable_recon_idx'' [''state'', ''reconciliation_due_at''],
     RunPython refuse_nonempty_reverse]"

definition recurring_operations :: "operation list" where
  "recurring_operations = [
     CreateModel ''RecurringCommandSeries'' [
       (''id'', id_field), (''message_type'', field (CharField 255)), (''version'', field PositiveIntegerField),
       (''payload'', field JSONField), (''headers'', default_field JSONField (PDict [])),
       (''queue'', field (CharField 255)), (''cadence'', field (CharField 16)), (''timezone'', field (CharField 255)),
       (''starts_at'', field DateTimeField), (''anchor_local'', field (CharField 32)), (''ends_at'', null_field DateTimeField),
       (''fingerprint'', field TextField), (''idempotency_key'', key_field),
       (''state'', default_field (CharField 32) (PStr ''active'')),
       (''latest_occurrence_number'', default_field PositiveBigIntegerField (PInt 1)), (''created_at'', field DateTimeField),
       (''finished_at'', null_field DateTimeField), (''updated_at'', updated_field)] ''pybus_recurring_command_series'',
     AddField ''durablecommand'' ''occurrence_number'' (null_field PositiveBigIntegerField),
     AddField ''durablecommand'' ''series'' (null_field (ForeignKey ''recurringcommandseries'' ''occurrences'')),
     AddConstraint ''durablecommand'' \<lparr>u_name = ''pybus_series_occurrence_uniq'',
       u_fields = [''series'', ''occurrence_number''], u_states = None\<rparr>,
     AddConstraint ''durablecommand'' \<lparr>u_name = ''pybus_series_active_occurrence_uniq'', u_fields = [''series''],
       u_states = Some [''pending'', ''claimed'', ''published'', ''running'', ''settling'', ''indeterminate'']\<rparr>,
     RunPython refuse_recurrence_reverse]"

definition ontology_operations :: "operation list" where
  "ontology_operations = [RenameModel ''DurableCommand'' ''DurableJob'', RenameModel ''RecurringCommandSeries'' ''JobSeries'']"

section \<open>What Django does with an operation\<close>

definition lower :: "string \<Rightarrow> string" where
  "lower s = map (\<lambda>c. let n = (of_char c :: nat) in if 65 \<le> n \<and> n \<le> 90 then char_of (n + 32) else c) s"

lemma lower_names [simp]:
  "lower ''DurableCommand'' = ''durablecommand''" "lower ''RecurringCommandSeries'' = ''recurringcommandseries''"
  "lower ''DurableJob'' = ''durablejob''" "lower ''JobSeries'' = ''jobseries''"
  by (code_simp)+

definition repoint :: "string \<Rightarrow> string \<Rightarrow> column \<Rightarrow> column" where
  "repoint old new c = (case f_type c of
     ForeignKey t rel \<Rightarrow> if t = old then c\<lparr>f_type := ForeignKey new rel\<rparr> else c
   | _ \<Rightarrow> c)"

definition repoint_model :: "string \<Rightarrow> string \<Rightarrow> model_state \<Rightarrow> model_state" where
  "repoint_model old new m = m\<lparr>m_fields := map (\<lambda>(n, c). (n, repoint old new c)) (m_fields m)\<rparr>"

definition migrated :: "(operation \<Rightarrow> schema \<Rightarrow> schema) \<Rightarrow> schema" where
  "migrated step = fold step (initial_operations @ recurring_operations @ ontology_operations) Map.empty"

section \<open>The schema they lead to\<close>

text \<open>Django compares models by their parts, in whatever order they are listed.\<close>

definition same_model :: "model_state \<Rightarrow> model_state \<Rightarrow> bool" where
  "same_model a b \<longleftrightarrow> mset (m_fields a) = mset (m_fields b) \<and> m_table a = m_table b
     \<and> mset (m_indexes a) = mset (m_indexes b) \<and> mset (m_constraints a) = mset (m_constraints b)"

definition job_after_initial :: model_state where
  "job_after_initial = DurableJob_model\<lparr>
     m_fields := filter (\<lambda>(n, c). n \<noteq> ''series'' \<and> n \<noteq> ''occurrence_number'') (m_fields DurableJob_model),
     m_constraints := []\<rparr>"

definition job_recurring :: model_state where
  "job_recurring = job_after_initial\<lparr>m_fields := m_fields job_after_initial
       @ [(''occurrence_number'', null_field PositiveBigIntegerField),
          (''series'', null_field (ForeignKey ''recurringcommandseries'' ''occurrences''))],
     m_constraints := [occurrence_unique, active_unique]\<rparr>"

definition job_migrated :: model_state where
  "job_migrated = DurableJob_model\<lparr>m_fields := m_fields job_after_initial
     @ [(''occurrence_number'', null_field PositiveBigIntegerField),
        (''series'', null_field (ForeignKey ''jobseries'' ''occurrences''))]\<rparr>"

lemma repointed:
  "repoint_model old new JobSeries_model = JobSeries_model"
  "repoint_model ''durablecommand'' ''durablejob'' job_recurring = job_recurring"
  "repoint_model ''recurringcommandseries'' ''jobseries'' job_recurring = job_migrated"
  by (simp_all add: repoint_model_def repoint_def JobSeries_model_def job_recurring_def job_migrated_def job_after_initial_def
      DurableJob_model_def field_simps_model)

locale migration_state =
  fixes step :: "operation \<Rightarrow> schema \<Rightarrow> schema"
  assumes create_model: "step (CreateModel n fs t) S
      = S(lower n \<mapsto> \<lparr>m_fields = fs, m_table = t, m_indexes = [], m_constraints = []\<rparr>)"
    and add_index: "S k = Some m \<Longrightarrow> step (AddIndex k n cs) S = S(k \<mapsto> m\<lparr>m_indexes := m_indexes m @ [(n, cs)]\<rparr>)"
    and add_field: "S k = Some m \<Longrightarrow> step (AddField k n c) S = S(k \<mapsto> m\<lparr>m_fields := m_fields m @ [(n, c)]\<rparr>)"
    and add_constraint: "S k = Some m \<Longrightarrow> step (AddConstraint k u) S = S(k \<mapsto> m\<lparr>m_constraints := m_constraints m @ [u]\<rparr>)"
    and rename_model: "S (lower old) = Some m \<Longrightarrow> step (RenameModel old new) S
      = map_option (repoint_model (lower old) (lower new)) \<circ> (S(lower old := None))(lower new \<mapsto> m)"
    and run_python: "step (RunPython f) S = S"
begin

lemma after_initial: "fold step initial_operations Map.empty = [''durablecommand'' \<mapsto> job_after_initial]"
  by (simp add: initial_operations_def create_model add_index run_python job_after_initial_def DurableJob_model_def
      claim_index_def recon_index_def job_state_value_def)

lemma after_recurring:
  "fold step recurring_operations [''durablecommand'' \<mapsto> job_after_initial]
    = [''recurringcommandseries'' \<mapsto> JobSeries_model, ''durablecommand'' \<mapsto> job_recurring]"
  by (simp add: recurring_operations_def create_model add_field add_constraint run_python JobSeries_model_def job_recurring_def
      job_state_value_def series_state_value_def occurrence_unique_def active_unique_def fun_upd_twist job_after_initial_def)

lemma after_ontology:
  "fold step ontology_operations [''recurringcommandseries'' \<mapsto> JobSeries_model, ''durablecommand'' \<mapsto> job_recurring]
    = [''jobseries'' \<mapsto> JobSeries_model, ''durablejob'' \<mapsto> job_migrated]"
  by (rule ext) (simp add: ontology_operations_def rename_model repointed)

lemma migrated: "migrated step = [''jobseries'' \<mapsto> JobSeries_model, ''durablejob'' \<mapsto> job_migrated]"
  by (simp add: migrated_def after_initial after_recurring after_ontology)

end

text \<open>Django's own bookkeeping, on schemas in which the models an operation names exist.\<close>

definition on_model :: "string \<Rightarrow> (model_state \<Rightarrow> model_state) \<Rightarrow> schema \<Rightarrow> schema" where
  "on_model k f S = (case S k of None \<Rightarrow> S | Some m \<Rightarrow> S(k \<mapsto> f m))"

fun apply_operation :: "operation \<Rightarrow> schema \<Rightarrow> schema" where
  "apply_operation (CreateModel n fs t) S
     = S(lower n \<mapsto> \<lparr>m_fields = fs, m_table = t, m_indexes = [], m_constraints = []\<rparr>)"
| "apply_operation (AddIndex k n cs) S = on_model k (\<lambda>m. m\<lparr>m_indexes := m_indexes m @ [(n, cs)]\<rparr>) S"
| "apply_operation (AddField k n c) S = on_model k (\<lambda>m. m\<lparr>m_fields := m_fields m @ [(n, c)]\<rparr>) S"
| "apply_operation (AddConstraint k u) S = on_model k (\<lambda>m. m\<lparr>m_constraints := m_constraints m @ [u]\<rparr>) S"
| "apply_operation (RenameModel old new) S = (case S (lower old) of None \<Rightarrow> S
     | Some m \<Rightarrow> map_option (repoint_model (lower old) (lower new)) \<circ> (S(lower old := None))(lower new \<mapsto> m))"
| "apply_operation (RunPython f) S = S"

interpretation django: migration_state apply_operation
  by unfold_locales (simp_all add: on_model_def)

section \<open>The constraints are those of the job store\<close>

text \<open>
  Two rows violate a unique column when both have the same value there, other than null, and a
  unique constraint when that holds of all its columns and its condition of both rows. \<open>cols\<close>
  gives the value of a column; only the constrained ones are listed.
\<close>

definition same_value :: "(string \<Rightarrow> pyval) \<Rightarrow> (string \<Rightarrow> pyval) \<Rightarrow> string \<Rightarrow> bool" where
  "same_value a b n \<longleftrightarrow> a n = b n \<and> b n \<noteq> PNone"

definition violates :: "model_state \<Rightarrow> (string \<Rightarrow> pyval) \<Rightarrow> (string \<Rightarrow> pyval) \<Rightarrow> bool" where
  "violates m a b \<longleftrightarrow> (\<exists>(n, c) \<in> set (m_fields m). (f_unique c \<or> f_primary_key c) \<and> same_value a b n)
     \<or> (\<exists>u \<in> set (m_constraints m). (\<forall>n \<in> set (u_fields u). same_value a b n)
         \<and> (case u_states u of None \<Rightarrow> True | Some ss \<Rightarrow> a ''state'' \<in> PStr ` set ss \<and> b ''state'' \<in> PStr ` set ss))"

definition opt_value :: "('a \<Rightarrow> pyval) \<Rightarrow> 'a option \<Rightarrow> pyval" where
  "opt_value f x = (case x of None \<Rightarrow> PNone | Some v \<Rightarrow> f v)"

definition job_columns :: "job_row \<Rightarrow> string \<Rightarrow> pyval" where
  "job_columns r n =
     (if n = ''id'' then PInt (int (j_id r)) else if n = ''message_id'' then PStr (j_message_id r)
      else if n = ''idempotency_key'' then opt_value PStr (j_idempotency_key r)
      else if n = ''series'' then opt_value (\<lambda>i. PInt (int i)) (j_series r)
      else if n = ''occurrence_number'' then opt_value (\<lambda>i. PInt (int i)) (j_occurrence r)
      else if n = ''state'' then PStr (job_state_value (j_state r)) else PNone)"

definition series_columns :: "series_row \<Rightarrow> string \<Rightarrow> pyval" where
  "series_columns q n =
     (if n = ''id'' then PInt (int (q_id q)) else if n = ''idempotency_key'' then opt_value PStr (q_idempotency_key q)
      else if n = ''state'' then PStr (series_state_value (q_state q)) else PNone)"

lemma opt_value_simps [simp]:
  "opt_value f None = PNone" "opt_value f (Some x) = f x"
  by (simp_all add: opt_value_def)

lemma live_values: "job_state_value s \<in> set (map job_state_value [PENDING, CLAIMED, PUBLISHED, RUNNING, SETTLING, INDETERMINATE]) \<longleftrightarrow> live s"
  by (cases s) (simp_all add: job_state_value_def live_def)

lemma same_opt: "opt_value f x = opt_value f y \<and> opt_value f y \<noteq> PNone \<longleftrightarrow> y \<noteq> None \<and> x = y"
  if "\<And>a b. f a = f b \<longleftrightarrow> a = b" "\<And>a. f a \<noteq> PNone"
  using that by (cases x; cases y) (auto dest: sym)

lemma same_keys:
  "same_value (job_columns r) (job_columns j) ''id'' \<longleftrightarrow> j_id r = j_id j"
  "same_value (job_columns r) (job_columns j) ''message_id'' \<longleftrightarrow> j_message_id r = j_message_id j"
  "same_value (job_columns r) (job_columns j) ''idempotency_key''
     \<longleftrightarrow> j_idempotency_key j \<noteq> None \<and> j_idempotency_key r = j_idempotency_key j"
  "same_value (job_columns r) (job_columns j) ''series'' \<longleftrightarrow> j_series j \<noteq> None \<and> j_series r = j_series j"
  "same_value (job_columns r) (job_columns j) ''occurrence_number''
     \<longleftrightarrow> j_occurrence j \<noteq> None \<and> j_occurrence r = j_occurrence j"
  by (simp_all add: same_value_def job_columns_def same_opt)

lemma state_column: "job_columns r ''state'' = PStr (job_state_value (j_state r))"
  by (simp add: job_columns_def)

text \<open>The clash of two rows in the job store is a violation of a declared constraint, and no other.\<close>

lemma jobs_violate: "violates DurableJob_model (job_columns r) (job_columns j) \<longleftrightarrow> rows_clash r j"
proof -
  have cols: "(\<exists>(n, c) \<in> set (m_fields DurableJob_model). (f_unique c \<or> f_primary_key c) \<and> P n)
      \<longleftrightarrow> P ''id'' \<or> P ''message_id'' \<or> P ''idempotency_key''" for P
    by (simp add: DurableJob_model_def field_simps_model)
  have live: "PStr (job_state_value s) \<in> PStr ` set (the (u_states active_unique)) \<longleftrightarrow> live s" for s
    using live_values [of s] by (auto simp: active_unique_def simp del: list.map)
  have "violates DurableJob_model (job_columns r) (job_columns j) \<longleftrightarrow>
      j_id r = j_id j \<or> j_message_id r = j_message_id j \<or> (j_idempotency_key j \<noteq> None \<and> j_idempotency_key r = j_idempotency_key j)
      \<or> ((j_series j \<noteq> None \<and> j_series r = j_series j) \<and> (j_occurrence j \<noteq> None \<and> j_occurrence r = j_occurrence j))
      \<or> ((j_series j \<noteq> None \<and> j_series r = j_series j) \<and> live (j_state r) \<and> live (j_state j))"
  proof -
    obtain ss where ss: "u_states active_unique = Some ss" "\<And>s. PStr (job_state_value s) \<in> PStr ` set ss \<longleftrightarrow> live s"
      using live by (simp add: active_unique_def)
    have "m_constraints DurableJob_model = [occurrence_unique, active_unique]" by (simp add: DurableJob_model_def)
    moreover have "u_fields occurrence_unique = [''series'', ''occurrence_number'']" "u_fields active_unique = [''series'']"
      "u_states occurrence_unique = None" by (simp_all add: occurrence_unique_def active_unique_def)
    ultimately show ?thesis
      unfolding violates_def cols state_column by (simp add: same_keys state_column ss)
  qed
  then show ?thesis by (auto simp: rows_clash_def)
qed

lemma series_violate: "violates JobSeries_model (series_columns r) (series_columns q) \<longleftrightarrow> series_clash r q"
proof -
  have "(\<exists>(n, c) \<in> set (m_fields JobSeries_model). (f_unique c \<or> f_primary_key c) \<and> P n) \<longleftrightarrow> P ''id'' \<or> P ''idempotency_key''" for P
    by (simp add: JobSeries_model_def field_simps_model)
  moreover have "m_constraints JobSeries_model = []" by (simp add: JobSeries_model_def)
  ultimately show ?thesis
    by (simp add: violates_def same_value_def series_columns_def same_opt series_clash_def)
qed

lemma fields_any_order: "mset ((xs @ ys) @ [b, a]) = mset (xs @ [a, b] @ ys)"
  by simp

lemma migrated_same: "same_model job_migrated DurableJob_model"
proof -
  let ?F = "m_fields DurableJob_model"
  let ?s = "(''series'', null_field (ForeignKey ''jobseries'' ''occurrences''))"
    and ?o = "(''occurrence_number'', null_field PositiveBigIntegerField)"
  have "m_fields job_migrated = (take 11 ?F @ drop 13 ?F) @ [?o, ?s]"
    by (simp add: job_migrated_def job_after_initial_def DurableJob_model_def)
  moreover have "?F = take 11 ?F @ [?s, ?o] @ drop 13 ?F" by (simp add: DurableJob_model_def)
  then have "mset ?F = mset (take 11 ?F @ [?s, ?o] @ drop 13 ?F)" by (rule arg_cong)
  ultimately have "mset (m_fields job_migrated) = mset ?F" using fields_any_order by metis
  then show ?thesis
    by (simp add: same_model_def job_migrated_def)
qed

lemma same_model_violates: "same_model m m' \<Longrightarrow> violates m a b \<longleftrightarrow> violates m' a b"
proof -
  assume "same_model m m'"
  then have "set (m_fields m) = set (m_fields m')" "set (m_constraints m) = set (m_constraints m')"
    by (auto simp: same_model_def dest: mset_eq_setD)
  then show "violates m a b \<longleftrightarrow> violates m' a b" by (simp only: violates_def)
qed

text \<open>
  C17. The three migrations, run on an empty database, build exactly the models that models.py
  declares, whatever the order of their columns; and the unique constraints of the two tables they
  leave are those the model of the job store enforces when it inserts a row: two rows violate one
  if and only if they clash.
\<close>

theorem migrations_build_the_store:
  assumes "migration_state step"
  shows "rel_option same_model (migrated step k) (models k)
    \<and> (k = ''durablejob'' \<longrightarrow> (\<exists>m. migrated step k = Some m
         \<and> (\<forall>r j. violates m (job_columns r) (job_columns j) \<longleftrightarrow> rows_clash r j)))
    \<and> (k = ''jobseries'' \<longrightarrow> (\<exists>m. migrated step k = Some m
         \<and> (\<forall>r q. violates m (series_columns r) (series_columns q) \<longleftrightarrow> series_clash r q)))"
proof -
  have m: "migrated step = [''jobseries'' \<mapsto> JobSeries_model, ''durablejob'' \<mapsto> job_migrated]"
    using migration_state.migrated [OF assms] .
  have "same_model JobSeries_model JobSeries_model" by (simp add: same_model_def)
  then show ?thesis
    using jobs_violate same_model_violates [OF migrated_same] series_violate migrated_same by (simp add: m models_def)
qed

theorem migrations_build_the_store_witness:
  "\<exists>m. migrated apply_operation ''durablejob'' = Some m
    \<and> violates m (job_columns row_running) (job_columns row_running)
    \<and> rel_option same_model (migrated apply_operation ''durablejob'') (models ''durablejob'')"
  using migrations_build_the_store [OF django.migration_state_axioms, of "''durablejob''"]
  by (auto simp: rows_clash_def)

section \<open>The way back\<close>

text \<open>
  The guards of the reverse migrations let exactly those databases pass that lose nothing: the
  tables of the series are dropped when there is no series, and then no job refers to one; the
  table of the jobs when there is no job.
\<close>

lemma reverse_loses_no_series:
  assumes "reachable zones db"
  shows "refuse_recurrence_reverse db = Inr () \<longleftrightarrow> series db = []"
    "refuse_recurrence_reverse db = Inr () \<Longrightarrow> r \<in> set (jobs db) \<Longrightarrow> j_series r = None"
proof -
  have "series db \<noteq> []" if "r \<in> set (jobs db)" "j_series r = Some i" for r i
    using reachable_inv [OF assms] that by (fastforce simp: inv_def)
  then show "refuse_recurrence_reverse db = Inr () \<longleftrightarrow> series db = []"
    by (auto simp: refuse_recurrence_reverse_def)
  show "refuse_recurrence_reverse db = Inr () \<Longrightarrow> r \<in> set (jobs db) \<Longrightarrow> j_series r = None"
    by (auto simp: refuse_recurrence_reverse_def split: if_splits)
qed

lemma reverse_loses_no_job:
  assumes "refuse_recurrence_reverse db = Inr ()" "refuse_nonempty_reverse db = Inr ()"
  shows "db = \<lparr>jobs = [], series = []\<rparr>"
  using assms by (auto simp: refuse_recurrence_reverse_def refuse_nonempty_reverse_def split: if_splits)

end
