(* ===== verification/Stores.thy ===== *)
theory Stores
  imports Recurrence Transport
begin

text \<open>
  inbox.py, outbox.py and batching.py: the in-memory inbox, which accepts a message id once while
  its entry lives, the in-memory outbox, and the batch buffer. The clock and the source of
  receipts act on a world \<open>'w\<close> beside the store.
\<close>

definition reading :: "('w \<Rightarrow> 'a \<times> 'w) \<Rightarrow> ('b \<times> 'w, 'a) prog" where
  "reading f = (\<lambda>(b, w). let (a, w') = f w in (Inr a, (b, w')))"

section \<open>Inbox\<close>

record inbox_entry =
  ie_message_id :: string
  ie_seen_at :: instant

record inbox =
  ttl_seconds :: "int option"
  ib_entries :: "(string, inbox_entry) dict"

definition new_inbox :: "int option \<Rightarrow> inbox" where
  "new_inbox ttl = \<lparr>ttl_seconds = ttl, ib_entries = []\<rparr>"

definition drop_expired :: "instant \<Rightarrow> inbox \<Rightarrow> inbox" where
  "drop_expired expired_before b =
     b\<lparr>ib_entries := filter (\<lambda>(message_id, entry). expired_before \<le> ie_seen_at entry) (ib_entries b)\<rparr>"

definition prune :: "('w \<Rightarrow> instant \<times> 'w) \<Rightarrow> (inbox \<times> 'w, unit) prog" where
  "prune now =
     seq (get_state (\<lambda>(b, w). ttl_seconds b)) (\<lambda>ttl. case ttl of
         None \<Rightarrow> ret ()
       | Some n \<Rightarrow>
           seq (reading now) (\<lambda>t.
           seq (lift_res (ranged (t - n * us_second))) (\<lambda>expired_before.
           modify (\<lambda>(b, w). (drop_expired expired_before b, w)))))"

definition inbox_seen :: "('w \<Rightarrow> instant \<times> 'w) \<Rightarrow> string \<Rightarrow> (inbox \<times> 'w, bool) prog" where
  "inbox_seen now i = seq (prune now) (\<lambda>_. get_state (\<lambda>(b, w). has_key (ib_entries b) i))"

definition inbox_record :: "('w \<Rightarrow> instant \<times> 'w) \<Rightarrow> string \<Rightarrow> (inbox \<times> 'w, unit) prog" where
  "inbox_record now i =
     seq (prune now) (\<lambda>_.
     seq (get_state (\<lambda>(b, w). has_key (ib_entries b) i)) (\<lambda>known.
     if known then raise (DuplicateMessageError i)
     else
       seq (reading now) (\<lambda>t.
       modify (\<lambda>(b, w). (b\<lparr>ib_entries := AList.update i \<lparr>ie_message_id = i, ie_seen_at = t\<rparr> (ib_entries b)\<rparr>, w)))))"

text \<open>A sequence of calls; \<open>None\<close> for a call that raised.\<close>

datatype inbox_call = Seen string | Record string

fun inbox_do :: "('w \<Rightarrow> instant \<times> 'w) \<Rightarrow> inbox_call \<Rightarrow> (inbox \<times> 'w, bool) prog" where
  "inbox_do now (Seen i) = inbox_seen now i"
| "inbox_do now (Record i) = seq (inbox_record now i) (\<lambda>_. ret True)"

fun inbox_run :: "('w \<Rightarrow> instant \<times> 'w) \<Rightarrow> inbox_call list \<Rightarrow> inbox \<times> 'w \<Rightarrow> bool res list \<times> (inbox \<times> 'w)" where
  "inbox_run now [] s = ([], s)"
| "inbox_run now (c # cs) s = (case inbox_do now c s of (r, s1) \<Rightarrow>
     (case inbox_run now cs s1 of (rs, s2) \<Rightarrow> (r # rs, s2)))"

text \<open>\<open>Record\<close> calls that were accepted for one message.\<close>

definition accepted :: "string \<Rightarrow> inbox_call list \<Rightarrow> bool res list \<Rightarrow> nat" where
  "accepted i cs rs = length (filter (\<lambda>(c, r). c = Record i \<and> is_ok r) (zip cs rs))"

section \<open>Outbox\<close>

text \<open>
  Records are objects shared by the queue and the table of receipts: \<open>ob_objects\<close> holds them,
  the queue and the table refer to them by position.
\<close>

record outbox_record =
  ob_receipt :: string
  ob_message :: bytes
  ob_created_at :: instant
  ob_claimed_at :: "instant option"
  ob_dispatched_at :: "instant option"

record outbox =
  ob_objects :: "outbox_record list"
  ob_queue :: "nat list"
  ob_records :: "(string, nat) dict"

definition new_outbox :: outbox where
  "new_outbox = \<lparr>ob_objects = [], ob_queue = [], ob_records = []\<rparr>"

definition enqueue_record :: "string \<Rightarrow> bytes \<Rightarrow> instant \<Rightarrow> outbox \<Rightarrow> outbox" where
  "enqueue_record receipt msg t b = (let n = length (ob_objects b) in
     \<lparr>ob_objects = ob_objects b @ [\<lparr>ob_receipt = receipt, ob_message = msg, ob_created_at = t, ob_claimed_at = None,
        ob_dispatched_at = None\<rparr>],
      ob_queue = ob_queue b @ [n], ob_records = AList.update receipt n (ob_records b)\<rparr>)"

definition outbox_add ::
    "('w \<Rightarrow> string \<times> 'w) \<Rightarrow> ('w \<Rightarrow> instant \<times> 'w) \<Rightarrow> bytes \<Rightarrow> (outbox \<times> 'w, string) prog" where
  "outbox_add uuid now msg =
     seq (reading uuid) (\<lambda>receipt.
     seq (reading now) (\<lambda>t.
     seq (modify (\<lambda>(b, w). (enqueue_record receipt msg t b, w))) (\<lambda>_.
     ret receipt)))"

definition claim_object :: "nat \<Rightarrow> instant \<Rightarrow> outbox \<Rightarrow> outbox" where
  "claim_object n t b = b\<lparr>ob_objects := (ob_objects b)[n := (ob_objects b ! n)\<lparr>ob_claimed_at := Some t\<rparr>]\<rparr>"

fun claim_loop :: "('w \<Rightarrow> instant \<times> 'w) \<Rightarrow> nat \<Rightarrow> bytes list \<Rightarrow> (outbox \<times> 'w, bytes list) prog" where
  "claim_loop now 0 claimed = ret claimed"
| "claim_loop now (Suc k) claimed =
     seq (get_state (\<lambda>(b, w). ob_queue b)) (\<lambda>q. case q of
         [] \<Rightarrow> raise (AppError ''IndexError'')
       | n # ns \<Rightarrow>
           seq (modify (\<lambda>(b, w). (b\<lparr>ob_queue := ns\<rparr>, w))) (\<lambda>_.
           seq (reading now) (\<lambda>t.
           seq (modify (\<lambda>(b, w). (claim_object n t b, w))) (\<lambda>_.
           seq (get_state (\<lambda>(b, w). ob_message (ob_objects b ! n))) (\<lambda>msg.
           claim_loop now k (claimed @ [msg]))))))"

definition outbox_claim :: "('w \<Rightarrow> instant \<times> 'w) \<Rightarrow> int \<Rightarrow> (outbox \<times> 'w, bytes list) prog" where
  "outbox_claim now limit =
     seq (get_state (\<lambda>(b, w). min limit (int (length (ob_queue b))))) (\<lambda>k. claim_loop now (nat k) [])"

definition outbox_complete :: "('w \<Rightarrow> instant \<times> 'w) \<Rightarrow> string \<Rightarrow> (outbox \<times> 'w, unit) prog" where
  "outbox_complete now receipt =
     seq (get_state (\<lambda>(b, w). map_of (ob_records b) receipt)) (\<lambda>known. case known of
         None \<Rightarrow> ret ()
       | Some n \<Rightarrow>
           seq (reading now) (\<lambda>t.
           modify (\<lambda>(b, w). (b\<lparr>ob_objects := (ob_objects b)[n := (ob_objects b ! n)\<lparr>ob_dispatched_at := Some t\<rparr>]\<rparr>, w))))"

section \<open>Batch buffer\<close>

record 'a batch_buffer =
  bb_event_type :: string
  bb_batch_size :: int
  bb_max_wait :: int
  bb_items :: "'a list"
  bb_first_item_at :: "datetime option"

definition DEFAULT_BATCH_SIZE :: int where "DEFAULT_BATCH_SIZE = 100"
definition DEFAULT_MAX_WAIT :: int where "DEFAULT_MAX_WAIT = 10"

text \<open>Subtracting datetimes: both are aware or both naive.\<close>

definition elapsed :: "datetime \<Rightarrow> datetime \<Rightarrow> int res" where
  "elapsed a b = (if is_aware a \<longleftrightarrow> is_aware b then Inr (utc_of a - utc_of b) else Inl TypeError)"

definition current_or :: "('w \<Rightarrow> instant \<times> 'w) \<Rightarrow> datetime option \<Rightarrow> ('b \<times> 'w, datetime) prog" where
  "current_or clock now = (case now of Some d \<Rightarrow> ret d | None \<Rightarrow> seq (reading clock) (\<lambda>t. ret (at_utc t)))"

definition batch_ready :: "('w \<Rightarrow> instant \<times> 'w) \<Rightarrow> datetime option \<Rightarrow> ('a batch_buffer \<times> 'w, bool) prog" where
  "batch_ready clock now =
     seq (get_state fst) (\<lambda>b.
     if bb_batch_size b \<le> int (length (bb_items b)) then ret True
     else case bb_first_item_at b of
       None \<Rightarrow> ret False
     | Some first \<Rightarrow>
         seq (current_or clock now) (\<lambda>d.
         seq (lift_res (elapsed d first)) (\<lambda>waited.
         ret (bb_max_wait b * us_second \<le> waited))))"

definition batch_add :: "('w \<Rightarrow> instant \<times> 'w) \<Rightarrow> 'a \<Rightarrow> datetime option \<Rightarrow> ('a batch_buffer \<times> 'w, bool) prog" where
  "batch_add clock x now =
     seq (current_or clock now) (\<lambda>d.
     seq (modify (\<lambda>(b, w). (b\<lparr>bb_first_item_at := (case bb_first_item_at b of None \<Rightarrow> Some d | Some f \<Rightarrow> Some f),
        bb_items := bb_items b @ [x]\<rparr>, w))) (\<lambda>_.
     batch_ready clock (Some d)))"

definition batch_flush :: "('a batch_buffer \<times> 'w, 'a list) prog" where
  "batch_flush =
     seq (get_state (\<lambda>(b, w). bb_items b)) (\<lambda>items.
     seq (modify (\<lambda>(b, w). (b\<lparr>bb_items := [], bb_first_item_at := None\<rparr>, w))) (\<lambda>_.
     ret items))"

section \<open>The inbox accepts a message once\<close>

text \<open>While all readings of the clock lie in a window no longer than the lifetime, no entry expires.\<close>

definition window :: "('w \<Rightarrow> instant \<times> 'w) \<Rightarrow> int option \<Rightarrow> instant \<Rightarrow> instant \<Rightarrow> bool" where
  "window now ttl lo hi \<longleftrightarrow> (\<forall>w. lo \<le> fst (now w) \<and> fst (now w) \<le> hi)
     \<and> (case ttl of None \<Rightarrow> True | Some n \<Rightarrow> hi - n * us_second \<le> lo \<and> (\<forall>t. lo \<le> t \<and> t \<le> hi \<longrightarrow> in_range (t - n * us_second)))"

definition recent :: "instant \<Rightarrow> inbox \<Rightarrow> bool" where
  "recent lo b \<longleftrightarrow> (\<forall>(i, entry) \<in> set (ib_entries b). lo \<le> ie_seen_at entry)"

lemma prune_keeps:
  assumes "window now (ttl_seconds b) lo hi" "recent lo b"
  shows "\<exists>w'. prune now (b, w) = (Inr (), (b, w'))"
proof (cases "ttl_seconds b")
  case None
  then show ?thesis by (simp add: prune_def seq_def)
next
  case (Some n)
  obtain t w' where t: "now w = (t, w')" by (metis surj_pair)
  then have "lo \<le> t \<and> t \<le> hi" using assms(1) unfolding window_def by (metis fst_conv)
  then have r: "in_range (t - n * us_second)" "t - n * us_second \<le> lo" using assms(1) Some by (auto simp: window_def)
  have "filter (\<lambda>(i, entry). t - n * us_second \<le> ie_seen_at entry) (ib_entries b) = ib_entries b"
    using assms(2) r(2) by (auto simp: recent_def filter_id_conv)
  then have "drop_expired (t - n * us_second) b = b" by (simp add: drop_expired_def)
  then show ?thesis using Some t r(1) by (simp add: prune_def seq_def reading_def ranged_def)
qed

lemma recent_update:
  assumes "recent lo b" "lo \<le> t" "\<not> has_key (ib_entries b) i"
  shows "recent lo (b\<lparr>ib_entries := AList.update i \<lparr>ie_message_id = i, ie_seen_at = t\<rparr> (ib_entries b)\<rparr>)"
  using assms by (simp add: recent_def dict_update_fresh)

lemma inbox_step:
  assumes "window now (ttl_seconds b) lo hi" "recent lo b" "inbox_do now c (b, w) = (r, (b', w'))"
  shows "ttl_seconds b' = ttl_seconds b \<and> recent lo b'
    \<and> (has_key (ib_entries b') i \<longleftrightarrow> has_key (ib_entries b) i \<or> c = Record i)
    \<and> (c = Record i \<longrightarrow> (is_ok r \<longleftrightarrow> \<not> has_key (ib_entries b) i))"
proof -
  obtain w1 where p: "prune now (b, w) = (Inr (), (b, w1))" using prune_keeps [OF assms(1,2)] by blast
  show ?thesis
  proof (cases c)
    case (Seen j)
    then show ?thesis using assms p by (auto simp: inbox_seen_def)
  next
    case (Record j)
    obtain t w2 where t: "now w1 = (t, w2)" by (metis surj_pair)
    then have lo: "lo \<le> t" using assms(1) unfolding window_def by (metis fst_conv)
    show ?thesis
    proof (cases "has_key (ib_entries b) j")
      case True
      then show ?thesis using assms p Record by (auto simp: inbox_record_def seq_def)
    next
      case False
      then have b': "b' = b\<lparr>ib_entries := AList.update j \<lparr>ie_message_id = j, ie_seen_at = t\<rparr> (ib_entries b)\<rparr>" "r = Inr True"
        using assms(3) p Record t by (auto simp: inbox_record_def seq_def reading_def)
      show ?thesis using b' recent_update [OF assms(2) lo False] False Record assms(2)
        by (simp add: dict_update_fresh) (auto simp: has_key_def)
    qed
  qed
qed

lemma inbox_run_accepted:
  assumes "window now (ttl_seconds b) lo hi" "recent lo b"
  shows "accepted i cs (fst (inbox_run now cs (b, w))) = (if \<not> has_key (ib_entries b) i \<and> Record i \<in> set cs then 1 else 0)"
  using assms
proof (induction cs arbitrary: b w)
  case Nil
  then show ?case by (simp add: accepted_def)
next
  case (Cons c cs)
  obtain r b1 w1 where step: "inbox_do now c (b, w) = (r, (b1, w1))" by (metis surj_pair)
  note s = inbox_step [OF Cons.prems step, of i]
  have IH: "accepted i cs (fst (inbox_run now cs (b1, w1))) = (if \<not> has_key (ib_entries b1) i \<and> Record i \<in> set cs then 1 else 0)"
    using Cons.IH [of b1 w1] Cons.prems s by simp
  show ?case
    using IH s step by (cases "c = Record i") (auto simp: accepted_def split: prod.splits)
qed

text \<open>
  C33. The in-memory inbox accepts each message once: of all attempts to record a message id, in
  any sequence of calls made within the lifetime of the entries, exactly the first succeeds.
\<close>

theorem inbox_records_once:
  assumes "window now ttl lo hi"
  shows "accepted i cs (fst (inbox_run now cs (new_inbox ttl, w))) = (if Record i \<in> set cs then 1 else 0)"
proof -
  have "window now (ttl_seconds (new_inbox ttl)) lo hi" "recent lo (new_inbox ttl)"
    using assms by (simp_all add: new_inbox_def recent_def)
  from inbox_run_accepted [OF this] show ?thesis by (simp add: new_inbox_def has_key_def)
qed

theorem inbox_records_once_witness:
  "accepted ''a'' [Record ''a'', Seen ''a'', Record ''b'', Record ''a'']
     (fst (inbox_run (\<lambda>n. (63000000000000000 + n mod 1000000, n + 1)) [Record ''a'', Seen ''a'', Record ''b'', Record ''a'']
       (new_inbox (Some 5), 0))) = 1"
proof -
  have "window (\<lambda>n. (63000000000000000 + n mod 1000000, n + 1)) (Some 5) 63000000000000000 63000000001000000"
    by (auto simp: window_def in_range_def intro: less_imp_le)
  from inbox_records_once [OF this, of "''a''" "[Record ''a'', Seen ''a'', Record ''b'', Record ''a'']" 0] show ?thesis
    by (simp del: inbox_run.simps)
qed

section \<open>The outbox hands out each message once\<close>

definition pending :: "outbox \<Rightarrow> bytes list" where
  "pending b = map (\<lambda>n. ob_message (ob_objects b ! n)) (ob_queue b)"

definition outbox_wf :: "outbox \<Rightarrow> bool" where
  "outbox_wf b \<longleftrightarrow> distinct (ob_queue b) \<and> (\<forall>n \<in> set (ob_queue b). n < length (ob_objects b))"

lemma outbox_wf_new: "outbox_wf new_outbox"
  by (simp add: outbox_wf_def new_outbox_def)

lemma pending_add:
  assumes "outbox_wf b" shows "pending (enqueue_record r msg t b) = pending b @ [msg]" "outbox_wf (enqueue_record r msg t b)"
  using assms by (auto simp: pending_def enqueue_record_def outbox_wf_def Let_def nth_append less_SucI)

lemma message_update:
  "ob_message x = ob_message (xs ! n) \<Longrightarrow> ob_message (xs[n := x] ! k) = ob_message (xs ! k)"
  by (cases "n < length xs"; cases "k = n") (auto simp: list_update_beyond not_less)

lemma claim_object_messages: "ob_message (ob_objects (claim_object n t b) ! k) = ob_message (ob_objects b ! k)"
  by (simp add: claim_object_def message_update)

lemma claim_loop_run:
  assumes "outbox_wf b" "k \<le> length (ob_queue b)"
  shows "\<exists>b' w'. claim_loop now k claimed (b, w) = (Inr (claimed @ take k (pending b)), (b', w'))
    \<and> pending b' = drop k (pending b) \<and> outbox_wf b'
    \<and> map ob_message (ob_objects b') = map ob_message (ob_objects b)"
  using assms
proof (induction k arbitrary: b w claimed)
  case 0
  then show ?case by simp
next
  case (Suc k)
  then obtain n ns where q: "ob_queue b = n # ns" by (cases "ob_queue b") auto
  obtain t w1 where t: "now w = (t, w1)" by (metis surj_pair)
  define b1 where "b1 = claim_object n t (b\<lparr>ob_queue := ns\<rparr>)"
  have msgs: "ob_message (ob_objects b1 ! j) = ob_message (ob_objects b ! j)" for j
    by (simp add: b1_def claim_object_messages)
  have len: "length (ob_objects b1) = length (ob_objects b)" and qs: "ob_queue b1 = ns"
    by (simp_all add: b1_def claim_object_def)
  have wf: "outbox_wf b1" using Suc.prems(1) by (auto simp: outbox_wf_def len qs q)
  have pend: "pending b = ob_message (ob_objects b ! n) # pending b1" by (simp add: pending_def q qs msgs)
  have step: "claim_loop now (Suc k) claimed (b, w) = claim_loop now k (claimed @ [ob_message (ob_objects b1 ! n)]) (b1, w1)"
    by (simp add: seq_def q t reading_def b1_def)
  have "k \<le> length (ob_queue b1)" using Suc.prems(2) q qs by simp
  from Suc.IH [OF wf this, of "claimed @ [ob_message (ob_objects b1 ! n)]" w1] obtain b' w' where
    "claim_loop now k (claimed @ [ob_message (ob_objects b1 ! n)]) (b1, w1)
       = (Inr ((claimed @ [ob_message (ob_objects b1 ! n)]) @ take k (pending b1)), (b', w'))"
    "pending b' = drop k (pending b1)" "outbox_wf b'" "map ob_message (ob_objects b') = map ob_message (ob_objects b1)"
    by blast
  moreover have "map ob_message (ob_objects b1) = map ob_message (ob_objects b)"
    by (rule nth_equalityI) (simp_all add: len msgs)
  ultimately show ?case using pend msgs by (simp only: step) simp
qed

lemma outbox_claim_fifo:
  assumes "outbox_wf b"
  shows "\<exists>b' w'. outbox_claim now limit (b, w) = (Inr (take (nat limit) (pending b)), (b', w'))
    \<and> pending b' = drop (nat limit) (pending b) \<and> outbox_wf b'"
proof -
  let ?k = "nat (min limit (int (length (ob_queue b))))"
  have k: "take ?k (pending b) = take (nat limit) (pending b)" "drop ?k (pending b) = drop (nat limit) (pending b)"
    by (auto simp: pending_def min_def take_all drop_all nat_le_iff le_nat_iff)
  have "?k \<le> length (ob_queue b)" by (simp add: nat_le_iff)
  from claim_loop_run [OF assms this, of now "[]" w] show ?thesis using k by (auto simp: outbox_claim_def seq_def)
qed

text \<open>Completing a receipt does not take its message back: a message completed before it is claimed is still handed out.\<close>

lemma complete_keeps_pending: "outbox_complete now receipt (b, w) = (r, (b', w')) \<Longrightarrow> pending b' = pending b"
  by (auto simp: outbox_complete_def seq_def reading_def pending_def message_update split: option.splits prod.splits)

section \<open>Batches keep their items\<close>

lemma batch_add_flush:
  assumes "batch_add clock x now (b, w) = (r, (b1, w1))" and "batch_flush (b1, w1) = (Inr items, (b2, w2))"
  shows "items = bb_items b @ [x] \<and> bb_items b2 = [] \<and> bb_first_item_at b2 = None"
proof -
  obtain d w3 where d: "current_or clock now (b, w) = (Inr d, (b, w3))"
  proof (cases now)
    case None
    then show ?thesis using that by (cases "clock w") (auto simp: current_or_def seq_def reading_def)
  next
    case (Some d)
    then show ?thesis using that by (simp add: current_or_def)
  qed
  define b3 where "b3 = b\<lparr>bb_first_item_at := (case bb_first_item_at b of None \<Rightarrow> Some d | Some f \<Rightarrow> Some f), bb_items := bb_items b @ [x]\<rparr>"
  have "batch_ready clock (Some d) (b3, w3) = (r, (b1, w1))" using assms(1) d by (simp add: batch_add_def seq_def b3_def)
  then have "b1 = b3" by (auto simp: batch_ready_def seq_def current_or_def split: if_splits option.splits sum.splits)
  then show ?thesis using assms(2) by (auto simp: batch_flush_def seq_def b3_def)
qed

lemma batch_full:
  assumes "batch_add clock x (Some d) (b, w) = (Inr ready, s)" "bb_batch_size b \<le> int (length (bb_items b)) + 1"
  shows "ready"
  using assms by (auto simp: batch_add_def batch_ready_def seq_def current_or_def)

end
