(* ===== verification/DjangoCodec.thy ===== *)
theory DjangoCodec
  imports Codecs
begin

text \<open>
  integrations/django_serialization.py: the payload codec that writes Django model instances as
  references and resolves them when reading. It overrides \<open>encode\<close> and \<open>decode\<close> of the Python
  codec, whose recursive calls then come back to the overriding methods: the inherited bodies
  are \<open>encode_step\<close> and \<open>decode_step\<close>, with \<open>self.encode\<close> and \<open>self.decode\<close> as their
  argument. A model instance is a \<open>PData\<close> value whose class \<open>models\<close> knows; without Django
  there are none. Resolvers are application code that reads the database.
\<close>

section \<open>The inherited methods\<close>

definition encode_step :: "type_registry \<Rightarrow> (pyval \<Rightarrow> pyval res) \<Rightarrow> pyval \<Rightarrow> pyval res" where
  "encode_step R self_encode v = (case v of
     PDecimal t \<Rightarrow>
       if parse_decimal t = Some Special then Inl SerializationError
       else Inr (marked ''decimal'' [(''version'', PInt CODEC_VERSION), (''value'', PStr t)])
   | PData n fs \<Rightarrow>
       bind_res (type_id_for R n) (\<lambda>i.
       bind_res (map_entries self_encode fs) (\<lambda>es.
       Inr (marked ''dataclass'' [(''type'', PStr i), (''version'', PInt CODEC_VERSION), (''fields'', PDict es)])))
   | PDict d \<Rightarrow>
       bind_res (map_entries self_encode d) (\<lambda>es.
       if has_key d CODEC_KEY
       then Inr (marked ''mapping'' [(''version'', PInt CODEC_VERSION), (''value'', PDict es)])
       else Inr (PDict es))
   | PList xs \<Rightarrow> bind_res (map_res self_encode xs) (\<lambda>ys. Inr (PList ys))
   | PTuple xs \<Rightarrow> bind_res (map_res self_encode xs) (\<lambda>ys. Inr (PList ys))
   | _ \<Rightarrow> Inr (encode_value v))"

definition decode_step ::
    "type_registry \<Rightarrow> (string \<Rightarrow> (string, pyval) dict \<Rightarrow> pyval res) \<Rightarrow> (pyval \<Rightarrow> pyval res) \<Rightarrow> pyval \<Rightarrow> pyval res" where
  "decode_step R build self_decode v = (case v of
     PList xs \<Rightarrow> bind_res (map_res self_decode xs) (\<lambda>ys. Inr (PList ys))
   | PDict d \<Rightarrow>
       bind_res (value_kind d) (\<lambda>kind.
       if kind = PStr ''mapping'' \<and> has_key d CODEC_KEY then
         (case map_of d ''value'' of
            Some (PDict m) \<Rightarrow>
              bind_res (map_entries self_decode m) (\<lambda>m'.
              bind_res (map_entries self_decode (filter (\<lambda>(k, v). k \<notin> {CODEC_KEY, ''version'', ''value''}) d)) (\<lambda>rest.
              Inr (PDict (dict_merge m' rest))))
          | _ \<Rightarrow> Inl DeserializationError)
       else if kind = PStr ''decimal'' then decode_decimal (py_get d ''value'')
       else if kind = PStr ''dataclass'' then
         bind_res (dataclass_id d) (\<lambda>type_id.
         if has_key d ''version'' \<and> \<not> equals_int CODEC_VERSION (py_get d ''version'') then Inl DeserializationError
         else bind_res (resolve_type R type_id) (\<lambda>value_type.
         case map_of d ''fields'' of
           Some (PDict fs) \<Rightarrow> catch_type_error (bind_res (map_entries self_decode fs) (build value_type))
         | _ \<Rightarrow> Inl DeserializationError))
       else if has_key d CODEC_KEY then Inl DeserializationError
       else if \<not> hashable kind then Inl TypeError
       else if kind \<in> PStr ` reserved_types then decode_value (PDict d)
       else bind_res (map_entries self_decode d) (\<lambda>e. Inr (PDict e)))
   | _ \<Rightarrow> decode_value v)"

text \<open>With itself as \<open>self\<close>, the Python codec is the fixed point of both.\<close>

lemma py_encode_step: "py_encode R v = encode_step R (py_encode R) v"
  by (cases v) (simp_all add: encode_step_def)

lemma py_decode_step: "py_decode R build v = decode_step R build (py_decode R build) v"
  by (cases v) (simp_all add: decode_step_def)

section \<open>Parts of a value\<close>

fun children :: "pyval \<Rightarrow> pyval list" where
  "children (PList xs) = xs"
| "children (PTuple xs) = xs"
| "children (PDict d) = map snd d"
| "children (PData n fs) = map snd fs"
| "children v = []"

lemma in_snd_image: "x \<in> snd ` set d \<longleftrightarrow> (\<exists>k. (k, x) \<in> set d)"
  by force

lemma size_member: "x \<in> set xs \<Longrightarrow> size x < size (PList xs)"
  by (induction xs) auto

lemma size_item: "x \<in> set xs \<Longrightarrow> size x < size (PTuple xs)"
  by (induction xs) auto

lemma size_field: "(k, x) \<in> set fs \<Longrightarrow> size x < size (PData n fs)"
  by (induction fs) auto

lemma size_children: "x \<in> set (children v) \<Longrightarrow> size x < size v"
  by (cases v) (auto simp: in_snd_image simp del: pyval.size dest: size_member size_item size_field size_entry)

text \<open>A value with everything inside it.\<close>

function (sequential) parts :: "pyval \<Rightarrow> pyval list" where
  "parts v = v # concat (map parts (children v))"
  by pat_completeness auto

termination by (relation "measure size") (simp_all add: size_children)

declare parts.simps [simp del]

lemma parts_self: "v \<in> set (parts v)"
  by (subst parts.simps) simp

lemma parts_leaf: "children v = [] \<Longrightarrow> parts v = [v]"
  by (subst parts.simps) simp

lemma parts_child: "x \<in> set (children v) \<Longrightarrow> set (parts x) \<subseteq> set (parts v)"
  by (subst (2) parts.simps) auto

lemma parts_below: "x \<in> set (parts v) \<Longrightarrow> x = v \<or> (\<exists>c \<in> set (children v). x \<in> set (parts c))"
  by (subst (asm) parts.simps) auto

lemma parts_trans: "x \<in> set (parts v) \<Longrightarrow> set (parts x) \<subseteq> set (parts v)"
proof (induction v arbitrary: x rule: measure_induct_rule [where f = size])
  case (less v)
  from parts_below [OF less.prems] show ?case
  proof
    assume "\<exists>c \<in> set (children v). x \<in> set (parts c)"
    then obtain c where c: "c \<in> set (children v)" "x \<in> set (parts c)" by blast
    then show ?thesis using less.IH [OF size_children [OF c(1)] c(2)] parts_child [OF c(1)] by blast
  qed simp
qed

lemma part_child: "c \<in> set (children v) \<Longrightarrow> c \<in> set (parts v)"
  using parts_child parts_self by blast

lemma encode_step_cong [fundef_cong]:
  assumes "v = v'" "\<And>x. x \<in> set (parts v') \<Longrightarrow> size x < size v' \<Longrightarrow> f x = g x"
  shows "encode_step R f v = encode_step R g v'"
proof -
  have *: "f x = g x" if "x \<in> set (children v')" for x using assms(2) that by (simp add: part_child size_children)
  show ?thesis
  proof (cases v')
    case (PList xs)
    with * have "map_res f xs = map_res g xs" by (intro map_res_cong) auto
    then show ?thesis using assms(1) PList by (simp add: encode_step_def)
  next
    case (PTuple xs)
    with * have "map_res f xs = map_res g xs" by (intro map_res_cong) auto
    then show ?thesis using assms(1) PTuple by (simp add: encode_step_def)
  next
    case (PDict d)
    with * have "map_entries f d = map_entries g d" by (intro map_entries_cong) (auto simp: in_snd_image)
    then show ?thesis using assms(1) PDict by (simp add: encode_step_def)
  next
    case (PData n fs)
    with * have "map_entries f fs = map_entries g fs" by (intro map_entries_cong) (auto simp: in_snd_image)
    then show ?thesis using assms(1) PData by (simp add: encode_step_def)
  qed (simp_all add: assms(1) encode_step_def)
qed

lemma map_of_child: "map_of d k = Some v \<Longrightarrow> v \<in> set (children (PDict d))"
  by (auto dest: map_of_SomeD simp: in_snd_image)

lemma decode_step_cong [fundef_cong]:
  assumes "v = v'" "\<And>x. x \<in> set (parts v') \<Longrightarrow> size x < size v' \<Longrightarrow> f x = g x"
  shows "decode_step R build f v = decode_step R build g v'"
proof -
  have *: "f x = g x" if "x \<in> set (children v')" for x using assms(2) that by (simp add: part_child size_children)
  have **: "f x = g x" if "c \<in> set (children v')" "x \<in> set (children c)" for c x
    using assms(2) [of x] that parts_child [OF that(1)] part_child [OF that(2)] size_children [OF that(1)] size_children [OF that(2)]
    by (meson less_trans subsetD)
  show ?thesis
  proof (cases v')
    case (PList xs)
    with * have "map_res f xs = map_res g xs" by (intro map_res_cong) auto
    then show ?thesis using assms(1) PList by (simp add: decode_step_def)
  next
    case (PDict d)
    have d: "map_entries f d = map_entries g d" using * PDict by (intro map_entries_cong) (auto simp: in_snd_image)
    have r: "map_entries f (filter p d) = map_entries g (filter p d)" for p
      using * PDict by (intro map_entries_cong) (auto simp: in_snd_image)
    have n: "map_entries f m = map_entries g m" if "map_of d k = Some (PDict m)" for k m
      using ** [of "PDict m"] map_of_child [OF that] PDict by (intro map_entries_cong) (auto simp: in_snd_image)
    show ?thesis
      unfolding assms(1) PDict decode_step_def pyval.case
      by (intro bind_res_cong refl if_cong) (auto simp: d r n split: option.splits pyval.splits intro!: bind_res_cong)
  qed (simp_all add: assms(1) decode_step_def)
qed

section \<open>The Django codec\<close>

text \<open>\<open>_meta.app_label\<close>, \<open>_meta.model_name\<close> and the attribute \<open>pk\<close> reads.\<close>

record model_class =
  mc_app_label :: string
  mc_model_name :: string
  mc_pk_attr :: string

type_synonym models = "string \<Rightarrow> model_class option"

type_synonym resolvers = "(string, pyval \<Rightarrow> pyval \<Rightarrow> pyval res) dict"

definition MODEL_TYPE :: string where "MODEL_TYPE = ''django_model''"
definition DJANGO_TYPE_PREFIX :: string where "DJANGO_TYPE_PREFIX = ''django://''"

definition model_type_name :: "string \<Rightarrow> string \<Rightarrow> string" where
  "model_type_name app_label model_name = DJANGO_TYPE_PREFIX @ app_label @ ''/'' @ model_name"

fun model_ref :: "models \<Rightarrow> pyval \<Rightarrow> (string \<times> pyval) option" where
  "model_ref M (PData n fs) = map_option (\<lambda>c. (model_type_name (mc_app_label c) (mc_model_name c), py_get fs (mc_pk_attr c))) (M n)"
| "model_ref M v = None"

text \<open>A primary key that is itself a model instance is no dataclass: the inherited method passes it on.\<close>

definition super_encode :: "type_registry \<Rightarrow> models \<Rightarrow> (pyval \<Rightarrow> pyval res) \<Rightarrow> pyval \<Rightarrow> pyval res" where
  "super_encode R M self_encode v = (if model_ref M v \<noteq> None then Inr (encode_value v) else encode_step R self_encode v)"

lemma super_encode_cong [fundef_cong]:
  "v = v' \<Longrightarrow> (\<And>x. x \<in> set (parts v') \<Longrightarrow> size x < size v' \<Longrightarrow> f x = g x) \<Longrightarrow> super_encode R M f v = super_encode R M g v'"
  unfolding super_encode_def using encode_step_cong by metis

lemma size_model_ref: "model_ref M v = Some (mt, pk) \<Longrightarrow> size pk < size v"
proof (cases v)
  case (PData n fs)
  assume "model_ref M v = Some (mt, pk)"
  then obtain c :: model_class where pk: "pk = py_get fs (mc_pk_attr c)" using PData by auto
  show "size pk < size v"
  proof (cases "map_of fs (mc_pk_attr c)")
    case None
    then show ?thesis using PData pk by (simp add: py_get_def)
  next
    case (Some x)
    then have "x \<in> set (children v)" using PData by (auto dest!: map_of_SomeD simp: in_snd_image)
    then show ?thesis using Some pk by (simp add: py_get_def size_children)
  qed
qed auto

function dj_encode :: "type_registry \<Rightarrow> models \<Rightarrow> resolvers \<Rightarrow> pyval \<Rightarrow> pyval res" where
  "dj_encode R M rs v = (case model_ref M v of
     Some (model_type, pk) \<Rightarrow>
       if \<not> has_key rs model_type then Inl SerializationError
       else bind_res (super_encode R M (dj_encode R M rs) pk) (\<lambda>p.
         Inr (marked MODEL_TYPE [(''version'', PInt CODEC_VERSION), (''type'', PStr model_type), (''pk'', p)]))
   | None \<Rightarrow> super_encode R M (dj_encode R M rs) v)"
  by pat_completeness auto

termination
  by (relation "measure (\<lambda>(R, M, rs, v). size v)") (auto dest: size_model_ref)

declare dj_encode.simps [simp del]

text \<open>The kind of a mapping, and the reference type it names.\<close>

definition marker_of :: "(string, pyval) dict \<Rightarrow> pyval" where
  "marker_of d = (if has_key d CODEC_KEY then py_get d CODEC_KEY else py_get d TYPE_KEY)"

definition is_reference :: "pyval \<Rightarrow> bool" where
  "is_reference v = (case v of PDict d \<Rightarrow> marker_of d = PStr MODEL_TYPE | _ \<Rightarrow> False)"

definition reference_type :: "(string, pyval) dict \<Rightarrow> string res" where
  "reference_type d =
     (let model_type = (case py_get d ''type'' of
            PNone \<Rightarrow> (case (py_get d ''app_label'', py_get d ''model_name'') of
                (PStr a, PStr m) \<Rightarrow> PStr (model_type_name a m) | _ \<Rightarrow> PNone)
          | v \<Rightarrow> v) in
      case model_type of
        PStr s \<Rightarrow> if take (length DJANGO_TYPE_PREFIX) s = DJANGO_TYPE_PREFIX then Inr s else Inl DeserializationError
      | _ \<Rightarrow> Inl DeserializationError)"

definition resolve_reference :: "(pyval \<Rightarrow> pyval \<Rightarrow> pyval res) \<Rightarrow> pyval \<Rightarrow> pyval \<Rightarrow> pyval res" where
  "resolve_reference f pk ctx = (case f pk ctx of
     Inl e \<Rightarrow> Inl DeserializationError
   | Inr v \<Rightarrow> if v = PNone then Inl DeserializationError else Inr v)"

definition context_or_empty :: "pyval \<Rightarrow> pyval" where
  "context_or_empty ctx = or_val ctx (PDict [])"

lemma size_py_get: "size (py_get d k) < size (PDict d)"
  by (auto simp: py_get_def split: option.splits dest: size_map_of)

function dj_decode ::
    "type_registry \<Rightarrow> (string \<Rightarrow> (string, pyval) dict \<Rightarrow> pyval res) \<Rightarrow> resolvers \<Rightarrow> pyval \<Rightarrow> pyval \<Rightarrow> pyval res" where
  "dj_decode R build rs ctx v = (case v of
     PDict d \<Rightarrow>
       if is_reference v then
         bind_res (if has_key d CODEC_KEY then validate_codec_version d else Inr ()) (\<lambda>_.
         bind_res (reference_type d) (\<lambda>model_type.
         case map_of rs model_type of
           None \<Rightarrow> Inl DeserializationError
         | Some resolver \<Rightarrow>
             bind_res (decode_step R build (dj_decode R build rs ctx) (py_get d ''pk'')) (\<lambda>pk.
             resolve_reference resolver pk (context_or_empty ctx))))
       else decode_step R build (dj_decode R build rs ctx) v
   | _ \<Rightarrow> decode_step R build (dj_decode R build rs ctx) v)"
  by pat_completeness auto

termination
  by (relation "measure (\<lambda>(R, build, rs, ctx, v). size v)") (auto intro: less_trans [OF _ size_py_get] simp del: pyval.size)

declare dj_decode.simps [simp del]

definition django_codec ::
    "type_registry \<Rightarrow> (string \<Rightarrow> (string, pyval) dict \<Rightarrow> pyval res) \<Rightarrow> models \<Rightarrow> resolvers \<Rightarrow> codec" where
  "django_codec R build M rs = \<lparr>codec_encode = (\<lambda>v ctx. dj_encode R M rs v), codec_decode = (\<lambda>v ctx. dj_decode R build rs ctx v)\<rparr>"

section \<open>The payload serializer\<close>

definition serialize_django_payload ::
    "type_registry \<Rightarrow> (string \<Rightarrow> (string, pyval) dict \<Rightarrow> pyval res) \<Rightarrow> models \<Rightarrow> resolvers \<Rightarrow> pyval \<Rightarrow> pyval \<Rightarrow> pyval res" where
  "serialize_django_payload R build M rs v ctx = codec_encode (django_codec R build M rs) v ctx"

definition deserialize_django_payload ::
    "type_registry \<Rightarrow> (string \<Rightarrow> (string, pyval) dict \<Rightarrow> pyval res) \<Rightarrow> models \<Rightarrow> resolvers \<Rightarrow> pyval \<Rightarrow> pyval \<Rightarrow> pyval res" where
  "deserialize_django_payload R build M rs v ctx = codec_decode (django_codec R build M rs) v ctx"

definition payload_dumps :: "codec \<Rightarrow> pyval \<Rightarrow> string res" where
  "payload_dumps C v = bind_res (codec_encode C v PNone) dumps"

definition payload_dump :: "codec \<Rightarrow> pyval \<Rightarrow> bytes res" where
  "payload_dump C v = bind_res (codec_encode C v PNone) dump"

definition payload_loads :: "codec \<Rightarrow> bytes \<Rightarrow> pyval res" where
  "payload_loads C b = bind_res (loads b) (\<lambda>v. codec_decode C v PNone)"

section \<open>The Django codec extends the Python codec\<close>

definition no_models :: "models \<Rightarrow> pyval \<Rightarrow> bool" where
  "no_models M v \<longleftrightarrow> (\<forall>x \<in> set (parts v). model_ref M x = None)"

definition no_references :: "pyval \<Rightarrow> bool" where
  "no_references v \<longleftrightarrow> (\<forall>x \<in> set (parts v). \<not> is_reference x)"

lemma no_models_part: "no_models M v \<Longrightarrow> x \<in> set (parts v) \<Longrightarrow> no_models M x"
  using parts_trans by (fastforce simp: no_models_def)

lemma no_references_part: "no_references v \<Longrightarrow> x \<in> set (parts v) \<Longrightarrow> no_references x"
  using parts_trans by (fastforce simp: no_references_def)

lemma dj_encode_plain: "no_models M v \<Longrightarrow> dj_encode R M rs v = py_encode R v"
proof (induction v rule: measure_induct_rule [where f = size])
  case (less v)
  have "model_ref M v = None" using less.prems parts_self by (auto simp: no_models_def)
  then have "dj_encode R M rs v = encode_step R (dj_encode R M rs) v"
    by (subst dj_encode.simps) (simp add: super_encode_def)
  also have "\<dots> = encode_step R (py_encode R) v"
    by (rule encode_step_cong [OF refl]) (use less no_models_part in blast)
  finally show ?case by (simp flip: py_encode_step)
qed

lemma dj_decode_plain: "no_references v \<Longrightarrow> dj_decode R build rs ctx v = py_decode R build v"
proof (induction v rule: measure_induct_rule [where f = size])
  case (less v)
  have "\<not> is_reference v" using less.prems parts_self by (auto simp: no_references_def)
  then have "dj_decode R build rs ctx v = decode_step R build (dj_decode R build rs ctx) v"
    by (subst dj_decode.simps) (cases v; simp)
  also have "\<dots> = decode_step R build (py_decode R build) v"
    by (rule decode_step_cong [OF refl]) (use less no_references_part in blast)
  finally show ?case by (simp flip: py_decode_step)
qed

text \<open>
  C32. The Django codec extends the Python codec: a value without model instances is encoded, and
  wire data without model references is decoded, exactly as by the Python codec, with the same
  errors.
\<close>

theorem django_codec_extends:
  "(no_models M v \<longrightarrow> codec_encode (django_codec R build M rs) v ctx = codec_encode (python_codec R build) v ctx)
   \<and> (no_references w \<longrightarrow> codec_decode (django_codec R build M rs) w ctx = codec_decode (python_codec R build) w ctx)"
  by (simp add: django_codec_def python_codec_def dj_encode_plain dj_decode_plain)

theorem django_codec_extends_witness:
  "codec_encode (django_codec money_types (\<lambda>n fs. Inr (PData n fs)) (\<lambda>n. None) []) money PNone
     = codec_encode (python_codec money_types (\<lambda>n fs. Inr (PData n fs))) money PNone
   \<and> codec_decode (django_codec money_types (\<lambda>n fs. Inr (PData n fs)) (\<lambda>n. None) []) (PList [PInt 1, PNone]) PNone
     = codec_decode (python_codec money_types (\<lambda>n fs. Inr (PData n fs))) (PList [PInt 1, PNone]) PNone"
proof -
  have "model_ref (\<lambda>n. None) v = None" for v by (cases v) simp_all
  then have "no_models (\<lambda>n. None) money" by (simp add: no_models_def)
  moreover have "no_references (PList [PInt 1, PNone])"
    by (simp add: no_references_def is_reference_def parts.simps [of "PList _"] parts_leaf)
  ultimately show ?thesis using django_codec_extends by blast
qed

section \<open>References resolve\<close>

fun scalar_key :: "pyval \<Rightarrow> bool" where
  "scalar_key (PInt i) = True"
| "scalar_key (PStr s) = True"
| "scalar_key (PUuid n) = wf_value (PUuid n)"
| "scalar_key v = False"

lemma scalar_key_round_trip:
  assumes "scalar_key pk"
  shows "\<exists>p. super_encode R M f pk = Inr p \<and> decode_step R build (dj_decode R build rs ctx) p = Inr pk"
proof -
  have m: "model_ref M pk = None" using assms by (cases pk) auto
  have e: "encode_step R f pk = py_encode R pk"
    using assms by (cases pk) (auto simp: encode_step_def)
  obtain p where p: "py_encode R pk = Inr p" "py_decode R build p = Inr pk"
    using py_decode_scalar [of pk R build] assms by (cases pk) auto
  have "p = pk \<or> (\<exists>t. p = tagged ''uuid'' t)"
    using p(1) assms by (cases pk) (auto simp: encode_uuid_def)
  then have "no_references p"
  proof
    assume "p = pk"
    then show ?thesis using assms by (cases pk) (simp_all add: no_references_def is_reference_def parts_leaf)
  next
    assume "\<exists>t. p = tagged ''uuid'' t"
    then obtain t where t: "p = PDict [(TYPE_KEY, PStr ''uuid''), (VALUE_KEY, PStr t)]" by (auto simp: tagged_def)
    then have "parts p = [p, PStr ''uuid'', PStr t]" unfolding t by (subst parts.simps) (simp add: parts_leaf)
    moreover have "TYPE_KEY \<noteq> CODEC_KEY" "VALUE_KEY \<noteq> CODEC_KEY" by (simp_all add: TYPE_KEY_def VALUE_KEY_def CODEC_KEY_def)
    ultimately show ?thesis
      by (simp add: no_references_def is_reference_def t marker_of_def has_key_def py_get_def MODEL_TYPE_def)
  qed
  then have "decode_step R build (dj_decode R build rs ctx) p = py_decode R build p"
    unfolding py_decode_step [of R build p]
    by (intro decode_step_cong [OF refl]) (use dj_decode_plain no_references_part in blast)
  then show ?thesis using p e m by (auto simp: super_encode_def)
qed

text \<open>
  A model instance comes back as what its resolver finds: the instance is written as a reference
  with its model's name and primary key, and reading the reference asks the resolver registered
  under that name for that key; a failing resolver or one that finds nothing is a
  deserialization error, and without a resolver neither direction succeeds.
\<close>

theorem django_reference_resolves:
  assumes "model_ref M m = Some (mt, pk)" "scalar_key pk" "take (length DJANGO_TYPE_PREFIX) mt = DJANGO_TYPE_PREFIX"
  shows "case map_of rs mt of
      None \<Rightarrow> codec_encode (django_codec R build M rs) m ctx = Inl SerializationError
    | Some f \<Rightarrow> \<exists>w. codec_encode (django_codec R build M rs) m ctx = Inr w
        \<and> codec_decode (django_codec R build M rs) w ctx' = resolve_reference f pk (context_or_empty ctx')"
proof (cases "map_of rs mt")
  case None
  then show ?thesis using assms(1) by (simp add: django_codec_def dj_encode.simps [of R M rs m] has_key_map_of)
next
  case (Some f)
  obtain p where p: "super_encode R M (dj_encode R M rs) pk = Inr p" "decode_step R build (dj_decode R build rs ctx') p = Inr pk"
    using scalar_key_round_trip [OF assms(2)] by blast
  let ?d = "(CODEC_KEY, PStr MODEL_TYPE) # [(''version'', PInt CODEC_VERSION), (''type'', PStr mt), (''pk'', p)]"
  have "dj_encode R M rs m = Inr (PDict ?d)"
    using assms(1) Some p(1) by (simp add: dj_encode.simps [of R M rs m] has_key_map_of marked_def)
  moreover have "dj_decode R build rs ctx' (PDict ?d) = resolve_reference f pk (context_or_empty ctx')"
  proof -
    have k: "CODEC_KEY \<noteq> ''pk''" by (simp add: CODEC_KEY_def)
    have "is_reference (PDict ?d)" by (simp add: is_reference_def marker_of_def has_key_def py_get_def)
    moreover have "reference_type ?d = Inr mt" using assms(3) by (simp add: reference_type_def py_get_def)
    moreover have "has_key ?d CODEC_KEY" "validate_codec_version ?d = Inr ()" "py_get ?d ''pk'' = p"
      using k by (simp_all add: has_key_def validate_codec_version_def py_get_def)
    ultimately show ?thesis
      using Some p(2) by (simp only: dj_decode.simps [of R build rs ctx' "PDict ?d"]) simp
  qed
  ultimately show ?thesis using Some by (simp add: django_codec_def)
qed

definition user_models :: models where
  "user_models n = (if n = ''User'' then Some \<lparr>mc_app_label = ''auth'', mc_model_name = ''user'', mc_pk_attr = ''id''\<rparr> else None)"

definition find_user :: "pyval \<Rightarrow> pyval \<Rightarrow> pyval res" where
  "find_user pk ctx = (if pk = PInt 7 then Inr (PData ''User'' [(''id'', pk)]) else Inr PNone)"

theorem django_reference_resolves_witness:
  "\<exists>w. codec_encode (django_codec empty_types (\<lambda>n fs. Inl TypeError) user_models [(''django://auth/user'', find_user)])
      (PData ''User'' [(''id'', PInt 7), (''name'', PStr ''x'')]) PNone = Inr w
    \<and> codec_decode (django_codec empty_types (\<lambda>n fs. Inl TypeError) user_models [(''django://auth/user'', find_user)]) w PNone
      = Inr (PData ''User'' [(''id'', PInt 7)])"
proof -
  have "model_ref user_models (PData ''User'' [(''id'', PInt 7), (''name'', PStr ''x'')]) = Some (''django://auth/user'', PInt 7)"
    by (simp add: user_models_def model_type_name_def DJANGO_TYPE_PREFIX_def py_get_def)
  from django_reference_resolves [OF this, where rs = "[(''django://auth/user'', find_user)]" and R = empty_types
      and build = "\<lambda>n fs. Inl TypeError" and ctx = PNone and ctx' = PNone]
  show ?thesis by (simp add: DJANGO_TYPE_PREFIX_def find_user_def resolve_reference_def)
qed

end
