(* ===== verification/Composition.thy ===== *)
theory Composition
  imports BusCalls
begin

text \<open>
  composition.py: \<open>BusConfiguration\<close>, the application's choices from which buses are built. The
  configuration object is immutable except for the bus its \<open>configure\<close> builds once; that bus
  and the process's default bus are passed explicitly. Importing modules and calling the
  factories act on the outside \<open>'p\<close>. A target comes with its identity.
\<close>

section \<open>Configurations\<close>

text \<open>The module paths given: one text instead of a sequence, or any objects.\<close>

datatype modules_arg = Text_Modules | Modules "pyval list"

record ('s, 'p, 'h) config_args =
  ca_transport_factory :: "('p, 'p transport checked) prog checked"
  ca_topology :: "QueueTopology option"
  ca_handler_modules :: modules_arg
  ca_handler_targets :: "(nat \<times> target) list"
  ca_payload_codec :: "codec option"
  ca_hook_factories :: "'h hook checked res checked list option"
  ca_observers :: "(outcome \<Rightarrow> ('s \<times> 'p, unit) prog) checked list"
  ca_job_store_factory :: "('p, 's job_backend option) prog checked option supplied"
  ca_job_policy :: "policy checked option supplied"
  ca_command_store_factory :: "('p, 's job_backend option) prog checked option supplied"
  ca_command_policy :: "policy checked option supplied"
  ca_private_store_factory :: "('p, 's job_backend option) prog checked option supplied"
  ca_private_policy :: "policy checked option supplied"

record ('s, 'p, 'h) bus_configuration =
  bc_transport_factory :: "('p, 'p transport checked) prog"
  bc_topology :: QueueTopology
  bc_handler_modules :: "string list"
  bc_handler_targets :: "(nat \<times> target) list"
  bc_payload_codec :: "codec option"
  bc_hook_factories :: "'h hook checked res list"
  bc_observers :: "(outcome \<Rightarrow> ('s \<times> 'p, unit) prog) list"
  bc_store_factory :: "('p, 's job_backend option) prog option"
  bc_policy :: policy

text \<open>Two public spellings, of which one may be given, before the private one.\<close>

definition resolve_spelling :: "'a option supplied \<Rightarrow> 'a option supplied \<Rightarrow> 'a option supplied \<Rightarrow> 'a option" where
  "resolve_spelling x y z = (case x of Supplied a \<Rightarrow> a
     | Unset \<Rightarrow> (case y of Supplied a \<Rightarrow> a
     | Unset \<Rightarrow> (case z of Supplied a \<Rightarrow> a | Unset \<Rightarrow> None)))"

definition both_supplied :: "'a supplied \<Rightarrow> 'a supplied \<Rightarrow> bool" where
  "both_supplied x y = (case (x, y) of (Supplied _, Supplied _) \<Rightarrow> True | _ \<Rightarrow> False)"

definition require_callable :: "'a checked \<Rightarrow> 'a res" where
  "require_callable x = (case x of Proper a \<Rightarrow> Inr a | Improper \<Rightarrow> Inl TypeError)"

definition require_callable_option :: "'a checked option \<Rightarrow> 'a option res" where
  "require_callable_option x = (case x of None \<Rightarrow> Inr None | Some c \<Rightarrow> bind_res (require_callable c) (\<lambda>a. Inr (Some a)))"

definition module_path :: "pyval \<Rightarrow> string res" where
  "module_path v = (case v of PStr s \<Rightarrow> if strip s = [] then Inl ValueError else Inr s | _ \<Rightarrow> Inl ValueError)"

definition module_paths :: "modules_arg \<Rightarrow> string list res" where
  "module_paths m = (case m of
     Text_Modules \<Rightarrow> Inl TypeError
   | Modules vs \<Rightarrow> bind_res (map_res module_path vs) (\<lambda>paths.
       if distinct paths then Inr paths else Inl ValueError))"

definition distinct_targets :: "(nat \<times> target) list \<Rightarrow> (nat \<times> target) list res" where
  "distinct_targets ts = (if distinct (map fst ts) then Inr ts else Inl ValueError)"

text \<open>\<open>__init__\<close> followed by \<open>__post_init__\<close>, in the order of their checks.\<close>

definition new_configuration :: "('s, 'p, 'h) config_args \<Rightarrow> ('s, 'p, 'h) bus_configuration res" where
  "new_configuration a =
     (if both_supplied (ca_job_store_factory a) (ca_command_store_factory a) then Inl TypeError
      else if both_supplied (ca_job_policy a) (ca_command_policy a) then Inl TypeError
      else
        bind_res (require_callable (ca_transport_factory a)) (\<lambda>transport_factory.
        bind_res (require_callable_option
          (resolve_spelling (ca_job_store_factory a) (ca_command_store_factory a) (ca_private_store_factory a))) (\<lambda>store_factory.
        bind_res (check_policy (resolve_spelling (ca_job_policy a) (ca_command_policy a) (ca_private_policy a))) (\<lambda>pol.
        bind_res (module_paths (ca_handler_modules a)) (\<lambda>modules.
        bind_res (distinct_targets (ca_handler_targets a)) (\<lambda>targets.
        bind_res (all_proper (case ca_hook_factories a of None \<Rightarrow> [] | Some fs \<Rightarrow> fs)) (\<lambda>factories.
        bind_res (all_proper (ca_observers a)) (\<lambda>observers.
        Inr \<lparr>bc_transport_factory = transport_factory,
          bc_topology = (case ca_topology a of Some t \<Rightarrow> t | None \<Rightarrow> DEFAULT_QUEUE_TOPOLOGY),
          bc_handler_modules = modules, bc_handler_targets = targets, bc_payload_codec = ca_payload_codec a,
          bc_hook_factories = factories, bc_observers = observers, bc_store_factory = store_factory, bc_policy = pol\<rparr>))))))))"

section \<open>Building a bus\<close>

definition validate_transport :: "'p transport checked \<Rightarrow> 'p transport res" where
  "validate_transport t = require_callable t"

fun import_modules :: "(string \<Rightarrow> ('p, target) prog) \<Rightarrow> string list \<Rightarrow> ('p, target list) prog" where
  "import_modules import_module [] = ret []"
| "import_modules import_module (p # ps) =
     seq (import_module p) (\<lambda>m. seq (import_modules import_module ps) (\<lambda>ms. ret (m # ms)))"

text \<open>
  The constructor arguments of the new bus. \<open>E\<close> is the application around the bus, with the
  transport still to be put in; \<open>fresh\<close> names the reply queue.
\<close>

definition configured_args ::
    "('s, 'p, 'h) bus_configuration \<Rightarrow> target list \<Rightarrow> 's job_backend option \<Rightarrow> ('s, 'p, 'h) bus_args" where
  "configured_args C modules store = \<lparr>ba_dispatcher = None, ba_topology = Some (bc_topology C),
     ba_handler_targets = modules @ map snd (bc_handler_targets C), ba_payload_codec = bc_payload_codec C,
     ba_hook_factories = map Proper (bc_hook_factories C), ba_observers = map Proper (bc_observers C),
     ba_job_store = Supplied store, ba_job_policy = Supplied (Some (Proper (bc_policy C))),
     ba_command_store = Unset, ba_command_policy = Unset\<rparr>"

definition config_create ::
    "('s, 'p) bus_env \<Rightarrow> (string \<Rightarrow> ('p, target) prog) \<Rightarrow> string \<Rightarrow> ('s, 'p, 'h) bus_configuration
      \<Rightarrow> 'p transport checked option \<Rightarrow> ('p, ('s, 'p, 'h) pybus) prog" where
  "config_create E import_module fresh C transport =
     seq (import_modules import_module (bc_handler_modules C)) (\<lambda>modules.
     seq (case transport of None \<Rightarrow> bc_transport_factory C | Some t \<Rightarrow> ret t) (\<lambda>given.
     seq (lift_res (validate_transport given)) (\<lambda>T.
     seq (case bc_store_factory C of None \<Rightarrow> ret None | Some f \<Rightarrow> f) (\<lambda>store.
     lift_res (fst (new_pybus (E\<lparr>be_transport := T\<rparr>) fresh (configured_args C modules store)))))))"

text \<open>The bus a configuration has built, the default bus of the process, and the outside.\<close>

type_synonym ('s, 'p, 'h) config_world = "('s, 'p, 'h) pybus option \<times> ('s, 'p, 'h) pybus option \<times> 'p"

definition config_configure ::
    "('s, 'p) bus_env \<Rightarrow> (string \<Rightarrow> ('p, target) prog) \<Rightarrow> string \<Rightarrow> ('s, 'p, 'h) bus_configuration
      \<Rightarrow> (('s, 'p, 'h) config_world, ('s, 'p, 'h) pybus) prog" where
  "config_configure E import_module fresh C = (\<lambda>(built, dflt, p). case built of
     Some B \<Rightarrow> (Inr B, (Some B, Some B, p))
   | None \<Rightarrow>
       (case config_create E import_module fresh C None p of
          (Inl e, p') \<Rightarrow> (Inl e, (None, dflt, p'))
        | (Inr B, p') \<Rightarrow> (Inr B, (Some B, Some B, p'))))"

section \<open>What configurations and their buses keep\<close>

text \<open>An accepted configuration has distinct, non-blank module paths and distinct targets.\<close>

definition config_ok :: "('s, 'p, 'h) bus_configuration \<Rightarrow> bool" where
  "config_ok C \<longleftrightarrow> distinct (bc_handler_modules C) \<and> (\<forall>m \<in> set (bc_handler_modules C). strip m \<noteq> [])
     \<and> distinct (map fst (bc_handler_targets C))"

lemma module_paths_ok:
  "module_paths m = Inr paths \<Longrightarrow> distinct paths \<and> (\<forall>p \<in> set paths. strip p \<noteq> [])"
proof (cases m)
  case (Modules vs)
  have "map_res module_path vs = Inr ps \<Longrightarrow> \<forall>p \<in> set ps. strip p \<noteq> []" for ps
    by (induction vs arbitrary: ps) (auto simp: res_simps module_path_def split: pyval.splits if_splits)
  then show "module_paths m = Inr paths \<Longrightarrow> distinct paths \<and> (\<forall>p \<in> set paths. strip p \<noteq> [])"
    using Modules by (auto simp: module_paths_def res_simps split: if_splits)
qed (simp add: module_paths_def)

lemma new_configuration_ok: "new_configuration a = Inr C \<Longrightarrow> config_ok C"
  using module_paths_ok
  by (auto simp: new_configuration_def res_simps config_ok_def distinct_targets_def split: if_splits)

lemma configured_choices:
  assumes "config_create E imp fresh C t p = (Inr B, p')"
  shows "b_topology B = bc_topology C \<and> b_observers B = bc_observers C \<and> b_job_policy B = bc_policy C
    \<and> b_hook_factories B = bc_hook_factories C"
proof -
  have proper: "all_proper (map Proper xs) = Inr xs" for xs :: "'x list"
    by (induction xs) (simp_all add: all_proper_def)
  obtain modules T store where "fst (new_pybus (E\<lparr>be_transport := T\<rparr>) fresh (configured_args C modules store)) = Inr B"
    using assms by (auto simp: config_create_def seq_def split: prod.splits sum.splits)
  then obtain B0 R where "configured_bus (E\<lparr>be_transport := T\<rparr>) fresh (configured_args C modules store) = Inr B0"
    "B = with_registry R B0"
    by (auto simp: new_pybus_def split: sum.splits prod.splits)
  then show ?thesis
    by (auto simp: configured_bus_def configured_args_def either_argument_def check_policy_def proper with_registry_def Let_def)
qed

text \<open>\<open>configure\<close> builds one bus; later calls return and install it without acting on the outside.\<close>

lemma configure_once:
  assumes "config_configure E imp fresh C (built, dflt, p) = (Inr B, w)"
  shows "fst w = Some B \<and> fst (snd w) = Some B
    \<and> (\<forall>E' imp' fresh' other. config_configure E' imp' fresh' C (fst w, other, snd (snd w)) = (Inr B, (Some B, Some B, snd (snd w))))"
  using assms by (auto simp: config_configure_def split: option.splits prod.splits sum.splits)

end
