(* ===== verification/DjangoBus.thy ===== *)
theory DjangoBus
  imports Composition
begin

text \<open>
  integrations/django.py: publication that waits for the commit of the current database
  transaction, the adapter for custom publish functions, the hook that closes connections, and
  the configuration that installs it. Django's transaction module is a parameter: a test for an
  open atomic block and the registration of a callback. A callback is kept as data and
  \<open>run_callback\<close> is the call Django makes at commit.
\<close>

section \<open>Transactions\<close>

datatype callback = Publish_Envelope message_envelope string | Publish_Prepared message_envelope string

record ('p, 'c) transactions =
  tx_in_atomic_block :: "'p \<Rightarrow> bool"
  tx_on_commit :: "'c \<Rightarrow> ('p, unit) prog"

text \<open>\<open>None\<close> when Django cannot be imported.\<close>

definition load_transaction_module :: "('p, 'c) transactions option \<Rightarrow> ('p, 'c) transactions res" where
  "load_transaction_module tx = of_option RuntimeError tx"

definition run_callback :: "('s, 'p, 'h) pybus \<Rightarrow> callback \<Rightarrow> ('p, message_envelope) prog" where
  "run_callback B c = (case c of
     Publish_Envelope e queue \<Rightarrow> bus_publish_envelope B e queue
   | Publish_Prepared e queue \<Rightarrow> publish_prepared B e (PStr queue))"

definition now_or_on_commit ::
    "('p, 'c) transactions \<Rightarrow> 'c \<Rightarrow> ('p, 'a) prog \<Rightarrow> ('p, 'a option) prog" where
  "now_or_on_commit T c m =
     seq (get_state (tx_in_atomic_block T)) (\<lambda>open_block.
     if open_block then seq (tx_on_commit T c) (\<lambda>_. ret None)
     else seq m (\<lambda>r. ret (Some r)))"

section \<open>Publishing\<close>

definition dj_publish_message ::
    "('p, callback) transactions option \<Rightarrow> ('s, 'p, 'h) pybus option \<Rightarrow> outgoing \<Rightarrow> string \<Rightarrow> pyval \<Rightarrow> pyval \<Rightarrow> headers_arg
      \<Rightarrow> ('p, message_envelope option) prog" where
  "dj_publish_message tx dflt msg expected_kind queue mid hs = on_default dflt (\<lambda>B.
     seq (bus_prepare B msg expected_kind mid hs) (\<lambda>e.
     seq (lift_res (resolve_publication_queue (be_classes (b_env B)) (b_topology B) msg queue)) (\<lambda>target.
     seq (lift_res (load_transaction_module tx)) (\<lambda>T.
     now_or_on_commit T (Publish_Envelope e target) (run_callback B (Publish_Envelope e target))))))"

definition dj_publish_event where
  "dj_publish_event tx dflt msg queue mid hs = dj_publish_message tx dflt msg ''event'' queue mid hs"

definition dj_send_command where
  "dj_send_command tx dflt msg queue mid hs = dj_publish_message tx dflt msg ''command'' queue mid hs"

definition dj_prepare_event where
  "dj_prepare_event dflt msg mid hs = on_default dflt (\<lambda>B. prepare_event B msg mid hs)"

definition dj_prepare_command where
  "dj_prepare_command dflt msg mid hs = on_default dflt (\<lambda>B. prepare_command B msg mid hs)"

text \<open>
  The snapshot of a prepared envelope goes through its dictionary; a dictionary always has
  \<open>created_at\<close>, so no clock is read.
\<close>

definition dj_publish_prepared ::
    "('p, callback) transactions option \<Rightarrow> ('s, 'p, 'h) pybus option \<Rightarrow> message_envelope \<Rightarrow> pyval
      \<Rightarrow> ('p, message_envelope option) prog" where
  "dj_publish_prepared tx dflt e queue = on_default dflt (\<lambda>B.
     seq (lift_res (validate_prepared_envelope e)) (\<lambda>_.
     seq (lift_res (bind_res (to_dict e) (from_dict 0))) (\<lambda>prepared.
     seq (lift_res (resolve_prepared_queue (b_topology B) queue)) (\<lambda>target.
     seq (lift_res (load_transaction_module tx)) (\<lambda>T.
     now_or_on_commit T (Publish_Prepared prepared target) (run_callback B (Publish_Prepared prepared target)))))))"

section \<open>The adapter\<close>

text \<open>\<open>publish_fn\<close> is called with event type, data and queue, now or by the callback.\<close>

type_synonym adapter_call = "string \<times> pyval \<times> string"

record 'p adapter =
  ad_publish_fn :: "adapter_call \<Rightarrow> ('p, pyval) prog"
  ad_transaction :: "('p, adapter_call) transactions"
  ad_default_queue :: string

definition new_adapter ::
    "(adapter_call \<Rightarrow> ('p, pyval) prog) \<Rightarrow> ('p, adapter_call) transactions option \<Rightarrow> ('p, adapter_call) transactions option
      \<Rightarrow> string \<Rightarrow> 'p adapter res" where
  "new_adapter publish_fn given tx default_queue_name =
     bind_res (case given of Some T \<Rightarrow> Inr T | None \<Rightarrow> load_transaction_module tx) (\<lambda>T.
     Inr \<lparr>ad_publish_fn = publish_fn, ad_transaction = T, ad_default_queue = default_queue_name\<rparr>)"

definition adapter_schedule ::
    "'p adapter \<Rightarrow> string \<Rightarrow> pyval \<Rightarrow> string option \<Rightarrow> bool \<Rightarrow> ('p, pyval option) prog" where
  "adapter_schedule A event_type data queue publish_on_commit =
     (let c = (event_type, data, or_str queue (ad_default_queue A)) in
      if publish_on_commit then now_or_on_commit (ad_transaction A) c (ad_publish_fn A c)
      else seq (ad_publish_fn A c) (\<lambda>r. ret (Some r)))"

definition adapter_publish ::
    "'p adapter \<Rightarrow> string \<Rightarrow> pyval \<Rightarrow> string option \<Rightarrow> bool \<Rightarrow> ('p, pyval option) prog" where
  "adapter_publish A event_type data queue publish_on_commit = adapter_schedule A event_type data queue publish_on_commit"

section \<open>Connections and configuration\<close>

definition cleanup_hook :: "('w outside, unit) prog \<Rightarrow> 'w hook" where
  "cleanup_hook close_connections = WorkerHook\<lparr>before_poll := close_connections,
     after_poll := (\<lambda>_. close_connections), on_stop := close_connections\<rparr>"

text \<open>Without Django's function and without one given, the hook cannot be built.\<close>

definition new_cleanup_hook ::
    "('w outside, unit) prog option \<Rightarrow> ('w outside, unit) prog option \<Rightarrow> 'w hook res" where
  "new_cleanup_hook given django = bind_res (of_option RuntimeError (case given of Some f \<Rightarrow> Some f | None \<Rightarrow> django))
     (\<lambda>f. Inr (cleanup_hook f))"

definition django_configuration ::
    "('h outside, unit) prog option \<Rightarrow> ('s, 'p, 'h) config_args \<Rightarrow> ('s, 'p, 'h) bus_configuration res" where
  "django_configuration django a = new_configuration (a\<lparr>ca_hook_factories := Some (case ca_hook_factories a of
       Some fs \<Rightarrow> fs
     | None \<Rightarrow> [Proper (bind_res (new_cleanup_hook None django) (\<lambda>h. Inr (Proper h)))])\<rparr>)"

end
