(* ===== verification/DjangoProps.thy ===== *)
theory DjangoProps
  imports DjangoBus BusSamples
begin

text \<open>
  What the transaction-aware publication guarantees: nothing is sent inside a transaction, and
  the callbacks it registers send the messages as they were prepared, in order.
\<close>

section \<open>Blocks of publications\<close>

type_synonym publication = "outgoing \<times> string \<times> pyval \<times> pyval \<times> headers_arg"

definition dj_block ::
    "('p, callback) transactions \<Rightarrow> ('s, 'p, 'h) pybus \<Rightarrow> publication list \<Rightarrow> ('p, unit) prog" where
  "dj_block T B ps = for_each (\<lambda>(msg, kind, queue, mid, hs).
     seq (dj_publish_message (Some T) (Some B) msg kind queue mid hs) (\<lambda>_. ret ())) ps"

text \<open>Django calls the callbacks in the order of their registration.\<close>

definition commit_block :: "('s, 'p, 'h) pybus \<Rightarrow> callback list \<Rightarrow> ('p, unit) prog" where
  "commit_block B cs = for_each (\<lambda>c. seq (run_callback B c) (\<lambda>_. ret ())) cs"

text \<open>
  Django's documented behaviour in an open block: \<open>on_commit\<close> only appends to the callbacks
  \<open>queued\<close>; clocks and ids leave transaction and transport alone; \<open>sent\<close> lists what the
  transport accepted.
\<close>

definition in_block :: "('p, callback) transactions \<Rightarrow> ('s, 'p) bus_env \<Rightarrow> ('p \<Rightarrow> callback list) \<Rightarrow> ('p \<Rightarrow> (string \<times> bytes) list) \<Rightarrow> bool" where
  "in_block T E queued sent \<longleftrightarrow>
     (\<forall>c w w'. tx_in_atomic_block T w \<longrightarrow> tx_on_commit T c w = (Inr (), w') \<longrightarrow>
        tx_in_atomic_block T w' \<and> queued w' = queued w @ [c] \<and> sent w' = sent w)
     \<and> (\<forall>w. tx_in_atomic_block T (after_draws E w) = tx_in_atomic_block T w
        \<and> queued (after_draws E w) = queued w \<and> sent (after_draws E w) = sent w)
     \<and> (\<forall>q raw w w'. tp_publish (be_transport E) q raw w = (Inr (), w') \<longrightarrow> sent w' = sent w @ [(q, raw)])"

text \<open>
  The states in which the publications of a block are made, and what a publication prepares in
  its state: the envelope, with the id and the time drawn there, and the queue.
\<close>

fun block_states ::
    "('p, callback) transactions \<Rightarrow> ('s, 'p, 'h) pybus \<Rightarrow> publication list \<Rightarrow> 'p \<Rightarrow> 'p list" where
  "block_states T B [] w = []"
| "block_states T B ((msg, kind, queue, mid, hs) # ps) w =
     w # block_states T B ps (snd (dj_publish_message (Some T) (Some B) msg kind queue mid hs w))"

definition prepared_at :: "('s, 'p, 'h) pybus \<Rightarrow> publication \<times> 'p \<Rightarrow> (message_envelope \<times> string) res" where
  "prepared_at B = (\<lambda>((msg, kind, queue, mid, hs), w).
     bind_res (prepare_message (be_classes (b_env B)) (b_dispatcher B) (fresh_id (b_env B) w) (fresh_time (b_env B) w) msg kind mid hs)
       (\<lambda>e. bind_res (resolve_publication_queue (be_classes (b_env B)) (b_topology B) msg queue) (\<lambda>q. Inr (e, q))))"

definition prepared_as :: "('s, 'p, 'h) pybus \<Rightarrow> publication \<times> 'p \<Rightarrow> callback \<Rightarrow> bool" where
  "prepared_as B pw c \<longleftrightarrow> (\<exists>e q. prepared_at B pw = Inr (e, q) \<and> strip q \<noteq> [] \<and> c = Publish_Envelope e q)"

definition sent_as :: "('s, 'p, 'h) pybus \<Rightarrow> publication \<times> 'p \<Rightarrow> string \<times> bytes \<Rightarrow> bool" where
  "sent_as B pw = (\<lambda>(q, raw). \<exists>e. prepared_at B pw = Inr (e, q) \<and> to_wire e = Inr raw)"

lemma dj_publish_in_block:
  assumes "in_block T (b_env B) queued sent" "tx_in_atomic_block T w"
    and "dj_publish_message (Some T) (Some B) msg kind queue mid hs w = (Inr x, w')"
  shows "tx_in_atomic_block T w' \<and> sent w' = sent w
    \<and> (\<exists>c. queued w' = queued w @ [c] \<and> prepared_as B ((msg, kind, queue, mid, hs), w) c)"
proof -
  let ?prep = "prepare_message (be_classes (b_env B)) (b_dispatcher B) (fresh_id (b_env B) w) (fresh_time (b_env B) w) msg kind mid hs"
  obtain e where e: "?prep = Inr e"
    using assms(3) by (cases ?prep) (auto simp: dj_publish_message_def on_default_def get_bus_def bus_prepare_eq seq_def)
  obtain target where target: "resolve_publication_queue (be_classes (b_env B)) (b_topology B) msg queue = Inr target"
    using assms(3) e
    by (cases "resolve_publication_queue (be_classes (b_env B)) (b_topology B) msg queue")
      (auto simp: dj_publish_message_def on_default_def get_bus_def bus_prepare_eq seq_def)
  have "tx_in_atomic_block T (after_draws (b_env B) w)" using assms(1,2) by (simp add: in_block_def)
  then have "tx_on_commit T (Publish_Envelope e target) (after_draws (b_env B) w) = (Inr (), w')"
    using assms(3) e target
    by (auto simp: dj_publish_message_def on_default_def get_bus_def bus_prepare_eq seq_def load_transaction_module_def
        now_or_on_commit_def split: prod.splits sum.splits)
  then have "tx_in_atomic_block T w' \<and> queued w' = queued w @ [Publish_Envelope e target] \<and> sent w' = sent w"
    using assms(1) \<open>tx_in_atomic_block T (after_draws (b_env B) w)\<close> unfolding in_block_def by metis
  moreover have "strip target \<noteq> []" using declared_queue_ok [OF target [unfolded resolve_publication_queue_def]] by blast
  ultimately show ?thesis using e target by (simp add: prepared_as_def prepared_at_def)
qed

lemma dj_block_run:
  assumes "in_block T (b_env B) queued sent" "tx_in_atomic_block T w" "dj_block T B ps w = (Inr (), w')"
  shows "sent w' = sent w \<and> (\<exists>cs. queued w' = queued w @ cs \<and> list_all2 (prepared_as B) (zip ps (block_states T B ps w)) cs)"
  using assms(2,3)
proof (induction ps arbitrary: w)
  case Nil
  then show ?case by (simp add: dj_block_def)
next
  case (Cons p ps)
  obtain msg kind queue mid hs where p: "p = (msg, kind, queue, mid, hs)" by (metis surj_pair)
  obtain r w1 where step: "dj_publish_message (Some T) (Some B) msg kind queue mid hs w = (r, w1)" by (metis surj_pair)
  then obtain x where x: "r = Inr x" and rest: "dj_block T B ps w1 = (Inr (), w')"
    using Cons.prems(2) by (cases r) (auto simp: dj_block_def p seq_def)
  note s = dj_publish_in_block [OF assms(1) Cons.prems(1) step [unfolded x]]
  from s obtain c where "queued w1 = queued w @ [c]" "prepared_as B (p, w) c" by (auto simp: p)
  moreover from Cons.IH [OF _ rest] s obtain cs where "sent w' = sent w1" "queued w' = queued w1 @ cs"
    "list_all2 (prepared_as B) (zip ps (block_states T B ps w1)) cs" by blast
  ultimately show ?case using s step by (intro conjI exI [of _ "c # cs"]) (simp_all add: p)
qed

lemma commit_block_run:
  assumes "in_block T (b_env B) queued sent" "list_all2 (prepared_as B) pws cs" "commit_block B cs w = (Inr (), w')"
  shows "\<exists>ms. sent w' = sent w @ ms \<and> list_all2 (sent_as B) pws ms"
  using assms(2,3)
proof (induction pws cs arbitrary: w rule: list_all2_induct)
  case Nil
  then show ?case by (simp add: commit_block_def)
next
  case (Cons pw pws c cs)
  obtain e q where c: "prepared_at B pw = Inr (e, q)" "strip q \<noteq> []" "c = Publish_Envelope e q"
    using Cons.hyps(1) by (auto simp: prepared_as_def)
  obtain r w1 where step: "bus_publish_envelope B e q w = (r, w1)" by (metis surj_pair)
  then obtain x where x: "r = Inr x" and rest: "commit_block B cs w1 = (Inr (), w')"
    using Cons.prems by (cases r) (auto simp: commit_block_def run_callback_def c(3) seq_def)
  from bus_publish_envelope_cases [OF c(2) step] x obtain raw where raw: "to_wire e = Inr raw"
    "tp_publish (be_transport (b_env B)) q raw w = (Inr (), w1)" by (auto simp: res_simps eq_commute [of "Inr x"])
  then have "sent w1 = sent w @ [(q, raw)]" using assms(1) by (simp add: in_block_def)
  moreover obtain ms where "sent w' = sent w1 @ ms" "list_all2 (sent_as B) pws ms" using Cons.IH [OF rest] by blast
  moreover have "sent_as B pw (q, raw)" using c raw(1) by (auto simp: sent_as_def)
  ultimately show ?case by (intro exI [of _ "(q, raw) # ms"]) simp
qed

text \<open>
  C31. Messages published inside a database transaction leave with its commit: until then nothing is
  sent, so a rollback sends nothing, and the commit sends exactly one message for each
  publication, in their order: the bytes of the envelope prepared when it was published, with the
  id and the time drawn in that state, to the queue resolved then, in whatever later state the
  commit happens.
\<close>

theorem published_on_commit:
  assumes "in_block T (b_env B) queued sent" "tx_in_atomic_block T p" "queued p = []"
    and "dj_block T B ps p = (Inr (), p1)"
    and "sent p2 = sent p1" "commit_block B (queued p1) p2 = (Inr (), p3)"
  shows "sent p1 = sent p \<and> (\<exists>ms. sent p3 = sent p @ ms \<and> length ms = length ps
    \<and> list_all2 (sent_as B) (zip ps (block_states T B ps p)) ms)"
proof -
  obtain cs where cs: "sent p1 = sent p" "queued p1 = cs" "list_all2 (prepared_as B) (zip ps (block_states T B ps p)) cs"
    using dj_block_run [OF assms(1,2,4)] assms(3) by auto
  have "length (block_states T B qs w) = length qs" for qs w by (induction T B qs w rule: block_states.induct) simp_all
  moreover from commit_block_run [OF assms(1) cs(3) assms(6) [unfolded cs(2)]] obtain ms where
    "sent p3 = sent p2 @ ms" "list_all2 (sent_as B) (zip ps (block_states T B ps p)) ms" by blast
  ultimately show ?thesis using cs(1) assms(5) by (auto dest: list_all2_lengthD)
qed

section \<open>Outside a transaction\<close>

lemma dj_publish_outside:
  assumes "\<forall>w. \<not> tx_in_atomic_block T w"
  shows "dj_publish_message (Some T) (Some B) msg kind queue mid hs = seq (bus_publish B msg kind queue mid hs) (\<lambda>e. ret (Some e))"
  using assms
  by (auto simp: fun_eq_iff dj_publish_message_def on_default_def get_bus_def bus_publish_def load_transaction_module_def
      now_or_on_commit_def run_callback_def seq_def split: sum.splits prod.splits)

text \<open>A prepared envelope is snapshot exactly.\<close>

lemma dj_publish_prepared_outside:
  assumes "\<forall>w. \<not> tx_in_atomic_block T w" "wf_envelope e"
    and "resolve_prepared_queue (b_topology B) queue = Inr q"
  shows "dj_publish_prepared (Some T) (Some B) e queue = seq (publish_prepared B e (PStr q)) (\<lambda>e. ret (Some e))"
proof -
  have snapshot: "bind_res (to_dict e) (from_dict 0) = Inr e"
    by (simp add: to_dict_plain [OF assms(2)] from_dict_encoded [OF assms(2)])
  show ?thesis
    using assms(1,3)
    by (auto simp: fun_eq_iff dj_publish_prepared_def on_default_def get_bus_def load_transaction_module_def snapshot
        now_or_on_commit_def run_callback_def publish_prepared_def seq_def split: sum.splits prod.splits)
qed

section \<open>A sample transaction\<close>

type_synonym sample_world = "bool \<times> callback list \<times> (string \<times> bytes) list"

definition recording_env :: "(db, sample_world) bus_env" where
  "recording_env = \<lparr>be_transport = \<lparr>tp_publish = (\<lambda>c b (ob, q, s). (Inr (), (ob, q, s @ [(c, b)]))),
       tp_consume = (\<lambda>c t. ret None), tp_ack = (\<lambda>r. ret ()), tp_nack = (\<lambda>r q. ret ()), tp_size = None, tp_consume_many = None\<rparr>,
     be_attrs = (\<lambda>f. None), be_members = (\<lambda>h. []), be_classes = (\<lambda>c. sample_class), be_build = no_dataclass,
     be_handle = (\<lambda>h m. ret H_None), be_handle_batch = (\<lambda>h ms. ret H_None),
     be_utc_now = (\<lambda>p. (63000000000000000, p)), be_uuid = (\<lambda>p. (''u1'', p)),
     be_monotonic = (\<lambda>p. (0, p)), be_sleep = (\<lambda>x p. p)\<rparr>"

definition recording_bus :: "(db, sample_world, unit) pybus" where
  "recording_bus = (let D = \<lparr>dp_registry = empty_registry, dp_codec = python_codec empty_types no_dataclass\<rparr> in
     \<lparr>b_env = recording_env, b_dispatcher = D, b_topology = DEFAULT_QUEUE_TOPOLOGY,
      b_listener = bus_listener recording_env D DEFAULT_QUEUE_TOPOLOGY [] None, b_reply_queue = default_reply_queue_name ''r1'',
      b_hook_factories = [], b_observers = [], b_job_store = None, b_job_policy = default_policy\<rparr>)"

definition sample_transactions :: "(sample_world, callback) transactions" where
  "sample_transactions = \<lparr>tx_in_atomic_block = fst, tx_on_commit = (\<lambda>c (ob, q, s). (Inr (), (ob, q @ [c], s)))\<rparr>"

lemma recording_fields [simp]:
  "b_env recording_bus = recording_env" "b_topology recording_bus = DEFAULT_QUEUE_TOPOLOGY"
  "b_dispatcher recording_bus = b_dispatcher sample_bus" "be_classes recording_env = (\<lambda>c. sample_class)"
  "after_draws recording_env p = p" "fresh_id recording_env p = ''u1''" "fresh_time recording_env p = 63000000000000000"
  by (simp_all add: recording_bus_def recording_env_def sample_bus_def Let_def after_draws_def fresh_id_def fresh_time_def)

theorem published_on_commit_witness:
  "\<exists>c p3 raw. dj_block sample_transactions recording_bus
      [(sample_command, ''command'', PNone, PNone, No_Headers), (sample_command, ''command'', PNone, PNone, No_Headers)]
      (True, [], []) = (Inr (), (True, [c, c], []))
    \<and> commit_block recording_bus [c, c] (False, [], []) = (Inr (), p3)
    \<and> snd (snd p3) = [(DEFAULT_QUEUE_NAME, raw), (DEFAULT_QUEUE_NAME, raw)] \<and> to_wire sent_envelope = Inr raw"
proof -
  let ?ps = "[(sample_command, ''command'', PNone, PNone, No_Headers), (sample_command, ''command'', PNone, PNone, No_Headers)]"
  let ?c = "Publish_Envelope sent_envelope DEFAULT_QUEUE_NAME"
  have block: "in_block sample_transactions (b_env recording_bus) (\<lambda>(ob, q, s). q) (\<lambda>(ob, q, s). s)"
    by (auto simp: in_block_def sample_transactions_def recording_env_def after_draws_def)
  have open_block: "tx_in_atomic_block sample_transactions (True, [], [])" by (simp add: sample_transactions_def)
  have step: "dj_publish_message (Some sample_transactions) (Some recording_bus) sample_command ''command'' PNone PNone No_Headers
      (True, q, s) = (Inr None, (True, q @ [?c], s))" for q s
    by (simp add: dj_publish_message_def on_default_def get_bus_def bus_prepare_eq sample_prepared sample_queue seq_def
        load_transaction_module_def now_or_on_commit_def sample_transactions_def)
  have run: "dj_block sample_transactions recording_bus ?ps (True, [], []) = (Inr (), (True, [?c, ?c], []))"
    by (simp add: dj_block_def seq_def step)
  obtain raw where raw: "to_wire sent_envelope = Inr raw" using sent_envelope_wire by blast
  then have sends: "run_callback recording_bus ?c (ob, q, s)
      = (Inr sent_envelope, (ob, q, s @ [(or_str (Some DEFAULT_QUEUE_NAME) (default_queue DEFAULT_QUEUE_TOPOLOGY), raw)]))" for ob q s
    by (simp add: run_callback_def bus_publish_envelope_def seq_def) (simp add: recording_env_def)
  obtain p3 where commit: "commit_block recording_bus [?c, ?c] (False, [], []) = (Inr (), p3)"
    by (simp add: commit_block_def seq_def sends)
  let ?queued = "\<lambda>(ob, q, s). q" and ?sent = "\<lambda>(ob, q, s). s"
  have views: "?queued (True, [], []) = []" "?sent (False, [], []) = ?sent (True, [?c, ?c], [])"
    "commit_block recording_bus (?queued (True, [?c, ?c], [])) (False, [], []) = (Inr (), p3)"
    using commit by simp_all
  from published_on_commit [OF block open_block views(1) run views(2,3)] obtain ms where
    "?sent p3 = ms" "length ms = length ?ps" "list_all2 (sent_as recording_bus)
        (zip ?ps (block_states sample_transactions recording_bus ?ps (True, [], []))) ms"
    by auto
  then have "snd (snd p3) = ms" "length ms = 2" "list_all2 (sent_as recording_bus)
      (map (\<lambda>w. ((sample_command, ''command'', PNone, PNone, No_Headers), w)) [(True, [], []), (True, [?c], [])]) ms"
    by (simp_all add: split_beta step)
  then have "snd (snd p3) = [(DEFAULT_QUEUE_NAME, raw), (DEFAULT_QUEUE_NAME, raw)]"
    by (auto simp: list_all2_Cons1 sent_as_def prepared_at_def sample_prepared sample_queue raw)
  then show ?thesis using run commit raw by blast
qed

end
