(* ===== verification/Sha1.thy ===== *)
theory Sha1
  imports PyValue "HOL-Library.Word"
begin

unbundle bit_operations_syntax

text \<open>
  \<open>hashlib.sha1(payload).hexdigest()\<close>, which integrations/redis.py uses to name a payload:
  padding, message schedule and the eighty rounds on 32-bit words.
\<close>

type_synonym w32 = "32 word"

definition sha1_pad :: "nat list \<Rightarrow> nat list" where
  "sha1_pad m = (let n = length m in
     m @ 128 # replicate ((119 - n mod 64) mod 64) 0 @ map (\<lambda>i. (8 * n) div 256 ^ (7 - i) mod 256) [0..<8])"

fun big_endian :: "nat list \<Rightarrow> w32 list" where
  "big_endian (a # b # c # d # r) = of_nat (((a * 256 + b) * 256 + c) * 256 + d) # big_endian r"
| "big_endian r = []"

text \<open>The schedule, newest word first: each new word mixes the ones 3, 8, 14 and 16 places back.\<close>

fun sha1_expand :: "nat \<Rightarrow> w32 list \<Rightarrow> w32 list" where
  "sha1_expand 0 w = w"
| "sha1_expand (Suc k) w = sha1_expand k (word_rotl 1 (w ! 2 XOR w ! 7 XOR w ! 13 XOR w ! 15) # w)"

definition sha1_f :: "nat \<Rightarrow> w32 \<Rightarrow> w32 \<Rightarrow> w32 \<Rightarrow> w32" where
  "sha1_f t b c d =
     (if t < 20 then (b AND c) OR (NOT b AND d)
      else if t < 40 then b XOR c XOR d
      else if t < 60 then (b AND c) OR (b AND d) OR (c AND d)
      else b XOR c XOR d)"

definition sha1_k :: "nat \<Rightarrow> w32" where
  "sha1_k t = (if t < 20 then 0x5A827999 else if t < 40 then 0x6ED9EBA1 else if t < 60 then 0x8F1BBCDC else 0xCA62C1D6)"

fun sha1_rounds :: "nat \<Rightarrow> w32 list \<Rightarrow> w32 \<Rightarrow> w32 \<Rightarrow> w32 \<Rightarrow> w32 \<Rightarrow> w32 \<Rightarrow> w32 list" where
  "sha1_rounds t [] a b c d e = [a, b, c, d, e]"
| "sha1_rounds t (w # ws) a b c d e =
     sha1_rounds (t + 1) ws (word_rotl 5 a + sha1_f t b c d + e + sha1_k t + w) a (word_rotl 30 b) c d"

definition sha1_block :: "w32 list \<Rightarrow> w32 list \<Rightarrow> w32 list" where
  "sha1_block h ws = map2 (+) h
     (sha1_rounds 0 (rev (sha1_expand 64 (rev ws))) (h ! 0) (h ! 1) (h ! 2) (h ! 3) (h ! 4))"

function sha1_blocks :: "w32 list \<Rightarrow> w32 list \<Rightarrow> w32 list" where
  "sha1_blocks h ws = (if length ws < 16 then h else sha1_blocks (sha1_block h (take 16 ws)) (drop 16 ws))"
  by auto
termination by (relation "measure (\<lambda>(h, ws). length ws)") auto

declare sha1_blocks.simps [simp del]

definition sha1_hexdigest :: "string \<Rightarrow> string" where
  "sha1_hexdigest m = concat (map (\<lambda>w. hex_pad 8 (unat w))
     (sha1_blocks [0x67452301, 0xEFCDAB89, 0x98BADCFE, 0x10325476, 0xC3D2E1F0] (big_endian (sha1_pad (map of_char m)))))"

text \<open>The padded message fills whole blocks, and the digest is 40 hexadecimal digits.\<close>

lemma length_sha1_pad: "length (sha1_pad m) mod 64 = 0"
proof -
  define k where "k = length m mod 64"
  have k: "k < 64" "length m = 64 * (length m div 64) + k" by (simp_all add: k_def)
  have "(119 - k) mod 64 = (if k \<le> 55 then 55 - k else 119 - k)" using k(1) by (simp add: mod_if)
  then have "k + 9 + (119 - k) mod 64 = (if k \<le> 55 then 64 else 128)" using k(1) by simp
  then have "length (sha1_pad m) = 64 * (length m div 64) + (if k \<le> 55 then 64 else 128)"
    using k(2) unfolding sha1_pad_def Let_def k_def [symmetric] by (simp del: upt_Suc)
  then show ?thesis by simp
qed

lemma length_sha1_rounds: "length (sha1_rounds t ws a b c d e) = 5"
  by (induction t ws a b c d e rule: sha1_rounds.induct) simp_all

lemma length_sha1_blocks: "length h = 5 \<Longrightarrow> length (sha1_blocks h ws) = 5"
proof (induction h ws rule: sha1_blocks.induct)
  case (1 h ws)
  then show ?case
    by (subst sha1_blocks.simps) (auto simp: sha1_block_def length_sha1_rounds)
qed

lemma length_concat_const: "(\<And>x. x \<in> set xs \<Longrightarrow> length (f x) = k) \<Longrightarrow> length (concat (map f xs)) = k * length xs"
  by (induction xs) auto

lemma length_sha1_hexdigest: "length (sha1_hexdigest m) = 40"
  unfolding sha1_hexdigest_def by (simp add: length_concat_const [where k = 8] length_hex_pad length_sha1_blocks)

end
