(* ===== verification/RedisTransport.thy ===== *)
theory RedisTransport
  imports Transport Sha1 Queues "HOL-Library.Product_Lexorder" "HOL-Library.Sublist" "HOL-Library.Multiset"
begin

text \<open>
  integrations/redis.py: the transport. A claim moves a message to the channel's processing
  list and then records it in a hash and in an index sorted by claim time. The Redis client is
  a parameter; the locale \<open>redis_server\<close> states what Redis documents about the commands the
  code sends, each of which may also fail with its effect done or not.
\<close>

section \<open>Values of a Redis database\<close>

datatype rvalue = RString bytes | RList "bytes list" | RHash "(string, bytes) dict" | RZset "(string, int) dict"

type_synonym rdb = "string \<Rightarrow> rvalue option"

text \<open>A key that is absent holds an empty collection; \<open>None\<close> is a value of another type.\<close>

definition list_at :: "rdb \<Rightarrow> string \<Rightarrow> bytes list option" where
  "list_at db k = (case db k of None \<Rightarrow> Some [] | Some (RList xs) \<Rightarrow> Some xs | _ \<Rightarrow> None)"

definition hash_at :: "rdb \<Rightarrow> string \<Rightarrow> (string, bytes) dict option" where
  "hash_at db k = (case db k of None \<Rightarrow> Some [] | Some (RHash d) \<Rightarrow> Some d | _ \<Rightarrow> None)"

definition zset_at :: "rdb \<Rightarrow> string \<Rightarrow> (string, int) dict option" where
  "zset_at db k = (case db k of None \<Rightarrow> Some [] | Some (RZset d) \<Rightarrow> Some d | _ \<Rightarrow> None)"

text \<open>An empty collection is removed together with its key.\<close>

definition put_list :: "string \<Rightarrow> bytes list \<Rightarrow> rdb \<Rightarrow> rdb" where
  "put_list k xs db = db(k := if xs = [] then None else Some (RList xs))"

definition put_hash :: "string \<Rightarrow> (string, bytes) dict \<Rightarrow> rdb \<Rightarrow> rdb" where
  "put_hash k d db = db(k := if d = [] then None else Some (RHash d))"

definition put_zset :: "string \<Rightarrow> (string, int) dict \<Rightarrow> rdb \<Rightarrow> rdb" where
  "put_zset k d db = db(k := if d = [] then None else Some (RZset d))"

section \<open>The commands the code sends\<close>

text \<open>What a command returns and does; \<open>None\<close> is a \<open>WRONGTYPE\<close> error.\<close>

type_synonym 'a effect = "rdb \<Rightarrow> ('a \<times> rdb) option"

definition LPUSH :: "string \<Rightarrow> bytes \<Rightarrow> unit effect" where
  "LPUSH k v db = map_option (\<lambda>xs. ((), put_list k (v # xs) db)) (list_at db k)"

text \<open>\<open>LMOVE src dst RIGHT LEFT\<close>, also when \<open>BLMOVE\<close> ends.\<close>

definition LMOVE :: "string \<Rightarrow> string \<Rightarrow> bytes option effect" where
  "LMOVE src dst db = (case list_at db src of None \<Rightarrow> None
     | Some xs \<Rightarrow> if xs = [] then Some (None, db)
         else (let db1 = put_list src (butlast xs) db in
           map_option (\<lambda>ys. (Some (last xs), put_list dst (last xs # ys) db1)) (list_at db1 dst)))"

definition LLEN :: "string \<Rightarrow> nat effect" where
  "LLEN k db = map_option (\<lambda>xs. (length xs, db)) (list_at db k)"

text \<open>\<open>LRANGE k 0 stop\<close>; a negative \<open>stop\<close> counts from the end.\<close>

definition LRANGE :: "string \<Rightarrow> int \<Rightarrow> bytes list effect" where
  "LRANGE k stop db = map_option (\<lambda>xs. (take (nat (if stop < 0 then int (length xs) + stop + 1 else stop + 1)) xs, db))
     (list_at db k)"

definition HGET :: "string \<Rightarrow> string \<Rightarrow> bytes option effect" where
  "HGET k f db = map_option (\<lambda>d. (map_of d f, db)) (hash_at db k)"

definition HGETALL :: "string \<Rightarrow> (string, bytes) dict effect" where
  "HGETALL k db = map_option (\<lambda>d. (d, db)) (hash_at db k)"

definition HSETNX :: "string \<Rightarrow> string \<Rightarrow> bytes \<Rightarrow> bool effect" where
  "HSETNX k f v db = map_option (\<lambda>d. if has_key d f then (False, db) else (True, put_hash k (AList.update f v d) db))
     (hash_at db k)"

definition HDEL :: "string \<Rightarrow> string list \<Rightarrow> nat effect" where
  "HDEL k fs db = map_option (\<lambda>d. let d' = fold AList.delete fs d in (length d - length d', put_hash k d' db))
     (hash_at db k)"

definition ZREM :: "string \<Rightarrow> string \<Rightarrow> unit effect" where
  "ZREM k i db = map_option (\<lambda>d. ((), put_zset k (AList.delete i d) db)) (zset_at db k)"

text \<open>
  \<open>ZRANGEBYSCORE k -inf max LIMIT 0 num\<close>, the members by score and then by name; \<open>None\<close> for an
  infinite \<open>max\<close>, and a negative \<open>num\<close> for no limit. Scores are times, which floats represent
  exactly at the precision of a microsecond.
\<close>

definition members_upto :: "int option \<Rightarrow> (string, int) dict \<Rightarrow> string list" where
  "members_upto bound d = map fst (sort_key (\<lambda>(i, t). (t, i))
     (filter (\<lambda>(i, t). case bound of None \<Rightarrow> True | Some b \<Rightarrow> t \<le> b) d))"

definition ZRANGEBYSCORE :: "string \<Rightarrow> int option \<Rightarrow> int \<Rightarrow> string list effect" where
  "ZRANGEBYSCORE k bound num db = map_option (\<lambda>d. (let ms = members_upto bound d in
     if num < 0 then ms else take (nat num) ms, db)) (zset_at db k)"

definition GET :: "string \<Rightarrow> bytes option effect" where
  "GET k db = (case db k of None \<Rightarrow> Some (None, db) | Some (RString b) \<Rightarrow> Some (Some b, db) | _ \<Rightarrow> None)"

definition SET :: "string \<Rightarrow> string \<Rightarrow> unit effect" where
  "SET k v db = Some ((), db(k := Some (RString (utf8_encode v))))"

text \<open>The commands of the transactions.\<close>

datatype command =
    C_HSET string "(string, bytes) dict" | C_ZADD string string int | C_HDEL string "string list"
  | C_LREM string bytes | C_ZREM string string

fun apply_command :: "command \<Rightarrow> rdb \<Rightarrow> rdb option" where
  "apply_command (C_HSET k m) db = map_option (\<lambda>d. put_hash k (dict_merge d m) db) (hash_at db k)"
| "apply_command (C_ZADD k i t) db = map_option (\<lambda>d. put_zset k (AList.update i t d) db) (zset_at db k)"
| "apply_command (C_HDEL k fs) db = map_option (\<lambda>d. put_hash k (fold AList.delete fs d) db) (hash_at db k)"
| "apply_command (C_LREM k v) db = map_option (\<lambda>xs. put_list k (remove1 v xs) db) (list_at db k)"
| "apply_command (C_ZREM k i) db = map_option (\<lambda>d. put_zset k (AList.delete i d) db) (zset_at db k)"

fun apply_commands :: "command list \<Rightarrow> rdb \<Rightarrow> rdb option" where
  "apply_commands [] db = Some db"
| "apply_commands (c # cs) db = Option.bind (apply_command c db) (apply_commands cs)"

section \<open>The client\<close>

record 'w redis_client =
  rc_lpush :: "string \<Rightarrow> bytes \<Rightarrow> ('w, unit) prog"
  rc_blmove :: "string \<Rightarrow> string \<Rightarrow> int \<Rightarrow> ('w, bytes option) prog"
  rc_lmove :: "string \<Rightarrow> string \<Rightarrow> ('w, bytes option) prog"
  rc_llen :: "string \<Rightarrow> ('w, nat) prog"
  rc_lrange :: "string \<Rightarrow> int \<Rightarrow> ('w, bytes list) prog"
  rc_hget :: "string \<Rightarrow> string \<Rightarrow> ('w, bytes option) prog"
  rc_hgetall :: "string \<Rightarrow> ('w, (string, bytes) dict) prog"
  rc_hsetnx :: "string \<Rightarrow> string \<Rightarrow> bytes \<Rightarrow> ('w, bool) prog"
  rc_hdel :: "string \<Rightarrow> string list \<Rightarrow> ('w, nat) prog"
  rc_zrem :: "string \<Rightarrow> string \<Rightarrow> ('w, unit) prog"
  rc_zrangebyscore :: "string \<Rightarrow> int option \<Rightarrow> int \<Rightarrow> ('w, string list) prog"
  rc_execute :: "command list \<Rightarrow> ('w, unit) prog"
  rc_get :: "string \<Rightarrow> ('w, bytes option) prog"
  rc_set :: "string \<Rightarrow> string \<Rightarrow> ('w, unit) prog"

text \<open>The client, the clock and \<open>uuid4().hex\<close>.\<close>

record 'w redis_env =
  re_client :: "'w redis_client"
  re_now :: "'w \<Rightarrow> int \<times> 'w"
  re_uuid :: "'w \<Rightarrow> string \<times> 'w"

text \<open>The client is given, or made from a url, or the constructor refuses.\<close>

definition resolve_client :: "(string \<Rightarrow> 'c res) \<Rightarrow> 'c option \<Rightarrow> string option \<Rightarrow> 'c res" where
  "resolve_client from_url client url = (case client of
     Some c \<Rightarrow> Inr c
   | None \<Rightarrow> (case url of None \<Rightarrow> Inl ValueError | Some u \<Rightarrow> from_url u))"

section \<open>Scheduler state in Redis\<close>

definition schedule_state_get :: "'w redis_env \<Rightarrow> string \<Rightarrow> ('w, string option) prog" where
  "schedule_state_get R k = seq (rc_get (re_client R) k) (\<lambda>v. case v of
     None \<Rightarrow> ret None
   | Some b \<Rightarrow> lift_res (of_option ValueError (map_option Some (utf8_decode b))))"

definition schedule_state_set :: "'w redis_env \<Rightarrow> string \<Rightarrow> string \<Rightarrow> ('w, unit) prog" where
  "schedule_state_set R k v = rc_set (re_client R) k v"

section \<open>Keys, fields and receipts\<close>

definition processing_key :: "string \<Rightarrow> string" where "processing_key c = c @ '':processing''"
definition claims_key :: "string \<Rightarrow> string" where "claims_key c = c @ '':claims''"
definition claims_index_key :: "string \<Rightarrow> string" where "claims_index_key c = c @ '':claims:index''"
definition candidates_key :: "string \<Rightarrow> string" where "candidates_key c = c @ '':claims:candidates''"
definition payload_field :: "string \<Rightarrow> string" where "payload_field i = i @ '':payload''"
definition claimed_at_field :: "string \<Rightarrow> string" where "claimed_at_field i = i @ '':claimed_at''"
definition payload_digest :: "bytes \<Rightarrow> string" where "payload_digest p = sha1_hexdigest p"

definition payload_claim_id :: "string \<Rightarrow> string option" where
  "payload_claim_id f = (if suffix '':payload'' f then Some (take (length f - length '':payload'') f) else None)"

definition receipt_for :: "string \<Rightarrow> string \<Rightarrow> string" where
  "receipt_for c i = (case json_text (PDict [(''channel'', PStr c), (''claim_id'', PStr i)]) of Inr t \<Rightarrow> t | Inl e \<Rightarrow> [])"

definition parse_receipt :: "string \<Rightarrow> (string \<times> string) option" where
  "parse_receipt r = (case json_parse r of
     Some (PDict d) \<Rightarrow> (case (map_of d ''channel'', map_of d ''claim_id'') of
         (Some (PStr c), Some (PStr i)) \<Rightarrow> Some (c, i)
       | _ \<Rightarrow> None)
   | _ \<Rightarrow> None)"

section \<open>The transport\<close>

definition indeterminate :: "('w, 'a) prog \<Rightarrow> ('w, 'a) prog" where
  "indeterminate m = wrap_errors (\<lambda>x. False) IndeterminateDeliveryError m"

definition cleanup_failed_claim_attempt :: "'w redis_env \<Rightarrow> string \<Rightarrow> string \<Rightarrow> ('w, unit) prog" where
  "cleanup_failed_claim_attempt R c i =
     seq (attempt (rc_hdel (re_client R) (claims_key c) [payload_field i, claimed_at_field i])) (\<lambda>_. ret ())"

definition claim_commands :: "string \<Rightarrow> string \<Rightarrow> int \<Rightarrow> bytes \<Rightarrow> command list" where
  "claim_commands c i now p =
     [C_HSET (claims_key c) [(payload_field i, p), (claimed_at_field i, isoformat (at_utc now))],
      C_ZADD (claims_index_key c) i now,
      C_HDEL (candidates_key c) [payload_digest p]]"

definition record_claim :: "'w redis_env \<Rightarrow> string \<Rightarrow> bytes \<Rightarrow> ('w, raw_message) prog" where
  "record_claim R c p =
     seq (take_reading (re_uuid R)) (\<lambda>i.
     seq (take_reading (re_now R)) (\<lambda>now.
     seq (try_catch (rc_execute (re_client R) (claim_commands c i now p))
        (\<lambda>_. seq (cleanup_failed_claim_attempt R c i) (\<lambda>_. raise IndeterminateDeliveryError))) (\<lambda>_.
     ret \<lparr>raw_bytes = p, raw_receipt = Some (receipt_for c i)\<rparr>)))"

definition redis_publish :: "'w redis_env \<Rightarrow> string \<Rightarrow> bytes \<Rightarrow> ('w, unit) prog" where
  "redis_publish R c b = rc_lpush (re_client R) c b"

definition redis_consume :: "'w redis_env \<Rightarrow> string \<Rightarrow> int \<Rightarrow> ('w, raw_message option) prog" where
  "redis_consume R c timeout =
     seq (indeterminate (rc_blmove (re_client R) c (processing_key c) timeout)) (\<lambda>p.
     case p of None \<Rightarrow> ret None | Some b \<Rightarrow> seq (record_claim R c b) (\<lambda>m. ret (Some m)))"

definition redis_size :: "'w redis_env \<Rightarrow> string \<Rightarrow> ('w, nat) prog" where
  "redis_size R c = rc_llen (re_client R) c"

fun consume_up_to :: "'w redis_env \<Rightarrow> string \<Rightarrow> nat \<Rightarrow> ('w, raw_message list) prog" where
  "consume_up_to R c 0 = ret []"
| "consume_up_to R c (Suc n) =
     seq (indeterminate (rc_lmove (re_client R) c (processing_key c))) (\<lambda>p.
     case p of
       None \<Rightarrow> ret []
     | Some b \<Rightarrow> seq (record_claim R c b) (\<lambda>m. seq (consume_up_to R c n) (\<lambda>ms. ret (m # ms))))"

definition redis_consume_many :: "'w redis_env \<Rightarrow> string \<Rightarrow> int \<Rightarrow> ('w, raw_message list) prog" where
  "redis_consume_many R c limit = consume_up_to R c (nat limit)"

definition lookup_claim :: "'w redis_env \<Rightarrow> string \<Rightarrow> ('w, (string \<times> string \<times> bytes) option) prog" where
  "lookup_claim R receipt = (case parse_receipt receipt of
     None \<Rightarrow> ret None
   | Some (c, i) \<Rightarrow> seq (rc_hget (re_client R) (claims_key c) (payload_field i)) (\<lambda>p.
       ret (map_option (\<lambda>b. (c, i, b)) p)))"

definition settle_commands :: "string \<Rightarrow> string \<Rightarrow> bytes \<Rightarrow> command list" where
  "settle_commands c i p =
     [C_LREM (processing_key c) p, C_HDEL (claims_key c) [payload_field i, claimed_at_field i],
      C_ZREM (claims_index_key c) i]"

definition settle_claim :: "'w redis_env \<Rightarrow> string \<Rightarrow> string \<Rightarrow> bytes \<Rightarrow> ('w, unit) prog" where
  "settle_claim R c i p = indeterminate (rc_execute (re_client R) (settle_commands c i p))"

definition redis_ack :: "'w redis_env \<Rightarrow> string \<Rightarrow> ('w, unit) prog" where
  "redis_ack R receipt = seq (lookup_claim R receipt) (\<lambda>claim. case claim of
     None \<Rightarrow> ret () | Some (c, i, p) \<Rightarrow> settle_claim R c i p)"

definition redis_nack :: "'w redis_env \<Rightarrow> string \<Rightarrow> bool \<Rightarrow> ('w, unit) prog" where
  "redis_nack R receipt requeue = seq (lookup_claim R receipt) (\<lambda>claim. case claim of
     None \<Rightarrow> ret ()
   | Some (c, i, p) \<Rightarrow>
       seq (perform_if requeue (indeterminate (rc_lpush (re_client R) c p))) (\<lambda>_. settle_claim R c i p))"

definition RedisTransport :: "'w redis_env \<Rightarrow> 'w transport" where
  "RedisTransport R = \<lparr>tp_publish = redis_publish R, tp_consume = redis_consume R, tp_ack = redis_ack R,
     tp_nack = redis_nack R, tp_size = Some (redis_size R), tp_consume_many = Some (redis_consume_many R)\<rparr>"

section \<open>Stale claims and orphans\<close>

fun resolve_stale :: "'w redis_env \<Rightarrow> string \<Rightarrow> string list \<Rightarrow> ('w, raw_message list) prog" where
  "resolve_stale R c [] = ret []"
| "resolve_stale R c (i # is) =
     seq (rc_hget (re_client R) (claims_key c) (payload_field i)) (\<lambda>p.
     case p of
       None \<Rightarrow> seq (rc_zrem (re_client R) (claims_index_key c) i) (\<lambda>_. resolve_stale R c is)
     | Some b \<Rightarrow> seq (resolve_stale R c is) (\<lambda>ms.
         ret (\<lparr>raw_bytes = b, raw_receipt = Some (receipt_for c i)\<rparr> # ms)))"

definition stale_claims :: "'w redis_env \<Rightarrow> string \<Rightarrow> int \<Rightarrow> int \<Rightarrow> ('w, raw_message list) prog" where
  "stale_claims R c older_than limit =
     seq (rc_zrangebyscore (re_client R) (claims_index_key c) (Some older_than) limit) (resolve_stale R c)"

text \<open>The payloads of indexed claims, with multiplicity, and the entries that are left over.\<close>

definition indexed_payloads :: "string list \<Rightarrow> (string, bytes) dict \<Rightarrow> bytes list" where
  "indexed_payloads ids claims = map snd (filter (\<lambda>(f, p).
     case payload_claim_id f of None \<Rightarrow> False | Some i \<Rightarrow> i \<in> set ids) claims)"

fun unclaimed :: "bytes list \<Rightarrow> bytes list \<Rightarrow> bytes list" where
  "unclaimed indexed [] = []"
| "unclaimed indexed (p # ps) =
     (if p \<in> set indexed then unclaimed (remove1 p indexed) ps else p # unclaimed indexed ps)"

definition unclaimed_processing_entries :: "'w redis_env \<Rightarrow> string \<Rightarrow> int \<Rightarrow> ('w, bytes list) prog" where
  "unclaimed_processing_entries R c limit =
     seq (rc_lrange (re_client R) (processing_key c) (limit - 1)) (\<lambda>processing.
     seq (rc_zrangebyscore (re_client R) (claims_index_key c) None (- 1)) (\<lambda>ids.
     seq (rc_hgetall (re_client R) (claims_key c)) (\<lambda>claims.
     ret (unclaimed (indexed_payloads ids claims) processing))))"

definition reindex_orphaned_processing_entry :: "'w redis_env \<Rightarrow> string \<Rightarrow> bytes \<Rightarrow> ('w, raw_message) prog" where
  "reindex_orphaned_processing_entry R c p = record_claim R c p"

text \<open>Whether an unclaimed entry is confirmed by now, and this caller may reindex it.\<close>

definition confirm_orphan :: "'w redis_env \<Rightarrow> string \<Rightarrow> int \<Rightarrow> int \<Rightarrow> bytes \<Rightarrow> ('w, bool) prog" where
  "confirm_orphan R c now delay p =
     seq (rc_hsetnx (re_client R) (candidates_key c) (payload_digest p) (isoformat (at_utc now))) (\<lambda>first.
     if first then ret False
     else
       seq (rc_hget (re_client R) (candidates_key c) (payload_digest p)) (\<lambda>recorded.
       case recorded of
         None \<Rightarrow> ret False
       | Some text \<Rightarrow>
           seq (lift_res (of_option ValueError (fromisoformat text))) (\<lambda>seen_at.
           if now - utc_of seen_at < delay then ret False
           else
             seq (attempt (rc_hdel (re_client R) (candidates_key c) [payload_digest p])) (\<lambda>r.
             ret (case r of Inr n \<Rightarrow> n = 1 | Inl _ \<Rightarrow> False)))))"

fun reconcile_entries :: "'w redis_env \<Rightarrow> string \<Rightarrow> int \<Rightarrow> int \<Rightarrow> bytes list \<Rightarrow> ('w, nat) prog" where
  "reconcile_entries R c now delay [] = ret 0"
| "reconcile_entries R c now delay (p # ps) =
     seq (confirm_orphan R c now delay p) (\<lambda>won.
     if won then seq (reindex_orphaned_processing_entry R c p) (\<lambda>_.
       seq (reconcile_entries R c now delay ps) (\<lambda>n. ret (n + 1)))
     else reconcile_entries R c now delay ps)"

definition reconcile_orphaned_processing_entries ::
    "'w redis_env \<Rightarrow> string \<Rightarrow> int \<Rightarrow> int \<Rightarrow> int \<Rightarrow> ('w, nat) prog" where
  "reconcile_orphaned_processing_entries R c now limit delay =
     seq (unclaimed_processing_entries R c limit) (reconcile_entries R c now delay)"

section \<open>The server\<close>

text \<open>
  A call either returns with the documented effect on the database, or it raises and the
  effect took place or not; of a transaction that raises, any part may have taken place
  (\<open>MULTI\<close> isolates, it does not roll back). \<open>view\<close> is the database in the world.
\<close>

definition conforms :: "('w \<Rightarrow> rdb) \<Rightarrow> ('w, 'a) prog \<Rightarrow> 'a effect \<Rightarrow> bool" where
  "conforms view m f \<longleftrightarrow> (\<forall>w. case m w of
     (Inr a, w') \<Rightarrow> f (view w) = Some (a, view w')
   | (Inl e, w') \<Rightarrow> view w' = view w \<or> (\<exists>a. f (view w) = Some (a, view w')))"

definition conforms_all :: "('w \<Rightarrow> rdb) \<Rightarrow> ('w, unit) prog \<Rightarrow> command list \<Rightarrow> bool" where
  "conforms_all view m cs \<longleftrightarrow> (\<forall>w. case m w of
     (Inr a, w') \<Rightarrow> apply_commands cs (view w) = Some (view w')
   | (Inl e, w') \<Rightarrow> (\<exists>ds \<in> set (subseqs cs). apply_commands ds (view w) = Some (view w')))"

text \<open>What a command leaves alone.\<close>

fun command_key :: "command \<Rightarrow> string" where
  "command_key (C_HSET k m) = k"
| "command_key (C_ZADD k i t) = k"
| "command_key (C_HDEL k fs) = k"
| "command_key (C_LREM k v) = k"
| "command_key (C_ZREM k i) = k"

lemmas put_defs = put_list_def put_hash_def put_zset_def

lemma apply_command_other: "apply_command c db = Some db' \<Longrightarrow> k \<noteq> command_key c \<Longrightarrow> db' k = db k"
  by (cases c) (auto simp: put_defs)

lemma apply_commands_other: "apply_commands cs db = Some db' \<Longrightarrow> k \<notin> command_key ` set cs \<Longrightarrow> db' k = db k"
proof (induction cs arbitrary: db)
  case (Cons c cs)
  then obtain db1 where "apply_command c db = Some db1" "apply_commands cs db1 = Some db'"
    by (auto simp: bind_eq_Some_conv)
  with Cons apply_command_other [of c db db1 k] show ?case by simp
qed simp

lemma effect_other:
  "LPUSH k v db = Some (u, db') \<Longrightarrow> k' \<noteq> k \<Longrightarrow> db' k' = db k'"
  "HDEL k fs db = Some (n, db') \<Longrightarrow> k' \<noteq> k \<Longrightarrow> db' k' = db k'"
  "ZREM k i db = Some (u, db') \<Longrightarrow> k' \<noteq> k \<Longrightarrow> db' k' = db k'"
  "HSETNX k f v db = Some (b, db') \<Longrightarrow> k' \<noteq> k \<Longrightarrow> db' k' = db k'"
  by (auto simp: LPUSH_def HDEL_def ZREM_def HSETNX_def put_defs Let_def split: if_splits)

lemma effect_reads:
  "LLEN k db = Some (n, db') \<Longrightarrow> db' = db" "LRANGE k stop db = Some (xs, db') \<Longrightarrow> db' = db"
  "HGET k f db = Some (v, db') \<Longrightarrow> db' = db" "HGETALL k db = Some (d, db') \<Longrightarrow> db' = db"
  "ZRANGEBYSCORE k b num db = Some (is, db') \<Longrightarrow> db' = db" "GET k db = Some (v, db') \<Longrightarrow> db' = db"
  by (auto simp: LLEN_def LRANGE_def HGET_def HGETALL_def ZRANGEBYSCORE_def GET_def split: option.splits rvalue.splits)

lemma subseqs_subset: "ds \<in> set (subseqs cs) \<Longrightarrow> set ds \<subseteq> set cs"
  by (metis PowI imageI subseqs_powset Pow_iff)

text \<open>The messages of a list key, newest first.\<close>

definition lst :: "rdb \<Rightarrow> string \<Rightarrow> bytes list" where
  "lst db k = (case list_at db k of Some xs \<Rightarrow> xs | None \<Rightarrow> [])"

lemma lst_put [simp]: "lst (put_list k xs db) k' = (if k' = k then xs else lst db k')"
  by (simp add: lst_def list_at_def put_list_def)

lemma lst_cong: "db' k = db k \<Longrightarrow> lst db' k = lst db k"
  by (simp add: lst_def list_at_def)

text \<open>Channel names that are not the name of another channel's bookkeeping.\<close>

definition plain :: "string \<Rightarrow> bool" where
  "plain c \<longleftrightarrow> \<not> suffix '':processing'' c \<and> \<not> suffix '':claims'' c \<and> \<not> suffix '':claims:index'' c
     \<and> \<not> suffix '':claims:candidates'' c"

lemmas key_defs = processing_key_def claims_key_def claims_index_key_def candidates_key_def

definition record_keys :: "string \<Rightarrow> string set" where
  "record_keys c = {claims_key c, claims_index_key c, candidates_key c}"

lemma keys_apart:
  "processing_key c = processing_key d \<longleftrightarrow> c = d" "processing_key c \<notin> record_keys d"
  "plain c \<Longrightarrow> c \<noteq> processing_key d" "plain c \<Longrightarrow> c \<notin> record_keys d"
  by (auto simp: key_defs record_keys_def plain_def suffix_def dest: arg_cong [of _ _ last] arg_cong [of _ _ rev])

text \<open>The fields of a hash key and the scores of a sorted set.\<close>

definition hash_fields :: "rdb \<Rightarrow> string \<Rightarrow> string \<rightharpoonup> bytes" where
  "hash_fields db k = (case hash_at db k of Some d \<Rightarrow> map_of d | None \<Rightarrow> Map.empty)"

definition scores :: "rdb \<Rightarrow> string \<Rightarrow> string \<rightharpoonup> int" where
  "scores db k = (case zset_at db k of Some d \<Rightarrow> map_of d | None \<Rightarrow> Map.empty)"

lemma keys_distinct [simp]:
  "claims_key c \<noteq> claims_index_key d" "claims_index_key d \<noteq> claims_key c" "claims_key c \<noteq> candidates_key d"
  "candidates_key d \<noteq> claims_key c" "claims_index_key c \<noteq> candidates_key d" "candidates_key d \<noteq> claims_index_key c"
  "processing_key c \<noteq> claims_key d" "processing_key c \<noteq> claims_index_key d" "processing_key c \<noteq> candidates_key d"
  "claims_key d \<noteq> processing_key c" "claims_index_key d \<noteq> processing_key c" "candidates_key d \<noteq> processing_key c"
  "payload_field i \<noteq> claimed_at_field j" "claimed_at_field j \<noteq> payload_field i"
  by (auto simp: key_defs payload_field_def claimed_at_field_def dest: arg_cong [of _ _ rev])

lemma hash_fields_cong: "db' k = db k \<Longrightarrow> hash_fields db' k = hash_fields db k"
  by (simp add: hash_fields_def hash_at_def)

lemma scores_cong: "db' k = db k \<Longrightarrow> scores db' k = scores db k"
  by (simp add: scores_def zset_at_def)

lemma fold_delete: "map_of (fold AList.delete fs d) = (\<lambda>f. if f \<in> set fs then None else map_of d f)"
  by (induction fs arbitrary: d) (auto simp: fun_eq_iff)

lemma command_effect:
  "apply_command (C_HSET k [(f, v), (g, u)]) db = Some db' \<Longrightarrow> hash_fields db' k = (hash_fields db k)(f \<mapsto> v, g \<mapsto> u)"
  "apply_command (C_ZADD k i t) db = Some db' \<Longrightarrow> scores db' k = (scores db k)(i \<mapsto> t)"
  "apply_command (C_HDEL k fs) db = Some db' \<Longrightarrow> hash_fields db' k = (\<lambda>f. if f \<in> set fs then None else hash_fields db k f)"
  "apply_command (C_LREM k b) db = Some db' \<Longrightarrow> lst db' k = remove1 b (lst db k)"
  "apply_command (C_ZREM k i) db = Some db' \<Longrightarrow> scores db' k = (scores db k)(i := None)"
proof -
  have fp: "hash_fields (put_hash k d db) k = map_of d" for d db by (simp add: hash_fields_def put_hash_def hash_at_def)
  have sp: "scores (put_zset k d db) k = map_of d" for d db by (simp add: scores_def put_zset_def zset_at_def)
  show "apply_command (C_HSET k [(f, v), (g, u)]) db = Some db' \<Longrightarrow> hash_fields db' k = (hash_fields db k)(f \<mapsto> v, g \<mapsto> u)"
    "apply_command (C_HDEL k fs) db = Some db' \<Longrightarrow> hash_fields db' k = (\<lambda>f. if f \<in> set fs then None else hash_fields db k f)"
    by (auto simp: fp hash_fields_def [of db] dict_merge_def fold_delete)
  show "apply_command (C_ZADD k i t) db = Some db' \<Longrightarrow> scores db' k = (scores db k)(i \<mapsto> t)"
    "apply_command (C_ZREM k i) db = Some db' \<Longrightarrow> scores db' k = (scores db k)(i := None)"
    by (auto simp: sp scores_def [of db])
  show "apply_command (C_LREM k b) db = Some db' \<Longrightarrow> lst db' k = remove1 b (lst db k)"
    by (auto simp: lst_def [of db])
qed

definition held :: "rdb \<Rightarrow> string \<Rightarrow> bytes multiset" where
  "held db c = mset (lst db c) + mset (lst db (processing_key c))"

lemma mset_butlast_last: "xs \<noteq> [] \<Longrightarrow> mset xs = add_mset (last xs) (mset (butlast xs))"
  by (induction xs rule: rev_induct) auto

locale redis_server =
  fixes R :: "'w redis_env" and view :: "'w \<Rightarrow> rdb"
  assumes lpush: "conforms view (rc_lpush (re_client R) k v) (LPUSH k v)"
    and blmove: "conforms view (rc_blmove (re_client R) src dst t) (LMOVE src dst)"
    and lmove: "conforms view (rc_lmove (re_client R) src dst) (LMOVE src dst)"
    and llen: "conforms view (rc_llen (re_client R) k) (LLEN k)"
    and lrange: "conforms view (rc_lrange (re_client R) k stop) (LRANGE k stop)"
    and hget: "conforms view (rc_hget (re_client R) k f) (HGET k f)"
    and hgetall: "conforms view (rc_hgetall (re_client R) k) (HGETALL k)"
    and hsetnx: "conforms view (rc_hsetnx (re_client R) k f v) (HSETNX k f v)"
    and hdel: "conforms view (rc_hdel (re_client R) k fs) (HDEL k fs)"
    and zrem: "conforms view (rc_zrem (re_client R) k i) (ZREM k i)"
    and zrangebyscore: "conforms view (rc_zrangebyscore (re_client R) k b num) (ZRANGEBYSCORE k b num)"
    and execute: "conforms_all view (rc_execute (re_client R) cs) cs"
    and get: "conforms view (rc_get (re_client R) k) (GET k)"
    and set: "conforms view (rc_set (re_client R) k v) (SET k v)"
    and now: "view (snd (re_now R w)) = view w"
    and uuid: "view (snd (re_uuid R w)) = view w"

begin

lemma conformsD:
  "conforms view m f \<Longrightarrow> m w = (Inr a, w') \<Longrightarrow> f (view w) = Some (a, view w')"
  "conforms view m f \<Longrightarrow> m w = (Inl e, w') \<Longrightarrow> view w' = view w \<or> (\<exists>a. f (view w) = Some (a, view w'))"
  by (auto simp: conforms_def split: prod.splits sum.splits) (metis fst_conv snd_conv sum.inject sum.distinct)+

lemma conforms_allD:
  "conforms_all view m cs \<Longrightarrow> m w = (Inr a, w') \<Longrightarrow> apply_commands cs (view w) = Some (view w')"
  "conforms_all view m cs \<Longrightarrow> m w = (Inl e, w') \<Longrightarrow> \<exists>ds \<in> set (subseqs cs). apply_commands ds (view w) = Some (view w')"
  by (auto simp: conforms_all_def split: prod.splits sum.splits) (metis fst_conv snd_conv sum.inject sum.distinct)+

text \<open>A command that only reads, and one that only changes its key.\<close>

lemma conforms_reads:
  assumes "conforms view m f" "\<And>db a db'. f db = Some (a, db') \<Longrightarrow> db' = db" "m w = (r, w')"
  shows "view w' = view w"
  using assms conformsD [OF assms(1)] by (cases r) blast+

lemma execute_other:
  assumes "rc_execute (re_client R) cs w = (r, w')" "k \<notin> command_key ` set cs"
  shows "view w' k = view w k"
proof (cases r)
  case (Inl e)
  then obtain ds where "set ds \<subseteq> set cs" "apply_commands ds (view w) = Some (view w')"
    using conforms_allD(2) [OF execute] assms(1) subseqs_subset by blast
  then show ?thesis using apply_commands_other assms(2) by (metis image_mono subsetD)
next
  case (Inr u)
  then show ?thesis using conforms_allD(1) [OF execute] assms apply_commands_other by metis
qed

lemma take_reading:
  assumes "take_reading f w = (r, w')" "\<And>w. view (snd (f w)) = view w"
  shows "\<exists>a. r = Inr a" "view w' = view w"
  using assms(1) assms(2) [of w] by (auto simp: take_reading_def split: prod.splits)

lemma hdel_other: "rc_hdel (re_client R) k fs w = (r, w') \<Longrightarrow> k' \<noteq> k \<Longrightarrow> view w' k' = view w k'"
  using conformsD [OF hdel, of k fs w] effect_other(2) [of k fs "view w" _ "view w'" k'] by (cases r) auto

lemma record_claim_spec:
  assumes "record_claim R c p w = (r, w')"
  shows "\<And>k. k \<notin> record_keys c \<Longrightarrow> view w' k = view w k"
    and "\<And>e. r = Inl e \<Longrightarrow> e = IndeterminateDeliveryError"
    and "\<And>m. r = Inr m \<Longrightarrow> raw_bytes m = p \<and> (\<exists>i now. raw_receipt m = Some (receipt_for c i)
           \<and> apply_commands (claim_commands c i now p) (view w) = Some (view w'))"
proof -
  obtain i w1 where i: "take_reading (re_uuid R) w = (Inr i, w1)" "view w1 = view w"
    using take_reading [OF _ uuid] by (metis surj_pair)
  obtain t w2 where t: "take_reading (re_now R) w1 = (Inr t, w2)" "view w2 = view w1"
    using take_reading [OF _ now] by (metis surj_pair)
  obtain x w3 where x: "rc_execute (re_client R) (claim_commands c i t p) w2 = (x, w3)" by (metis surj_pair)
  have keys: "command_key ` set (claim_commands c i t p) = record_keys c"
    by (auto simp: claim_commands_def record_keys_def)
  have other: "view w3 k = view w k" if "k \<notin> record_keys c" for k
    using execute_other [OF x] that i(2) t(2) unfolding keys by simp
  obtain y w4 where y: "rc_hdel (re_client R) (claims_key c) [payload_field i, claimed_at_field i] w3 = (y, w4)"
    by (metis surj_pair)
  have other4: "view w4 k = view w k" if "k \<notin> record_keys c" for k
    using hdel_other [OF y] other [OF that] that by (auto simp: record_keys_def)
  have res: "(r, w') = (case x of Inl e \<Rightarrow> (Inl IndeterminateDeliveryError, w4)
      | Inr u \<Rightarrow> (Inr \<lparr>raw_bytes = p, raw_receipt = Some (receipt_for c i)\<rparr>, w3))"
    using assms i(1) t(1) x y
    by (cases x) (simp_all add: record_claim_def seq_def try_catch_def cleanup_failed_claim_attempt_def attempt_def)
  show "view w' k = view w k" if "k \<notin> record_keys c" for k
    using res other [OF that] other4 [OF that] by (cases x) auto
  show "e = IndeterminateDeliveryError" if "r = Inl e" for e
    using res that by (cases x) auto
  show "raw_bytes m = p \<and> (\<exists>i now. raw_receipt m = Some (receipt_for c i)
           \<and> apply_commands (claim_commands c i now p) (view w) = Some (view w'))" if "r = Inr m" for m
  proof (cases x)
    case (Inr u)
    then have "apply_commands (claim_commands c i t p) (view w) = Some (view w3)"
      using conforms_allD(1) [OF execute] x i(2) t(2) by metis
    then show ?thesis using res that Inr by auto
  qed (use res that in simp)
qed

text \<open>Moving a message to the processing list.\<close>

lemma LMOVE_spec:
  assumes "LMOVE src dst db = Some (p, db')" "src \<noteq> dst"
  shows "(p = None \<and> lst db src = [] \<and> db' = db) \<or>
    (\<exists>b. p = Some b \<and> lst db src \<noteq> [] \<and> b = last (lst db src) \<and> lst db' src = butlast (lst db src)
       \<and> lst db' dst = b # lst db dst \<and> (\<forall>k. k \<noteq> src \<longrightarrow> k \<noteq> dst \<longrightarrow> db' k = db k))"
proof -
  obtain xs where xs: "list_at db src = Some xs" using assms(1) by (auto simp: LMOVE_def split: option.splits)
  then have lst: "lst db src = xs" by (simp add: lst_def)
  show ?thesis
  proof (cases "xs = []")
    case True
    then show ?thesis using assms(1) xs lst by (simp add: LMOVE_def)
  next
    case False
    define db1 where "db1 = put_list src (butlast xs) db"
    obtain ys where ys: "list_at db1 dst = Some ys" "p = Some (last xs)" "db' = put_list dst (last xs # ys) db1"
      using assms(1) xs False by (auto simp: LMOVE_def db1_def Let_def)
    have "ys = lst db1 dst" using ys(1) by (simp add: lst_def)
    then have "ys = lst db dst" using assms(2) by (simp add: db1_def)
    then have "lst db' src = butlast xs" "lst db' dst = last xs # lst db dst"
      using assms(2) by (simp_all add: ys(3) db1_def)
    moreover have "db' k = db k" if "k \<noteq> src" "k \<noteq> dst" for k using that by (simp add: ys(3) db1_def put_list_def)
    ultimately show ?thesis using ys(2) lst False by simp
  qed
qed

lemma indeterminate_cases:
  "indeterminate m w = (r, w') \<Longrightarrow> m w = (r, w') \<or> (\<exists>e. m w = (Inl e, w') \<and> r = Inl IndeterminateDeliveryError)"
  by (auto simp: indeterminate_def wrap_errors_def try_catch_def split: prod.splits sum.splits)

end

end
