(* ===== verification/RedisClaims.thy ===== *)
theory RedisClaims
  imports RedisTransport
begin

text \<open>
  What the Redis transport guarantees of a server that behaves as documented: claiming moves a
  message, settling removes exactly the claimed one, and no failure in between loses one.
\<close>

context redis_server
begin

text \<open>
  One claim: nothing was waiting; or the oldest message moved to the processing list, and was
  recorded or the call raised; or the call raised without effect.
\<close>

definition claim_step :: "string \<Rightarrow> ('w, bytes option) prog \<Rightarrow> ('w, raw_message option) prog" where
  "claim_step c mv = seq (indeterminate mv) (\<lambda>p. case p of None \<Rightarrow> ret None | Some b \<Rightarrow> seq (record_claim R c b) (\<lambda>m. ret (Some m)))"

definition moved :: "string \<Rightarrow> rdb \<Rightarrow> rdb \<Rightarrow> bool" where
  "moved c db db' \<longleftrightarrow> lst db c \<noteq> [] \<and> lst db' c = butlast (lst db c)
     \<and> lst db' (processing_key c) = last (lst db c) # lst db (processing_key c)
     \<and> (\<forall>k. k \<noteq> c \<longrightarrow> k \<noteq> processing_key c \<longrightarrow> k \<notin> record_keys c \<longrightarrow> db' k = db k)"

lemma moved_record:
  assumes "LMOVE c (processing_key c) (view w) = Some (Some b, view w1)" "record_claim R c b w1 = (r, w')" "plain c"
  shows "moved c (view w) (view w')" "b = last (lst (view w) c)"
proof -
  have "c \<noteq> processing_key c" using keys_apart(3) [OF assms(3)] .
  from LMOVE_spec [OF assms(1) this]
  have b: "lst (view w) c \<noteq> []" "b = last (lst (view w) c)" "lst (view w1) c = butlast (lst (view w) c)"
    "lst (view w1) (processing_key c) = b # lst (view w) (processing_key c)"
    "\<And>k. k \<noteq> c \<Longrightarrow> k \<noteq> processing_key c \<Longrightarrow> view w1 k = view w k" by auto
  have "view w' k = view w1 k" if "k \<notin> record_keys c" for k using record_claim_spec(1) [OF assms(2) that] .
  with b keys_apart(2,4) assms(3) show "moved c (view w) (view w')" "b = last (lst (view w) c)"
    unfolding moved_def by (metis lst_cong)+
qed

lemma claim_step_spec:
  assumes "conforms view mv (LMOVE c (processing_key c))" "claim_step c mv w = (r, w')" "plain c"
  shows "(r = Inr None \<and> view w' = view w \<and> lst (view w) c = []) \<or> (r = Inl IndeterminateDeliveryError \<and> view w' = view w) \<or>
    (moved c (view w) (view w') \<and> (r = Inl IndeterminateDeliveryError
       \<or> (\<exists>m. r = Inr (Some m) \<and> raw_bytes m = last (lst (view w) c))))"
proof -
  obtain x w1 where x: "mv w = (x, w1)" by (metis surj_pair)
  have apart: "c \<noteq> processing_key c" using keys_apart(3) [OF assms(3)] .
  show ?thesis
  proof (cases x)
    case (Inl e)
    then have r: "r = Inl IndeterminateDeliveryError" "w' = w1"
      using assms(2) x by (simp_all add: claim_step_def indeterminate_def wrap_errors_def try_catch_def)
    from conformsD(2) [OF assms(1) x [unfolded Inl]] consider "view w1 = view w"
      | p where "LMOVE c (processing_key c) (view w) = Some (p, view w1)" by blast
    then show ?thesis
    proof cases
      case 2
      then have "view w1 = view w \<or> moved c (view w) (view w1)"
        using LMOVE_spec [OF 2 apart] unfolding moved_def by auto
      then show ?thesis using r by auto
    qed (use r in auto)
  next
    case (Inr p)
    note mv = conformsD(1) [OF assms(1) x [unfolded Inr]]
    show ?thesis
    proof (cases p)
      case None
      then show ?thesis
        using mv LMOVE_spec [OF mv apart] assms(2) x Inr
        by (auto simp: claim_step_def indeterminate_def wrap_errors_def try_catch_def)
    next
      case (Some b)
      obtain q w2 where q: "record_claim R c b w1 = (q, w2)" by (metis surj_pair)
      have rw: "r = (case q of Inl e \<Rightarrow> Inl e | Inr m \<Rightarrow> Inr (Some m))" "w' = w2"
        using assms(2) x Inr Some q
        by (cases q; simp add: claim_step_def indeterminate_def wrap_errors_def try_catch_def seq_def)+
      note mr = moved_record [OF mv [unfolded Some] q assms(3)]
      show ?thesis using mr rw record_claim_spec(2,3) [OF q] by (cases q) auto
    qed
  qed
qed

lemma consume_eq: "redis_consume R c t = claim_step c (rc_blmove (re_client R) c (processing_key c) t)"
  by (simp add: redis_consume_def claim_step_def)

lemma consume_up_to_eq:
  "consume_up_to R c (Suc n) = seq (claim_step c (rc_lmove (re_client R) c (processing_key c))) (\<lambda>m.
     case m of None \<Rightarrow> ret [] | Some m \<Rightarrow> seq (consume_up_to R c n) (\<lambda>ms. ret (m # ms)))"
proof -
  have eq: "(case p of None \<Rightarrow> ret [] | Some b \<Rightarrow> seq (record_claim R c b) (\<lambda>m. seq (consume_up_to R c n) (\<lambda>ms. ret (m # ms))))
    = seq (case p of None \<Rightarrow> ret None | Some b \<Rightarrow> seq (record_claim R c b) (\<lambda>m. ret (Some m))) (\<lambda>m.
     case m of None \<Rightarrow> ret [] | Some m \<Rightarrow> seq (consume_up_to R c n) (\<lambda>ms. ret (m # ms)))" for p
    by (cases p) (simp_all add: seq_assoc fun_eq_iff)
  show ?thesis unfolding claim_step_def consume_up_to.simps seq_assoc by (rule arg_cong [where f = "seq _"]) (rule ext, rule eq)
qed

text \<open>Waiting or claimed messages of a channel.\<close>

lemma moved_held: "moved c db db' \<Longrightarrow> held db' c = held db c"
  using mset_butlast_last [of "lst db c"] by (auto simp: moved_def held_def)

lemma moved_other:
  "moved c db db' \<Longrightarrow> k \<noteq> c \<Longrightarrow> k \<noteq> processing_key c \<Longrightarrow> k \<notin> record_keys c \<Longrightarrow> db' k = db k"
  by (simp add: moved_def)

lemma moved_other_held:
  assumes "moved c db db'" "plain c" "plain d" "d \<noteq> c" shows "held db' d = held db d"
proof -
  have "db' d = db d"
    by (rule moved_other [OF assms(1,4) keys_apart(3) [OF assms(3)] keys_apart(4) [OF assms(3)]])
  moreover have "processing_key d \<noteq> c" using keys_apart(3) [OF assms(2), of d] by metis
  then have "db' (processing_key d) = db (processing_key d)"
    by (rule moved_other [OF assms(1) _ _ keys_apart(2)]) (use assms(4) keys_apart(1) in metis)
  ultimately show ?thesis by (simp add: held_def lst_cong [of db' _ db])
qed

lemma claim_step_held:
  assumes "conforms view mv (LMOVE c (processing_key c))" "claim_step c mv w = (r, w')" "plain c" "plain d"
  shows "held (view w') d = held (view w) d"
proof -
  have "view w' = view w \<or> moved c (view w) (view w')" using claim_step_spec [OF assms(1-3)] by blast
  then show ?thesis using moved_held moved_other_held [OF _ assms(3,4)] by (cases "d = c") auto
qed

lemma consume_held:
  "redis_consume R c t w = (r, w') \<Longrightarrow> plain c \<Longrightarrow> plain d \<Longrightarrow> held (view w') d = held (view w) d"
  unfolding consume_eq by (rule claim_step_held [OF blmove])

lemma consume_up_to_held:
  "consume_up_to R c n w = (r, w') \<Longrightarrow> plain c \<Longrightarrow> plain d \<Longrightarrow> held (view w') d = held (view w) d"
proof (induction n arbitrary: w r w')
  case (Suc n)
  obtain x w1 where x: "claim_step c (rc_lmove (re_client R) c (processing_key c)) w = (x, w1)" by (metis surj_pair)
  obtain y w2 where y: "consume_up_to R c n w1 = (y, w2)" by (metis surj_pair)
  have "w' = w1 \<or> w' = w2"
    using Suc.prems(1) x y unfolding consume_up_to_eq by (auto simp: seq_def split: sum.splits option.splits)
  then show ?case
    using claim_step_held [OF lmove x Suc.prems(2,3)] Suc.IH [OF y Suc.prems(2,3)] by auto
qed simp

text \<open>Settling a claim.\<close>

lemma lookup_spec:
  assumes "lookup_claim R rec w = (r, w')"
  shows "view w' = view w"
    and "r = Inr (Some (c, i, p)) \<Longrightarrow> parse_receipt rec = Some (c, i) \<and> HGET (claims_key c) (payload_field i) (view w) = Some (Some p, view w)"
proof -
  show same: "view w' = view w"
  proof (cases "parse_receipt rec")
    case (Some ci)
    obtain c i where ci: "ci = (c, i)" by (cases ci)
    obtain x w1 where x: "rc_hget (re_client R) (claims_key c) (payload_field i) w = (x, w1)" by (metis surj_pair)
    then have "view w1 = view w" using conforms_reads [OF hget] effect_reads(3) by metis
    then show ?thesis using assms Some ci x by (cases x) (auto simp: lookup_claim_def seq_def)
  qed (use assms in \<open>simp add: lookup_claim_def\<close>)
  show "parse_receipt rec = Some (c, i) \<and> HGET (claims_key c) (payload_field i) (view w) = Some (Some p, view w)"
    if "r = Inr (Some (c, i, p))"
  proof (cases "parse_receipt rec")
    case (Some ci)
    obtain c' i' where ci: "ci = (c', i')" by (cases ci)
    obtain x w1 where x: "rc_hget (re_client R) (claims_key c') (payload_field i') w = (x, w1)" by (metis surj_pair)
    then have "x = Inr (Some p) \<and> w1 = w' \<and> c' = c \<and> i' = i"
      using assms Some ci that by (cases x) (auto simp: lookup_claim_def seq_def)
    then show ?thesis using conformsD(1) [OF hget] x Some ci same by metis
  qed (use assms that in \<open>simp add: lookup_claim_def\<close>)
qed

lemma settle_keys: "command_key ` set (settle_commands c i p) = {processing_key c, claims_key c, claims_index_key c}"
  by (auto simp: settle_commands_def)

text \<open>Of the commands that settle a claim only one touches a list, and it removes one entry at most.\<close>

lemma one_removal:
  assumes "apply_commands ds db = Some db'" "\<And>x. x \<in> set ds \<Longrightarrow> command_key x = k \<Longrightarrow> x = C_LREM k p" "distinct ds"
  shows "lst db' k = lst db k \<or> C_LREM k p \<in> set ds \<and> lst db' k = remove1 p (lst db k)"
  using assms
proof (induction ds arbitrary: db)
  case (Cons x ds)
  then obtain db1 where db1: "apply_command x db = Some db1" "apply_commands ds db1 = Some db'"
    by (auto simp: bind_eq_Some_conv)
  have IH: "lst db' k = lst db1 k \<or> C_LREM k p \<in> set ds \<and> lst db' k = remove1 p (lst db1 k)"
    using Cons.IH [OF db1(2)] Cons.prems by simp
  show ?case
  proof (cases "command_key x = k")
    case True
    then have "x = C_LREM k p" using Cons.prems(2) by simp
    then have "lst db1 k = remove1 p (lst db k)" "C_LREM k p \<notin> set ds"
      using db1(1) Cons.prems(3) by (auto simp: lst_def [of db])
    then show ?thesis using IH \<open>x = C_LREM k p\<close> by simp
  next
    case False
    then have "db1 k = db k" using apply_command_other [OF db1(1)] by simp
    then show ?thesis using IH lst_cong [of db1 k db] by auto
  qed
qed simp

lemma settle_commands_processing:
  assumes "ds \<in> set (subseqs (settle_commands c i p))" "apply_commands ds db = Some db'"
  shows "lst db' (processing_key c) = lst db (processing_key c) \<or> lst db' (processing_key c) = remove1 p (lst db (processing_key c))"
proof -
  have "distinct (settle_commands c i p)" by (simp add: settle_commands_def)
  then have "distinct ds" using assms(1) subseqs_distinctD by blast
  moreover have "x = C_LREM (processing_key c) p" if "x \<in> set ds" "command_key x = processing_key c" for x
    using that subsetD [OF subseqs_subset [OF assms(1)] that(1)] keys_apart(2) [of c c]
    by (auto simp: settle_commands_def record_keys_def)
  ultimately show ?thesis using one_removal [OF assms(2)] by blast
qed

lemma settle_claim_spec:
  assumes "settle_claim R c i p w = (r, w')"
  shows "lst (view w') (processing_key c) = lst (view w) (processing_key c)
      \<or> lst (view w') (processing_key c) = remove1 p (lst (view w) (processing_key c))"
    and "k \<noteq> processing_key c \<Longrightarrow> k \<notin> record_keys c \<Longrightarrow> view w' k = view w k"
    and "r = Inr u \<Longrightarrow> apply_commands (settle_commands c i p) (view w) = Some (view w')"
proof -
  obtain x where x: "rc_execute (re_client R) (settle_commands c i p) w = (x, w')" "\<And>u. r = Inr u \<Longrightarrow> x = Inr u"
    using indeterminate_cases [OF assms [unfolded settle_claim_def]] by auto
  show "view w' k = view w k" if "k \<noteq> processing_key c" "k \<notin> record_keys c" for k
    using execute_other [OF x(1)] that unfolding settle_keys by (simp add: record_keys_def)
  show "apply_commands (settle_commands c i p) (view w) = Some (view w')" if "r = Inr u" for u
    using conforms_allD(1) [OF execute] x that by metis
  obtain ds where "ds \<in> set (subseqs (settle_commands c i p))" "apply_commands ds (view w) = Some (view w')"
    using conforms_allD [OF execute] x(1) subseqs_refl by (cases x) blast+
  then show "lst (view w') (processing_key c) = lst (view w) (processing_key c)
      \<or> lst (view w') (processing_key c) = remove1 p (lst (view w) (processing_key c))"
    by (rule settle_commands_processing)
qed

lemma lpush_spec:
  assumes "rc_lpush (re_client R) k v w = (r, w')"
  shows "(\<forall>k'. k' \<noteq> k \<longrightarrow> view w' k' = view w k')"
    and "lst (view w') k = v # lst (view w) k \<or> (\<exists>e. r = Inl e) \<and> view w' = view w"
proof -
  have "LPUSH k v (view w) = Some ((), view w') \<or> (\<exists>e. r = Inl e) \<and> view w' = view w"
    using conformsD(1) [OF lpush, of k v w] conformsD(2) [OF lpush, of k v w] assms
    by (cases r) auto
  moreover have "lst db' k = v # lst db k" if "LPUSH k v db = Some ((), db')" for db db'
    using that by (auto simp: LPUSH_def lst_def [of db])
  ultimately show "\<forall>k'. k' \<noteq> k \<longrightarrow> view w' k' = view w k'"
    "lst (view w') k = v # lst (view w) k \<or> (\<exists>e. r = Inl e) \<and> view w' = view w"
    using effect_other(1) [of k v "view w" "()" "view w'"] by auto
qed

text \<open>First in, first out, on plain channels.\<close>

definition waiting :: "'w \<Rightarrow> string \<Rightarrow> bytes list" where
  "waiting w c = rev (lst (view w) c)"

lemma settle_other:
  assumes "settle_claim R c i p w = (r, w')" "plain d" shows "view w' d = view w d"
  using settle_claim_spec(2) [OF assms(1)] keys_apart(3,4) [OF assms(2)] by blast

lemma ack_cases:
  assumes "redis_ack R rec w = (r, w')"
  obtains (none) "view w' = view w"
  | (settle) c i p w1 where "parse_receipt rec = Some (c, i)" "HGET (claims_key c) (payload_field i) (view w) = Some (Some p, view w)"
      "view w1 = view w" "settle_claim R c i p w1 = (r, w')"
proof -
  obtain x w1 where x: "lookup_claim R rec w = (x, w1)" by (metis surj_pair)
  note same = lookup_spec(1) [OF x]
  show ?thesis
  proof (cases "\<exists>c i p. x = Inr (Some (c, i, p))")
    case True
    then obtain c i p where c: "x = Inr (Some (c, i, p))" by blast
    then have "settle_claim R c i p w1 = (r, w')" using assms x by (simp add: redis_ack_def)
    with settle lookup_spec(2) [OF x c] same show ?thesis by blast
  next
    case False
    then have "w' = w1" using assms x by (cases x) (auto simp: redis_ack_def split: option.splits)
    with none same show ?thesis by simp
  qed
qed

sublocale fifo_transport "RedisTransport R" "\<lambda>w. True" plain waiting
proof (unfold_locales, goal_cases)
  case (1 w c b u w')
  then have p: "rc_lpush (re_client R) c b w = (Inr u, w')" by (simp add: RedisTransport_def redis_publish_def)
  have "lst (view w') c = b # lst (view w) c" using lpush_spec(2) [OF p] by simp
  moreover have "view w' d = view w d" if "d \<noteq> c" for d using lpush_spec(1) [OF p] that by blast
  ultimately show ?case by (simp add: waiting_def lst_cong [of "view w'" _ "view w"])
next
  case (2 w c t raw w')
  then have "claim_step c (rc_blmove (re_client R) c (processing_key c) t) w = (Inr (Some raw), w')"
    by (simp add: RedisTransport_def consume_eq)
  from claim_step_spec [OF blmove this 2(2)] have m: "moved c (view w) (view w')" "raw_bytes raw = last (lst (view w) c)"
    by auto
  have ne: "lst (view w) c \<noteq> []" "lst (view w') c = butlast (lst (view w) c)" using m(1) by (simp_all add: moved_def)
  have "waiting w c = raw_bytes raw # waiting w' c"
    using arg_cong [OF append_butlast_last_id [OF ne(1)], of rev] ne(2) m(2) by (simp add: waiting_def)
  moreover have "view w' d = view w d" if "plain d" "d \<noteq> c" for d
    using moved_other [OF m(1) that(2) keys_apart(3) [OF that(1)] keys_apart(4) [OF that(1)]] .
  ultimately show ?case by (simp add: waiting_def lst_cong [of "view w'" _ "view w"])
next
  case (3 w c t w')
  then have "claim_step c (rc_blmove (re_client R) c (processing_key c) t) w = (Inr None, w')"
    by (simp add: RedisTransport_def consume_eq)
  from claim_step_spec [OF blmove this 3(2)] have "lst (view w) c = []" "view w' = view w" by auto
  then show ?case by (simp add: waiting_def)
next
  case (4 w rec u w')
  then have ack: "redis_ack R rec w = (Inr u, w')" by (simp add: RedisTransport_def)
  have "view w' d = view w d" if "plain d" for d
  proof (rule ack_cases [OF ack])
    fix c i p w1 assume "view w1 = view w" "settle_claim R c i p w1 = (Inr u, w')"
    then show ?thesis using settle_other [OF _ that] by metis
  qed simp
  then show ?case by (simp add: waiting_def lst_cong [of "view w'" _ "view w"])
qed

text \<open>What settling a claim, and rejecting one, does to the messages of a channel.\<close>

lemma settle_held:
  assumes "settle_claim R c i p w = (r, w')" "plain d"
  shows "held (view w') d = held (view w) d \<or> d = c \<and> held (view w) d = add_mset p (held (view w') d)"
proof (cases "d = c")
  case True
  have "lst (view w') d = lst (view w) d" by (rule lst_cong) (rule settle_other [OF assms])
  with settle_claim_spec(1) [OF assms(1)] True show ?thesis
    by (cases "p \<in> set (lst (view w) (processing_key c))") (auto simp: held_def remove1_idem)
next
  case False
  have "view w' (processing_key d) = view w (processing_key d)"
    by (rule settle_claim_spec(2) [OF assms(1)]) (use False keys_apart(1,2) in blast)+
  then show ?thesis
    using settle_other [OF assms] by (simp add: held_def lst_cong [of "view w'" _ "view w"])
qed

lemma lpush_held:
  assumes "rc_lpush (re_client R) k b w = (r, w')" "plain d"
  shows "held (view w) d \<subseteq># held (view w') d" and "r = Inr u \<Longrightarrow> k = d \<Longrightarrow> held (view w') d = add_mset b (held (view w) d)"
proof -
  have other: "lst (view w') k' = lst (view w) k'" if "k' \<noteq> k" for k'
    using lpush_spec(1) [OF assms(1)] that by (intro lst_cong) blast
  have "processing_key d \<noteq> d" using keys_apart(3) [OF assms(2), of d] by metis
  moreover have "lst (view w') k = b # lst (view w) k \<or> lst (view w') k = lst (view w) k"
    using lpush_spec(2) [OF assms(1)] by auto
  ultimately show "held (view w) d \<subseteq># held (view w') d"
    using other [of d] other [of "processing_key d"] unfolding held_def by (cases "k = d"; cases "k = processing_key d") auto
  show "held (view w') d = add_mset b (held (view w) d)" if "r = Inr u" "k = d"
    using lpush_spec(2) [OF assms(1)] that other [of "processing_key d"] \<open>processing_key d \<noteq> d\<close> by (simp add: held_def)
qed

lemma ack_held:
  assumes "redis_ack R rec w = (r, w')" "plain d"
  shows "held (view w') d = held (view w) d \<or> (\<exists>i p. parse_receipt rec = Some (d, i)
    \<and> HGET (claims_key d) (payload_field i) (view w) = Some (Some p, view w) \<and> held (view w) d = add_mset p (held (view w') d))"
proof (rule ack_cases [OF assms(1)])
  fix c i p w1
  assume "parse_receipt rec = Some (c, i)" "HGET (claims_key c) (payload_field i) (view w) = Some (Some p, view w)"
    and w1: "view w1 = view w" and st: "settle_claim R c i p w1 = (r, w')"
  then show ?thesis using settle_held [OF st assms(2)] unfolding w1 by blast
qed simp

lemma nack_held:
  assumes "redis_nack R rec True w = (r, w')" "plain d"
  shows "held (view w) d \<subseteq># held (view w') d"
proof -
  obtain x w1 where x: "lookup_claim R rec w = (x, w1)" by (metis surj_pair)
  note same = lookup_spec(1) [OF x]
  show ?thesis
  proof (cases "\<exists>c i p. x = Inr (Some (c, i, p))")
    case True
    then obtain c i p where c: "x = Inr (Some (c, i, p))" by blast
    obtain y w2 where y: "rc_lpush (re_client R) c p w1 = (y, w2)" by (metis surj_pair)
    note push = lpush_held [OF y assms(2), unfolded same]
    show ?thesis
    proof (cases y)
      case (Inl e)
      then have "w' = w2"
        using assms(1) x c y by (simp add: redis_nack_def perform_if_def indeterminate_def wrap_errors_def try_catch_def seq_def)
      then show ?thesis using push(1) by simp
    next
      case (Inr u)
      then have "settle_claim R c i p w2 = (r, w')"
        using assms(1) x c y by (simp add: redis_nack_def perform_if_def indeterminate_def wrap_errors_def try_catch_def)
      from settle_held [OF this assms(2)] push Inr show ?thesis by (cases "c = d") auto
    qed
  next
    case False
    then have "w' = w1" using assms x by (cases x) (auto simp: redis_nack_def split: option.splits)
    then show ?thesis using same by simp
  qed
qed

lemma nack_discard: "redis_nack R rec False = redis_ack R rec"
  by (simp add: redis_nack_def redis_ack_def perform_if_def cong: option.case_cong)

text \<open>A recorded claim, and its settlement, field by field.\<close>

lemma claim_effect:
  assumes "apply_commands (claim_commands c i t p) db = Some db'"
  shows "hash_fields db' (claims_key c) = (hash_fields db (claims_key c))(payload_field i \<mapsto> p, claimed_at_field i \<mapsto> isoformat (at_utc t))"
    and "scores db' (claims_index_key c) = (scores db (claims_index_key c))(i \<mapsto> t)"
proof -
  obtain db1 db2 where
    1: "apply_command (C_HSET (claims_key c) [(payload_field i, p), (claimed_at_field i, isoformat (at_utc t))]) db = Some db1"
    and 2: "apply_command (C_ZADD (claims_index_key c) i t) db1 = Some db2"
    and 3: "apply_command (C_HDEL (candidates_key c) [payload_digest p]) db2 = Some db'"
    using assms by (auto simp: claim_commands_def bind_eq_Some_conv simp del: apply_command.simps)
  note other = apply_command_other [OF 1] apply_command_other [OF 2] apply_command_other [OF 3]
  have "db' (claims_key c) = db1 (claims_key c)" "db' (claims_index_key c) = db2 (claims_index_key c)"
    "db1 (claims_index_key c) = db (claims_index_key c)"
    using other by simp_all
  then show "hash_fields db' (claims_key c) = (hash_fields db (claims_key c))(payload_field i \<mapsto> p, claimed_at_field i \<mapsto> isoformat (at_utc t))"
    "scores db' (claims_index_key c) = (scores db (claims_index_key c))(i \<mapsto> t)"
    using command_effect(1) [OF 1] command_effect(2) [OF 2] hash_fields_cong scores_cong by metis+
qed

lemma settle_effect:
  assumes "apply_commands (settle_commands c i p) db = Some db'"
  shows "lst db' (processing_key c) = remove1 p (lst db (processing_key c))"
    and "hash_fields db' (claims_key c) = (hash_fields db (claims_key c))(payload_field i := None, claimed_at_field i := None)"
    and "scores db' (claims_index_key c) = (scores db (claims_index_key c))(i := None)"
proof -
  obtain db1 db2 where
    1: "apply_command (C_LREM (processing_key c) p) db = Some db1"
    and 2: "apply_command (C_HDEL (claims_key c) [payload_field i, claimed_at_field i]) db1 = Some db2"
    and 3: "apply_command (C_ZREM (claims_index_key c) i) db2 = Some db'"
    using assms by (auto simp: settle_commands_def bind_eq_Some_conv simp del: apply_command.simps)
  note other = apply_command_other [OF 1] apply_command_other [OF 2] apply_command_other [OF 3]
  have same: "db' (processing_key c) = db1 (processing_key c)" "db' (claims_key c) = db2 (claims_key c)"
    "db1 (claims_key c) = db (claims_key c)" "db2 (claims_index_key c) = db (claims_index_key c)"
    using other by simp_all
  show "lst db' (processing_key c) = remove1 p (lst db (processing_key c))"
    using command_effect(4) [OF 1] same(1) lst_cong by metis
  show "hash_fields db' (claims_key c) = (hash_fields db (claims_key c))(payload_field i := None, claimed_at_field i := None)"
    using command_effect(3) [OF 2] hash_fields_cong [of db' "claims_key c" db2, OF same(2)]
      hash_fields_cong [of db1 "claims_key c" db, OF same(3)] by (auto simp: fun_eq_iff)
  show "scores db' (claims_index_key c) = (scores db (claims_index_key c))(i := None)"
    using command_effect(5) [OF 3] scores_cong [of db2 "claims_index_key c" db, OF same(4)] by simp
qed

text \<open>The receipt of a claim names its channel and id.\<close>

lemma parse_receipt_for: "parse_receipt (receipt_for c i) = Some (c, i)"
proof -
  let ?v = "PDict [(''channel'', PStr c), (''claim_id'', PStr i)]"
  have ok: "json_ok ?v" by (simp add: dict_wf_def)
  then have "json_text ?v = Inr (text_of ?v)" using json_text_parses by blast
  then show ?thesis
    using json_parse_text [OF ok] by (simp add: parse_receipt_def receipt_for_def)
qed

lemma claim_step_some:
  assumes "claim_step c mv w = (Inr (Some m), w1)"
  obtains b wm where "mv w = (Inr (Some b), wm)" "record_claim R c b wm = (Inr m, w1)"
  using assms
  by (auto simp: claim_step_def indeterminate_def wrap_errors_def try_catch_def seq_def split: prod.splits sum.splits option.splits)

lemma recorded_claim:
  assumes "redis_consume R c t w = (Inr (Some m), w1)" "plain c"
  obtains i x now where "raw_receipt m = Some (receipt_for c i)" "moved c (view w) (view w1)" "raw_bytes m = last (lst (view w) c)"
    "hash_fields (view w1) (claims_key c) = (hash_fields (view w) (claims_key c))(payload_field i \<mapsto> raw_bytes m, claimed_at_field i \<mapsto> x)"
    "scores (view w1) (claims_index_key c) = (scores (view w) (claims_index_key c))(i \<mapsto> now)"
proof -
  obtain b wm where b: "rc_blmove (re_client R) c (processing_key c) t w = (Inr (Some b), wm)" "record_claim R c b wm = (Inr m, w1)"
    using claim_step_some assms(1) [unfolded consume_eq] .
  note mv = conformsD(1) [OF blmove b(1)]
  note m = moved_record [OF mv b(2) assms(2)]
  obtain i now where i: "raw_bytes m = b" "raw_receipt m = Some (receipt_for c i)"
    "apply_commands (claim_commands c i now b) (view wm) = Some (view w1)"
    using record_claim_spec(3) [OF b(2) refl] by blast
  have apart: "c \<noteq> processing_key c" using keys_apart(3) [OF assms(2)] .
  have "view wm k = view w k" if "k \<noteq> c" "k \<noteq> processing_key c" for k
    using LMOVE_spec [OF mv apart] that by auto
  then have "view wm (claims_key c) = view w (claims_key c)" "view wm (claims_index_key c) = view w (claims_index_key c)"
    using keys_apart(4) [OF assms(2), of c] by (auto simp: record_keys_def)
  then show thesis
    using that [OF i(2) m(1)] claim_effect [OF i(3)] i(1) m(2) hash_fields_cong [of "view wm" "claims_key c" "view w"]
      scores_cong [of "view wm" "claims_index_key c" "view w"] by metis
qed

text \<open>Claiming a message and acknowledging the claim removes that message and leaves no trace.\<close>

lemma consume_ack:
  assumes "redis_consume R c t w = (Inr (Some m), w1)" "plain c" "redis_ack R (the (raw_receipt m)) w1 = (Inr u, w2)"
    and fresh: "\<And>i. raw_receipt m = Some (receipt_for c i) \<Longrightarrow> hash_fields (view w) (claims_key c) (payload_field i) = None
      \<and> hash_fields (view w) (claims_key c) (claimed_at_field i) = None \<and> scores (view w) (claims_index_key c) i = None"
  shows "lst (view w) c = lst (view w2) c @ [raw_bytes m] \<and> lst (view w2) (processing_key c) = lst (view w) (processing_key c)
    \<and> hash_fields (view w2) (claims_key c) = hash_fields (view w) (claims_key c)
    \<and> scores (view w2) (claims_index_key c) = scores (view w) (claims_index_key c)"
proof (rule recorded_claim [OF assms(1,2)])
  fix i x now
  assume i: "raw_receipt m = Some (receipt_for c i)" "moved c (view w) (view w1)" "raw_bytes m = last (lst (view w) c)"
    and f: "hash_fields (view w1) (claims_key c) = (hash_fields (view w) (claims_key c))(payload_field i \<mapsto> raw_bytes m, claimed_at_field i \<mapsto> x)"
    and s: "scores (view w1) (claims_index_key c) = (scores (view w) (claims_index_key c))(i \<mapsto> now)"
  note fr = fresh [OF i(1)]
  have found: "lookup_claim R (receipt_for c i) w1 = (q, w') \<Longrightarrow> q = Inr y \<Longrightarrow> y = Some (c, i, raw_bytes m)" for q w' y
  proof -
    assume q: "lookup_claim R (receipt_for c i) w1 = (q, w')" "q = Inr y"
    obtain h w3 where h: "rc_hget (re_client R) (claims_key c) (payload_field i) w1 = (h, w3)" by (metis surj_pair)
    then obtain v where v: "h = Inr v" "y = map_option (\<lambda>b. (c, i, b)) v"
      using q by (cases h) (auto simp: lookup_claim_def parse_receipt_for seq_def)
    from conformsD(1) [OF hget h [unfolded v(1)]] have "v = hash_fields (view w1) (claims_key c) (payload_field i)"
      by (auto simp: HGET_def hash_fields_def)
    then show "y = Some (c, i, raw_bytes m)" using v(2) f by simp
  qed
  obtain q w3 where q: "lookup_claim R (receipt_for c i) w1 = (q, w3)" by (metis surj_pair)
  have w3: "view w3 = view w1" using lookup_spec(1) [OF q] .
  have "settle_claim R c i (raw_bytes m) w3 = (Inr u, w2)"
    using assms(3) i(1) q found [OF q] by (cases q) (auto simp: redis_ack_def)
  note settle = settle_claim_spec(3) [OF this refl, unfolded w3] settle_other [OF this assms(2), unfolded w3]
  note e = settle_effect [OF settle(1)]
  have "lst (view w2) c = lst (view w1) c" by (rule lst_cong) (rule settle(2))
  moreover have "lst (view w) c = lst (view w1) c @ [raw_bytes m]" "lst (view w1) (processing_key c) = raw_bytes m # lst (view w) (processing_key c)"
    using i(2,3) by (simp_all add: moved_def)
  moreover have "hash_fields (view w2) (claims_key c) = hash_fields (view w) (claims_key c)"
    unfolding e(2) f using fr by (auto simp: fun_eq_iff)
  moreover have "scores (view w2) (claims_index_key c) = scores (view w) (claims_index_key c)"
    unfolding e(3) s using fr by (auto simp: fun_eq_iff)
  ultimately show ?thesis using e(1) by simp
qed

end

section \<open>No message is lost\<close>

text \<open>One call of the transport, whatever it returns.\<close>

datatype transport_call =
    Publish string bytes | Consume string int | ConsumeMany string int | Ack string | Nack string bool

fun call_transport :: "'w transport \<Rightarrow> transport_call \<Rightarrow> ('w, unit) prog" where
  "call_transport T (Publish c b) = tp_publish T c b"
| "call_transport T (Consume c t) = seq (tp_consume T c t) (\<lambda>_. ret ())"
| "call_transport T (ConsumeMany c n) = (case tp_consume_many T of
     None \<Rightarrow> ret () | Some many \<Rightarrow> seq (many c n) (\<lambda>_. ret ()))"
| "call_transport T (Ack r) = tp_ack T r"
| "call_transport T (Nack r q) = tp_nack T r q"

fun claimed_from :: "transport_call \<Rightarrow> string option" where
  "claimed_from (Consume c t) = Some c"
| "claimed_from (ConsumeMany c n) = Some c"
| "claimed_from x = None"

definition settles :: "transport_call \<Rightarrow> string \<Rightarrow> bool" where
  "settles x r \<longleftrightarrow> x = Ack r \<or> x = Nack r False"

lemma seq_ret_state: "seq m (\<lambda>_. ret ()) w = (r, w') \<Longrightarrow> \<exists>x. m w = (x, w')"
  by (auto simp: seq_def split: prod.splits sum.splits)

text \<open>
  C5. The Redis transport loses no message. Whatever a call does and wherever it fails, with
  its commands done in part or not, every message that waits in a channel or is claimed from it
  afterwards still does so, except the one message recorded for the claim that the call was told
  to acknowledge (or to reject without requeueing).
\<close>

theorem redis_loses_only_acked:
  assumes "redis_server R view" "plain d" "case_option True plain (claimed_from x)"
    and "call_transport (RedisTransport R) x w = (r, w')"
  shows "held (view w) d \<subseteq># held (view w') d \<or>
    (\<exists>rec i p. settles x rec \<and> parse_receipt rec = Some (d, i)
       \<and> HGET (claims_key d) (payload_field i) (view w) = Some (Some p, view w)
       \<and> held (view w) d = add_mset p (held (view w') d))"
proof -
  note S = redis_server.consume_held [OF assms(1)] redis_server.consume_up_to_held [OF assms(1)]
    redis_server.ack_held [OF assms(1)] redis_server.nack_held [OF assms(1)] redis_server.lpush_held(1) [OF assms(1)]
  show ?thesis
  proof (cases x)
    case (Publish c b)
    then show ?thesis using S(5) assms(2,4) by (simp add: RedisTransport_def redis_publish_def)
  next
    case (Consume c t)
    then obtain y where "redis_consume R c t w = (y, w')" using seq_ret_state assms(4) by (fastforce simp: RedisTransport_def)
    then show ?thesis using S(1) assms(2,3) Consume by fastforce
  next
    case (ConsumeMany c n)
    then obtain y where "consume_up_to R c (nat n) w = (y, w')"
      using seq_ret_state assms(4) by (fastforce simp: RedisTransport_def redis_consume_many_def)
    then show ?thesis using S(2) assms(2,3) ConsumeMany by fastforce
  next
    case (Ack rec)
    then show ?thesis using S(3) [of rec w r w' d] assms(2,4) by (auto simp: RedisTransport_def settles_def)
  next
    case (Nack rec q)
    then show ?thesis
      using S(3) [of rec w r w' d] S(4) [of rec w r w' d] assms(1,2,4)
      by (cases q) (auto simp: RedisTransport_def settles_def redis_server.nack_discard)
  qed
qed

text \<open>
  C29. Claiming a message and acknowledging its receipt removes the oldest message of the
  channel and nothing else, and leaves no trace of the claim: the processing list, the claims
  hash and the index are as before, whatever copies of the payload are queued or claimed. The
  id drawn for the claim is not in use.
\<close>

theorem redis_claim_ack:
  assumes "redis_server R view" "plain c" "redis_consume R c t w = (Inr (Some m), w1)"
    and "redis_ack R (the (raw_receipt m)) w1 = (Inr u, w2)"
    and "\<And>i. raw_receipt m = Some (receipt_for c i) \<Longrightarrow> hash_fields (view w) (claims_key c) (payload_field i) = None
      \<and> hash_fields (view w) (claims_key c) (claimed_at_field i) = None \<and> scores (view w) (claims_index_key c) i = None"
  shows "lst (view w) c = lst (view w2) c @ [raw_bytes m] \<and> lst (view w2) (processing_key c) = lst (view w) (processing_key c)
    \<and> hash_fields (view w2) (claims_key c) = hash_fields (view w) (claims_key c)
    \<and> scores (view w2) (claims_index_key c) = scores (view w) (claims_index_key c)"
  by (rule redis_server.consume_ack [OF assms(1,3,2,4,5)])

section \<open>A server in memory\<close>

text \<open>The database itself as the server, with a counter for ids and times.\<close>

definition served :: "'a effect \<Rightarrow> (rdb \<times> nat, 'a) prog" where
  "served f = (\<lambda>(db, n). case f db of
     None \<Rightarrow> (Inl (AppError ''WRONGTYPE''), (db, n))
   | Some (a, db') \<Rightarrow> (Inr a, (db', n)))"

text \<open>In a transaction a failing command does not stop the others.\<close>

fun exec_all :: "command list \<Rightarrow> rdb \<Rightarrow> bool \<times> rdb" where
  "exec_all [] db = (True, db)"
| "exec_all (c # cs) db = (case apply_command c db of
     None \<Rightarrow> (False, snd (exec_all cs db)) | Some db' \<Rightarrow> exec_all cs db')"

definition served_all :: "command list \<Rightarrow> (rdb \<times> nat, unit) prog" where
  "served_all cs = (\<lambda>(db, n). case exec_all cs db of
     (ok, db') \<Rightarrow> (if ok then Inr () else Inl (AppError ''WRONGTYPE''), (db', n)))"

definition memory_redis :: "(rdb \<times> nat) redis_env" where
  "memory_redis = \<lparr>re_client = \<lparr>
       rc_lpush = (\<lambda>k v. served (LPUSH k v)), rc_blmove = (\<lambda>src dst t. served (LMOVE src dst)),
       rc_lmove = (\<lambda>src dst. served (LMOVE src dst)), rc_llen = (\<lambda>k. served (LLEN k)),
       rc_lrange = (\<lambda>k stop. served (LRANGE k stop)), rc_hget = (\<lambda>k f. served (HGET k f)),
       rc_hgetall = (\<lambda>k. served (HGETALL k)), rc_hsetnx = (\<lambda>k f v. served (HSETNX k f v)),
       rc_hdel = (\<lambda>k fs. served (HDEL k fs)), rc_zrem = (\<lambda>k i. served (ZREM k i)),
       rc_zrangebyscore = (\<lambda>k b n. served (ZRANGEBYSCORE k b n)), rc_execute = served_all,
       rc_get = (\<lambda>k. served (GET k)), rc_set = (\<lambda>k v. served (SET k v))\<rparr>,
     re_now = (\<lambda>(db, n). (int n * us_second, (db, n + 1))), re_uuid = (\<lambda>(db, n). (hex_pad 32 n, (db, n + 1)))\<rparr>"

lemma served_conforms: "conforms fst (served f) f"
  by (auto simp: conforms_def served_def split: option.splits)

lemma exec_all_some:
  "exec_all cs db = (True, db') \<Longrightarrow> apply_commands cs db = Some db'"
  "\<exists>ds \<in> set (subseqs cs). apply_commands ds db = Some (snd (exec_all cs db))"
proof (induction cs arbitrary: db)
  case (Cons c cs)
  {
    case 1
    then show ?case using Cons.IH(1) by (auto split: option.splits)
  next
    case 2
    show ?case
    proof (cases "apply_command c db")
      case None
      then show ?thesis using Cons.IH(2) [of db] by (auto simp: Let_def)
    next
      case (Some db1)
      obtain ds where "ds \<in> set (subseqs cs)" "apply_commands ds db1 = Some (snd (exec_all cs db1))"
        using Cons.IH(2) by blast
      then show ?thesis using Some by (intro bexI [of _ "c # ds"]) (auto simp: Let_def)
    qed
  }
qed simp_all

lemma served_all_conforms: "conforms_all fst (served_all cs) cs"
  using exec_all_some [of cs] by (auto simp: conforms_all_def served_all_def split: prod.splits) (metis snd_conv)+

interpretation memory_redis: redis_server memory_redis fst
  by unfold_locales (simp_all add: memory_redis_def served_conforms served_all_conforms split: prod.splits)

lemmas redis_eval = memory_redis_def served_def served_all_def LPUSH_def LMOVE_def LLEN_def LRANGE_def HGET_def HGETALL_def
  HSETNX_def HDEL_def ZREM_def list_at_def hash_at_def zset_at_def put_defs

definition busy_redis :: "rdb \<times> nat" where
  "busy_redis = ([''jobs'' \<mapsto> RList [''b'', ''a'']], 0)"

theorem redis_loses_only_acked_witness:
  "\<exists>w'. call_transport (RedisTransport memory_redis) (Consume ''jobs'' 5) busy_redis = (Inr (), w')
     \<and> {#''a'', ''b''#} \<subseteq># held (fst w') ''jobs''"
proof -
  obtain r w' where run: "call_transport (RedisTransport memory_redis) (Consume ''jobs'' 5) busy_redis = (r, w')"
    by (metis surj_pair)
  have "r = Inr ()" using run
    by (simp add: RedisTransport_def redis_consume_def record_claim_def indeterminate_def wrap_errors_def try_catch_def
        seq_def take_reading_def redis_eval busy_redis_def claim_commands_def key_defs)
  moreover have plain: "plain ''jobs''" by (simp add: plain_def suffix_to_prefix)
  moreover have "held (fst busy_redis) ''jobs'' = {#''a'', ''b''#}"
    by (simp add: held_def busy_redis_def lst_def list_at_def processing_key_def add_mset_commute)
  ultimately show ?thesis
    using redis_loses_only_acked [OF memory_redis.redis_server_axioms plain _ run] run by (auto simp: settles_def)
qed

lemma busy_consume:
  "\<exists>m w1 w2. redis_consume memory_redis ''jobs'' 5 busy_redis = (Inr (Some m), w1)
     \<and> redis_ack memory_redis (the (raw_receipt m)) w1 = (Inr (), w2)"
  by (simp add: redis_consume_def record_claim_def indeterminate_def wrap_errors_def try_catch_def seq_def take_reading_def
      redis_eval busy_redis_def claim_commands_def key_defs redis_ack_def lookup_claim_def memory_redis.parse_receipt_for
      settle_claim_def settle_commands_def dict_merge_def payload_field_def claimed_at_field_def del: hex_pad.simps)

theorem redis_claim_ack_witness:
  "\<exists>m w1 w2. redis_consume memory_redis ''jobs'' 5 busy_redis = (Inr (Some m), w1)
     \<and> redis_ack memory_redis (the (raw_receipt m)) w1 = (Inr (), w2) \<and> raw_bytes m = ''a'' \<and> lst (fst w2) ''jobs'' = [''b'']"
proof -
  obtain m w1 w2 where m: "redis_consume memory_redis ''jobs'' 5 busy_redis = (Inr (Some m), w1)"
    and a: "redis_ack memory_redis (the (raw_receipt m)) w1 = (Inr (), w2)"
    using busy_consume by blast
  have plain: "plain ''jobs''" by (simp add: plain_def suffix_to_prefix)
  have "hash_fields (fst busy_redis) k = Map.empty" "scores (fst busy_redis) k = Map.empty" if "k \<noteq> ''jobs''" for k
    using that by (simp_all add: hash_fields_def scores_def hash_at_def zset_at_def busy_redis_def)
  then have empty: "hash_fields (fst busy_redis) (claims_key ''jobs'') = Map.empty" "scores (fst busy_redis) (claims_index_key ''jobs'') = Map.empty"
    by (simp_all add: key_defs)
  have "lst (fst busy_redis) ''jobs'' = [''b'', ''a'']" by (simp add: busy_redis_def lst_def list_at_def)
  with redis_claim_ack [OF memory_redis.redis_server_axioms plain m a] empty m a
  show ?thesis by (intro exI [of _ m] exI [of _ w1] exI [of _ w2]) auto
qed

end
