(* ===== verification/RedisReaper.thy ===== *)
theory RedisReaper
  imports RedisClaims WorkerClaims Recurrence
begin

text \<open>
  integrations/redis.py: the reaper, which reindexes orphaned processing entries and redelivers
  or dead-letters claims whose worker has gone, and its worker; and decoding of legacy payloads.
\<close>

section \<open>Policy\<close>

text \<open>A \<open>timedelta\<close> in microseconds, or a value of another type.\<close>

datatype duration_arg = Duration int | NoDuration

record reaper_policy =
  rpo_visibility_timeout :: int
  rpo_max_reclaim_attempts :: int
  rpo_orphan_confirmation_delay :: int

fun positive_duration :: "duration_arg \<Rightarrow> int res" where
  "positive_duration (Duration d) = (if d \<le> 0 then Inl ValueError else Inr d)"
| "positive_duration NoDuration = Inl ValueError"

definition new_reaper_policy :: "duration_arg \<Rightarrow> number_arg \<Rightarrow> duration_arg \<Rightarrow> reaper_policy res" where
  "new_reaper_policy visibility attempts delay =
     bind_res (positive_duration visibility) (\<lambda>v.
     case attempts of
       N_Int n \<Rightarrow> if n < 0 then Inl ValueError
         else bind_res (positive_duration delay) (\<lambda>d.
           Inr \<lparr>rpo_visibility_timeout = v, rpo_max_reclaim_attempts = n, rpo_orphan_confirmation_delay = d\<rparr>)
     | _ \<Rightarrow> Inl ValueError)"

definition default_reaper_policy :: reaper_policy where
  "default_reaper_policy = \<lparr>rpo_visibility_timeout = 300 * us_second, rpo_max_reclaim_attempts = 5,
     rpo_orphan_confirmation_delay = 30 * us_second\<rparr>"

section \<open>The runner\<close>

record 'w reaper =
  ra_env :: "'w redis_env"
  ra_channels :: "string list"
  ra_dead_letter :: string
  ra_policy :: reaper_policy
  ra_now :: "'w \<Rightarrow> instant \<times> 'w"
  ra_utc_now :: "'w \<Rightarrow> instant \<times> 'w"
  ra_uuid :: "'w \<Rightarrow> string \<times> 'w"
  ra_batch_limit :: int

definition new_reaper :: "'w reaper \<Rightarrow> 'w reaper res" where
  "new_reaper A =
     (if ra_channels A = [] then Inl ValueError
      else if ra_dead_letter A \<in> set (ra_channels A) then Inl ValueError
      else Inr A)"

text \<open>Where a readable stale message goes, and what it says then.\<close>

definition reclaimed :: "reaper_policy \<Rightarrow> string \<Rightarrow> string \<Rightarrow> instant \<Rightarrow> message_envelope \<Rightarrow> string \<times> message_envelope" where
  "reclaimed p dead channel now e =
     (let retries = resolve_retry_count PNone (env_headers e) in
      if rpo_max_reclaim_attempts p \<le> int retries
      then (dead, e\<lparr>headers := PDict (AList.update ''dead_lettered_from'' (PStr channel) (env_headers e))\<rparr>)
      else (channel, e\<lparr>headers := PDict (AList.update ''last_attempt'' (PStr (isoformat (at_utc now)))
        (AList.update ''retries'' (PInt (int retries + 1)) (env_headers e)))\<rparr>))"

definition settle_stale :: "('w, 'a) prog \<Rightarrow> ('w, 'a) prog" where
  "settle_stale m = wrap_errors (\<lambda>x. x = IndeterminateDeliveryError) IndeterminateDeliveryError m"

text \<open>\<open>publish(target, dump(MessageEnvelope.create(...)))\<close>.\<close>

definition republish :: "'w reaper \<Rightarrow> string \<Rightarrow> message_envelope \<Rightarrow> ('w, unit) prog" where
  "republish A target e =
     seq (take_reading (ra_uuid A)) (\<lambda>i.
     seq (take_reading (ra_utc_now A)) (\<lambda>t.
     seq (lift_res (to_wire (create i t e))) (\<lambda>b.
     redis_publish (ra_env A) target b)))"

definition reaper_ack :: "'w reaper \<Rightarrow> raw_message \<Rightarrow> ('w, unit) prog" where
  "reaper_ack A m = settle_stale (redis_ack (ra_env A) (case raw_receipt m of Some r \<Rightarrow> r | None \<Rightarrow> []))"

definition reaper_dead_letter_undecodable :: "'w reaper \<Rightarrow> string \<Rightarrow> raw_message \<Rightarrow> ('w, unit) prog" where
  "reaper_dead_letter_undecodable A channel m =
     seq (settle_stale (republish A (ra_dead_letter A) (poison_envelope channel (raw_bytes m) ''ReaperDecodeError''))) (\<lambda>_.
     reaper_ack A m)"

definition reclaim :: "'w reaper \<Rightarrow> string \<Rightarrow> raw_message \<Rightarrow> ('w, unit) prog" where
  "reclaim A channel m =
     seq (take_reading (ra_utc_now A)) (\<lambda>read_at.
     case from_wire read_at (raw_bytes m) of
       Inl _ \<Rightarrow> reaper_dead_letter_undecodable A channel m
     | Inr e \<Rightarrow>
         seq (take_reading (ra_now A)) (\<lambda>now.
         case reclaimed (ra_policy A) (ra_dead_letter A) channel now e of (target, e') \<Rightarrow>
           seq (settle_stale (republish A target e')) (\<lambda>_. reaper_ack A m)))"

definition sweep_channel :: "'w reaper \<Rightarrow> instant \<Rightarrow> instant \<Rightarrow> string \<Rightarrow> ('w, nat) prog" where
  "sweep_channel A now cutoff channel =
     seq (reconcile_orphaned_processing_entries (ra_env A) channel now (ra_batch_limit A)
        (rpo_orphan_confirmation_delay (ra_policy A))) (\<lambda>n.
     seq (stale_claims (ra_env A) channel cutoff (ra_batch_limit A)) (\<lambda>stale.
     seq (for_each (reclaim A channel) stale) (\<lambda>_. ret (n + length stale))))"

fun sweep_channels :: "'w reaper \<Rightarrow> instant \<Rightarrow> instant \<Rightarrow> string list \<Rightarrow> ('w, nat) prog" where
  "sweep_channels A now cutoff [] = ret 0"
| "sweep_channels A now cutoff (c # cs) =
     seq (sweep_channel A now cutoff c) (\<lambda>n. seq (sweep_channels A now cutoff cs) (\<lambda>k. ret (n + k)))"

definition reaper_run_once :: "'w reaper \<Rightarrow> ('w, nat) prog" where
  "reaper_run_once A =
     seq (take_reading (ra_now A)) (\<lambda>now.
     seq (lift_res (ranged (now - rpo_visibility_timeout (ra_policy A)))) (\<lambda>cutoff.
     sweep_channels A now cutoff (ra_channels A)))"

section \<open>The worker of the reaper\<close>

definition REAPER_DEAD_LETTER :: string where "REAPER_DEAD_LETTER = ''__pybus_redis_reaper_terminal__''"

text \<open>\<open>RedisReaperPoller.listen_once\<close>, which waits on the stop event when nothing was reclaimed.\<close>

definition reaper_poll ::
    "'w reaper \<Rightarrow> rat \<Rightarrow> (rat \<Rightarrow> 'w outside \<Rightarrow> 'w outside) \<Rightarrow> string list \<Rightarrow> ('w outside, listen_result) prog" where
  "reaper_poll A idle_delay wait_fn channels = (\<lambda>(ev, w). case reaper_run_once A w of
     (Inl e, w') \<Rightarrow> (Inl e, (ev, w'))
   | (Inr n, w') \<Rightarrow> if n = 0 then (Inr L_None, wait_fn idle_delay (ev, w'))
       else (Inr (L_One (H_Value (PInt (int n)))), (ev, w')))"

definition create_redis_reaper_worker ::
    "'w reaper \<Rightarrow> number_arg \<Rightarrow> 'w hook list \<Rightarrow> number_arg \<Rightarrow> (rat \<Rightarrow> 'w outside \<Rightarrow> 'w outside) \<Rightarrow> 'w worker res" where
  "create_redis_reaper_worker A idle_delay hooks error_delay wait_fn =
     bind_res (new_reaper A) (\<lambda>runner.
     bind_res (non_negative_number idle_delay) (\<lambda>idle.
     new_worker REAPER_DEAD_LETTER (reaper_poll runner (number_value idle) wait_fn) (One_Channel ''__pybus_redis_reaper__'') hooks
       error_delay wait_fn))"

section \<open>Legacy payloads\<close>

definition decode_json_redis_payload :: "bytes \<Rightarrow> pyval res" where
  "decode_json_redis_payload b = loads b"

text \<open>\<open>pickle.loads\<close> is a parameter.\<close>

definition decode_legacy_redis_payload :: "(bytes \<Rightarrow> pyval res) \<Rightarrow> bytes \<Rightarrow> pyval res" where
  "decode_legacy_redis_payload unpickle b = (case decode_json_redis_payload b of
     Inr v \<Rightarrow> Inr v
   | Inl e \<Rightarrow> if e \<noteq> DeserializationError then Inl e
       else (case unpickle b of Inr v \<Rightarrow> Inr v | Inl x \<Rightarrow> Inl DeserializationError))"

definition decode_trusted_legacy_redis_payload :: "(bytes \<Rightarrow> pyval res) \<Rightarrow> bytes \<Rightarrow> pyval res" where
  "decode_trusted_legacy_redis_payload = decode_legacy_redis_payload"

section \<open>Messages stay or are succeeded\<close>

text \<open>
  The message that takes the place of a reclaimed one: the same envelope with its retry
  bookkeeping, or the dead letter of a message that cannot be read.
\<close>

definition succeeds :: "'w reaper \<Rightarrow> bytes \<Rightarrow> bytes \<Rightarrow> bool" where
  "succeeds A p p' \<longleftrightarrow> (\<exists>i t read_at channel.
     (\<exists>e now. from_wire read_at p = Inr e \<and> to_wire (create i t (snd (reclaimed (ra_policy A) (ra_dead_letter A) channel now e))) = Inr p')
     \<or> (\<exists>x. from_wire read_at p = Inl x \<and> to_wire (create i t (poison_envelope channel p ''ReaperDecodeError'')) = Inr p'))"

inductive kept :: "(bytes \<Rightarrow> bytes \<Rightarrow> bool) \<Rightarrow> bytes multiset \<Rightarrow> bytes multiset \<Rightarrow> bool" for S where
  same: "kept S M M"
| more: "kept S M N \<Longrightarrow> N \<subseteq># N' \<Longrightarrow> kept S M N'"
| replaced: "kept S M (add_mset p N) \<Longrightarrow> S p p' \<Longrightarrow> kept S M (add_mset p' N)"

lemma kept_trans: "kept S N K \<Longrightarrow> kept S M N \<Longrightarrow> kept S M K"
  by (induction rule: kept.induct) (auto intro: kept.intros)

text \<open>What \<open>kept\<close> says: every message is there or has a successor, and their number does not shrink.\<close>

lemma kept_member: "kept S M N \<Longrightarrow> p \<in># M \<Longrightarrow> \<exists>p' \<in># N. S\<^sup>*\<^sup>* p p'"
proof (induction rule: kept.induct)
  case (replaced M q N q')
  then obtain r where "r \<in># add_mset q N" "S\<^sup>*\<^sup>* p r" by blast
  then show ?case using replaced.hyps(2) by (cases "r = q") (auto intro: rtranclp.rtrancl_into_rtrancl)
qed (auto dest: mset_subset_eqD)

lemma kept_size: "kept S M N \<Longrightarrow> size M \<le> size N"
  by (induction rule: kept.induct) (auto dest: size_mset_mono)

text \<open>Publishing a successor and then removing the message.\<close>

lemma kept_swap:
  assumes "S p p'" "N = add_mset p' M" "N = add_mset p K" shows "kept S M K"
proof (cases "p = p'")
  case True
  then show ?thesis using assms(2,3) kept.same by simp
next
  case False
  have "add_mset p' M = add_mset p K" using assms(2,3) by metis
  then obtain L where "M = add_mset p L" "K = add_mset p' L"
    using False unfolding add_eq_conv_ex by blast
  then show ?thesis using kept.replaced [OF kept.same [of S "add_mset p L"], of p'] assms(1) by simp
qed

definition total :: "string list \<Rightarrow> rdb \<Rightarrow> bytes multiset" where
  "total cs db = (\<Sum>c \<in> set cs. held db c)"

lemma total_split:
  assumes "c \<in> set cs" "\<And>d. d \<in> set cs \<Longrightarrow> d \<noteq> c \<Longrightarrow> held db' d = held db d"
  shows "\<exists>M. total cs db = held db c + M \<and> total cs db' = held db' c + M"
proof -
  have "total cs x = held x c + (\<Sum>d \<in> set cs - {c}. held x d)" for x
    unfolding total_def by (rule sum.remove) (use assms(1) in auto)
  moreover have "(\<Sum>d \<in> set cs - {c}. held db' d) = (\<Sum>d \<in> set cs - {c}. held db d)"
    by (rule sum.cong) (use assms(2) in auto)
  ultimately show ?thesis by metis
qed

lemma total_same: "(\<And>d. d \<in> set cs \<Longrightarrow> held db' d = held db d) \<Longrightarrow> total cs db' = total cs db"
  unfolding total_def by (rule sum.cong) auto

text \<open>The reaper's clocks and ids leave the database alone, and it works on plain channels.\<close>

definition reaper_ok :: "'w reaper \<Rightarrow> ('w \<Rightarrow> rdb) \<Rightarrow> bool" where
  "reaper_ok A view \<longleftrightarrow> (\<forall>w. view (snd (ra_now A w)) = view w \<and> view (snd (ra_utc_now A w)) = view w \<and> view (snd (ra_uuid A w)) = view w)
     \<and> (\<forall>c \<in> set (ra_dead_letter A # ra_channels A). plain c)"

abbreviation reaper_channels :: "'w reaper \<Rightarrow> string list" where
  "reaper_channels A \<equiv> ra_dead_letter A # ra_channels A"

context redis_server
begin

lemma readings:
  assumes "reaper_ok A view"
  shows "\<exists>t w'. take_reading (ra_now A) w = (Inr t, w') \<and> view w' = view w"
    "\<exists>t w'. take_reading (ra_utc_now A) w = (Inr t, w') \<and> view w' = view w"
    "\<exists>i w'. take_reading (ra_uuid A) w = (Inr i, w') \<and> view w' = view w"
  using assms by (auto simp: reaper_ok_def take_reading_def split: prod.splits) (metis snd_conv surj_pair)+

lemma lpush_held_other:
  assumes "rc_lpush (re_client R) k b w = (r, w')" "plain k" "plain d" "d \<noteq> k"
  shows "held (view w') d = held (view w) d"
proof -
  have "lst (view w') d = lst (view w) d" "lst (view w') (processing_key d) = lst (view w) (processing_key d)"
    using lpush_spec(1) [OF assms(1)] assms(4) keys_apart(3) [OF assms(2), of d] by (metis lst_cong)+
  then show ?thesis by (simp add: held_def)
qed

lemma lpush_total:
  assumes "rc_lpush (re_client R) k b w = (r, w')" "k \<in> set cs" "\<And>c. c \<in> set cs \<Longrightarrow> plain c"
  shows "total cs (view w) \<subseteq># total cs (view w')" "r = Inr u \<Longrightarrow> total cs (view w') = add_mset b (total cs (view w))"
proof -
  obtain M where M: "total cs (view w) = held (view w) k + M" "total cs (view w') = held (view w') k + M"
    using total_split [OF assms(2), of "view w'" "view w"] lpush_held_other [OF assms(1) assms(3) [OF assms(2)] assms(3)] by blast
  show "total cs (view w) \<subseteq># total cs (view w')"
    using lpush_held(1) [OF assms(1) assms(3) [OF assms(2)]] unfolding M by simp
  show "r = Inr u \<Longrightarrow> total cs (view w') = add_mset b (total cs (view w))"
    using lpush_held(2) [OF assms(1) assms(3) [OF assms(2)]] unfolding M by simp
qed

lemma republish_spec:
  assumes "republish A k e w = (r, w')" "reaper_ok A view" "ra_env A = R" "k \<in> set (reaper_channels A)"
  shows "total (reaper_channels A) (view w) \<subseteq># total (reaper_channels A) (view w')"
    and "r = Inr u \<Longrightarrow> \<exists>i t b. to_wire (create i t e) = Inr b \<and> total (reaper_channels A) (view w') = add_mset b (total (reaper_channels A) (view w))"
    and "k' \<noteq> k \<Longrightarrow> view w' k' = view w k'"
proof -
  obtain i w1 where i: "take_reading (ra_uuid A) w = (Inr i, w1)" "view w1 = view w" using readings(3) [OF assms(2)] by blast
  obtain t w2 where t: "take_reading (ra_utc_now A) w1 = (Inr t, w2)" "view w2 = view w1" using readings(2) [OF assms(2)] by blast
  have plains: "\<And>c. c \<in> set (reaper_channels A) \<Longrightarrow> plain c" using assms(2) unfolding reaper_ok_def by blast
  show "total (reaper_channels A) (view w) \<subseteq># total (reaper_channels A) (view w')"
    and "r = Inr u \<Longrightarrow> \<exists>i t b. to_wire (create i t e) = Inr b \<and> total (reaper_channels A) (view w') = add_mset b (total (reaper_channels A) (view w))"
    and "k' \<noteq> k \<Longrightarrow> view w' k' = view w k'"
  proof (atomize (full), cases "to_wire (create i t e)", goal_cases)
    case (1 x)
    then have "w' = w2" "r = Inl x" using assms(1) i(1) t(1) by (simp_all add: republish_def)
    then show ?case using i(2) t(2) by simp
  next
    case (2 b)
    then have "rc_lpush (re_client R) k b w2 = (r, w')"
      using assms(1,3) i(1) t(1) by (simp add: republish_def redis_publish_def)
    note push = lpush_total [OF this assms(4) plains] lpush_spec(1) [OF this]
    then show ?case using 2 i(2) t(2) by auto
  qed
qed

lemma settle_stale_cases:
  "settle_stale m w = (r, w') \<Longrightarrow> \<exists>x. m w = (x, w') \<and> (\<forall>u. r = Inr u \<longrightarrow> x = Inr u)"
  by (auto simp: settle_stale_def wrap_errors_def try_catch_def split: prod.splits sum.splits)

text \<open>A field of the claims hash that still says what was read, or is gone.\<close>

abbreviation still :: "string \<Rightarrow> string \<Rightarrow> bytes \<Rightarrow> 'w \<Rightarrow> bool" where
  "still c i p w \<equiv> hash_fields (view w) (claims_key c) (payload_field i) \<in> {None, Some p}"

lemma still_cong: "view w' (claims_key c) = view w (claims_key c) \<Longrightarrow> still c i p w' \<longleftrightarrow> still c i p w"
  by (simp add: hash_fields_cong [of "view w'" "claims_key c" "view w"])

lemma reaper_ack_spec:
  assumes "reaper_ack A m w = (r, w')" "ra_env A = R" "raw_receipt m = Some (receipt_for c i)" "still c i (raw_bytes m) w"
    and cs: "c \<in> set cs" "\<And>d. d \<in> set cs \<Longrightarrow> plain d"
  shows "total cs (view w') = total cs (view w) \<or> total cs (view w) = add_mset (raw_bytes m) (total cs (view w'))"
    and "r = Inr u \<Longrightarrow> still c j q w \<Longrightarrow> still c j q w'"
proof -
  obtain x where x: "redis_ack R (receipt_for c i) w = (x, w')" "\<And>u. r = Inr u \<Longrightarrow> x = Inr u"
    using settle_stale_cases [of "redis_ack R (receipt_for c i)" w r w'] assms(1,2,3) by (auto simp: reaper_ack_def)
  have other: "held (view w') d = held (view w) d" if "d \<in> set cs" "d \<noteq> c" for d
    using ack_held [OF x(1) cs(2) [OF that(1)]] that(2) by (auto simp: parse_receipt_for)
  obtain M where M: "total cs (view w) = held (view w) c + M" "total cs (view w') = held (view w') c + M"
    using total_split [OF cs(1), of "view w'" "view w"] other by blast
  have "held (view w') c = held (view w) c \<or> held (view w) c = add_mset (raw_bytes m) (held (view w') c)"
    using ack_held [OF x(1) cs(2) [OF cs(1)]] assms(4) by (auto simp: parse_receipt_for HGET_def hash_fields_def)
  then show "total cs (view w') = total cs (view w) \<or> total cs (view w) = add_mset (raw_bytes m) (total cs (view w'))"
    unfolding M by auto
  show "still c j q w'" if r: "r = Inr u" and st: "still c j q w"
    using x(1)
  proof (rule ack_cases)
    assume "view w' = view w"
    then show ?thesis using st by simp
  next
    fix c' i' p w1
    assume a: "parse_receipt (receipt_for c i) = Some (c', i')" "view w1 = view w" "settle_claim R c' i' p w1 = (x, w')"
    have "hash_fields (view w') (claims_key c) = (hash_fields (view w) (claims_key c))(payload_field i := None, claimed_at_field i := None)"
      using settle_effect(2) [OF settle_claim_spec(3) [OF a(3) x(2) [OF r]]] a(1,2) by (simp add: parse_receipt_for)
    then show ?thesis using st by simp
  qed
qed

lemma reclaim_spec:
  assumes "reclaim A c m w = (r, w')" "reaper_ok A view" "ra_env A = R" "c \<in> set (ra_channels A)"
    and "raw_receipt m = Some (receipt_for c i)" "still c i (raw_bytes m) w"
  shows "kept (succeeds A) (total (reaper_channels A) (view w)) (total (reaper_channels A) (view w'))"
    and "r = Inr u \<Longrightarrow> still c j q w \<Longrightarrow> still c j q w'"
proof -
  let ?T = "\<lambda>w. total (reaper_channels A) (view w)"
  have plains: "\<And>d. d \<in> set (reaper_channels A) \<Longrightarrow> plain d" using assms(2) unfolding reaper_ok_def by blast
  obtain t w1 where t: "take_reading (ra_utc_now A) w = (Inr t, w1)" "view w1 = view w" using readings(2) [OF assms(2)] by blast
  obtain k e w2 where k: "k \<in> set (reaper_channels A)" "view w2 = view w"
    and run: "seq (settle_stale (republish A k e)) (\<lambda>_. reaper_ack A m) w2 = (r, w')"
    and succ: "\<And>i t b. to_wire (create i t e) = Inr b \<Longrightarrow> succeeds A (raw_bytes m) b"
  proof (cases "from_wire t (raw_bytes m)")
    case (Inl x)
    show thesis
    proof (rule that)
      show "seq (settle_stale (republish A (ra_dead_letter A) (poison_envelope c (raw_bytes m) ''ReaperDecodeError''))) (\<lambda>_. reaper_ack A m) w1 = (r, w')"
        using assms(1) t(1) Inl by (simp add: reclaim_def reaper_dead_letter_undecodable_def)
      show "to_wire (create i t' (poison_envelope c (raw_bytes m) ''ReaperDecodeError'')) = Inr b \<Longrightarrow> succeeds A (raw_bytes m) b" for i t' b
        using Inl unfolding succeeds_def by metis
    qed (use t(2) in simp_all)
  next
    case (Inr e)
    obtain n w2 where n: "take_reading (ra_now A) w1 = (Inr n, w2)" "view w2 = view w1" using readings(1) [OF assms(2)] by blast
    obtain k e' where k: "reclaimed (ra_policy A) (ra_dead_letter A) c n e = (k, e')" by (metis surj_pair)
    show thesis
    proof (rule that)
      show "seq (settle_stale (republish A k e')) (\<lambda>_. reaper_ack A m) w2 = (r, w')"
        using assms(1) t(1) Inr n(1) k by (simp add: reclaim_def)
      show "k \<in> set (reaper_channels A)" using k assms(4) by (auto simp: reclaimed_def Let_def split: if_splits)
      show "to_wire (create i t' e') = Inr b \<Longrightarrow> succeeds A (raw_bytes m) b" for i t' b
        using Inr k unfolding succeeds_def by (metis snd_conv)
    qed (use t(2) n(2) in simp)
  qed
  obtain y w3 where y: "settle_stale (republish A k e) w2 = (y, w3)" by (metis surj_pair)
  obtain x where x: "republish A k e w2 = (x, w3)" "\<And>u. y = Inr u \<Longrightarrow> x = Inr u" using settle_stale_cases [OF y] by blast
  note rep = republish_spec [OF x(1) assms(2,3) k(1), unfolded k(2)]
  have claims: "still c j q w3 \<longleftrightarrow> still c j q w" for j q
    by (rule still_cong) (rule rep(3), use plains [OF k(1)] in \<open>auto simp: plain_def claims_key_def suffix_def\<close>)
  show "kept (succeeds A) (?T w) (?T w')"
  proof (cases y)
    case (Inl z)
    then have "w' = w3" using run y by simp
    then show ?thesis using kept.more [OF kept.same rep(1)] by simp
  next
    case (Inr u)
    then have ack: "reaper_ack A m w3 = (r, w')" using run y by simp
    obtain i' t' b where b: "to_wire (create i' t' e) = Inr b" "?T w3 = add_mset b (?T w)" using rep(2) x(2) [OF Inr] by blast
    have "?T w' = ?T w3 \<or> ?T w3 = add_mset (raw_bytes m) (?T w')"
      by (rule reaper_ack_spec(1) [OF ack assms(3,5) _ _ plains]) (use claims assms(4,6) in auto)
    then show ?thesis
    proof
      assume "?T w' = ?T w3"
      then show ?thesis using b(2) kept.more [OF kept.same, of "?T w" "?T w'"] by simp
    next
      assume a: "?T w3 = add_mset (raw_bytes m) (?T w')"
      show ?thesis
        by (rule kept_swap [where N = "?T w3" and p = "raw_bytes m" and p' = b]) (fact succ [OF b(1)], fact b(2), fact a)
    qed
  qed
  show "still c j q w'" if r: "r = Inr u" and st: "still c j q w"
  proof -
    obtain v where "y = Inr v" "reaper_ack A m w3 = (r, w')" using run y r by (cases y) auto
    then show ?thesis
      using reaper_ack_spec(2) [OF _ assms(3,5), of w3 r w' "reaper_channels A" u j q] claims st assms(4,6) plains r by auto
  qed
qed

lemma reclaim_all_spec:
  assumes "for_each (reclaim A c) ms w = (r, w')" "reaper_ok A view" "ra_env A = R" "c \<in> set (ra_channels A)"
    and "\<And>m. m \<in> set ms \<Longrightarrow> \<exists>i. raw_receipt m = Some (receipt_for c i) \<and> still c i (raw_bytes m) w"
  shows "kept (succeeds A) (total (reaper_channels A) (view w)) (total (reaper_channels A) (view w'))"
  using assms(1,5)
proof (induction ms arbitrary: w r)
  case Nil
  then show ?case by (simp add: kept.same)
next
  case (Cons m ms)
  obtain i where i: "raw_receipt m = Some (receipt_for c i)" "still c i (raw_bytes m) w" using Cons.prems(2) by force
  obtain x w1 where x: "reclaim A c m w = (x, w1)" by (metis surj_pair)
  note spec = reclaim_spec [OF x assms(2-4) i]
  show ?case
  proof (cases x)
    case (Inl e)
    then show ?thesis using Cons.prems(1) x spec(1) by simp
  next
    case (Inr u)
    have "\<exists>j. raw_receipt n = Some (receipt_for c j) \<and> still c j (raw_bytes n) w1" if "n \<in> set ms" for n
      using Cons.prems(2) [of n] that spec(2) [OF Inr] by auto
    moreover have "for_each (reclaim A c) ms w1 = (r, w')" using Cons.prems(1) x Inr by simp
    ultimately show ?thesis using Cons.IH kept_trans spec(1) by blast
  qed
qed

text \<open>Reconciling orphans and reading stale claims do not touch the messages.\<close>

lemma not_record_keys:
  "plain d \<Longrightarrow> d \<notin> record_keys c" "processing_key d \<notin> record_keys c"
  using keys_apart by blast+

lemma untouched_held:
  assumes "\<And>k. k \<notin> record_keys c \<Longrightarrow> view w' k = view w k" "plain d"
  shows "held (view w') d = held (view w) d"
proof -
  have "lst (view w') d = lst (view w) d" "lst (view w') (processing_key d) = lst (view w) (processing_key d)"
    by (rule lst_cong, rule assms(1), rule not_record_keys, rule assms(2))
      (rule lst_cong, rule assms(1), rule not_record_keys)
  then show ?thesis by (simp add: held_def)
qed

definition keeps_lists :: "string \<Rightarrow> ('w, 'a) prog \<Rightarrow> bool" where
  "keeps_lists c m \<longleftrightarrow> (\<forall>k. k \<notin> record_keys c \<longrightarrow> keeps (\<lambda>w. view w k) m)"

lemma keeps_listsD: "keeps_lists c m \<Longrightarrow> m w = (r, w') \<Longrightarrow> k \<notin> record_keys c \<Longrightarrow> view w' k = view w k"
  unfolding keeps_lists_def keeps_def by (metis snd_conv)

lemma keeps_lists_steps [keeping]:
  "keeps_lists c (ret a)" "keeps_lists c (lift_res x)" "keeps_lists c m \<Longrightarrow> keeps_lists c (attempt m)"
  "keeps_lists c m \<Longrightarrow> (\<And>a. keeps_lists c (g a)) \<Longrightarrow> keeps_lists c (seq m g)"
  "keeps_lists c m1 \<Longrightarrow> keeps_lists c m2 \<Longrightarrow> keeps_lists c (if b then m1 else m2)"
  "keeps_lists c m1 \<Longrightarrow> (\<And>a. keeps_lists c (h a)) \<Longrightarrow> keeps_lists c (case y of None \<Rightarrow> m1 | Some a \<Rightarrow> h a)"
  unfolding keeps_lists_def by (auto intro: keeping split: option.splits simp del: prog_simps)

lemma reads_keep: "conforms view m f \<Longrightarrow> (\<And>db a db'. f db = Some (a, db') \<Longrightarrow> db' = db) \<Longrightarrow> keeps_lists c m"
  unfolding keeps_lists_def keeps_def using conforms_reads by (metis surj_pair snd_conv)

lemma writes_keep:
  assumes "conforms view m f" "\<And>db a db' k'. f db = Some (a, db') \<Longrightarrow> k' \<noteq> k \<Longrightarrow> db' k' = db k'" "k \<in> record_keys c"
  shows "keeps_lists c m"
  unfolding keeps_lists_def keeps_def
proof (intro allI impI)
  fix k' w assume k': "k' \<notin> record_keys c"
  obtain r w' where r: "m w = (r, w')" by (metis surj_pair)
  have "view w' = view w \<or> (\<exists>a. f (view w) = Some (a, view w'))"
    using conformsD [OF assms(1)] r by (cases r) blast+
  then show "view (snd (m w)) k' = view w k'" using assms(2,3) k' r by (metis snd_conv)
qed

lemma keeps_lists_commands [keeping]:
  "keeps_lists c (rc_hget (re_client R) k f)" "keeps_lists c (rc_lrange (re_client R) k n)" "keeps_lists c (rc_hgetall (re_client R) k)"
  "keeps_lists c (rc_zrangebyscore (re_client R) k b num)"
  "k \<in> record_keys c \<Longrightarrow> keeps_lists c (rc_zrem (re_client R) k i)"
  "k \<in> record_keys c \<Longrightarrow> keeps_lists c (rc_hsetnx (re_client R) k f v)"
  "k \<in> record_keys c \<Longrightarrow> keeps_lists c (rc_hdel (re_client R) k fs)"
  "keeps_lists c (record_claim R c p)"
proof -
  show "keeps_lists c (record_claim R c p)"
    unfolding keeps_lists_def keeps_def using record_claim_spec(1) by (metis surj_pair snd_conv)
  show "keeps_lists c (rc_hget (re_client R) k f)" by (rule reads_keep [OF hget]) (erule effect_reads)
  show "keeps_lists c (rc_lrange (re_client R) k n)" by (rule reads_keep [OF lrange]) (erule effect_reads)
  show "keeps_lists c (rc_hgetall (re_client R) k)" by (rule reads_keep [OF hgetall]) (erule effect_reads)
  show "keeps_lists c (rc_zrangebyscore (re_client R) k b num)" by (rule reads_keep [OF zrangebyscore]) (erule effect_reads)
  assume k: "k \<in> record_keys c"
  show "keeps_lists c (rc_zrem (re_client R) k i)" by (rule writes_keep [OF zrem _ k]) (erule (1) effect_other)
  show "keeps_lists c (rc_hsetnx (re_client R) k f v)" by (rule writes_keep [OF hsetnx _ k]) (erule (1) effect_other)
  show "keeps_lists c (rc_hdel (re_client R) k fs)" by (rule writes_keep [OF hdel _ k]) (erule (1) effect_other)
qed

lemma record_keys_mem [simp]: "claims_key c \<in> record_keys c" "claims_index_key c \<in> record_keys c" "candidates_key c \<in> record_keys c"
  by (simp_all add: record_keys_def)

lemma keeps_reconcile: "keeps_lists c (reconcile_orphaned_processing_entries R c now limit delay)"
proof -
  have confirm: "keeps_lists c (confirm_orphan R c now delay p)" for p
    unfolding confirm_orphan_def by (intro keeping record_keys_mem)
  have "keeps_lists c (reconcile_entries R c now delay ps)" for ps
  proof (induction ps)
    case (Cons p ps)
    then show ?case unfolding reconcile_entries.simps reindex_orphaned_processing_entry_def
      by (intro keeping confirm)
  qed (simp only: reconcile_entries.simps keeping)
  then show ?thesis
    unfolding reconcile_orphaned_processing_entries_def unclaimed_processing_entries_def by (intro keeping)
qed

lemma keeps_stale: "keeps_lists c (stale_claims R c cutoff limit)"
proof -
  have "keeps_lists c (resolve_stale R c is)" for "is"
  proof (induction "is")
    case (Cons i "is")
    then show ?case unfolding resolve_stale.simps by (intro keeping record_keys_mem)
  qed (simp only: resolve_stale.simps keeping)
  then show ?thesis unfolding stale_claims_def by (intro keeping)
qed

text \<open>A stale claim is what the claims hash says when it is read.\<close>

lemma hget_still: "rc_hget (re_client R) (claims_key c) (payload_field i) w = (Inr v, w') \<Longrightarrow>
    view w' = view w \<and> v = hash_fields (view w) (claims_key c) (payload_field i)"
  using conformsD(1) [OF hget] by (fastforce simp: HGET_def hash_fields_def)

lemma resolve_stale_still:
  "resolve_stale R c is w = (Inr ms, w') \<Longrightarrow> view w' (claims_key c) = view w (claims_key c)
    \<and> (\<forall>m \<in> set ms. \<exists>i. raw_receipt m = Some (receipt_for c i) \<and> still c i (raw_bytes m) w)"
proof (induction "is" arbitrary: w ms)
  case Nil
  then show ?case by simp
next
  case (Cons i "is")
  obtain x w1 where x: "rc_hget (re_client R) (claims_key c) (payload_field i) w = (x, w1)" by (metis surj_pair)
  obtain v where v: "x = Inr v" using Cons.prems x by (cases x) auto
  note got = hget_still [OF x [unfolded v]]
  show ?case
  proof (cases v)
    case None
    obtain y w2 where y: "rc_zrem (re_client R) (claims_index_key c) i w1 = (y, w2)" by (metis surj_pair)
    obtain u where u: "y = Inr u" using Cons.prems x v None y by (cases y) auto
    have same: "view w2 (claims_key c) = view w (claims_key c)"
      using conformsD(1) [OF zrem y [unfolded u]] effect_other(3) got keys_distinct(1) by metis
    have "resolve_stale R c is w2 = (Inr ms, w')" using Cons.prems x v None y u by simp
    from Cons.IH [OF this] same show ?thesis using still_cong [OF same] by auto
  next
    case (Some b)
    obtain ns where "resolve_stale R c is w1 = (Inr ns, w')" "ms = \<lparr>raw_bytes = b, raw_receipt = Some (receipt_for c i)\<rparr> # ns"
      using Cons.prems x v Some by (auto simp: seq_def split: prod.splits sum.splits)
    with Cons.IH [of w1 ns] got Some show ?thesis by auto
  qed
qed

lemma stale_claims_still:
  assumes "stale_claims R c cutoff limit w = (Inr ms, w')" "m \<in> set ms"
  shows "\<exists>i. raw_receipt m = Some (receipt_for c i) \<and> still c i (raw_bytes m) w'"
proof -
  obtain ids w1 where "resolve_stale R c ids w1 = (Inr ms, w')"
    using assms(1) by (auto simp: stale_claims_def seq_def split: prod.splits sum.splits)
  note st = resolve_stale_still [OF this]
  then show ?thesis using assms(2) still_cong [of w' c w1] by blast
qed

lemma sweep_channel_kept:
  assumes "sweep_channel A now cutoff c w = (r, w')" "reaper_ok A view" "ra_env A = R" "c \<in> set (ra_channels A)"
  shows "kept (succeeds A) (total (reaper_channels A) (view w)) (total (reaper_channels A) (view w'))"
proof -
  let ?T = "\<lambda>w. total (reaper_channels A) (view w)"
  have plains: "\<And>d. d \<in> set (reaper_channels A) \<Longrightarrow> plain d" using assms(2) unfolding reaper_ok_def by blast
  have same: "?T w2 = ?T w1" if "keeps_lists c m" "m w1 = (x, w2)" for m w1 x w2
    by (rule total_same, rule untouched_held [of c], rule keeps_listsD [OF that]) (use plains in auto)
  obtain x w1 where x: "reconcile_orphaned_processing_entries R c now (ra_batch_limit A) (rpo_orphan_confirmation_delay (ra_policy A)) w = (x, w1)"
    by (metis surj_pair)
  have T1: "?T w1 = ?T w" by (rule same [OF keeps_reconcile x])
  show ?thesis
  proof (cases x)
    case (Inl e)
    then have "w' = w1" using assms(1,3) x by (simp add: sweep_channel_def)
    then show ?thesis using T1 kept.same by simp
  next
    case (Inr n)
    obtain y w2 where y: "stale_claims R c cutoff (ra_batch_limit A) w1 = (y, w2)" by (metis surj_pair)
    have T2: "?T w2 = ?T w" using same [OF keeps_stale y] T1 by simp
    show ?thesis
    proof (cases y)
      case (Inl e)
      then have "w' = w2" using assms(1,3) x Inr y by (simp add: sweep_channel_def)
      then show ?thesis using T2 kept.same by simp
    next
      case r: (Inr ms)
      obtain z w3 where z: "for_each (reclaim A c) ms w2 = (z, w3)" by (metis surj_pair)
      have "kept (succeeds A) (?T w2) (?T w3)"
        by (rule reclaim_all_spec [OF z assms(2-4)]) (rule stale_claims_still [OF y [unfolded r]])
      moreover have "w' = w3" using assms(1,3) x Inr y r z by (cases z) (simp_all add: sweep_channel_def)
      ultimately show ?thesis using T2 by simp
    qed
  qed
qed

lemma sweep_channels_kept:
  assumes "reaper_ok A view" "ra_env A = R"
  shows "sweep_channels A now cutoff cs w = (r, w') \<Longrightarrow> set cs \<subseteq> set (ra_channels A) \<Longrightarrow>
    kept (succeeds A) (total (reaper_channels A) (view w)) (total (reaper_channels A) (view w'))"
proof (induction cs arbitrary: w r w')
  case (Cons c cs)
  obtain x w1 where x: "sweep_channel A now cutoff c w = (x, w1)" by (metis surj_pair)
  obtain y w2 where y: "sweep_channels A now cutoff cs w1 = (y, w2)" by (metis surj_pair)
  have "w' = w1 \<or> w' = w2" using Cons.prems(1) x y by (cases x; cases y) auto
  then show ?case
    using sweep_channel_kept [OF x assms] Cons.IH [OF y] Cons.prems(2) kept_trans by auto
qed (simp add: kept.same)

lemma run_once_kept:
  assumes "reaper_run_once A w = (r, w')" "reaper_ok A view" "ra_env A = R"
  shows "kept (succeeds A) (total (reaper_channels A) (view w)) (total (reaper_channels A) (view w'))"
proof -
  obtain t w1 where t: "take_reading (ra_now A) w = (Inr t, w1)" "view w1 = view w" using readings(1) [OF assms(2)] by blast
  show ?thesis
  proof (cases "ranged (t - rpo_visibility_timeout (ra_policy A))")
    case (Inl e)
    then have "w' = w1" using assms(1) t(1) by (simp add: reaper_run_once_def)
    then show ?thesis using t(2) kept.same by simp
  next
    case (Inr cutoff)
    then have "sweep_channels A t cutoff (ra_channels A) w1 = (r, w')"
      using assms(1) t(1) by (simp add: reaper_run_once_def)
    from sweep_channels_kept [OF assms(2,3) this subset_refl] t(2) show ?thesis by simp
  qed
qed

end

text \<open>
  C6. A sweep of the reaper loses no message. However it ends and wherever it fails, every
  message that waited on or was claimed from its channels and the dead-letter channel is still
  there, or has been succeeded by its redelivery with counted retries, its dead letter or, when
  it cannot be read, its poison envelope; and there are at least as many messages as before.
\<close>

theorem reaper_loses_nothing:
  assumes "redis_server (ra_env A) view" "reaper_ok A view" "reaper_run_once A w = (r, w')"
  shows "(\<forall>p \<in># total (reaper_channels A) (view w). \<exists>p' \<in># total (reaper_channels A) (view w'). (succeeds A)\<^sup>*\<^sup>* p p')
    \<and> size (total (reaper_channels A) (view w)) \<le> size (total (reaper_channels A) (view w'))"
  using redis_server.run_once_kept [OF assms(1,3,2) refl] kept_member kept_size by blast

definition sample_reaper :: "(rdb \<times> nat) reaper" where
  "sample_reaper = \<lparr>ra_env = memory_redis, ra_channels = [''jobs''], ra_dead_letter = ''dead'', ra_policy = default_reaper_policy,
     ra_now = (\<lambda>w. (63000000000000000, w)), ra_utc_now = (\<lambda>w. (63000000000000000, w)), ra_uuid = (\<lambda>w. (''id'', w)),
     ra_batch_limit = 100\<rparr>"

definition stale_redis :: "rdb \<times> nat" where
  "stale_redis = ([''jobs:processing'' \<mapsto> RList [''x''], ''jobs:claims'' \<mapsto> RHash [(payload_field ''i'', ''x'')],
     ''jobs:claims:index'' \<mapsto> RZset [(''i'', 0)]], 0)"

theorem reaper_loses_nothing_witness:
  "total [''dead'', ''jobs''] (fst stale_redis) = {#''x''#}
    \<and> 1 \<le> size (total [''dead'', ''jobs''] (fst (snd (reaper_run_once sample_reaper stale_redis))))"
proof -
  have ok: "reaper_ok sample_reaper fst" by (simp add: reaper_ok_def sample_reaper_def plain_def suffix_to_prefix)
  have server: "redis_server (ra_env sample_reaper) fst"
    using memory_redis.redis_server_axioms by (simp add: sample_reaper_def)
  obtain r w' where run: "reaper_run_once sample_reaper stale_redis = (r, w')" by (metis surj_pair)
  have T: "total [''dead'', ''jobs''] (fst stale_redis) = {#''x''#}"
    by (simp add: total_def held_def lst_def list_at_def stale_redis_def processing_key_def)
  have "reaper_channels sample_reaper = [''dead'', ''jobs'']" by (simp add: sample_reaper_def)
  with reaper_loses_nothing [OF server ok run] T run show ?thesis by simp
qed

section \<open>Reclaiming ends\<close>

text \<open>The retry bookkeeping of repeated reclaims, each at its own time.\<close>

fun reclaimed_times :: "reaper_policy \<Rightarrow> string \<Rightarrow> string \<Rightarrow> instant list \<Rightarrow> message_envelope \<Rightarrow> message_envelope" where
  "reclaimed_times p dead c [] e = e"
| "reclaimed_times p dead c (t # ts) e = reclaimed_times p dead c ts (snd (reclaimed p dead c t e))"

lemma reclaimed_retries:
  "int (resolve_retry_count PNone (env_headers e)) < rpo_max_reclaim_attempts p \<Longrightarrow>
    fst (reclaimed p dead c t e) = c \<and>
    resolve_retry_count PNone (env_headers (snd (reclaimed p dead c t e))) = resolve_retry_count PNone (env_headers e) + 1"
  by (auto simp: reclaimed_def Let_def env_headers_def [of "e\<lparr>headers := _\<rparr>"] resolve_retry_count_def py_get_def)

lemma reclaimed_times_retries:
  "int (resolve_retry_count PNone (env_headers e) + length ts) \<le> rpo_max_reclaim_attempts p \<Longrightarrow>
    resolve_retry_count PNone (env_headers (reclaimed_times p dead c ts e)) = resolve_retry_count PNone (env_headers e) + length ts"
proof (induction ts arbitrary: e)
  case (Cons t ts)
  then show ?case using reclaimed_retries [of e p dead c t] by simp
qed simp

text \<open>
  C30. Reclaiming ends. A message whose workers keep dying goes back to its channel exactly as
  often as its retry count is below the limit of the policy, each time with the count raised by
  one, and the next reclaim sends it to the dead-letter channel.
\<close>

theorem reclaiming_ends:
  assumes "int (resolve_retry_count PNone (env_headers e)) \<le> rpo_max_reclaim_attempts p" "length ts = nat (rpo_max_reclaim_attempts p) - resolve_retry_count PNone (env_headers e)"
  shows "(\<forall>n < length ts. fst (reclaimed p dead c t (reclaimed_times p dead c (take n ts) e)) = c)
    \<and> fst (reclaimed p dead c t (reclaimed_times p dead c ts e)) = dead"
proof (intro conjI allI impI)
  fix n assume n: "n < length ts"
  have "resolve_retry_count PNone (env_headers (reclaimed_times p dead c (take n ts) e)) = resolve_retry_count PNone (env_headers e) + n"
    using reclaimed_times_retries [of e "take n ts" p dead c] n assms by simp
  then show "fst (reclaimed p dead c t (reclaimed_times p dead c (take n ts) e)) = c"
    using reclaimed_retries n assms by (simp add: of_nat_diff)
next
  have "int (resolve_retry_count PNone (env_headers (reclaimed_times p dead c ts e))) = rpo_max_reclaim_attempts p"
    using reclaimed_times_retries [of e ts p dead c] assms by simp
  then show "fst (reclaimed p dead c t (reclaimed_times p dead c ts e)) = dead" by (simp add: reclaimed_def)
qed

theorem reclaiming_ends_witness:
  "fst (reclaimed (default_reaper_policy\<lparr>rpo_max_reclaim_attempts := 2\<rparr>) ''dead'' ''jobs'' 0
     (reclaimed_times (default_reaper_policy\<lparr>rpo_max_reclaim_attempts := 2\<rparr>) ''dead'' ''jobs'' [0, 1] (sample_envelope\<lparr>headers := PDict []\<rparr>))) = ''dead''"
proof -
  have "resolve_retry_count PNone (env_headers (sample_envelope\<lparr>headers := PDict []\<rparr>)) = 0"
    by (simp add: env_headers_def resolve_retry_count_def py_get_def)
  then show ?thesis
    using reclaiming_ends [of "sample_envelope\<lparr>headers := PDict []\<rparr>" "default_reaper_policy\<lparr>rpo_max_reclaim_attempts := 2\<rparr>" "[0, 1]"]
    by simp
qed

end
