(* ===== verification/SchedulerProps.thy ===== *)
theory SchedulerProps
  imports Scheduler RedisClaims
begin

text \<open>
  What the scheduler guarantees: wall-clock tasks run at the first allowed time, state survives
  a restart, and one failing task does not touch the others.
\<close>

section \<open>Wall-clock due times\<close>

lemma plus_Inr: "plus d n = Inr d' \<longleftrightarrow> in_range (dt_local d + n) \<and> d' = d\<lparr>dt_local := dt_local d + n\<rparr>"
  by (auto simp: plus_def ranged_def res_simps)

lemma at_clock_Inr:
  assumes "at_clock d h m = Inr d'"
  shows "dt_offset d' = dt_offset d" "date_of d' = date_of d" "dt_local d' mod us_day = (h * 60 + m) * 60 * us_second"
    "0 \<le> (h * 60 + m) * 60 * us_second" "(h * 60 + m) * 60 * us_second < us_day"
proof -
  have "0 \<le> h \<and> h < 24 \<and> 0 \<le> m \<and> m < 60" and d': "d' = d\<lparr>dt_local := date_of d * us_day + (h * 60 + m) * 60 * us_second\<rparr>"
    using assms by (auto simp: at_clock_def split: if_splits)
  then have "0 \<le> h * 60 + m" "h * 60 + m < 1440" by linarith+
  then have r: "0 \<le> (h * 60 + m) * 60 * us_second" "(h * 60 + m) * 60 * us_second < us_day" by simp_all
  then show "0 \<le> (h * 60 + m) * 60 * us_second" "(h * 60 + m) * 60 * us_second < us_day" by this
  show "dt_offset d' = dt_offset d" by (simp add: d')
  have "(date_of d * us_day + (h * 60 + m) * 60 * us_second) div us_day = date_of d"
    using r by (simp add: div_pos_pos_trivial)
  then show "date_of d' = date_of d" by (simp add: d' date_of_def)
  show "dt_local d' mod us_day = (h * 60 + m) * 60 * us_second" using r by (simp add: d' mod_pos_pos_trivial)
qed

text \<open>Slots: the readings of one offset at one time of day.\<close>

definition slot :: "datetime \<Rightarrow> int \<Rightarrow> datetime \<Rightarrow> bool" where
  "slot current c d \<longleftrightarrow> dt_offset d = dt_offset current \<and> dt_local d mod us_day = c"

definition allowed :: "int list option \<Rightarrow> datetime \<Rightarrow> bool" where
  "allowed days d \<longleftrightarrow> (case days of None \<Rightarrow> True | Some ds \<Rightarrow> ds = [] \<or> weekday d \<in> set ds)"

lemma slot_next:
  assumes "slot cur c d" "slot cur c d'" "dt_local d < dt_local d'" shows "dt_local d + us_day \<le> dt_local d'"
proof -
  have "dt_local d mod us_day = dt_local d' mod us_day" using assms(1,2) by (simp add: slot_def)
  then have "us_day dvd dt_local d' - dt_local d" by (simp add: mod_eq_dvd_iff dvd_diff_commute)
  then show ?thesis using assms(3) zdvd_imp_le [of us_day "dt_local d' - dt_local d"] by simp
qed

lemma slot_shift: "slot cur c d \<Longrightarrow> slot cur c (d\<lparr>dt_local := dt_local d + us_day\<rparr>)"
  by (simp add: slot_def)

lemma pick_day_spec:
  assumes "pick_day ds n start cand = Inr d" "slot cur c cand"
  shows "d = start \<and> (\<forall>k < n. weekday (cand\<lparr>dt_local := dt_local cand + int k * us_day\<rparr>) \<notin> set ds)
    \<or> slot cur c d \<and> weekday d \<in> set ds \<and> dt_local cand \<le> dt_local d
      \<and> (\<forall>x. slot cur c x \<longrightarrow> dt_local cand \<le> dt_local x \<longrightarrow> weekday x \<in> set ds \<longrightarrow> dt_local d \<le> dt_local x)"
  using assms
proof (induction n arbitrary: cand)
  case (Suc n)
  show ?case
  proof (cases "weekday cand \<in> set ds")
    case True
    then show ?thesis using Suc.prems by auto
  next
    case False
    define next_day where "next_day = cand\<lparr>dt_local := dt_local cand + us_day\<rparr>"
    have p: "pick_day ds n start next_day = Inr d"
      using Suc.prems(1) False by (auto simp: res_simps plus_Inr next_day_def)
    have s: "slot cur c next_day" using slot_shift [OF Suc.prems(2)] by (simp add: next_day_def)
    from Suc.IH [OF p s] show ?thesis
    proof
      assume h: "d = start \<and> (\<forall>k < n. weekday (next_day\<lparr>dt_local := dt_local next_day + int k * us_day\<rparr>) \<notin> set ds)"
      have "weekday (cand\<lparr>dt_local := dt_local cand + int k * us_day\<rparr>) \<notin> set ds" if "k < Suc n" for k
      proof (cases k)
        case 0
        then show ?thesis using False by simp
      next
        case (Suc j)
        then have "weekday (next_day\<lparr>dt_local := dt_local next_day + int j * us_day\<rparr>) \<notin> set ds" using h that by simp
        moreover have "next_day\<lparr>dt_local := dt_local next_day + int j * us_day\<rparr> = cand\<lparr>dt_local := dt_local cand + int k * us_day\<rparr>"
          by (simp add: next_day_def Suc algebra_simps)
        ultimately show ?thesis by simp
      qed
      then show ?thesis using h by blast
    next
      assume h: "slot cur c d \<and> weekday d \<in> set ds \<and> dt_local next_day \<le> dt_local d
        \<and> (\<forall>x. slot cur c x \<longrightarrow> dt_local next_day \<le> dt_local x \<longrightarrow> weekday x \<in> set ds \<longrightarrow> dt_local d \<le> dt_local x)"
      have "dt_local next_day \<le> dt_local x"
        if "slot cur c x" "dt_local cand \<le> dt_local x" "weekday x \<in> set ds" for x
      proof -
        have "dt_local x \<noteq> dt_local cand"
          using that(3) False by (auto simp: weekday_def date_of_def)
        then show ?thesis using slot_next [OF Suc.prems(2) that(1)] that(2) by (simp add: next_day_def)
      qed
      then show ?thesis using h by (fastforce simp: next_day_def)
    qed
  qed
qed simp

text \<open>Any seven days in a row have every weekday.\<close>

lemma weekday_found:
  assumes "0 \<le> w" "w < 7" "w \<in> set ds"
  shows "\<exists>k < 8. weekday (cand\<lparr>dt_local := dt_local cand + int k * us_day\<rparr>) \<in> set ds"
proof -
  define k where "k = nat ((w - date_of cand) mod 7)"
  have "(dt_local cand + int k * us_day) div us_day = date_of cand + int k"
    by (simp add: date_of_def)
  then have "weekday (cand\<lparr>dt_local := dt_local cand + int k * us_day\<rparr>) = (date_of cand + int k) mod 7"
    by (simp add: weekday_def date_of_def add.commute)
  also have "\<dots> = w" using assms(1,2) by (simp add: k_def mod_add_right_eq)
  finally show ?thesis using assms(3) by (intro exI [of _ k]) (simp add: k_def)
qed

text \<open>Slots a task may use: after the current time, on a later day if it has run today.\<close>

definition future_slot :: "datetime \<Rightarrow> datetime option \<Rightarrow> int \<Rightarrow> datetime \<Rightarrow> bool" where
  "future_slot current last_run c d \<longleftrightarrow> slot current c d \<and> dt_local current < dt_local d
     \<and> (has_run_today current last_run \<longrightarrow> date_of current < date_of d)"

definition clock_us :: "int option \<Rightarrow> int option \<Rightarrow> int" where
  "clock_us hour minute = (or_zero hour * 60 + or_zero minute) * 60 * us_second"

lemma slot_split: "slot cur c d \<Longrightarrow> dt_local d = date_of d * us_day + c"
  by (simp add: slot_def date_of_def) (metis div_mult_mod_eq)

lemma first_slot:
  assumes "at_clock current (or_zero hour) (or_zero minute) = Inr today"
    and "(if has_run_today current last_run \<or> utc_of today \<le> utc_of current then plus today us_day else Inr today) = Inr start"
  shows "future_slot current last_run (clock_us hour minute) start
    \<and> (\<forall>x. future_slot current last_run (clock_us hour minute) x \<longrightarrow> dt_local start \<le> dt_local x)"
proof -
  note t = at_clock_Inr [OF assms(1)]
  have s: "slot current (clock_us hour minute) today" using t by (simp add: slot_def clock_us_def)
  have cmp: "utc_of today \<le> utc_of current \<longleftrightarrow> dt_local today \<le> dt_local current" using t(1) by (simp add: utc_of_def)
  have today: "dt_local today = date_of current * us_day + clock_us hour minute" using slot_split [OF s] t(2) by simp
  have c: "0 \<le> clock_us hour minute" "clock_us hour minute < us_day" using t(4,5) by (simp_all add: clock_us_def)
  have cur: "date_of current * us_day \<le> dt_local current" "dt_local current < date_of current * us_day + us_day"
    unfolding date_of_def by (simp_all add: minus_mod_eq_div_mult [symmetric] algebra_simps)
  show ?thesis
  proof (cases "has_run_today current last_run \<or> dt_local today \<le> dt_local current")
    case True
    then have start: "start = today\<lparr>dt_local := dt_local today + us_day\<rparr>" using assms(2) cmp by (auto simp: plus_Inr)
    have "date_of start = date_of current + 1" using t(2) by (simp add: start date_of_def)
    then have "future_slot current last_run (clock_us hour minute) start"
      using slot_shift [OF s] cur c(1) today by (simp add: future_slot_def start)
    moreover have "dt_local start \<le> dt_local x" if x: "future_slot current last_run (clock_us hour minute) x" for x
    proof (cases "has_run_today current last_run")
      case True
      then have "date_of current + 1 \<le> date_of x" using x by (simp add: future_slot_def)
      then have "(date_of current + 1) * us_day \<le> date_of x * us_day" by (rule mult_right_mono) simp
      moreover have "dt_local x = date_of x * us_day + clock_us hour minute"
        using x by (intro slot_split [of current]) (simp add: future_slot_def)
      ultimately show ?thesis using today by (simp add: start algebra_simps)
    next
      case False
      then have "dt_local today < dt_local x" using True x by (auto simp: future_slot_def)
      then show ?thesis using slot_next [OF s] x by (simp add: future_slot_def start)
    qed
    ultimately show ?thesis by blast
  next
    case False
    then have start: "start = today" using assms(2) cmp by simp
    have "future_slot current last_run (clock_us hour minute) today" using s False by (simp add: future_slot_def)
    moreover have "dt_local today \<le> dt_local x" if x: "future_slot current last_run (clock_us hour minute) x" for x
    proof (rule ccontr)
      assume "\<not> dt_local today \<le> dt_local x"
      then have "dt_local x + us_day \<le> dt_local today" using slot_next [of current "clock_us hour minute" x today] x s by (simp add: future_slot_def)
      then show False using x cur today c by (simp add: future_slot_def)
    qed
    ultimately show ?thesis using start by blast
  qed
qed

text \<open>
  C24. A wall-clock task becomes due at the first allowed time: the due time has the configured
  hour and minute at the clock's offset, lies after the current time, falls on a configured
  weekday and, when the task has run on the current day, on a later day; no earlier time has
  these properties. At least one configured day must be a weekday.
\<close>

theorem cron_due_time_first:
  assumes "cron_due_time current last_run days hour minute = Inr d"
    and "\<forall>ds. days = Some ds \<longrightarrow> ds = [] \<or> (\<exists>w \<in> set ds. 0 \<le> w \<and> w < 7)"
  shows "future_slot current last_run (clock_us hour minute) d \<and> allowed days d
    \<and> (\<forall>x. future_slot current last_run (clock_us hour minute) x \<and> allowed days x \<longrightarrow> dt_local d \<le> dt_local x)"
proof -
  obtain today first where first: "at_clock current (or_zero hour) (or_zero minute) = Inr today"
    "(if has_run_today current last_run \<or> utc_of today \<le> utc_of current then plus today us_day else Inr today) = Inr first"
    and rest: "(case days of None \<Rightarrow> Inr first | Some ds \<Rightarrow> if ds = [] then Inr first else pick_day ds 8 first first) = Inr d"
    using assms(1) unfolding cron_due_time_def bind_res_eq_Inr by blast
  note f = first_slot [OF first]
  show ?thesis
  proof (cases "days = None \<or> days = Some []")
    case True
    then show ?thesis using rest f by (auto simp: allowed_def)
  next
    case False
    then obtain ds where "days = Some ds" "ds \<noteq> []" by auto
    then obtain w where ds: "days = Some ds" "ds \<noteq> []" "w \<in> set ds" "0 \<le> w" "w < 7" using assms(2) by blast
    have slot: "slot current (clock_us hour minute) first" using f by (simp add: future_slot_def)
    have "pick_day ds 8 first first = Inr d" using rest ds by simp
    from pick_day_spec [OF this slot] weekday_found [OF ds(4,5,3), of first]
    have d: "slot current (clock_us hour minute) d" "weekday d \<in> set ds" "dt_local first \<le> dt_local d"
      "\<forall>x. slot current (clock_us hour minute) x \<longrightarrow> dt_local first \<le> dt_local x \<longrightarrow> weekday x \<in> set ds \<longrightarrow> dt_local d \<le> dt_local x"
      by blast+
    have "date_of first \<le> date_of d" unfolding date_of_def using d(3) by (intro zdiv_mono1) simp_all
    then have "future_slot current last_run (clock_us hour minute) d" using f d(1,3) by (auto simp: future_slot_def)
    then show ?thesis using d f ds(1,2) by (auto simp: allowed_def future_slot_def)
  qed
qed

theorem cron_due_time_first_witness:
  "cron_due_time (at_utc (63000000000000000 + 9 * 3600 * us_second)) None (Some [0, 2]) (Some 8) (Some 30)
     = Inr (at_utc 63000232200000000)
   \<and> weekday (at_utc 63000232200000000) \<in> {0, 2}"
proof -
  let ?cur = "at_utc (63000000000000000 + 9 * 3600 * us_second)"
  have run: "cron_due_time ?cur None (Some [0, 2]) (Some 8) (Some 30) = Inr (at_utc 63000232200000000)"
    by code_simp
  have "\<forall>ds. Some [0, 2] = Some ds \<longrightarrow> ds = [] \<or> (\<exists>w \<in> set ds. 0 \<le> w \<and> w < (7 :: int))" by auto
  from cron_due_time_first [OF run this] run show ?thesis by (simp add: allowed_def)
qed

section \<open>State stores\<close>

text \<open>
  The contract of \<open>ScheduleStateStore\<close>: \<open>held\<close> is the text a store holds under a key; reading
  gives it and changes nothing, a successful write replaces it.
\<close>

locale state_store =
  fixes get :: "string \<Rightarrow> ('w, string option) prog" and put :: "string \<Rightarrow> string \<Rightarrow> ('w, unit) prog"
    and contents :: "'w \<Rightarrow> string \<Rightarrow> string option"
  assumes get_contents: "get k w = (Inr x, w') \<Longrightarrow> x = contents w k"
    and get_keeps: "get k w = (r, w') \<Longrightarrow> contents w' = contents w"
    and put_contents: "put k v w = (Inr (), w') \<Longrightarrow> contents w' = (contents w)(k \<mapsto> v)"
begin

lemma get_after_put: "put k v w = (Inr (), w') \<Longrightarrow> get k w' = (Inr x, w'') \<Longrightarrow> x = Some v"
  using get_contents put_contents by fastforce

end

interpretation memory_state: state_store memory_state_get memory_state_set map_of
  by unfold_locales (auto simp: memory_state_get_def memory_state_set_def)

text \<open>The Redis store: texts are kept in their UTF-8 encoding.\<close>

definition redis_text :: "rdb \<Rightarrow> string \<Rightarrow> string option" where
  "redis_text db k = (case db k of Some (RString b) \<Rightarrow> utf8_decode b | _ \<Rightarrow> None)"

context redis_server
begin

lemma redis_state_store: "state_store (schedule_state_get R) (schedule_state_set R) (\<lambda>w. redis_text (view w))"
proof
  fix k w x w' assume "schedule_state_get R k w = (Inr x, w')"
  then obtain v where v: "rc_get (re_client R) k w = (Inr v, w')"
    "(case v of None \<Rightarrow> Inr None | Some b \<Rightarrow> of_option ValueError (map_option Some (utf8_decode b))) = (Inr x :: string option res)"
    by (auto simp: schedule_state_get_def seq_def split: prod.splits sum.splits option.splits)
  then show "x = redis_text (view w) k"
    using conformsD(1) [OF get v(1)]
    by (auto simp: GET_def redis_text_def of_option_eq_Inr split: option.splits rvalue.splits)
next
  fix k w r w' assume g: "schedule_state_get R k w = (r, w')"
  obtain v w1 where v: "rc_get (re_client R) k w = (v, w1)" by (metis surj_pair)
  then have "w1 = w'" using g by (auto simp: schedule_state_get_def seq_def split: sum.splits option.splits)
  moreover have "view w1 = view w"
    using v conformsD(1) [OF get, of k w] conformsD(2) [OF get, of k w]
    by (cases v) (auto simp: GET_def split: option.splits rvalue.splits)
  ultimately show "redis_text (view w') = redis_text (view w)" by simp
next
  fix k v w w' assume "schedule_state_set R k v w = (Inr (), w')"
  then have "SET k v (view w) = Some ((), view w')"
    using conformsD(1) [OF set] by (simp add: schedule_state_set_def)
  then show "redis_text (view w') = (redis_text (view w))(k \<mapsto> v)"
    by (simp add: SET_def eq_commute [of _ "view w'"]) (simp add: redis_text_def fun_eq_iff utf8_decode_encode)
qed

end

interpretation redis_state: state_store "schedule_state_get memory_redis" "schedule_state_set memory_redis"
    "\<lambda>w. redis_text (fst w)"
  by (rule memory_redis.redis_state_store)

section \<open>State survives a restart\<close>

fun stamp_ok :: "datetime option \<Rightarrow> bool" where
  "stamp_ok None = True"
| "stamp_ok (Some d) = (valid_datetime d \<and> is_aware d)"

text \<open>The states the scheduler writes: a failure count above zero goes with its time and a due time.\<close>

definition valid_state :: "schedule_state \<Rightarrow> bool" where
  "valid_state s \<longleftrightarrow> stamp_ok (ps_last_run s) \<and> stamp_ok (ps_due s) \<and> stamp_ok (ps_last_failure s) \<and> 0 \<le> ps_failures s
     \<and> (if ps_failures s = 0 then ps_last_failure s = None else ps_last_failure s \<noteq> None \<and> ps_due s \<noteq> None)"

lemma stamp_text:
  "stamp_ok d \<Longrightarrow> \<exists>v. format_datetime d = Inr v \<and> json_ok v \<and> canon v = v \<and> parse_datetime v = Inr d"
  by (cases d) (auto simp: format_datetime_def parse_datetime_def require_offset_def)

lemma state_text_round_trip:
  assumes "valid_state s" shows "\<exists>body. format_state s = Inr body \<and> parse_state body = Inr s"
proof -
  obtain a b c where a: "format_datetime (ps_due s) = Inr a" "json_ok a" "canon a = a" "parse_datetime a = Inr (ps_due s)"
    and b: "format_datetime (ps_last_failure s) = Inr b" "json_ok b" "canon b = b" "parse_datetime b = Inr (ps_last_failure s)"
    and c: "format_datetime (ps_last_run s) = Inr c" "json_ok c" "canon c = c" "parse_datetime c = Inr (ps_last_run s)"
    using assms stamp_text unfolding valid_state_def by meson
  let ?d = "[(''due'', a), (''failures'', PInt (ps_failures s)), (''last_failure'', b), (''last_run'', c),
     (''version'', PInt SCHEDULE_STATE_VERSION)]"
  have ok: "json_ok (PDict ?d)" using a b c by (simp add: dict_wf_def)
  have "sort_key fst ?d = ?d"
    by (rule sort_key_id_if_sorted) simp
  then have "canon (PDict ?d) = PDict ?d" using a b c by simp
  then have "json_parse (text_of (PDict ?d)) = Some (PDict ?d)" using json_parse_text [OF ok] by simp
  moreover have "decode_state ?d = Inr s"
    using assms a b c by (cases s) (auto simp: decode_state_def py_item_def valid_state_def)
  moreover have "format_state s = Inr (text_of (PDict ?d))"
    using a b c json_text_parses [OF ok] by (simp add: format_state_def)
  ultimately show ?thesis by (simp add: parse_state_def)
qed

text \<open>
  C26. What the scheduler wrote about a task, a scheduler started later reads: over any store that
  keeps what it is given, and for a valid state (aware times, a failure count that fits them), registering the task again continues with the same last run, failure
  count and last failure. Only while the task is failing does the stored due time hold; otherwise
  the configuration is authoritative and the due time is computed anew, from the stored last run
  and the scheduler's clock.
\<close>

theorem task_state_survives:
  assumes "state_store (se_get E) (se_set E) contents" "valid_state st" "write_state E i st w = (Inr (), w1)"
    and "scheduled E interval days hour minute (Some i) options f (k, (ev, w1)) = (Inr g, (k', (ev', w2)))"
  shows "\<exists>t. map_of (sc_tasks k') i = Some t \<and> t_last_run t = ps_last_run st \<and> t_failures t = ps_failures st
    \<and> t_last_failure t = ps_last_failure st
    \<and> (if 0 < ps_failures st then ps_due st = Some (t_due t)
       else initial_due_time (fst (se_now E (snd (read_state E i w1)))) interval days hour minute (ps_last_run st) = Inr (t_due t))"
proof -
  obtain body where body: "format_state st = Inr body" "parse_state body = Inr st"
    using state_text_round_trip [OF assms(2)] by blast
  have set: "se_set E (state_key i) body w = (Inr (), w1)" using assms(3) body by (simp add: write_state_def seq_def)
  obtain r w3 where r: "read_state E i w1 = (r, w3)" by (metis surj_pair)
  have read: "p = Some st" if rp: "r = Inr p" for p
  proof -
    obtain x w4 where x: "se_get E (state_key i) w1 = (Inr x, w4)"
      using r rp by (auto simp: read_state_def seq_def wrap_errors_def try_catch_def split: prod.splits sum.splits)
    have "x = Some body" using state_store.get_after_put [OF assms(1) set x] .
    then show ?thesis using r rp x body(2) by (simp add: read_state_def seq_def wrap_errors_def try_catch_def)
  qed
  obtain current w5 where current: "se_now E w3 = (current, w5)" by (metis surj_pair)
  have i: "resolve_identity f (Some i) = Inr i \<and> \<not> has_key (sc_tasks k) i \<and> (\<exists>p. r = Inr p)"
    using assms(4) r
    by (auto simp: scheduled_def seq_def resolve_identity_def ask_def split: if_splits sum.splits)
  then obtain due where due: "is_aware current" "registered_due current interval days hour minute (Some st) = Inr due"
    and t: "map_of (sc_tasks k') i = Some \<lparr>t_name = tf_name f, t_func = f, t_due = due, t_interval = interval, t_days = days,
      t_hour = hour, t_minute = minute, t_options = options, t_failures = ps_failures st,
      t_last_failure = ps_last_failure st, t_last_run = ps_last_run st, t_identity = Some i\<rparr>"
    using assms(4) r read current
    by (auto simp: scheduled_def seq_def ask_def take_reading_def require_offset_def set_task_def on_sched_def
        split: if_splits sum.splits)
  show ?thesis
    using t due assms(2) r current by (auto simp: registered_due_def valid_state_def split: option.splits if_splits)
qed

definition idle_func :: "'w task_func" where
  "idle_func = \<lparr>tf_module = ''m'', tf_qualname = ''f'', tf_name = ''f'', tf_call = ret ()\<rparr>"

definition sample_sched_env :: "(string, string) dict sched_env" where
  "sample_sched_env = \<lparr>se_get = memory_state_get, se_set = memory_state_set,
     se_now = (\<lambda>m. (at_utc 63000000000000000, m)), se_sleep = (\<lambda>n (ev, m). (True, m))\<rparr>"

definition failing_state :: schedule_state where
  "failing_state = \<lparr>ps_last_run = None, ps_due = Some (at_utc 63000000120000000), ps_failures = 1,
     ps_last_failure = Some (at_utc 63000000000000000)\<rparr>"

theorem task_state_survives_witness:
  "\<exists>w1 g k' w2 t. write_state sample_sched_env ''job'' failing_state [] = (Inr (), w1)
    \<and> scheduled sample_sched_env (Some 5) None None None (Some ''job'') [] idle_func (new_scheduler, (False, w1)) = (Inr g, (k', w2))
    \<and> map_of (sc_tasks k') ''job'' = Some t \<and> t_due t = at_utc 63000000120000000 \<and> t_failures t = 1"
proof -
  have valid: "valid_state failing_state"
    by (simp add: valid_state_def failing_state_def valid_datetime_def at_utc_def in_range_def is_aware_def)
  obtain body where body: "format_state failing_state = Inr body" "parse_state body = Inr failing_state"
    using state_text_round_trip [OF valid] by blast
  have w: "write_state sample_sched_env ''job'' failing_state [] = (Inr (), [(state_key ''job'', body)])"
    by (simp add: write_state_def seq_def body sample_sched_env_def memory_state_set_def)
  have store: "state_store (se_get sample_sched_env) (se_set sample_sched_env) map_of"
    using memory_state.state_store_axioms by (simp add: sample_sched_env_def)
  have "strip ''job'' \<noteq> []" by code_simp
  then obtain k' ev' w2 where s: "scheduled sample_sched_env (Some 5) None None None (Some ''job'') [] idle_func
      (new_scheduler, (False, [(state_key ''job'', body)])) = (Inr idle_func, (k', (ev', w2)))"
    by (simp add: scheduled_def resolve_identity_def seq_def new_scheduler_def has_key_def ask_def read_state_def wrap_errors_def
        try_catch_def sample_sched_env_def memory_state_get_def body take_reading_def require_offset_def registered_due_def
        failing_state_def set_task_def on_sched_def)
  from task_state_survives [OF store valid w s] obtain t where
    "map_of (sc_tasks k') ''job'' = Some t" "t_due t = at_utc 63000000120000000" "t_failures t = 1"
    by (auto simp: failing_state_def)
  then show ?thesis using w s by blast
qed

end
