(* ===== verification/SchedulerRuns.thy ===== *)
theory SchedulerRuns
  imports SchedulerProps
begin

text \<open>
  One pass over the due tasks: each is attempted in the order of registration, and what happens
  to one task does not touch the others.
\<close>

section \<open>What a pass does to a task\<close>

definition succeeded :: "'w task \<Rightarrow> datetime \<Rightarrow> 'w task \<Rightarrow> bool" where
  "succeeded t now t' \<longleftrightarrow> (\<exists>d. next_due_time t now = Inr d
     \<and> t' = t\<lparr>t_failures := 0, t_last_failure := None, t_last_run := Some now, t_due := d\<rparr>)"

definition backed_off :: "'w task \<Rightarrow> datetime \<Rightarrow> 'w task \<Rightarrow> bool" where
  "backed_off t now t' \<longleftrightarrow>
     t' = t\<lparr>t_failures := t_failures t + 1, t_last_failure := Some now,
       t_due := (case plus now (backoff (t_failures t + 1) * us_second) of Inr d \<Rightarrow> d | Inl e \<Rightarrow> t_due t)\<rparr>"

lemma not_both: "succeeded t now t' \<Longrightarrow> \<not> backed_off t now t'"
  by (auto simp: succeeded_def backed_off_def dest!: arg_cong [where f = t_last_failure])

lemma log_entry_run: "log_entry m i (k, w) = (Inr (), (k\<lparr>sc_log := sc_log k @ [(m, i)]\<rparr>, w))"
  by (simp add: log_entry_def on_sched_def modify_def)

lemma set_task_run: "set_task i t (k, w) = (Inr (), (k\<lparr>sc_tasks := AList.update i t (sc_tasks k)\<rparr>, w))"
  by (simp add: set_task_def on_sched_def modify_def)

lemma ask_keeps: "ask m (k, w) = (r, (k', w')) \<Longrightarrow> k' = k"
  by (cases w) (auto simp: ask_def split: prod.splits)

lemma call_task_run:
  "call_task i t (k, w) = (r, (k', w')) \<Longrightarrow> k' = k\<lparr>sc_calls := sc_calls k @ [i]\<rparr>"
  by (auto simp: call_task_def on_sched_def modify_def seq_def act_def split: prod.splits)

lemma update_twice: "AList.update i y (AList.update i x al) = AList.update i y al"
  by (induction al) auto

lemma fail_task_run:
  assumes "fail_task E i t now e (k, w) = (r, (k', w'))"
  shows "\<exists>t' x. r = Inl x \<and> sc_tasks k' = AList.update i t' (sc_tasks k) \<and> sc_calls k' = sc_calls k \<and> backed_off t now t'"
proof (cases "plus now (backoff (t_failures t + 1) * us_second)")
  case (Inl x)
  then show ?thesis using assms
    by (auto simp: fail_task_def handle_task_failure_def Let_def seq_def set_task_run lift_res_def backed_off_def)
next
  case (Inr d)
  define t1 where "t1 = t\<lparr>t_failures := t_failures t + 1, t_last_failure := Some now\<rparr>"
  define k2 where "k2 = k\<lparr>sc_tasks := AList.update i (t1\<lparr>t_due := d\<rparr>) (AList.update i t1 (sc_tasks k))\<rparr>"
  obtain x k3 w3 where wr: "ask (write_state E i (failure_state (t1\<lparr>t_due := d\<rparr>))) (k2, w) = (x, (k3, w3))"
    by (metis surj_pair)
  have "k3 = k2" using ask_keeps [OF wr] .
  then have "r = Inl e \<and> sc_tasks k' = sc_tasks k2 \<and> sc_calls k' = sc_calls k"
    using assms Inr wr
    by (cases x) (auto simp: fail_task_def handle_task_failure_def Let_def seq_def set_task_run lift_res_def t1_def k2_def
        try_catch_def log_entry_run raise_def)
  moreover have "backed_off t now (t1\<lparr>t_due := d\<rparr>)" by (simp add: backed_off_def Inr t1_def)
  ultimately show ?thesis by (auto simp: k2_def update_twice)
qed

lemma handle_task_success_run:
  assumes "handle_task_success E i t now (k, w) = (r, (k', w'))"
  shows "case r of Inl e \<Rightarrow> k' = k
    | Inr _ \<Rightarrow> \<exists>t'. sc_tasks k' = AList.update i t' (sc_tasks k) \<and> sc_calls k' = sc_calls k \<and> succeeded t now t'"
proof (cases "next_due_time t now")
  case (Inl e)
  then show ?thesis using assms by (auto simp: handle_task_success_def seq_def lift_res_def)
next
  case (Inr d)
  obtain x k2 w2 where wr: "ask (write_state E i \<lparr>ps_last_run = Some now, ps_due = Some d, ps_failures = 0, ps_last_failure = None\<rparr>)
      (k, w) = (x, (k2, w2))"
    by (metis surj_pair)
  have "k2 = k" using ask_keeps [OF wr] .
  then show ?thesis
    using assms Inr wr by (cases x) (auto simp: handle_task_success_def seq_def lift_res_def set_task_run succeeded_def)
qed

section \<open>The attempts of a task\<close>

lemma attempts_run:
  "attempts E transient i t now n (k, w) = (r, (k', w')) \<Longrightarrow>
   \<exists>m t'. 1 \<le> m \<and> m \<le> Suc n \<and> sc_tasks k' = AList.update i t' (sc_tasks k) \<and> sc_calls k' = sc_calls k @ replicate m i
     \<and> (case r of Inl e \<Rightarrow> backed_off t now t' | Inr _ \<Rightarrow> succeeded t now t')"
proof (induction n arbitrary: k w)
  have once: "\<exists>m t'. 1 \<le> m \<and> m \<le> Suc n \<and> sc_tasks k' = AList.update i t' (sc_tasks k) \<and> sc_calls k' = sc_calls k @ replicate m i
     \<and> (case r of Inl e \<Rightarrow> backed_off t now t' | Inr _ \<Rightarrow> succeeded t now t')"
    if run: "attempts E transient i t now n (k, w) = (r, (k', w'))"
      and call: "call_task i t (k, w) = (x, (k1, w1))" and no: "\<forall>e. x = Inl e \<longrightarrow> \<not> (transient e \<and> 0 < n)"
    for n k w x k1 w1
  proof -
    note k1 = call_task_run [OF call]
    have "\<exists>t'. sc_tasks k' = AList.update i t' (sc_tasks k1) \<and> sc_calls k' = sc_calls k1
       \<and> (case r of Inl e \<Rightarrow> backed_off t now t' | Inr _ \<Rightarrow> succeeded t now t')"
    proof (cases x)
      case (Inl e)
      then have "fail_task E i t now e (k1, w1) = (r, (k', w'))"
        using run call no by (subst (asm) attempts.simps) (simp add: seq_def attempt_def)
      from fail_task_run [OF this] show ?thesis by auto
    next
      case (Inr u)
      obtain y k2 w2 where s: "handle_task_success E i t now (k1, w1) = (y, (k2, w2))" by (metis surj_pair)
      show ?thesis
      proof (cases y)
        case (Inl e)
        then have "fail_task E i t now e (k1, w2) = (r, (k', w'))"
          using run call Inr s handle_task_success_run [OF s]
          by (subst (asm) attempts.simps) (simp add: seq_def attempt_def)
        from fail_task_run [OF this] show ?thesis by auto
      next
        case (Inr v)
        then have "r = Inr () \<and> k' = k2"
          using run call \<open>x = Inr u\<close> s by (subst (asm) attempts.simps) (simp add: seq_def attempt_def ret_def)
        then show ?thesis using handle_task_success_run [OF s] Inr by auto
      qed
    qed
    then show ?thesis using k1 by (intro exI [of _ 1]) auto
  qed
  {
    case 0
    obtain x k1 w1 where call: "call_task i t (k, w) = (x, (k1, w1))" by (metis surj_pair)
    show ?case by (rule once [OF 0 call]) simp
  next
    case (Suc n)
    obtain x k1 w1 where call: "call_task i t (k, w) = (x, (k1, w1))" by (metis surj_pair)
    show ?case
    proof (cases "\<exists>e. x = Inl e \<and> transient e")
      case False
      then show ?thesis by (intro once [OF Suc.prems call]) auto
    next
      case True
      note k1 = call_task_run [OF call]
      have "attempts E transient i t now n (k1\<lparr>sc_log := sc_log k1 @ [(''Transient error during task'', i)]\<rparr>, w1) = (r, (k', w'))"
        using Suc.prems call True by (subst (asm) attempts.simps) (auto simp: seq_def attempt_def log_entry_run)
      from Suc.IH [OF this] obtain m t' where m: "1 \<le> m" "m \<le> Suc n" "sc_tasks k' = AList.update i t' (sc_tasks k)"
        "sc_calls k' = sc_calls k @ replicate (Suc m) i"
        "case r of Inl e \<Rightarrow> backed_off t now t' | Inr _ \<Rightarrow> succeeded t now t'"
        using k1 by auto
      then show ?thesis by (intro exI [of _ "Suc m"] exI [of _ t']) simp
    qed
  }
qed

section \<open>All due tasks\<close>

text \<open>How a pass over \<open>ts\<close> changes the scheduler \<open>k\<close>.\<close>

definition pass_result :: "nat \<Rightarrow> datetime \<Rightarrow> (string \<times> 'w task) list \<Rightarrow> 'w sched \<Rightarrow> 'w sched \<Rightarrow> bool" where
  "pass_result retries now ts k k' \<longleftrightarrow>
     map fst (sc_tasks k') = map fst (sc_tasks k)
     \<and> (\<forall>i. i \<notin> fst ` set ts \<longrightarrow> map_of (sc_tasks k') i = map_of (sc_tasks k) i)
     \<and> (\<forall>(i, t) \<in> set ts. \<exists>t'. map_of (sc_tasks k') i = Some t' \<and> (succeeded t now t' \<or> backed_off t now t'))
     \<and> (\<exists>m. (\<forall>i. 1 \<le> m i \<and> m i \<le> Suc retries)
         \<and> sc_calls k' = sc_calls k @ concat (map (\<lambda>(i, t). replicate (m i) i) ts))"

definition all_succeeded :: "datetime \<Rightarrow> (string \<times> 'w task) list \<Rightarrow> 'w sched \<Rightarrow> bool" where
  "all_succeeded now ts k' \<longleftrightarrow> (\<forall>(i, t) \<in> set ts. \<exists>t'. map_of (sc_tasks k') i = Some t' \<and> succeeded t now t')"

lemma run_tasks_run:
  assumes "run_tasks E transient n now ts err (k, w) = (r, (k', w'))" "distinct (map fst ts)" "fst ` set ts \<subseteq> fst ` set (sc_tasks k)"
  shows "pass_result n now ts k k' \<and> (\<exists>err'. r = Inr err' \<and> (err' = None \<longleftrightarrow> err = None \<and> all_succeeded now ts k'))"
  using assms
proof (induction ts arbitrary: err k w)
  case Nil
  then show ?case by (auto simp: pass_result_def all_succeeded_def ret_def intro: exI [of _ "\<lambda>_. 1"])
next
  case (Cons p ts)
  obtain i t where p: "p = (i, t)" by (cases p)
  obtain x k1 w1 where a: "attempts E transient i t now n (k, w) = (x, (k1, w1))" by (metis surj_pair)
  from attempts_run [OF a] obtain m t' where m: "1 \<le> m" "m \<le> Suc n" "sc_tasks k1 = AList.update i t' (sc_tasks k)"
    "sc_calls k1 = sc_calls k @ replicate m i" "case x of Inl e \<Rightarrow> backed_off t now t' | Inr _ \<Rightarrow> succeeded t now t'" by blast
  have "\<exists>err1 k2. run_tasks E transient n now ts err1 (k2, w1) = (r, (k', w')) \<and> sc_tasks k2 = sc_tasks k1
      \<and> sc_calls k2 = sc_calls k1 \<and> (err1 = None \<longleftrightarrow> err = None \<and> (\<exists>u. x = Inr u))"
  proof (cases x)
    case (Inl e)
    then show ?thesis
      using Cons.prems(1) a
      by (intro exI [of _ "case err of None \<Rightarrow> Some e | Some y \<Rightarrow> Some y"]
          exI [of _ "k1\<lparr>sc_log := sc_log k1 @ [(''Scheduled task failed'', i)]\<rparr>"])
        (auto simp: p seq_def attempt_def log_entry_run split: option.splits)
  next
    case (Inr u)
    then show ?thesis using Cons.prems(1) a by (intro exI [of _ err] exI [of _ k1]) (auto simp: p seq_def attempt_def)
  qed
  then obtain err1 k2 where rest: "run_tasks E transient n now ts err1 (k2, w1) = (r, (k', w'))" and k2: "sc_tasks k2 = sc_tasks k1"
      "sc_calls k2 = sc_calls k1" "err1 = None \<longleftrightarrow> err = None \<and> (\<exists>u. x = Inr u)" by blast
  have i: "i \<in> fst ` set (sc_tasks k)" "i \<notin> fst ` set ts" using Cons.prems(2,3) by (auto simp: p)
  have keys: "map fst (sc_tasks k2) = map fst (sc_tasks k)"
    using i(1) by (simp add: k2 m update_keys)
  then have "fst ` set ts \<subseteq> fst ` set (sc_tasks k2)" using Cons.prems(3) by (metis image_set insert_subset list.simps(15) image_insert)
  note IH = Cons.IH [OF rest _ this]
  have pass: "pass_result n now ts k2 k'" and ex: "\<exists>err'. r = Inr err' \<and> (err' = None \<longleftrightarrow> err1 = None \<and> all_succeeded now ts k')"
    using IH Cons.prems(2) by auto
  obtain f where f: "\<forall>i. 1 \<le> f i \<and> f i \<le> Suc n" "sc_calls k' = sc_calls k2 @ concat (map (\<lambda>(i, t). replicate (f i) i) ts)"
    using pass by (auto simp: pass_result_def)
  have same: "map (\<lambda>(j, t). replicate ((f(i := m)) j) j) ts = map (\<lambda>(j, t). replicate (f j) j) ts"
    using i(2) by (intro map_cong refl) (auto simp: image_iff)
  have t': "map_of (sc_tasks k') i = Some t'"
    using pass i(2) by (simp add: pass_result_def k2 m(3) update_conv')
  have "\<exists>g. (\<forall>j. 1 \<le> g j \<and> g j \<le> Suc n) \<and> sc_calls k' = sc_calls k @ concat (map (\<lambda>(j, t). replicate (g j) j) (p # ts))"
  proof (intro exI [of _ "f(i := m)"] conjI)
    show "\<forall>j. 1 \<le> (f(i := m)) j \<and> (f(i := m)) j \<le> Suc n" using f(1) m(1,2) by simp
    show "sc_calls k' = sc_calls k @ concat (map (\<lambda>(j, t). replicate ((f(i := m)) j) j) (p # ts))"
      using f(2) m(4) k2(2) by (simp add: p same del: fun_upd_apply add: fun_upd_same)
  qed
  moreover have "map_of (sc_tasks k') j = map_of (sc_tasks k) j" if "j \<notin> fst ` set (p # ts)" for j
    using pass that by (simp add: pass_result_def k2 m(3) update_conv' p)
  moreover have "\<exists>t'. map_of (sc_tasks k') j = Some t' \<and> (succeeded s now t' \<or> backed_off s now t')" if "(j, s) \<in> set (p # ts)" for j s
    using pass that t' m(5) by (auto simp: pass_result_def p split: sum.splits)
  ultimately have "pass_result n now (p # ts) k k'"
    using pass keys by (simp add: pass_result_def split_beta)
  moreover have "all_succeeded now (p # ts) k' \<longleftrightarrow> (\<exists>u. x = Inr u) \<and> all_succeeded now ts k'"
    using t' m(5) not_both [of t now t'] by (auto simp: all_succeeded_def p split: sum.splits)
  ultimately show ?case using ex k2(3) by blast
qed

text \<open>
  C25. A failing task does not touch the others: a pass attempts every due task, in the order of
  registration and between one and \<open>retries + 1\<close> times, and no other task; each due task is
  left either as succeeded (no failures, last run now, next due time) or as failed (one failure
  more, the time of the failure, a due time after the backoff); all other tasks are as before. The pass
  raises exactly when a due task failed.
\<close>

theorem run_due_tasks_isolated:
  assumes "run_due_tasks E (Some now) retries transient (k, w) = (r, (k', w'))"
    and "is_aware now" "distinct (map fst (sc_tasks k))"
  shows "pass_result (nat retries) now (due_tasks now k) k k' \<and> (r = Inr () \<longleftrightarrow> all_succeeded now (due_tasks now k) k')"
proof -
  obtain x k1 w1 where run: "run_tasks E transient (nat retries) now (due_tasks now k) None (k, w) = (x, (k1, w1))"
    by (metis surj_pair)
  have "distinct (map fst (due_tasks now k))" "fst ` set (due_tasks now k) \<subseteq> fst ` set (sc_tasks k)"
    using assms(3) by (auto simp: due_tasks_def distinct_map_filter)
  from run_tasks_run [OF run this] obtain err where
    "pass_result (nat retries) now (due_tasks now k) k k1" "x = Inr err" "err = None \<longleftrightarrow> all_succeeded now (due_tasks now k) k1"
    by blast
  moreover have "k' = k1 \<and> (r = Inr () \<longleftrightarrow> err = None)"
    using assms(1,2) run \<open>x = Inr err\<close>
    by (auto simp: run_due_tasks_def current_time_def get_due_tasks_def seq_def lift_res_def require_offset_def ret_def
        get_state_def raise_def split: option.splits)
  ultimately show ?thesis by blast
qed

definition failing_func :: "'w task_func" where
  "failing_func = \<lparr>tf_module = ''m'', tf_qualname = ''g'', tf_name = ''g'', tf_call = raise ValueError\<rparr>"

definition every_minute :: "'w task_func \<Rightarrow> 'w task" where
  "every_minute f = \<lparr>t_name = tf_name f, t_func = f, t_due = at_utc 63000000000000000, t_interval = Some 60, t_days = None,
     t_hour = None, t_minute = None, t_options = [], t_failures = 0, t_last_failure = None, t_last_run = None, t_identity = None\<rparr>"

definition two_tasks :: "(string, string) dict sched" where
  "two_tasks = \<lparr>sc_tasks = [(''bad'', every_minute failing_func), (''good'', every_minute idle_func)], sc_log = [], sc_calls = []\<rparr>"

theorem run_due_tasks_isolated_witness:
  "\<exists>r k' w' a b. run_due_tasks sample_sched_env (Some (at_utc 63000000000000000)) 2 (\<lambda>_. True) (two_tasks, (False, []))
      = (r, (k', w'))
    \<and> map fst (sc_tasks k') = [''bad'', ''good''] \<and> sc_calls k' = replicate (Suc a) ''bad'' @ replicate (Suc b) ''good''
    \<and> a \<le> 2 \<and> b \<le> 2"
proof -
  let ?now = "at_utc 63000000000000000"
  obtain r k' w' where run: "run_due_tasks sample_sched_env (Some ?now) 2 (\<lambda>_. True) (two_tasks, (False, [])) = (r, (k', w'))"
    by (metis surj_pair)
  have aware: "is_aware ?now" "distinct (map fst (sc_tasks two_tasks))"
    by (simp_all add: at_utc_def is_aware_def two_tasks_def)
  have due: "due_tasks ?now two_tasks = [(''bad'', every_minute failing_func), (''good'', every_minute idle_func)]"
    by (simp add: due_tasks_def two_tasks_def every_minute_def)
  from run_due_tasks_isolated [OF run aware]
  have res: "pass_result 2 ?now [(''bad'', every_minute failing_func), (''good'', every_minute idle_func)] two_tasks k'"
    by (simp add: due)
  then have keys: "map fst (sc_tasks k') = [''bad'', ''good'']" by (simp add: pass_result_def two_tasks_def)
  from res obtain m where m: "\<forall>i. 1 \<le> m i \<and> m i \<le> Suc 2"
    "sc_calls k' = replicate (m ''bad'') ''bad'' @ replicate (m ''good'') ''good''"
    by (auto simp: pass_result_def two_tasks_def)
  obtain a b where "m ''bad'' = Suc a" "m ''good'' = Suc b"
    using m(1) by (metis One_nat_def Suc_le_D)
  moreover from this have "a \<le> 2" "b \<le> 2" using m(1) by (metis Suc_le_mono)+
  ultimately show ?thesis using run keys m(2) by metis
qed

end
