(* ===== verification/Divergences.thy ===== *)
theory Divergences
  imports DjangoProps Stores SchedulerProps
begin

text \<open>
  Where the code does something else than its documentation or its neighbouring code says. Each
  lemma states what the code does, on the smallest input that shows it.
\<close>

section \<open>Messages\<close>

text \<open>
  The documentation lists four message kinds; an envelope of any other kind validates.
\<close>

lemma unknown_kind_validates: "validate (sent_envelope\<lparr>message_kind := PStr ''gossip''\<rparr>) = Inr (sent_envelope\<lparr>message_kind := PStr ''gossip''\<rparr>)"
  by (simp add: validate_def sent_envelope_def)

text \<open>
  A message type that is a list validates too, and every lookup in the registry raises
  \<open>TypeError\<close>, also the one \<open>_should_retry\<close> makes in the exception handler of \<open>listen_once\<close>.
\<close>

lemma unhashable_type:
  "validate (sent_envelope\<lparr>message_type := PList [PNone]\<rparr>) = Inr (sent_envelope\<lparr>message_type := PList [PNone]\<rparr>)"
  "handlers_for R k (PList [PNone]) = Inl TypeError" "message_class_for R k (PList [PNone]) = Inl TypeError"
  by (simp_all add: validate_def sent_envelope_def handlers_for_def message_class_for_def lookup_key_def)

text \<open>A tagged value without its text raises \<open>KeyError\<close> instead of \<open>DeserializationError\<close>.\<close>

lemma tagged_without_value: "decode_value (PDict [(TYPE_KEY, PStr ''date'')]) = Inl (KeyError VALUE_KEY)"
  by (simp add: TYPE_KEY_def VALUE_KEY_def decode_text_def)

text \<open>A legacy tag that is not hashable raises \<open>TypeError\<close> where other unknown tags are plain mappings.\<close>

lemma unhashable_tag: "py_decode R build (PDict [(TYPE_KEY, PList [])]) = Inl TypeError"
  by (simp add: value_kind_def has_key_def py_get_def TYPE_KEY_def CODEC_KEY_def)

section \<open>Batches\<close>

text \<open>
  On a transport without \<open>size\<close> a batched message is neither buffered nor acknowledged, while the
  listener goes on as if it had been settled.
\<close>

lemma buffering_needs_size:
  "tp_size (l_transport L) = None \<Longrightarrow> buffer_batched_message L mtype e receipt = ret ()"
  by (simp add: buffer_batched_message_def)

section \<open>Scheduling\<close>

text \<open>
  The due time of a wall-clock task that is registered again does not depend on a last run before
  today, so slots missed meanwhile are skipped; an interval task is made up at once.
\<close>

lemma missed_slots_skipped:
  "date_of l < date_of current \<Longrightarrow>
     initial_due_time current None days hour minute (Some l) = initial_due_time current None days hour minute None"
  by (simp add: initial_due_time_def cron_due_time_def has_run_today_def)

text \<open>Days that are no weekdays are ignored: the task runs daily.\<close>

lemma pick_day_no_weekday:
  assumes "\<forall>w \<in> set ds. w < 0 \<or> 7 \<le> w" "\<And>k. k \<le> n \<Longrightarrow> in_range (dt_local cand + int k * us_day)"
  shows "pick_day ds n start cand = Inr start"
  using assms(2)
proof (induction n arbitrary: cand)
  case (Suc n)
  have "weekday cand \<notin> set ds" using assms(1) by (force simp: weekday_def)
  moreover have "plus cand us_day = Inr (cand\<lparr>dt_local := dt_local cand + us_day\<rparr>)"
    using Suc.prems [of 1] by (simp add: plus_def ranged_def)
  moreover have "pick_day ds n start (cand\<lparr>dt_local := dt_local cand + us_day\<rparr>) = Inr start"
    using Suc.prems [of "Suc k" for k] by (intro Suc.IH) (auto simp: algebra_simps)
  ultimately show ?case by simp
qed simp

lemma invalid_days_run_daily:
  assumes "\<forall>w \<in> set ds. w < 0 \<or> 7 \<le> w" "cron_due_time current last_run None hour minute = Inr d"
    and "\<And>k. k \<le> 8 \<Longrightarrow> in_range (dt_local d + int k * us_day)"
  shows "cron_due_time current last_run (Some ds) hour minute = Inr d"
  using assms(2) pick_day_no_weekday [OF assms(1,3)] by (auto simp: cron_due_time_def bind_res_eq_Inr)

section \<open>Outbox\<close>

text \<open>
  Completing a message does not take it from the queue, and \<open>claim\<close> returns no receipts to
  complete: a message completed before it is claimed is handed out again.
\<close>

lemma completed_message_claimed:
  assumes "outbox_wf b" "pending b = [msg]" "outbox_complete now receipt (b, w) = (r, (b1, w1))" "outbox_wf b1"
  shows "\<exists>s. outbox_claim now 1 (b1, w1) = (Inr [msg], s)"
proof -
  have "pending b1 = [msg]" using complete_keeps_pending [OF assms(3)] assms(2) by simp
  then show ?thesis using outbox_claim_fifo [OF assms(4), of now 1 w1] by auto
qed

end
