(* ===== verification/Spec2Isabelle.thy ===== *)
theory Spec2Isabelle
  imports JsonFuel Delivery RetryLimit Defaults Migrations Stores DjangoCodec DjangoProps RedisReaper SchedulerRuns Divergences
begin

text \<open>
  Verification development of pybus (src/src/pybus), a message bus: applications publish events,
  commands and requests as envelopes on the queues of a transport; workers take them, dispatch
  them to registered handlers and settle them; commands can be stored as durable jobs, which a
  runner claims and publishes; requests wait for their responses; a scheduler runs tasks.

  HOW THE CODE IS MODELLED. Python values are \<open>pyval\<close> (PyValue), dictionaries are association
  lists in insertion order, integers are \<open>int\<close>, texts are lists of characters and bytes lists of
  octets, a datetime is its local reading in microseconds with its offset (PyTime), a UTC time an
  \<open>instant\<close>. Exceptions are the values of \<open>exn\<close> (Exceptions), without their messages; pure code
  returns \<open>exn + 'a\<close>, stateful code is a program \<open>'s \<Rightarrow> ('a result) \<times> 's\<close> that gives its state also
  when it raises (Effects). What is not under src (Redis, Django, the clock, ids, sleeping, time
  zones, application handlers, hooks, observers, task functions) is an argument, mostly a field
  of an environment record, and acts on the type parameter for the outside world. Loops that may
  run forever are \<open>partial_function\<close>s whose value \<open>None\<close> is not returning. Only the JSON parser has
  fuel, twice the length of the text and one more, and JsonFuel shows that more changes nothing.

  THEORIES AND SOURCES.
    Prelude: results, dictionaries and list lemmas; Exceptions: exceptions.py; Effects: programs
      and triples for them.
    PyText, PyTime, PyFloat, PyValue, Json, JsonFuel: texts, datetimes and ISO 8601, ints and floats of
      delays, values with _codec.py, JSON text with serializer.py.
    Queues: queues.py; Envelope: envelope.py; Retries: retries.py; Recurrence: recurrence.py.
    Codecs: codecs.py; DjangoCodec: integrations/django_serialization.py, whose recursion through
      the overridden methods is written as the fixed point of the inherited bodies.
    Messages, Registry, Dispatcher: messages.py, handlers.py and registry.py, dispatcher.py.
    Durable, JobStore: durable.py with delivery.py, integrations/django_durable/store.py over the
      two tables of models.py, every operation one atomic step; Controller: the controller of
      durable.py. JobLife, JobInvariant, JobSteps, JobProps: the reachable databases and their
      invariants; DurableFlow: runner, controller and store together.
    Transport: contracts.py and transports/memory.py; RedisTransport, RedisReaper: integrations/
      redis.py over Redis as a record of commands; RedisClaims: the claims it keeps. Sha1: the
      digest in receipts.
    Listener, ListenerSafety: listener.py and what happens to each claim; RetryLimit: the retry count
      across deliveries; Worker, WorkerClaims: worker.py and the claims over a whole run.
    RequestResponse: request_response.py; Bus, BusCalls: bus.py (construction and publication;
      requests, listening, workers, the default bus). BusProps, BusJobs, BusSamples: its
      properties and a bus on which they are applied. Travel, Delivery: payload values on the wire,
      and a message on its way from the sender's bus to the handler of the receiving one.
    Scheduler: scheduling.py; SchedulerProps, SchedulerRuns: due times, persisted state, passes.
    Stores: inbox.py, outbox.py and batching.py. Composition: composition.py; DjangoBus,
      DjangoProps: integrations/django.py. Migrations: the models of models.py as Django declares
      them, and the migrations that build their tables. Defaults: functions that act on the
      default bus and the default scheduler.
    Divergences: where the code differs from its documentation or looks unintended.

  WHAT THE LEMMAS SHOW. Delivery: of every message a listener claims, the claim is settled after
  the message was handled, or published again, dead-lettered or left for recovery (on a transport
  that can count messages, with pauses that return); a message that keeps failing is sent again
  up to the retry limit and then dead-lettered; a claim in
  Redis is lost only by an acknowledgement; the reaper loses nothing and gives up as often as its
  policy says. Durable jobs: states and generations form a state machine over reachable
  databases; a job has one owner, finished jobs stay finished, unfinished ones become claimable
  again, a series has at most one live occurrence, stale claims and deliveries have no effect;
  the runner publishes the claim it took, and the delivery is admitted as long as the job waits
  for it. The bus: what is published is well-formed, a
  scheduled command is one job, with a recurrence the first of one series, a request gets its own response and ends; a declared message
  sent to a queue reaches its handler as the same instance. The scheduler: due
  times are the first allowed ones, state survives restarts, failures are isolated. Data: wire,
  payload and message forms round trip, the Django codec extends the Python codec, recurrences
  stay in their bounds. Round trips hold for the values each theorem names (no tuples or floats
  in an envelope, no nested dataclasses in a delivered message). Django: messages of a transaction leave with its commit, and
  the migrations build the tables and constraints that the job store relies on.

  INTERFACES. Contracts between components are locales, interpreted on the model: transports and
  job stores, codecs, migrations, state stores of the scheduler (in memory and over Redis), and
  the Redis server, whose interpretation is a store in memory that answers each command as the
  Redis documentation says. The bounds in the statements are those of the code: retry limits, the
  iteration limit of a worker, timeouts, the range of datetimes (an overflow is an exception).

  NOT MODELLED. Logging texts and exception messages. Threads: each operation is one step, under
  the lock the code takes, except that waiting for a response lets other threads act and that a
  stop event can be set by hooks and handlers. Database locking and isolation: the operations of
  the job store are atomic, as the code's transactions make them. Column widths and the automatic
  updated_at (Migrations lists both). Floats are texts, except for delays: those of a retry policy are
  doubles, rounded and overflowing as Python's (with the C library's pow taken as correctly
  rounded), other delays exact rationals. Decimal's exponent limits. Subclasses of str, int and dict. What Django does with a
  migration is a parameter. The re-exporting modules and the empty command line modules have no
  behaviour to model.
\<close>

end
